(* ===== verification/Prelude.thy ===== *)
theory Prelude
  imports Main "HOL-Library.Word"
begin

text \<open>
  Vocabulary shared by the component theories: the machine integers of the
  kernel, the outcome of a fallible kernel function (a value, or the way the
  machine stops), the sequencing combinator of such outcomes, the lemma
  collections of the development, and generic facts on lists, bits and words.
\<close>

unbundle bit_operations_syntax

section \<open>Machine integers\<close>

type_synonym u8 = "8 word"
type_synonym u16 = "16 word"
type_synonym u32 = "32 word"
type_synonym u64 = "64 word"

section \<open>Lemma collections\<close>

text \<open>
  \<open>run_simps\<close> evaluates sequenced outcomes; \<open>frame_simps\<close> says which fields of
  the state an operation leaves alone; \<open>inv_intros\<close> says which operations keep
  an invariant.
\<close>

named_theorems run_simps
named_theorems frame_simps
named_theorems inv_intros

section \<open>Outcomes\<close>

text \<open>
  A kernel function either returns or stops the machine: a panic with its
  message, a spin lock taken twice on the only running CPU, an access outside
  an object, a NULL or dangling dereference, a free of something that is not a
  live allocation, a loop that never ends, or a division by zero.
\<close>

datatype crash = Panic string | Deadlock | OutOfBounds | BadPointer | BadFree | Hang | DivideError

datatype 'a run = Stop crash | Ok 'a

primrec bindr :: "'a run \<Rightarrow> ('a \<Rightarrow> 'b run) \<Rightarrow> 'b run" where
  "bindr (Stop c) f = Stop c"
| "bindr (Ok x) f = f x"

lemma bindr_cong [fundef_cong]:
  assumes "m = m'" and "\<And>x. m' = Ok x \<Longrightarrow> f x = g x"
  shows "bindr m f = bindr m' g"
  using assms by (cases m') auto

lemma bindr_eq_Ok [run_simps]:
  "bindr m f = Ok y \<longleftrightarrow> (\<exists>x. m = Ok x \<and> f x = Ok y)"
  by (cases m) auto

lemma bindr_eq_Stop:
  "bindr m f = Stop c \<longleftrightarrow> m = Stop c \<or> (\<exists>x. m = Ok x \<and> f x = Stop c)"
  by (cases m) auto

lemma bindr_assoc: "bindr (bindr m f) g = bindr m (\<lambda>x. bindr (f x) g)"
  by (cases m) auto

lemma bindr_Ok_right [simp]: "bindr m Ok = m"
  by (cases m) auto

text \<open>A loop that threads the state through its body.\<close>

primrec foreach :: "('i \<Rightarrow> 's \<Rightarrow> 's run) \<Rightarrow> 'i list \<Rightarrow> 's \<Rightarrow> 's run" where
  "foreach f [] s = Ok s"
| "foreach f (i # is) s = bindr (f i s) (foreach f is)"

lemma foreach_append: "foreach f (xs @ ys) s = bindr (foreach f xs s) (foreach f ys)"
  by (induction xs arbitrary: s) (auto simp: bindr_assoc intro!: bindr_cong)

lemma foreach_inv:
  assumes "\<And>i s t. i \<in> set is \<Longrightarrow> P s \<Longrightarrow> f i s = Ok t \<Longrightarrow> P t" "P s" "foreach f is s = Ok t"
  shows "P t"
  using assms by (induction "is" arbitrary: s) (auto simp: bindr_eq_Ok)

primrec returns :: "'a run \<Rightarrow> bool" where
  "returns (Stop c) = False"
| "returns (Ok x) = True"

lemma returns_iff: "returns m \<longleftrightarrow> (\<exists>x. m = Ok x)"
  by (cases m) auto

section \<open>Lists\<close>

lemma length_takeWhile_all: "length (takeWhile P xs) = length xs \<longleftrightarrow> (\<forall>x \<in> set xs. P x)"
  by (induction xs) auto

section \<open>Bits and words\<close>

lemma word_shift_and_1 [simp]:
  fixes w :: "'a::len word"
  shows "(drop_bit n w AND 1 = 1) \<longleftrightarrow> bit w n"
  by (auto simp: and_one_eq bit_iff_odd_drop_bit odd_iff_mod_2_eq_one)

lemma bit_or_exp:
  fixes w :: "'a::len word"
  assumes "k < LENGTH('a)"
  shows "bit (w OR 2 ^ k) j \<longleftrightarrow> bit w j \<or> j = k"
  using assms by (auto simp: bit_or_iff bit_exp_iff)

lemma bit_andnot_exp:
  fixes w :: "'a::len word"
  assumes "k < LENGTH('a)"
  shows "bit (w AND NOT (2 ^ k)) j \<longleftrightarrow> bit w j \<and> j \<noteq> k"
  using assms by (auto simp: bit_and_iff bit_not_iff bit_exp_iff dest: bit_imp_le_length)

lemma unat_less_u64: "unat (w :: u64) < 2 ^ 64"
  by (rule less_le_trans [OF unsigned_less]) simp

lemma unat_of_nat_u64: "n < 2 ^ 64 \<Longrightarrow> unat (of_nat n :: u64) = n"
  by (simp add: unat_of_nat take_bit_nat_eq_self)

lemma of_nat_u64_inj:
  assumes "(of_nat m :: u64) = of_nat n" "m < 2 ^ 64" "n < 2 ^ 64"
  shows "m = n"
  using assms by (metis unat_of_nat_u64)

end
