(* ===== verification/Locks.thy ===== *)
theory Locks
  imports Prelude
begin

text \<open>
  The interrupt-disabling spin locks of \<open>kernel/src/arch/locks.h\<close>. The only CPU
  state they touch is the interrupt flag of \<open>RFLAGS\<close>. The kernel never starts a
  second processor, and a waiting CPU has interrupts off, so nothing else can
  release a lock while \<open>spin_lock_irqsave\<close> waits for it: a second acquisition
  spins for ever. \<open>spin_loop\<close> runs a bounded number of exchanges and
  \<open>spin_loop_stuck\<close> shows that no bound is ever enough once the lock is held.
\<close>

record cpu =
  int_flag :: bool

definition rflags :: "'a cpu_scheme \<Rightarrow> u64" where
  "rflags s = (if int_flag s then 0x202 else 0x2)"

primrec spin_loop :: "nat \<Rightarrow> u32 \<Rightarrow> u32 option" where
  "spin_loop 0 l = None"
| "spin_loop (Suc n) l = (let old = l; l = 1 in if old \<noteq> 0 then spin_loop n l else Some l)"

definition spin_lock_irqsave :: "u32 \<Rightarrow> 'a cpu_scheme \<Rightarrow> (u64 \<times> u32 \<times> 'a cpu_scheme) run" where
  "spin_lock_irqsave l s =
     (let f = rflags s; s = s\<lparr>int_flag := False\<rparr>
      in case spin_loop 2 l of None \<Rightarrow> Stop Deadlock | Some l' \<Rightarrow> Ok (f, l', s))"

definition try_lock_irqsave :: "u32 \<Rightarrow> 'a cpu_scheme \<Rightarrow> u64 \<times> u32 \<times> 'a cpu_scheme" where
  "try_lock_irqsave l s =
     (let f = rflags s
      in if l \<noteq> 0 then (0, 1, s\<lparr>int_flag := bit f 9\<rparr>)
         else (f, 1, s\<lparr>int_flag := False\<rparr>))"

definition spin_unlock_irqrestore :: "u64 \<Rightarrow> 'a cpu_scheme \<Rightarrow> u32 \<times> 'a cpu_scheme" where
  "spin_unlock_irqrestore f s =
     (0, if f AND push_bit 9 1 \<noteq> 0 then s\<lparr>int_flag := True\<rparr> else s)"

lemma spin_loop_stuck: "l \<noteq> 0 \<Longrightarrow> spin_loop n l = None"
  by (induction n arbitrary: l) (auto simp: Let_def)

lemma spin_loop_free: "spin_loop (Suc n) 0 = Some 1"
  by simp

lemma rflags_bit9 [simp]: "rflags s AND 512 \<noteq> 0 \<longleftrightarrow> int_flag s" "bit (rflags s) 9 \<longleftrightarrow> int_flag s"
  by (auto simp: rflags_def)

lemma spin_lock_free [run_simps]:
  "spin_lock_irqsave 0 s = Ok (rflags s, 1, s\<lparr>int_flag := False\<rparr>)"
  by (simp add: spin_lock_irqsave_def eval_nat_numeral spin_loop_free del: spin_loop.simps)

lemma spin_lock_held [run_simps]: "l \<noteq> 0 \<Longrightarrow> spin_lock_irqsave l s = Stop Deadlock"
  by (simp add: spin_lock_irqsave_def spin_loop_stuck)

lemma spin_lock_eq_Ok:
  "spin_lock_irqsave l s = Ok r \<longleftrightarrow> l = 0 \<and> r = (rflags s, 1, s\<lparr>int_flag := False\<rparr>)"
  by (cases "l = 0") (auto simp: run_simps)

text \<open>A critical section gives the interrupt flag back exactly as it found it.\<close>

lemma unlock_restores [run_simps]:
  "spin_unlock_irqrestore (rflags s) t = (0, t\<lparr>int_flag := int_flag s \<or> int_flag t\<rparr>)"
  by (auto simp: spin_unlock_irqrestore_def)

lemma try_lock_held: "l \<noteq> 0 \<Longrightarrow> try_lock_irqsave l s = (0, 1, s)"
  by (simp add: try_lock_irqsave_def Let_def)

lemma try_lock_nonzero_iff: "fst (try_lock_irqsave l s) \<noteq> 0 \<longleftrightarrow> l = 0"
  by (simp add: try_lock_irqsave_def Let_def rflags_def)

end
