(* ===== verification/Memops.thy ===== *)
theory Memops
  imports Prelude
begin

text \<open>
  Byte-addressed memory and the four functions of \<open>kernel/src/memops.c\<close>, with
  the user-copy helpers of \<open>defines/compiler_defs.h\<close>. A \<open>for\<close> loop over
  \<open>i < n\<close> is a \<open>fold\<close> over the indices in the order the loop visits them, each
  step reading the memory the earlier steps have written, so overlapping
  regions behave as in C. Closed forms of the loops follow; later theories
  use them. Lengths are natural numbers below the size of the address space.
\<close>

type_synonym mem = "u64 \<Rightarrow> u8"

section \<open>memops.c\<close>

definition copy_byte :: "u64 \<Rightarrow> u64 \<Rightarrow> nat \<Rightarrow> mem \<Rightarrow> mem" where
  "copy_byte dest src i m = m(dest + of_nat i := m (src + of_nat i))"

definition memcpy :: "mem \<Rightarrow> u64 \<Rightarrow> u64 \<Rightarrow> nat \<Rightarrow> mem" where
  "memcpy m dest src n = fold (copy_byte dest src) [0..<n] m"

definition memset :: "mem \<Rightarrow> u64 \<Rightarrow> u32 \<Rightarrow> nat \<Rightarrow> mem" where
  "memset m s c n = fold (\<lambda>i m. m(s + of_nat i := ucast c)) [0..<n] m"

definition memmove :: "mem \<Rightarrow> u64 \<Rightarrow> u64 \<Rightarrow> nat \<Rightarrow> mem" where
  "memmove m dest src n =
     (if src > dest then fold (copy_byte dest src) [0..<n] m
      else if src < dest then fold (copy_byte dest src) (rev [0..<n]) m
      else m)"

fun memcmp_from :: "mem \<Rightarrow> u64 \<Rightarrow> u64 \<Rightarrow> nat \<Rightarrow> int" where
  "memcmp_from m p1 p2 0 = 0"
| "memcmp_from m p1 p2 (Suc n) =
     (if m p1 \<noteq> m p2 then (if m p1 < m p2 then -1 else 1)
      else memcmp_from m (p1 + 1) (p2 + 1) n)"

definition memcmp :: "mem \<Rightarrow> u64 \<Rightarrow> u64 \<Rightarrow> nat \<Rightarrow> int" where
  "memcmp m s1 s2 n = memcmp_from m s1 s2 n"

section \<open>User copies\<close>

fun copy_from_user :: "mem \<Rightarrow> u64 \<Rightarrow> u64 \<Rightarrow> nat \<Rightarrow> mem" where
  "copy_from_user m dst src 0 = m"
| "copy_from_user m dst src (Suc n) = copy_from_user (m(dst := m src)) (dst + 1) (src + 1) n"

definition copy_to_user :: "mem \<Rightarrow> u64 \<Rightarrow> u64 \<Rightarrow> nat \<Rightarrow> mem" where
  "copy_to_user m dst src n = copy_from_user m dst src n"

text \<open>
  \<open>strncpy_from_user\<close> returns the length of the string it copied, or \<open>-1\<close>
  when no terminator occurs in the first \<open>n\<close> bytes; \<open>i\<close> is the loop counter.
\<close>

fun strncpy_from_user_loop :: "mem \<Rightarrow> u64 \<Rightarrow> u64 \<Rightarrow> nat \<Rightarrow> nat \<Rightarrow> int \<times> mem" where
  "strncpy_from_user_loop m dst src i 0 = (-1, m)"
| "strncpy_from_user_loop m dst src i (Suc k) =
     (let c = m (src + of_nat i); m' = m(dst + of_nat i := c)
      in if c = 0 then (int i, m') else strncpy_from_user_loop m' dst src (Suc i) k)"

definition strncpy_from_user :: "mem \<Rightarrow> u64 \<Rightarrow> u64 \<Rightarrow> nat \<Rightarrow> int \<times> mem" where
  "strncpy_from_user m dst src n = strncpy_from_user_loop m dst src 0 n"

section \<open>Regions\<close>

text \<open>\<open>region a n\<close> holds the addresses \<open>a, \<dots>, a + n - 1\<close>, modulo the address space.\<close>

definition region :: "u64 \<Rightarrow> nat \<Rightarrow> u64 set" where
  "region a n = {x. unat (x - a) < n}"

definition no_wrap :: "u64 \<Rightarrow> nat \<Rightarrow> bool" where
  "no_wrap a n \<longleftrightarrow> unat a + n \<le> 2 ^ 64"

definition mem_fill :: "mem \<Rightarrow> u64 \<Rightarrow> nat \<Rightarrow> u8 \<Rightarrow> mem" where
  "mem_fill m a n c = (\<lambda>x. if unat (x - a) < n then c else m x)"

definition mem_copy :: "mem \<Rightarrow> u64 \<Rightarrow> u64 \<Rightarrow> nat \<Rightarrow> mem" where
  "mem_copy m d s n = (\<lambda>x. if unat (x - d) < n then m (s + (x - d)) else m x)"

lemma mem_region_iff [simp]: "x \<in> region a n \<longleftrightarrow> unat (x - a) < n"
  by (simp add: region_def)

lemma eq_offset_iff: "(x = a + of_nat n) \<longleftrightarrow> unat (x - a) = n" if "n < 2 ^ 64" for x a :: u64
proof
  assume "x = a + of_nat n"
  then show "unat (x - a) = n" using that by (simp add: unat_of_nat_u64)
next
  assume "unat (x - a) = n"
  then have "x - a = of_nat n" by auto
  then show "x = a + of_nat n" by (simp add: algebra_simps)
qed

lemma region_offset: "x = a + of_nat (unat (x - a))" for x a :: u64
  by simp

lemma of_nat_diff_lt: "unat (of_nat i :: u64) < n" if "i < n" for i n
  using that take_bit_nat_less_eq_self [of 64 i] by (simp add: unat_of_nat)

section \<open>Closed forms of the loops\<close>

lemma memset_eq_fill: "n \<le> 2 ^ 64 \<Longrightarrow> memset m s c n = mem_fill m s n (ucast c)"
proof (induction n)
  case (Suc n)
  then have "memset m s c (Suc n) = (mem_fill m s n (ucast c))(s + of_nat n := ucast c)"
    by (simp add: memset_def)
  also have "\<dots> = mem_fill m s (Suc n) (ucast c)"
    using Suc.prems by (auto simp: fun_eq_iff mem_fill_def eq_offset_iff)
  finally show ?case .
qed (simp add: memset_def mem_fill_def)

lemma copy_up_invariant:
  assumes "k \<le> n" "n \<le> 2 ^ 64" and unread: "\<And>i j. i < j \<Longrightarrow> j < n \<Longrightarrow> d + of_nat i \<noteq> s + of_nat j"
  shows "fold (copy_byte d s) [0..<k] m = mem_copy m d s k"
  using assms(1)
proof (induction k)
  case (Suc k)
  have read: "mem_copy m d s k (s + of_nat k) = m (s + of_nat k)"
  proof (cases "unat (s + of_nat k - d) < k")
    case True
    then have "d + of_nat (unat (s + of_nat k - d)) \<noteq> s + of_nat k"
      using unread [of "unat (s + of_nat k - d)" k] Suc.prems by simp
    then show ?thesis by simp
  qed (simp add: mem_copy_def)
  have "fold (copy_byte d s) [0..<Suc k] m = (mem_copy m d s k)(d + of_nat k := m (s + of_nat k))"
    using Suc read by (simp add: copy_byte_def [of d s k])
  also have "\<dots> = mem_copy m d s (Suc k)"
    using Suc.prems assms(2) by (auto simp: fun_eq_iff mem_copy_def eq_offset_iff less_Suc_eq)
  finally show ?case .
qed (simp add: mem_copy_def)


lemma copy_down_invariant:
  assumes "k \<le> n" "n \<le> 2 ^ 64" and unread: "\<And>i j. i < j \<Longrightarrow> j < n \<Longrightarrow> d + of_nat j \<noteq> s + of_nat i"
  shows "fold (copy_byte d s) (rev [k..<n]) m =
           (\<lambda>x. if k \<le> unat (x - d) \<and> unat (x - d) < n then m (s + (x - d)) else m x)"
    (is "_ = ?copied k")
  using assms(1)
proof (induction k rule: inc_induct)
  case (step k)
  have read: "?copied (Suc k) (s + of_nat k) = m (s + of_nat k)"
  proof (cases "Suc k \<le> unat (s + of_nat k - d) \<and> unat (s + of_nat k - d) < n")
    case True
    then have "d + of_nat (unat (s + of_nat k - d)) \<noteq> s + of_nat k"
      using unread [of k "unat (s + of_nat k - d)"] by simp
    then show ?thesis by simp
  qed (rule if_not_P)
  have "fold (copy_byte d s) (rev [k..<n]) m = (?copied (Suc k))(d + of_nat k := m (s + of_nat k))"
    using step read by (simp add: upt_conv_Cons copy_byte_def [of d s k])
  also have "\<dots> = ?copied k"
    using step.hyps assms(2) by (auto simp: fun_eq_iff eq_offset_iff)
  finally show ?case .
qed (auto simp: fun_eq_iff)

lemma offset_neq:
  fixes d s :: u64
  assumes "unat d + i < 2 ^ 64" "unat s + j < 2 ^ 64" "unat d + i \<noteq> unat s + j"
  shows "d + of_nat i \<noteq> s + of_nat j"
proof
  assume "d + of_nat i = s + of_nat j"
  then have "(of_nat (unat d + i) :: u64) = of_nat (unat s + j)" by simp
  then show False using of_nat_u64_inj assms by blast
qed

lemma no_wrap_le: "no_wrap a n \<Longrightarrow> n \<le> 2 ^ 64"
  by (simp add: no_wrap_def)

lemma memcpy_disjoint:
  assumes "n \<le> 2 ^ 64" "region d n \<inter> region s n = {}"
  shows "memcpy m d s n = mem_copy m d s n"
proof -
  have "d + of_nat i \<noteq> s + of_nat j" if "i < j" "j < n" for i j
  proof
    assume eq: "d + of_nat i = s + of_nat j"
    have "d + of_nat i \<in> region d n" using that by (simp add: of_nat_diff_lt)
    moreover have "d + of_nat i \<in> region s n" unfolding eq using that by (simp add: of_nat_diff_lt)
    ultimately show False using assms(2) by blast
  qed
  then show ?thesis
    using copy_up_invariant [of n n d s m] assms(1) by (simp add: memcpy_def)
qed

lemma memmove_correct:
  assumes d: "no_wrap d n" and s: "no_wrap s n"
  shows "memmove m d s n = mem_copy m d s n"
proof -
  have n: "n \<le> 2 ^ 64" using d by (rule no_wrap_le)
  consider "s > d" | "s < d" | "s = d" by (meson linorder_less_linear)
  then show ?thesis
  proof cases
    case 1
    have "d + of_nat i \<noteq> s + of_nat j" if "i < j" "j < n" for i j
      using 1 that d s by (intro offset_neq) (auto simp: no_wrap_def word_less_nat_alt)
    then show ?thesis
      using 1 n copy_up_invariant [of n n d s m] by (simp add: memmove_def)
  next
    case 2
    have "d + of_nat j \<noteq> s + of_nat i" if "i < j" "j < n" for i j
      using 2 that d s by (intro offset_neq) (auto simp: no_wrap_def word_less_nat_alt)
    then show ?thesis
      using 2 n copy_down_invariant [of 0 n d s m] by (auto simp: memmove_def mem_copy_def)
  next
    case 3
    then show ?thesis by (simp add: memmove_def mem_copy_def fun_eq_iff)
  qed
qed

lemma memcmp_from_first_difference:
  "memcmp_from m p q n =
     (if \<forall>i<n. m (p + of_nat i) = m (q + of_nat i) then 0
      else let k = (LEAST i. m (p + of_nat i) \<noteq> m (q + of_nat i))
           in if m (p + of_nat k) < m (q + of_nat k) then -1 else 1)"
proof (induction n arbitrary: p q)
  case (Suc n)
  let ?D = "\<lambda>i. m (p + of_nat i) \<noteq> m (q + of_nat i)"
  show ?case
  proof (cases "m p = m q")
    case False
    then have "(LEAST i. ?D i) = 0" by (intro Least_equality) auto
    then show ?thesis using False by (auto simp: Let_def)
  next
    case True
    have all: "(\<forall>i<Suc n. \<not> ?D i) \<longleftrightarrow> (\<forall>i<n. \<not> ?D (Suc i))"
      using True by (auto simp: less_Suc_eq_0_disj)
    have "(LEAST i. ?D i) = Suc (LEAST i. ?D (Suc i))" if "?D (Suc i)" for i
      using True that by (intro Least_Suc [of ?D "Suc i"]) auto
    then show ?thesis
      using True Suc.IH [of "p + 1" "q + 1"] all by (auto simp: Let_def add.assoc)
  qed
qed simp

section \<open>Quadwords\<close>

text \<open>Little-endian 64-bit loads and stores, as the kernel's page-table code performs them.\<close>

definition read64 :: "mem \<Rightarrow> u64 \<Rightarrow> u64" where
  "read64 m a = fold (\<lambda>i w. w OR push_bit (8 * i) (ucast (m (a + of_nat i)))) [0..<8] 0"

definition write64 :: "mem \<Rightarrow> u64 \<Rightarrow> u64 \<Rightarrow> mem" where
  "write64 m a v = (\<lambda>x. if unat (x - a) < 8 then ucast (drop_bit (8 * unat (x - a)) v) else m x)"

lemma bit_byte_lane:
  fixes b :: u8
  assumes "n < 64"
  shows "bit (push_bit (8 * i) (ucast b :: u64)) n \<longleftrightarrow> n div 8 = i \<and> bit b (n mod 8)"
proof (cases "n div 8 = i")
  case True
  then have "8 * i \<le> n" "n - 8 * i = n mod 8" by (auto simp: minus_mult_div_eq_mod)
  moreover have "n mod 8 < 64" by (rule less_trans [of _ 8]) simp_all
  ultimately show ?thesis using assms True by (simp add: bit_push_bit_iff bit_ucast_iff)
next
  case False
  then have "8 * i > n \<or> n - 8 * i \<ge> 8" by auto
  then show ?thesis using False
    by (auto simp: bit_push_bit_iff bit_ucast_iff dest: bit_imp_le_length)
qed

lemma bit_byte_lanes:
  assumes "n < 64"
  shows "bit (fold (\<lambda>i w. w OR push_bit (8 * i) (ucast (f i :: u8))) [0..<k] (0 :: u64)) n \<longleftrightarrow>
           n div 8 < k \<and> bit (f (n div 8)) (n mod 8)"
  by (induction k) (auto simp: bit_or_iff bit_byte_lane [OF assms] less_Suc_eq)

lemma bit_read64:
  "bit (read64 m a) n \<longleftrightarrow> n < 64 \<and> bit (m (a + of_nat (n div 8))) (n mod 8)"
proof (cases "n < 64")
  case True
  then have "n div 8 < 8" by auto
  then show ?thesis using True by (simp add: read64_def bit_byte_lanes)
next
  case False
  then show ?thesis using bit_imp_le_length [of "read64 m a" n] by auto
qed

lemma bit_write64:
  "bit (write64 m a v x) k \<longleftrightarrow>
     (if unat (x - a) < 8 then k < 8 \<and> bit v (8 * unat (x - a) + k) else bit (m x) k)"
  by (auto simp: write64_def bit_ucast_iff bit_drop_bit_eq)

lemma read64_write64_same [simp]: "read64 (write64 m a v) a = v"
proof (rule bit_word_eqI)
  fix n assume "n < LENGTH(64)"
  then have "n < 64" by simp
  then have "n div 8 < 8" by auto
  then have "unat (of_nat (n div 8) :: u64) = n div 8" by (simp add: unat_of_nat_u64)
  then show "bit (read64 (write64 m a v) a) n = bit v n"
    using \<open>n < 64\<close> \<open>n div 8 < 8\<close> by (simp add: bit_read64 bit_write64 mult.commute)
qed

definition aligned8 :: "u64 \<Rightarrow> bool" where
  "aligned8 a \<longleftrightarrow> unat a mod 8 = 0"

lemma aligned8_dvd: "aligned8 a \<Longrightarrow> 8 dvd uint a"
proof -
  assume "aligned8 a"
  then have "8 dvd unat a" unfolding aligned8_def by (simp only: mod_eq_0_iff_dvd)
  then have "int 8 dvd int (unat a)" by (simp only: int_dvd_int_iff)
  then show "8 dvd uint a" by simp
qed

lemma aligned8_apart:
  assumes "aligned8 a" "aligned8 b" "a \<noteq> b" "i < 8"
  shows "\<not> unat (b + of_nat i - a) < 8"
proof -
  define d where "d = unat (b - a)"
  have "int d = (uint b - uint a) mod 2 ^ 64"
    by (simp add: d_def uint_word_ariths)
  moreover have "8 dvd uint a" "8 dvd uint b"
    using aligned8_dvd assms(1,2) by blast+
  ultimately have "8 dvd int d" by (simp add: dvd_mod)
  then obtain k where k: "d = 8 * k" by (metis dvdE int_dvd_int_iff of_nat_numeral)
  have "d \<noteq> 0" using assms(3) by (auto simp: d_def unat_eq_0)
  moreover have "d < 2 ^ 64" unfolding d_def by (rule unat_less_u64)
  ultimately have "0 < k" "Suc k \<le> 2 ^ 61" using k by auto
  then have "8 \<le> d" "d + 8 \<le> 2 ^ 64" using k by auto
  then have "unat (of_nat (d + i) :: u64) = d + i" using assms(4) by (intro unat_of_nat_u64) auto
  moreover have "b + of_nat i - a = of_nat (d + i)" by (simp add: d_def)
  ultimately have "unat (b + of_nat i - a) = d + i" by (simp only:)
  then show ?thesis using \<open>8 \<le> d\<close> by linarith
qed

lemma read64_write64_other:
  assumes "aligned8 a" "aligned8 b" "a \<noteq> b"
  shows "read64 (write64 m a v) b = read64 m b"
proof (rule bit_word_eqI)
  fix n assume "n < LENGTH(64)"
  then have "n div 8 < 8" by auto
  then show "bit (read64 (write64 m a v) b) n = bit (read64 m b) n"
    using aligned8_apart [OF assms, of "n div 8"] by (simp add: bit_read64 bit_write64)
qed

lemma read64_cong:
  assumes "\<And>i. i < 8 \<Longrightarrow> m (a + of_nat i) = m' (a + of_nat i)"
  shows "read64 m a = read64 m' a"
proof (rule bit_word_eqI)
  fix n assume "n < LENGTH(64)"
  then have "n div 8 < 8" by auto
  then show "bit (read64 m a) n = bit (read64 m' a) n" by (simp add: bit_read64 assms)
qed

end
