(* ===== verification/Pmm.thy ===== *)
theory Pmm
  imports Locks Memops
begin

text \<open>
  The physical page allocator \<open>kernel/src/memory/pmm.c\<close>: a bitmap with one bit
  per page (a set bit is a used page), a rotating search position and a
  counter. The bitmap is the byte array the code places at the start of a usable
  region; an index past its end is an access the C code makes outside the
  array and stops the model. Page numbers are natural numbers, addresses and
  the free counter are 64-bit words.
\<close>

section \<open>State\<close>

record pmm = cpu +
  phys_mem :: mem
  pmm_lock :: u32
  pmm_bitmap :: "u8 list"
  bitmap_bits :: nat
  bitmap_next :: nat
  total_pages :: nat
  free_pages :: u64

record memmap_entry =
  me_base :: u64
  me_length :: u64
  me_type :: u64

definition LIMINE_MEMMAP_USABLE :: u64 where
  "LIMINE_MEMMAP_USABLE = 0"

definition PMM_PAGE_SIZE :: u64 where
  "PMM_PAGE_SIZE = 0x1000"

definition SIZE_MAX :: nat where
  "SIZE_MAX = 2 ^ 64 - 1"

section \<open>The bitmap\<close>

definition bitmap_set :: "u8 list \<Rightarrow> nat \<Rightarrow> u8 list run" where
  "bitmap_set bm b =
     (if b div 8 < length bm then Ok (bm[b div 8 := bm ! (b div 8) OR push_bit (b mod 8) 1])
      else Stop OutOfBounds)"

definition bitmap_clear :: "u8 list \<Rightarrow> nat \<Rightarrow> u8 list run" where
  "bitmap_clear bm b =
     (if b div 8 < length bm then Ok (bm[b div 8 := bm ! (b div 8) AND NOT (push_bit (b mod 8) 1)])
      else Stop OutOfBounds)"

definition bitmap_test :: "u8 list \<Rightarrow> nat \<Rightarrow> bool run" where
  "bitmap_test bm b =
     (if b div 8 < length bm then Ok (drop_bit (b mod 8) (bm ! (b div 8)) AND 1 = 1)
      else Stop OutOfBounds)"

text \<open>The inner loop of \<open>bitmap_find_clear\<close>, over the indices it visits.\<close>

primrec scan_clear :: "u8 list \<Rightarrow> nat list \<Rightarrow> nat option run" where
  "scan_clear bm [] = Ok None"
| "scan_clear bm (i # is) =
     bindr (bitmap_test bm i) (\<lambda>t. if \<not> t then Ok (Some i) else scan_clear bm is)"

definition bitmap_find_clear :: "'a pmm_scheme \<Rightarrow> (nat \<times> 'a pmm_scheme) run" where
  "bitmap_find_clear s =
     (let found = (\<lambda>i. Ok (i, s\<lparr>bitmap_next := (if i + 1 \<ge> bitmap_bits s then 0 else i + 1)\<rparr>))
      in bindr (scan_clear (pmm_bitmap s) [bitmap_next s ..< bitmap_bits s]) (\<lambda>r.
         case r of Some i \<Rightarrow> found i
         | None \<Rightarrow> bindr (scan_clear (pmm_bitmap s) [0 ..< bitmap_next s]) (\<lambda>r.
             case r of Some i \<Rightarrow> found i | None \<Rightarrow> Ok (SIZE_MAX, s))))"

text \<open>One loop of \<open>bitmap_find_clear_range\<close>: the index that completes the run, and its start.\<close>

primrec scan_run :: "u8 list \<Rightarrow> nat \<Rightarrow> nat list \<Rightarrow> nat \<Rightarrow> nat \<Rightarrow> (nat \<times> nat) option run" where
  "scan_run bm count [] rn start = Ok None"
| "scan_run bm count (i # is) rn start =
     bindr (bitmap_test bm i) (\<lambda>t.
       if \<not> t then
         (let start = (if rn = 0 then i else start); rn = rn + 1
          in if rn = count then Ok (Some (i, start)) else scan_run bm count is rn start)
       else scan_run bm count is 0 start)"

definition bitmap_find_clear_range :: "nat \<Rightarrow> 'a pmm_scheme \<Rightarrow> (nat \<times> 'a pmm_scheme) run" where
  "bitmap_find_clear_range count s =
     bindr (scan_run (pmm_bitmap s) count [bitmap_next s ..< total_pages s] 0 0) (\<lambda>r.
       case r of Some (i, start) \<Rightarrow> Ok (start, s\<lparr>bitmap_next := i + 1\<rparr>)
       | None \<Rightarrow> bindr (scan_run (pmm_bitmap s) count [0 ..< bitmap_next s] 0 0) (\<lambda>r.
           case r of Some (i, start) \<Rightarrow> Ok (start, s\<lparr>bitmap_next := i + 1\<rparr>)
           | None \<Rightarrow> Ok (SIZE_MAX, s)))"

section \<open>Initialisation\<close>

definition usable :: "memmap_entry \<Rightarrow> bool" where
  "usable e \<longleftrightarrow> me_type e = LIMINE_MEMMAP_USABLE"

definition entry_first :: "memmap_entry \<Rightarrow> nat" where
  "entry_first e = unat (me_base e div PMM_PAGE_SIZE)"

definition entry_pages :: "memmap_entry \<Rightarrow> nat" where
  "entry_pages e = unat (me_length e div PMM_PAGE_SIZE)"

text \<open>The loop that marks pages free, one step per page, and the loop that reserves the bitmap's own pages.\<close>

primrec clear_pages :: "nat list \<Rightarrow> 'a pmm_scheme \<Rightarrow> 'a pmm_scheme run" where
  "clear_pages [] s = Ok s"
| "clear_pages (p # ps) s =
     bindr (bitmap_clear (pmm_bitmap s) p) (\<lambda>bm.
       clear_pages ps (s\<lparr>pmm_bitmap := bm, free_pages := free_pages s + 1\<rparr>))"

primrec clear_entries :: "memmap_entry list \<Rightarrow> 'a pmm_scheme \<Rightarrow> 'a pmm_scheme run" where
  "clear_entries [] s = Ok s"
| "clear_entries (e # es) s =
     (if \<not> usable e then clear_entries es s
      else bindr (clear_pages [entry_first e ..< entry_first e + entry_pages e] s) (clear_entries es))"

primrec reserve_pages :: "nat list \<Rightarrow> 'a pmm_scheme \<Rightarrow> 'a pmm_scheme run" where
  "reserve_pages [] s = Ok s"
| "reserve_pages (p # ps) s =
     bindr (bitmap_test (pmm_bitmap s) p) (\<lambda>t.
       if \<not> t then
         bindr (bitmap_set (pmm_bitmap s) p) (\<lambda>bm.
           reserve_pages ps (s\<lparr>pmm_bitmap := bm, free_pages := free_pages s - 1\<rparr>))
       else reserve_pages ps s)"

definition pmm_init :: "memmap_entry list \<Rightarrow> 'a pmm_scheme \<Rightarrow> 'a pmm_scheme run" where
  "pmm_init mm s =
     (let total = fold (\<lambda>e t. if usable e then t + entry_pages e else t) mm (total_pages s);
          bitmap_size = (total + 7) div 8;
          s = s\<lparr>total_pages := total, bitmap_bits := total, bitmap_next := 0\<rparr>
      in case find (\<lambda>e. usable e \<and> unat (me_length e) \<ge> bitmap_size) mm of
           None \<Rightarrow> Stop (Panic ''no usable region large enough for the bitmap'')
         | Some e \<Rightarrow>
             (let bitmap_phys = me_base e;
                  s = s\<lparr>pmm_bitmap := replicate bitmap_size 0xFF\<rparr>
              in bindr (bitmap_test (pmm_bitmap s) 0) (\<lambda>t.
                 bindr (if t then bindr (bitmap_set (pmm_bitmap s) 0) (\<lambda>bm.
                          Ok (s\<lparr>pmm_bitmap := bm, free_pages := free_pages s - 1\<rparr>))
                        else Ok s) (\<lambda>s.
                 bindr (clear_entries mm s) (\<lambda>s.
                 let bitmap_first = unat (bitmap_phys div PMM_PAGE_SIZE);
                     bitmap_pages = (bitmap_size + 4096 - 1) div 4096
                 in reserve_pages [bitmap_first ..< bitmap_first + bitmap_pages] s)))))"

section \<open>Allocation and release\<close>

definition pmm_lock_acquire :: "'a pmm_scheme \<Rightarrow> (u64 \<times> 'a pmm_scheme) run" where
  "pmm_lock_acquire s =
     bindr (spin_lock_irqsave (pmm_lock s) s) (\<lambda>(f, l, s). Ok (f, s\<lparr>pmm_lock := l\<rparr>))"

definition pmm_lock_release :: "u64 \<Rightarrow> 'a pmm_scheme \<Rightarrow> 'a pmm_scheme" where
  "pmm_lock_release f s = (let (l, s) = spin_unlock_irqrestore f s in s\<lparr>pmm_lock := l\<rparr>)"

definition page_addr :: "nat \<Rightarrow> u64" where
  "page_addr b = of_nat b * PMM_PAGE_SIZE"

definition pmm_alloc :: "'a pmm_scheme \<Rightarrow> (u64 \<times> 'a pmm_scheme) run" where
  "pmm_alloc s =
     bindr (pmm_lock_acquire s) (\<lambda>(irq_flags, s).
     bindr (bitmap_find_clear s) (\<lambda>(b, s).
       if b = SIZE_MAX then Stop (Panic ''pmm: out of memory'')
       else bindr (bitmap_set (pmm_bitmap s) b) (\<lambda>bm.
         Ok (page_addr b,
             pmm_lock_release irq_flags
               (s\<lparr>pmm_bitmap := bm, free_pages := free_pages s - 1\<rparr>)))))"

definition pmm_alloc_zeroed :: "'a pmm_scheme \<Rightarrow> (u64 \<times> 'a pmm_scheme) run" where
  "pmm_alloc_zeroed s =
     bindr (pmm_alloc s) (\<lambda>(phys, s).
       if phys = 0 then Ok (0, s)
       else Ok (phys, s\<lparr>phys_mem := mem_fill (phys_mem s) phys 4096 0\<rparr>))"

definition pmm_free :: "u64 \<Rightarrow> 'a pmm_scheme \<Rightarrow> 'a pmm_scheme run" where
  "pmm_free phys s =
     bindr (pmm_lock_acquire s) (\<lambda>(irq_flags, s).
       let b = unat (phys div PMM_PAGE_SIZE)
       in bindr (bitmap_test (pmm_bitmap s) b) (\<lambda>t.
          bindr (if t then bindr (bitmap_clear (pmm_bitmap s) b) (\<lambda>bm.
                   Ok (s\<lparr>pmm_bitmap := bm, free_pages := free_pages s + 1\<rparr>))
                 else Ok s) (\<lambda>s.
          Ok (pmm_lock_release irq_flags s))))"

primrec set_bits :: "nat list \<Rightarrow> u8 list \<Rightarrow> u8 list run" where
  "set_bits [] bm = Ok bm"
| "set_bits (b # bs) bm = bindr (bitmap_set bm b) (set_bits bs)"

primrec clear_bits :: "nat list \<Rightarrow> u8 list \<Rightarrow> u8 list run" where
  "clear_bits [] bm = Ok bm"
| "clear_bits (b # bs) bm = bindr (bitmap_clear bm b) (clear_bits bs)"

definition pmm_alloc_pages :: "nat \<Rightarrow> 'a pmm_scheme \<Rightarrow> (u64 \<times> 'a pmm_scheme) run" where
  "pmm_alloc_pages count s =
     (if count = 0 then Ok (0, s)
      else if count = 1 then pmm_alloc s
      else bindr (pmm_lock_acquire s) (\<lambda>(irq_flags, s).
           bindr (bitmap_find_clear_range count s) (\<lambda>(b, s).
             if b = SIZE_MAX then Stop (Panic ''pmm: out of memory'')
             else bindr (set_bits [b ..< b + count] (pmm_bitmap s)) (\<lambda>bm.
               Ok (page_addr b,
                   pmm_lock_release irq_flags
                     (s\<lparr>pmm_bitmap := bm, free_pages := free_pages s - of_nat count\<rparr>))))))"

definition pmm_alloc_pages_zeroed :: "nat \<Rightarrow> 'a pmm_scheme \<Rightarrow> (u64 \<times> 'a pmm_scheme) run" where
  "pmm_alloc_pages_zeroed count s =
     bindr (pmm_alloc_pages count s) (\<lambda>(phys, s).
       Ok (phys, s\<lparr>phys_mem := mem_fill (phys_mem s) phys (count * 4096) 0\<rparr>))"

definition pmm_free_pages :: "u64 \<Rightarrow> nat \<Rightarrow> 'a pmm_scheme \<Rightarrow> 'a pmm_scheme run" where
  "pmm_free_pages phys count s =
     bindr (pmm_lock_acquire s) (\<lambda>(irq_flags, s).
       let b = unat (phys div PMM_PAGE_SIZE)
       in bindr (clear_bits [b ..< b + count] (pmm_bitmap s)) (\<lambda>bm.
          Ok (pmm_lock_release irq_flags
                (s\<lparr>pmm_bitmap := bm, free_pages := free_pages s + of_nat count\<rparr>))))"

definition pmm_get_total_pages :: "'a pmm_scheme \<Rightarrow> nat" where
  "pmm_get_total_pages s = total_pages s"

definition pmm_get_free_pages :: "'a pmm_scheme \<Rightarrow> u64" where
  "pmm_get_free_pages s = free_pages s"


section \<open>Facts about the bitmap\<close>

definition page_used :: "u8 list \<Rightarrow> nat \<Rightarrow> bool" where
  "page_used bm b \<longleftrightarrow> bit (bm ! (b div 8)) (b mod 8)"

lemma same_bit_iff: "j div 8 = b div 8 \<and> j mod 8 = b mod 8 \<longleftrightarrow> j = b" for j b :: nat
  by (metis div_mult_mod_eq)

lemma in_bitmap_iff: "b div 8 < length bm \<longleftrightarrow> b < 8 * length bm" for b :: nat
  by auto

lemma bitmap_test_ok [run_simps]: "b < 8 * length bm \<Longrightarrow> bitmap_test bm b = Ok (page_used bm b)"
  by (simp add: bitmap_test_def page_used_def in_bitmap_iff)

lemma bitmap_set_ok:
  assumes "b < 8 * length bm"
  obtains bm' where "bitmap_set bm b = Ok bm'" "length bm' = length bm"
    "\<And>j. page_used bm' j \<longleftrightarrow> page_used bm j \<or> j = b"
proof
  let ?bm = "bm[b div 8 := bm ! (b div 8) OR push_bit (b mod 8) 1]"
  have b: "b div 8 < length bm" using assms by (simp add: in_bitmap_iff)
  then show "bitmap_set bm b = Ok ?bm" by (simp add: bitmap_set_def)
  show "length ?bm = length bm" by simp
  show "page_used ?bm j \<longleftrightarrow> page_used bm j \<or> j = b" for j
    using b same_bit_iff [of j b]
    by (cases "j div 8 = b div 8") (auto simp: page_used_def bit_or_exp)
qed

lemma bitmap_clear_ok:
  assumes "b < 8 * length bm"
  obtains bm' where "bitmap_clear bm b = Ok bm'" "length bm' = length bm"
    "\<And>j. page_used bm' j \<longleftrightarrow> page_used bm j \<and> j \<noteq> b"
proof
  let ?bm = "bm[b div 8 := bm ! (b div 8) AND NOT (push_bit (b mod 8) 1)]"
  have b: "b div 8 < length bm" using assms by (simp add: in_bitmap_iff)
  then show "bitmap_clear bm b = Ok ?bm" by (simp add: bitmap_clear_def)
  show "length ?bm = length bm" by simp
  show "page_used ?bm j \<longleftrightarrow> page_used bm j \<and> j \<noteq> b" for j
    using b same_bit_iff [of j b]
    by (cases "j div 8 = b div 8") (auto simp: page_used_def bit_andnot_exp)
qed

lemma set_bits_ok:
  assumes "\<forall>b\<in>set bs. b < 8 * length bm"
  obtains bm' where "set_bits bs bm = Ok bm'" "length bm' = length bm"
    "\<And>j. page_used bm' j \<longleftrightarrow> page_used bm j \<or> j \<in> set bs"
  using assms
proof (induction bs arbitrary: bm thesis)
  case (Cons b bs)
  then obtain bm1 where 1: "bitmap_set bm b = Ok bm1" "length bm1 = length bm"
    "\<And>j. page_used bm1 j \<longleftrightarrow> page_used bm j \<or> j = b"
    by (metis bitmap_set_ok list.set_intros(1))
  with Cons.prems(2) have "\<forall>b\<in>set bs. b < 8 * length bm1" by simp
  then obtain bm2 where "set_bits bs bm1 = Ok bm2" "length bm2 = length bm1"
    "\<And>j. page_used bm2 j \<longleftrightarrow> page_used bm1 j \<or> j \<in> set bs"
    using Cons.IH by blast
  then show thesis using 1 Cons.prems(1) [of bm2] by auto
qed simp

lemma clear_bits_ok:
  assumes "\<forall>b\<in>set bs. b < 8 * length bm"
  obtains bm' where "clear_bits bs bm = Ok bm'" "length bm' = length bm"
    "\<And>j. page_used bm' j \<longleftrightarrow> page_used bm j \<and> j \<notin> set bs"
  using assms
proof (induction bs arbitrary: bm thesis)
  case (Cons b bs)
  then obtain bm1 where 1: "bitmap_clear bm b = Ok bm1" "length bm1 = length bm"
    "\<And>j. page_used bm1 j \<longleftrightarrow> page_used bm j \<and> j \<noteq> b"
    by (metis bitmap_clear_ok list.set_intros(1))
  with Cons.prems(2) have "\<forall>b\<in>set bs. b < 8 * length bm1" by simp
  then obtain bm2 where "clear_bits bs bm1 = Ok bm2" "length bm2 = length bm1"
    "\<And>j. page_used bm2 j \<longleftrightarrow> page_used bm1 j \<and> j \<notin> set bs"
    using Cons.IH by blast
  then show thesis using 1 Cons.prems(1) [of bm2] by auto
qed simp

lemma scan_clear_find:
  "\<forall>i\<in>set is. i < 8 * length bm \<Longrightarrow> scan_clear bm is = Ok (find (\<lambda>i. \<not> page_used bm i) is)"
  by (induction "is") (auto simp: run_simps)

text \<open>
  One loop of the range search, entered at index \<open>a\<close> with a clear run of length
  \<open>rn\<close> behind it: it finds the first window of \<open>count\<close> clear bits that starts at
  \<open>a - rn\<close> or later, and it gives up only if there is none.
\<close>

lemma scan_run_correct:
  assumes "b \<le> 8 * length bm" "rn < count" "rn \<le> a"
    and "rn = 0 \<or> start = a - rn" "\<forall>j\<in>{a - rn..<a}. \<not> page_used bm j"
  shows "\<exists>r. scan_run bm count [a..<b] rn start = Ok r \<and>
           (case r of
              Some (i, st) \<Rightarrow> st + count = Suc i \<and> i < b \<and> a - rn \<le> st \<and>
                              (\<forall>j\<in>{st..<st + count}. \<not> page_used bm j)
            | None \<Rightarrow> \<forall>st\<ge>a - rn. st + count \<le> b \<longrightarrow> (\<exists>j\<in>{st..<st + count}. page_used bm j))"
  using assms
proof (induction "b - a" arbitrary: a rn start)
  case 0
  then show ?case by (auto simp: not_less)
next
  case (Suc d)
  then have ab: "a < b" "[a..<b] = a # [Suc a..<b]" "d = b - Suc a" by (auto simp: upt_conv_Cons)
  have test: "bitmap_test bm a = Ok (page_used bm a)"
    using ab Suc.prems by (intro bitmap_test_ok) auto
  consider (used) "page_used bm a" | (found) "\<not> page_used bm a" "rn + 1 = count"
    | (more) "\<not> page_used bm a" "rn + 1 < count"
    using Suc.prems(2) by linarith
  then show ?case
  proof cases
    case used
    have "\<exists>j\<in>{st..<st + count}. page_used bm j"
      if "a - rn \<le> st" "\<not> Suc a \<le> st" for st
      using used that Suc.prems(2) by (intro bexI [of _ a]) auto
    then show ?thesis
      using Suc.hyps(1) [of "Suc a" 0 start] used Suc.prems ab test
      by (fastforce split: option.splits)
  next
    case found
    then have "(if rn = 0 then a else start) = a - rn" using Suc.prems by auto
    moreover have "\<forall>j\<in>{a - rn..<a - rn + count}. \<not> page_used bm j"
      using found Suc.prems by (auto simp: less_Suc_eq)
    ultimately show ?thesis using found ab test Suc.prems by (auto simp: Let_def)
  next
    case more
    have "(if rn = 0 then a else start) = a - rn" using Suc.prems by auto
    moreover have "\<forall>j\<in>{a - rn..<Suc a}. \<not> page_used bm j"
      using more Suc.prems by (auto simp: less_Suc_eq)
    ultimately show ?thesis
      using Suc.hyps(1) [of "Suc a" "Suc rn" "a - rn", unfolded diff_Suc_Suc] more ab test Suc.prems
      by (simp add: Let_def)
  qed
qed


section \<open>Invariant and abstraction\<close>

text \<open>
  \<open>free_pgs\<close> is the set of free page numbers and \<open>free_frames\<close> their physical
  addresses. \<open>pmm_counted d\<close> ties the counter to that set: it stays \<open>d\<close> below
  the number of free pages.
\<close>

definition free_pgs :: "'a pmm_scheme \<Rightarrow> nat set" where
  "free_pgs s = {b. b < bitmap_bits s \<and> \<not> page_used (pmm_bitmap s) b}"

definition free_frames :: "'a pmm_scheme \<Rightarrow> u64 set" where
  "free_frames s = page_addr ` free_pgs s"

definition managed_frames :: "'a pmm_scheme \<Rightarrow> u64 set" where
  "managed_frames s = page_addr ` {..<bitmap_bits s}"

definition pmm_shape :: "'a pmm_scheme \<Rightarrow> bool" where
  "pmm_shape s \<longleftrightarrow> length (pmm_bitmap s) = (bitmap_bits s + 7) div 8 \<and> total_pages s = bitmap_bits s \<and>
     bitmap_bits s \<le> 2 ^ 52 \<and> bitmap_next s \<le> bitmap_bits s"

definition pmm_wf :: "'a pmm_scheme \<Rightarrow> bool" where
  "pmm_wf s \<longleftrightarrow> pmm_shape s \<and> pmm_lock s = 0"

definition pmm_counted :: "nat \<Rightarrow> 'a pmm_scheme \<Rightarrow> bool" where
  "pmm_counted d s \<longleftrightarrow> free_pages s = of_nat (card (free_pgs s)) - of_nat d"

lemma pmm_shape_bits: "pmm_shape s \<Longrightarrow> b < bitmap_bits s \<Longrightarrow> b < 8 * length (pmm_bitmap s)"
  unfolding pmm_shape_def by auto

lemma finite_free_pgs [simp]: "finite (free_pgs s)"
  unfolding free_pgs_def by (rule finite_subset [of _ "{..<bitmap_bits s}"]) auto

lemma unat_page_addr:
  assumes "b < 2 ^ 52"
  shows "unat (page_addr b) = b * 4096"
proof -
  have "page_addr b = of_nat (b * 4096)" by (simp add: page_addr_def PMM_PAGE_SIZE_def)
  moreover have "b * 4096 < 2 ^ 64" using assms by auto
  ultimately show ?thesis by (simp only: unat_of_nat_u64)
qed

lemma page_of_addr [simp]:
  assumes "b < 2 ^ 52"
  shows "unat (page_addr b div PMM_PAGE_SIZE) = b"
  using unat_page_addr [OF assms] by (simp add: unat_div PMM_PAGE_SIZE_def)

lemma page_addr_inj: "page_addr a = page_addr b \<longleftrightarrow> a = b" if "a < 2 ^ 52" "b < 2 ^ 52"
  using page_of_addr that by metis

lemma page_addr_inj_on: "pmm_wf s \<Longrightarrow> inj_on page_addr {..<bitmap_bits s}"
  by (auto simp: inj_on_def page_addr_inj pmm_wf_def pmm_shape_def)

lemma free_pgs_less: "b \<in> free_pgs s \<Longrightarrow> b < bitmap_bits s"
  by (simp add: free_pgs_def)

lemma page_addr_free_iff:
  assumes "pmm_wf s" "b < bitmap_bits s"
  shows "page_addr b \<in> free_frames s \<longleftrightarrow> b \<in> free_pgs s"
  using page_addr_inj_on [OF assms(1)] assms(2)
  by (auto simp: free_frames_def inj_on_def free_pgs_def)

lemma card_free_frames: "pmm_wf s \<Longrightarrow> card (free_frames s) = card (free_pgs s)"
  unfolding free_frames_def
  by (rule card_image) (auto intro: inj_on_subset [OF page_addr_inj_on] dest: free_pgs_less)

section \<open>Single pages\<close>

definition search_order :: "'a pmm_scheme \<Rightarrow> nat list" where
  "search_order s = [bitmap_next s ..< bitmap_bits s] @ [0 ..< bitmap_next s]"

lemma set_search_order: "pmm_shape s \<Longrightarrow> set (search_order s) = {..<bitmap_bits s}"
  by (auto simp: search_order_def pmm_shape_def)

lemma find_append: "find P (xs @ ys) = (case find P xs of Some x \<Rightarrow> Some x | None \<Rightarrow> find P ys)"
  by (induction xs) auto

lemma bitmap_find_clear_first:
  assumes "pmm_shape s"
  shows "bitmap_find_clear s =
    (case find (\<lambda>i. \<not> page_used (pmm_bitmap s) i) (search_order s) of
       Some i \<Rightarrow> Ok (i, s\<lparr>bitmap_next := (if i + 1 \<ge> bitmap_bits s then 0 else i + 1)\<rparr>)
     | None \<Rightarrow> Ok (SIZE_MAX, s))"
proof -
  have "\<forall>i\<in>set [bitmap_next s ..< bitmap_bits s]. i < 8 * length (pmm_bitmap s)"
    and "\<forall>i\<in>set [0 ..< bitmap_next s]. i < 8 * length (pmm_bitmap s)"
    using assms pmm_shape_bits [OF assms] by (auto simp: pmm_shape_def)
  then show ?thesis
    by (auto simp: bitmap_find_clear_def search_order_def find_append scan_clear_find Let_def
             split: option.splits)
qed

lemma pmm_lock_acquire_free [run_simps]:
  "pmm_lock s = 0 \<Longrightarrow> pmm_lock_acquire s = Ok (rflags s, s\<lparr>int_flag := False, pmm_lock := 1\<rparr>)"
  by (simp add: pmm_lock_acquire_def run_simps)

lemma pmm_lock_release_simp [run_simps]:
  "pmm_lock_release (rflags s) t = t\<lparr>int_flag := int_flag s \<or> int_flag t, pmm_lock := 0\<rparr>"
  by (simp add: pmm_lock_release_def run_simps)

lemma size_max_not_page: "b < 2 ^ 52 \<Longrightarrow> b \<noteq> SIZE_MAX"
  by (simp add: SIZE_MAX_def)

text \<open>
  The complete behaviour of \<open>pmm_alloc\<close> on a well-formed state: with a free page
  it takes the first one in search order and only the bitmap, the search
  position and the counter change; without one it panics.
\<close>

lemma pmm_alloc_correct:
  assumes wf: "pmm_wf s"
  obtains
    (empty) "free_pgs s = {}" "pmm_alloc s = Stop (Panic ''pmm: out of memory'')"
  | (page) b bm nx s' where
      "b \<in> free_pgs s" "find (\<lambda>i. \<not> page_used (pmm_bitmap s) i) (search_order s) = Some b"
      "s' = s\<lparr>pmm_bitmap := bm, bitmap_next := nx, free_pages := free_pages s - 1\<rparr>"
      "pmm_alloc s = Ok (page_addr b, s')" "free_pgs s' = free_pgs s - {b}" "pmm_wf s'"
proof -
  let ?t = "s\<lparr>int_flag := False, pmm_lock := 1\<rparr>"
  have shape: "pmm_shape s" "pmm_lock s = 0" using wf by (auto simp: pmm_wf_def)
  then have shape_t: "pmm_shape ?t" by (simp add: pmm_shape_def)
  have order: "search_order ?t = search_order s" by (simp add: search_order_def)
  show thesis
  proof (cases "find (\<lambda>i. \<not> page_used (pmm_bitmap s) i) (search_order s)")
    case None
    then have "free_pgs s = {}"
      using set_search_order [OF shape(1)] by (auto simp: free_pgs_def find_None_iff)
    moreover have "pmm_alloc s = Stop (Panic ''pmm: out of memory'')"
      using None shape order bitmap_find_clear_first [OF shape_t] by (simp add: pmm_alloc_def run_simps)
    ultimately show thesis by (rule empty)
  next
    case (Some b)
    then have b: "b < bitmap_bits s" "\<not> page_used (pmm_bitmap s) b"
      using set_search_order [OF shape(1)] by (auto simp: find_Some_iff dest: nth_mem)
    obtain bm where bm: "bitmap_set (pmm_bitmap s) b = Ok bm" "length bm = length (pmm_bitmap s)"
      "\<And>j. page_used bm j \<longleftrightarrow> page_used (pmm_bitmap s) j \<or> j = b"
      using bitmap_set_ok [OF pmm_shape_bits [OF shape(1) b(1)]] by blast
    define nx where "nx = (if bitmap_bits s \<le> b + 1 then 0 else b + 1)"
    define s' where "s' = s\<lparr>pmm_bitmap := bm, bitmap_next := nx, free_pages := free_pages s - 1\<rparr>"
    have "b \<noteq> SIZE_MAX" using b shape by (intro size_max_not_page) (auto simp: pmm_shape_def)
    then have "pmm_alloc s = Ok (page_addr b, s')"
      using Some shape order bitmap_find_clear_first [OF shape_t] bm(1)
      by (simp add: pmm_alloc_def run_simps s'_def nx_def)
    moreover have "free_pgs s' = free_pgs s - {b}" "pmm_wf s'" "b \<in> free_pgs s"
      using b bm shape by (auto simp: s'_def nx_def free_pgs_def pmm_wf_def pmm_shape_def)
    ultimately show thesis using page Some s'_def by blast
  qed
qed


lemma pmm_free_correct:
  assumes wf: "pmm_wf s" and b: "b < bitmap_bits s"
  obtains bm s' where
    "s' = s\<lparr>pmm_bitmap := bm, free_pages := free_pages s + (if b \<in> free_pgs s then 0 else 1)\<rparr>"
    "pmm_free (page_addr b) s = Ok s'" "free_pgs s' = insert b (free_pgs s)" "pmm_wf s'"
proof -
  have shape: "pmm_shape s" "pmm_lock s = 0" using wf by (auto simp: pmm_wf_def)
  have b8: "b < 8 * length (pmm_bitmap s)" by (rule pmm_shape_bits [OF shape(1) b])
  have b52: "b < 2 ^ 52" using b shape by (simp add: pmm_shape_def)
  obtain bm where bm: "bitmap_clear (pmm_bitmap s) b = Ok bm" "length bm = length (pmm_bitmap s)"
      "\<And>j. page_used bm j \<longleftrightarrow> page_used (pmm_bitmap s) j \<and> j \<noteq> b"
    using bitmap_clear_ok [OF b8] by blast
  have run: "pmm_free (page_addr b) s =
      Ok (if page_used (pmm_bitmap s) b then s\<lparr>pmm_bitmap := bm, free_pages := free_pages s + 1\<rparr> else s)"
    using shape b8 b52 bm(1) by (simp add: pmm_free_def run_simps)
  show thesis
  proof (cases "page_used (pmm_bitmap s) b")
    case True
    then show thesis using run b bm shape
      by (intro that [of "s\<lparr>pmm_bitmap := bm, free_pages := free_pages s + 1\<rparr>" bm])
         (auto simp: free_pgs_def pmm_wf_def pmm_shape_def)
  next
    case False
    then show thesis using run b wf
      by (intro that [of s "pmm_bitmap s"]) (auto simp: free_pgs_def)
  qed
qed

lemma pmm_free_out_of_range:
  assumes "pmm_wf s" "8 * length (pmm_bitmap s) \<le> unat (a div PMM_PAGE_SIZE)"
  shows "pmm_free a s = Stop OutOfBounds"
  using assms by (simp add: pmm_free_def pmm_wf_def run_simps bitmap_test_def in_bitmap_iff)

section \<open>Runs of pages\<close>

definition clear_window :: "'a pmm_scheme \<Rightarrow> nat \<Rightarrow> nat \<Rightarrow> nat \<Rightarrow> nat \<Rightarrow> bool" where
  "clear_window s lo hi count b \<longleftrightarrow> lo \<le> b \<and> b + count \<le> hi \<and> {b..<b + count} \<subseteq> free_pgs s"

text \<open>The range search looks in \<open>[bitmap_next, total)\<close> and in \<open>[0, bitmap_next)\<close>, never across the boundary.\<close>

definition findable :: "'a pmm_scheme \<Rightarrow> nat \<Rightarrow> nat \<Rightarrow> bool" where
  "findable s count b \<longleftrightarrow>
     clear_window s (bitmap_next s) (bitmap_bits s) count b \<or> clear_window s 0 (bitmap_next s) count b"

lemma scan_segment:
  assumes "pmm_shape s" "0 < count" "hi \<le> bitmap_bits s"
  obtains
    (none) "scan_run (pmm_bitmap s) count [lo..<hi] 0 0 = Ok None" "\<nexists>b. clear_window s lo hi count b"
  | (some) b where
      "scan_run (pmm_bitmap s) count [lo..<hi] 0 0 = Ok (Some (b + count - 1, b))" "clear_window s lo hi count b"
proof -
  have "hi \<le> 8 * length (pmm_bitmap s)" using assms by (auto simp: pmm_shape_def)
  from scan_run_correct [OF this, of 0 count lo 0, unfolded diff_zero] assms(2)
  obtain r where r: "scan_run (pmm_bitmap s) count [lo..<hi] 0 0 = Ok r"
    "case r of Some (i, st) \<Rightarrow> st + count = Suc i \<and> i < hi \<and> lo \<le> st \<and>
                              (\<forall>j\<in>{st..<st + count}. \<not> page_used (pmm_bitmap s) j)
            | None \<Rightarrow> \<forall>st\<ge>lo. st + count \<le> hi \<longrightarrow> (\<exists>j\<in>{st..<st + count}. page_used (pmm_bitmap s) j)"
    by (auto simp del: scan_run.simps)
  show thesis
  proof (cases r)
    case None
    have "\<nexists>b. clear_window s lo hi count b"
    proof
      assume "\<exists>b. clear_window s lo hi count b"
      then obtain b where b: "lo \<le> b" "b + count \<le> hi" "{b..<b + count} \<subseteq> free_pgs s"
        by (auto simp: clear_window_def)
      then obtain j where "j \<in> {b..<b + count}" "page_used (pmm_bitmap s) j"
        using r(2) None by auto
      then show False using b(3) by (auto simp: free_pgs_def)
    qed
    then show thesis using none r(1) None by simp
  next
    case (Some p)
    obtain i st where p: "p = (i, st)" by fastforce
    then have st: "st + count = Suc i" "i < hi" "lo \<le> st"
        "\<forall>j\<in>{st..<st + count}. \<not> page_used (pmm_bitmap s) j"
      using r(2) Some by auto
    then have "clear_window s lo hi count st"
      using assms(3) by (auto simp: clear_window_def free_pgs_def)
    moreover have "i = st + count - 1" using st by simp
    ultimately show thesis using some r(1) Some p by simp
  qed
qed

lemma bitmap_find_clear_range_correct:
  assumes shape: "pmm_shape s" and count: "0 < count"
  obtains
    (none) "bitmap_find_clear_range count s = Ok (SIZE_MAX, s)" "\<nexists>b. findable s count b"
  | (some) b where "bitmap_find_clear_range count s = Ok (b, s\<lparr>bitmap_next := b + count\<rparr>)" "findable s count b"
proof -
  have le: "bitmap_next s \<le> bitmap_bits s" "total_pages s = bitmap_bits s"
    using shape by (auto simp: pmm_shape_def)
  show thesis
  proof (rule scan_segment [OF shape count order_refl, of "bitmap_next s"])
    fix b assume "scan_run (pmm_bitmap s) count [bitmap_next s..<bitmap_bits s] 0 0 = Ok (Some (b + count - 1, b))"
      and "clear_window s (bitmap_next s) (bitmap_bits s) count b"
    then show thesis using le count by (intro some [of b]) (auto simp: bitmap_find_clear_range_def findable_def)
  next
    assume 1: "scan_run (pmm_bitmap s) count [bitmap_next s..<bitmap_bits s] 0 0 = Ok None"
      "\<nexists>b. clear_window s (bitmap_next s) (bitmap_bits s) count b"
    show thesis
    proof (rule scan_segment [OF shape count le(1), of 0])
      fix b assume "scan_run (pmm_bitmap s) count [0..<bitmap_next s] 0 0 = Ok (Some (b + count - 1, b))"
        and "clear_window s 0 (bitmap_next s) count b"
      then show thesis using 1 le count
        by (intro some [of b]) (auto simp: bitmap_find_clear_range_def findable_def)
    next
      assume "scan_run (pmm_bitmap s) count [0..<bitmap_next s] 0 0 = Ok None"
        "\<nexists>b. clear_window s 0 (bitmap_next s) count b"
      then show thesis using 1 le
        by (intro none) (auto simp: bitmap_find_clear_range_def findable_def)
    qed
  qed
qed


lemma findable_window: "pmm_shape s \<Longrightarrow> findable s count b \<Longrightarrow> {b..<b + count} \<subseteq> free_pgs s \<and> b + count \<le> bitmap_bits s"
  by (auto simp: findable_def clear_window_def pmm_shape_def)

text \<open>The complete behaviour of \<open>pmm_alloc_pages\<close> for two pages or more.\<close>

lemma pmm_alloc_pages_correct:
  assumes wf: "pmm_wf s" and count: "2 \<le> count"
  obtains
    (none) "\<nexists>b. findable s count b" "pmm_alloc_pages count s = Stop (Panic ''pmm: out of memory'')"
  | (pages) b bm s' where
      "findable s count b"
      "s' = s\<lparr>pmm_bitmap := bm, bitmap_next := b + count, free_pages := free_pages s - of_nat count\<rparr>"
      "pmm_alloc_pages count s = Ok (page_addr b, s')" "free_pgs s' = free_pgs s - {b..<b + count}" "pmm_wf s'"
proof -
  let ?t = "s\<lparr>int_flag := False, pmm_lock := 1\<rparr>"
  have shape: "pmm_shape s" "pmm_lock s = 0" using wf by (auto simp: pmm_wf_def)
  then have shape_t: "pmm_shape ?t" by (simp add: pmm_shape_def)
  have findable_t: "findable ?t count b \<longleftrightarrow> findable s count b" for b
    by (simp add: findable_def clear_window_def free_pgs_def)
  have c0: "0 < count" using count by simp
  show thesis
  proof (rule bitmap_find_clear_range_correct [OF shape_t c0])
    assume "bitmap_find_clear_range count ?t = Ok (SIZE_MAX, ?t)" "\<nexists>b. findable ?t count b"
    then show thesis using none shape count findable_t by (simp add: pmm_alloc_pages_def run_simps)
  next
    fix b assume r: "bitmap_find_clear_range count ?t = Ok (b, ?t\<lparr>bitmap_next := b + count\<rparr>)"
      and "findable ?t count b"
    then have f: "findable s count b" using findable_t by simp
    then have w: "{b..<b + count} \<subseteq> free_pgs s" "b + count \<le> bitmap_bits s"
      using findable_window shape(1) by blast+
    then have "\<forall>i\<in>set [b..<b + count]. i < 8 * length (pmm_bitmap s)"
      using pmm_shape_bits [OF shape(1)] by auto
    then obtain bm where bm: "set_bits [b..<b + count] (pmm_bitmap s) = Ok bm"
        "length bm = length (pmm_bitmap s)"
        "\<And>j. page_used bm j \<longleftrightarrow> page_used (pmm_bitmap s) j \<or> j \<in> set [b..<b + count]"
      by (metis set_bits_ok)
    define s' where
      "s' = s\<lparr>pmm_bitmap := bm, bitmap_next := b + count, free_pages := free_pages s - of_nat count\<rparr>"
    have "b \<noteq> SIZE_MAX" using w shape count by (intro size_max_not_page) (auto simp: pmm_shape_def)
    then have "pmm_alloc_pages count s = Ok (page_addr b, s')"
      using r shape count bm(1) by (simp add: pmm_alloc_pages_def run_simps s'_def)
    moreover have "free_pgs s' = free_pgs s - {b..<b + count}"
      unfolding s'_def free_pgs_def by (auto simp: bm(3))
    moreover have "pmm_wf s'"
      using w(2) bm(2) shape by (simp add: s'_def pmm_wf_def pmm_shape_def)
    ultimately show thesis using pages f s'_def by blast
  qed
qed

lemma pmm_free_pages_correct:
  assumes wf: "pmm_wf s" and b: "b + count \<le> bitmap_bits s" "b < 2 ^ 52"
  obtains bm s' where
    "s' = s\<lparr>pmm_bitmap := bm, free_pages := free_pages s + of_nat count\<rparr>"
    "pmm_free_pages (page_addr b) count s = Ok s'" "free_pgs s' = free_pgs s \<union> {b..<b + count}" "pmm_wf s'"
proof -
  have shape: "pmm_shape s" "pmm_lock s = 0" using wf by (auto simp: pmm_wf_def)
  have "\<forall>i\<in>set [b..<b + count]. i < 8 * length (pmm_bitmap s)"
    using pmm_shape_bits [OF shape(1)] b by auto
  then obtain bm where bm: "clear_bits [b..<b + count] (pmm_bitmap s) = Ok bm"
      "length bm = length (pmm_bitmap s)"
      "\<And>j. page_used bm j \<longleftrightarrow> page_used (pmm_bitmap s) j \<and> j \<notin> set [b..<b + count]"
    by (metis clear_bits_ok)
  let ?s = "s\<lparr>pmm_bitmap := bm, free_pages := free_pages s + of_nat count\<rparr>"
  have "pmm_free_pages (page_addr b) count s = Ok ?s"
    using shape b bm(1) by (simp add: pmm_free_pages_def run_simps)
  moreover have "free_pgs ?s = free_pgs s \<union> {b..<b + count}"
    using b(1) unfolding free_pgs_def by (auto simp: bm(3))
  moreover have "pmm_wf ?s"
    using bm(2) shape by (simp add: pmm_wf_def pmm_shape_def)
  ultimately show thesis using that by blast
qed

lemma pmm_alloc_Ok:
  assumes "pmm_wf s" "pmm_alloc s = Ok (a, s')"
  obtains b bm nx where "b \<in> free_pgs s" "a = page_addr b"
    "s' = s\<lparr>pmm_bitmap := bm, bitmap_next := nx, free_pages := free_pages s - 1\<rparr>"
    "free_pgs s' = free_pgs s - {b}" "pmm_wf s'"
  by (rule pmm_alloc_correct [OF assms(1)]) (use assms(2) that in auto)

lemma pmm_free_Ok:
  assumes "pmm_wf s" "b < bitmap_bits s" "pmm_free (page_addr b) s = Ok s'"
  obtains bm where
    "s' = s\<lparr>pmm_bitmap := bm, free_pages := free_pages s + (if b \<in> free_pgs s then 0 else 1)\<rparr>"
    "free_pgs s' = insert b (free_pgs s)" "pmm_wf s'"
  by (rule pmm_free_correct [OF assms(1,2)]) (use assms(3) that in simp)

lemma pmm_alloc_pages_Ok:
  assumes "pmm_wf s" "2 \<le> count" "pmm_alloc_pages count s = Ok (a, s')"
  obtains b bm where "findable s count b" "a = page_addr b"
    "s' = s\<lparr>pmm_bitmap := bm, bitmap_next := b + count, free_pages := free_pages s - of_nat count\<rparr>"
    "free_pgs s' = free_pgs s - {b..<b + count}" "pmm_wf s'"
  by (rule pmm_alloc_pages_correct [OF assms(1,2)]) (use assms(3) that in auto)

section \<open>The counter\<close>

lemma pmm_counted_alloc:
  assumes "pmm_wf s" "pmm_counted d s" "pmm_alloc s = Ok (a, s')"
  shows "pmm_counted d s'"
proof -
  obtain b where b: "b \<in> free_pgs s" "free_pgs s' = free_pgs s - {b}" "free_pages s' = free_pages s - 1"
    using assms(3) by (auto elim: pmm_alloc_Ok [OF assms(1)])
  then have "card (free_pgs s) = Suc (card (free_pgs s'))" by (metis card_Suc_Diff1 finite_free_pgs)
  then show ?thesis using assms(2) b(3) by (simp add: pmm_counted_def)
qed

lemma pmm_counted_free:
  assumes "pmm_wf s" "pmm_counted d s" "b < bitmap_bits s" "pmm_free (page_addr b) s = Ok s'"
  shows "pmm_counted d s'"
proof -
  have "free_pgs s' = insert b (free_pgs s)"
    "free_pages s' = free_pages s + (if b \<in> free_pgs s then 0 else 1)"
    using assms(4) by (auto elim!: pmm_free_Ok [OF assms(1,3)])
  then show ?thesis using assms(2) by (auto simp: pmm_counted_def insert_absorb)
qed

lemma pmm_counted_alloc_pages:
  assumes "pmm_wf s" "pmm_counted d s" "2 \<le> count" "pmm_alloc_pages count s = Ok (a, s')"
  shows "pmm_counted d s'"
proof -
  obtain b where b: "findable s count b" "free_pgs s' = free_pgs s - {b..<b + count}"
      "free_pages s' = free_pages s - of_nat count"
    using assms(4) by (auto elim: pmm_alloc_pages_Ok [OF assms(1,3)])
  have sub: "{b..<b + count} \<subseteq> free_pgs s"
    using findable_window b(1) assms(1) by (auto simp: pmm_wf_def)
  then have "card (free_pgs s') = card (free_pgs s) - count"
    using b(2) by (simp add: card_Diff_subset)
  moreover have "count \<le> card (free_pgs s)"
    using card_mono [OF finite_free_pgs sub] by simp
  ultimately show ?thesis
    using assms(2) b(3) by (simp add: pmm_counted_def of_nat_diff)
qed


section \<open>The interface\<close>

text \<open>
  What the page-table code, the heap and the process loader rely on. \<open>frames\<close>
  is the set of free frame addresses, \<open>managed\<close> the addresses the allocator may
  hand out.
\<close>

locale frame_allocator =
  fixes alloc :: "'s \<Rightarrow> (u64 \<times> 's) run"
    and release :: "u64 \<Rightarrow> 's \<Rightarrow> 's run"
    and frames :: "'s \<Rightarrow> u64 set"
    and managed :: "'s \<Rightarrow> u64 set"
    and inv :: "'s \<Rightarrow> bool"
  assumes alloc_returns: "inv s \<Longrightarrow> returns (alloc s) \<longleftrightarrow> frames s \<noteq> {}"
    and alloc_takes: "inv s \<Longrightarrow> alloc s = Ok (a, t) \<Longrightarrow> a \<in> frames s \<and> frames t = frames s - {a}"
    and alloc_inv: "inv s \<Longrightarrow> alloc s = Ok (a, t) \<Longrightarrow> inv t \<and> managed t = managed s"
    and release_gives: "inv s \<Longrightarrow> a \<in> managed s \<Longrightarrow> \<exists>t. release a s = Ok t \<and> frames t = insert a (frames s)"
    and release_inv: "inv s \<Longrightarrow> a \<in> managed s \<Longrightarrow> release a s = Ok t \<Longrightarrow> inv t \<and> managed t = managed s"
    and frames_managed: "inv s \<Longrightarrow> frames s \<subseteq> managed s"
begin

primrec alloc_many :: "nat \<Rightarrow> 's \<Rightarrow> (u64 list \<times> 's) run" where
  "alloc_many 0 s = Ok ([], s)"
| "alloc_many (Suc n) s = bindr (alloc s) (\<lambda>(a, s). bindr (alloc_many n s) (\<lambda>(as, s). Ok (a # as, s)))"

text \<open>Any number of allocations hands out distinct frames, all of them free at the start.\<close>

lemma alloc_many_distinct:
  assumes "inv s" "alloc_many n s = Ok (as, t)"
  shows "distinct as \<and> length as = n \<and> set as \<subseteq> frames s \<and> frames t = frames s - set as \<and> inv t"
  using assms
proof (induction n arbitrary: s as)
  case (Suc n)
  then obtain a s1 as1 where a: "alloc s = Ok (a, s1)" and as1: "alloc_many n s1 = Ok (as1, t)" "as = a # as1"
    by (auto simp: bindr_eq_Ok)
  have "a \<in> frames s" "frames s1 = frames s - {a}" "inv s1"
    using alloc_takes alloc_inv Suc.prems(1) a by blast+
  then show ?case using Suc.IH [OF _ as1(1)] as1(2) by auto
qed simp

text \<open>As many allocations as there are free frames succeed.\<close>

lemma alloc_many_returns:
  assumes "inv s" "finite (frames s)" "n \<le> card (frames s)"
  shows "returns (alloc_many n s)"
  using assms
proof (induction n arbitrary: s)
  case (Suc n)
  then have "frames s \<noteq> {}" by auto
  then obtain a t where a: "alloc s = Ok (a, t)"
    using alloc_returns [OF Suc.prems(1)] by (auto simp: returns_iff)
  have t: "a \<in> frames s" "frames t = frames s - {a}" "inv t"
    using alloc_takes alloc_inv Suc.prems(1) a by blast+
  then have "n \<le> card (frames t)" "finite (frames t)" using Suc.prems by auto
  then obtain p where "alloc_many n t = Ok p"
    using Suc.IH [OF t(3)] by (auto simp: returns_iff)
  then show ?case using a by (cases p) simp
qed simp

text \<open>Releasing a frame just allocated restores the set of free frames.\<close>

lemma release_after_alloc:
  assumes "inv s" "alloc s = Ok (a, t)"
  shows "\<exists>u. release a t = Ok u \<and> frames u = frames s \<and> inv u"
proof -
  have t: "a \<in> frames s" "frames t = frames s - {a}" "inv t" "managed t = managed s"
    using alloc_takes alloc_inv assms by blast+
  then have "a \<in> managed t" using frames_managed assms(1) by auto
  then obtain u where "release a t = Ok u" "frames u = insert a (frames t)" "inv u"
    using release_gives release_inv t(3) by blast
  then show ?thesis using t by auto
qed

end

lemma free_frames_subset: "free_frames s \<subseteq> managed_frames s"
  by (auto simp: free_frames_def managed_frames_def free_pgs_def)

lemma pmm_alloc_frames:
  assumes "pmm_wf s" "pmm_alloc s = Ok (a, t)"
  shows "a \<in> free_frames s \<and> free_frames t = free_frames s - {a}"
proof -
  obtain b where b: "b \<in> free_pgs s" "a = page_addr b" "free_pgs t = free_pgs s - {b}"
    using pmm_alloc_Ok [OF assms] by metis
  have "page_addr ` (free_pgs s - {b}) = page_addr ` free_pgs s - page_addr ` {b}"
    by (rule inj_on_image_set_diff [OF page_addr_inj_on [OF assms(1)]]) (use b in \<open>auto dest: free_pgs_less\<close>)
  then show ?thesis using b by (simp add: free_frames_def)
qed

interpretation pmm: frame_allocator pmm_alloc pmm_free free_frames managed_frames pmm_wf
proof
  fix s t :: "'a pmm_scheme" and a :: u64
  assume wf: "pmm_wf s"
  show "returns (pmm_alloc s) \<longleftrightarrow> free_frames s \<noteq> {}"
    by (rule pmm_alloc_correct [OF wf]) (auto simp: free_frames_def)
  show "free_frames s \<subseteq> managed_frames s" by (rule free_frames_subset)
  show "pmm_alloc s = Ok (a, t) \<Longrightarrow> a \<in> free_frames s \<and> free_frames t = free_frames s - {a}"
    using pmm_alloc_frames wf by blast
  show "pmm_alloc s = Ok (a, t) \<Longrightarrow> pmm_wf t \<and> managed_frames t = managed_frames s"
    by (auto elim!: pmm_alloc_Ok [OF wf] simp: managed_frames_def)
  show "\<exists>t. pmm_free a s = Ok t \<and> free_frames t = insert a (free_frames s)" if managed: "a \<in> managed_frames s"
  proof -
    obtain b where b: "b < bitmap_bits s" "a = page_addr b" using managed by (auto simp: managed_frames_def)
    show ?thesis by (rule pmm_free_correct [OF wf b(1)]) (simp add: b(2) free_frames_def)
  qed
  show "pmm_wf t \<and> managed_frames t = managed_frames s" if managed: "a \<in> managed_frames s" and t: "pmm_free a s = Ok t"
  proof -
    obtain b where b: "b < bitmap_bits s" "a = page_addr b" using managed by (auto simp: managed_frames_def)
    show ?thesis by (rule pmm_free_Ok [OF wf b(1) t [unfolded b(2)]]) (simp add: managed_frames_def)
  qed
qed

end
