(* ===== verification/Pmm_Init.thy ===== *)
theory Pmm_Init
  imports Pmm
begin

text \<open>
  What \<open>pmm_init\<close> establishes. \<open>usable_pages\<close> lists the page numbers of the
  usable regions in the order the initialisation visits them. The bitmap has
  one bit per usable page but is indexed by page number, so initialisation
  succeeds when the usable pages are numbered from zero without holes and runs
  off the end of the bitmap when a page number is too large.
\<close>

definition usable_pages :: "memmap_entry list \<Rightarrow> nat list" where
  "usable_pages mm = concat (map (\<lambda>e. [entry_first e ..< entry_first e + entry_pages e]) (filter usable mm))"

definition bitmap_bytes :: "memmap_entry list \<Rightarrow> nat" where
  "bitmap_bytes mm = (length (usable_pages mm) + 7) div 8"

definition bitmap_home :: "memmap_entry list \<Rightarrow> memmap_entry option" where
  "bitmap_home mm = find (\<lambda>e. usable e \<and> unat (me_length e) \<ge> bitmap_bytes mm) mm"

definition bitmap_own_pages :: "memmap_entry list \<Rightarrow> memmap_entry \<Rightarrow> nat set" where
  "bitmap_own_pages mm e = {entry_first e ..< entry_first e + (bitmap_bytes mm + 4096 - 1) div 4096}"

lemma total_is_length:
  "fold (\<lambda>e t. if usable e then t + entry_pages e else t) mm n = n + length (usable_pages mm)"
  by (induction mm arbitrary: n) (auto simp: usable_pages_def)

lemma clear_pages_append: "clear_pages (ps @ qs) s = bindr (clear_pages ps s) (clear_pages qs)"
  by (induction ps arbitrary: s) (auto simp: bindr_assoc)

lemma clear_entries_pages: "clear_entries mm s = clear_pages (usable_pages mm) s"
  by (induction mm arbitrary: s) (auto simp: usable_pages_def clear_pages_append intro!: bindr_cong)

lemma clear_pages_ok:
  assumes "\<forall>p\<in>set ps. p < 8 * length (pmm_bitmap s)"
  obtains bm where
    "clear_pages ps s = Ok (s\<lparr>pmm_bitmap := bm, free_pages := free_pages s + of_nat (length ps)\<rparr>)"
    "length bm = length (pmm_bitmap s)" "\<And>j. page_used bm j \<longleftrightarrow> page_used (pmm_bitmap s) j \<and> j \<notin> set ps"
  using assms
proof (induction ps arbitrary: s thesis)
  case Nil
  show ?case by (rule Nil(1) [of "pmm_bitmap s"]) simp_all
next
  case (Cons p ps)
  then have "p < 8 * length (pmm_bitmap s)" by simp
  from bitmap_clear_ok [OF this] obtain bm where bm: "bitmap_clear (pmm_bitmap s) p = Ok bm"
    "length bm = length (pmm_bitmap s)" "\<And>j. page_used bm j \<longleftrightarrow> page_used (pmm_bitmap s) j \<and> j \<noteq> p"
    by blast
  let ?s = "s\<lparr>pmm_bitmap := bm, free_pages := free_pages s + 1\<rparr>"
  have "\<forall>p\<in>set ps. p < 8 * length (pmm_bitmap ?s)" using Cons.prems(2) bm(2) by simp
  then obtain bm' where "clear_pages ps ?s = Ok (?s\<lparr>pmm_bitmap := bm', free_pages := free_pages ?s + of_nat (length ps)\<rparr>)"
      "length bm' = length bm" "\<And>j. page_used bm' j \<longleftrightarrow> page_used bm j \<and> j \<notin> set ps"
    using Cons.IH [of ?s] by auto
  then show thesis using bm by (intro Cons.prems(1) [of bm']) (auto simp: algebra_simps)
qed

lemma clear_pages_out_of_bounds:
  "\<exists>p\<in>set ps. 8 * length (pmm_bitmap s) \<le> p \<Longrightarrow> clear_pages ps s = Stop OutOfBounds"
proof (induction ps arbitrary: s)
  case (Cons p ps)
  show ?case
  proof (cases "p < 8 * length (pmm_bitmap s)")
    case True
    from bitmap_clear_ok [OF this] obtain bm where
      "bitmap_clear (pmm_bitmap s) p = Ok bm" "length bm = length (pmm_bitmap s)" by blast
    then show ?thesis using Cons True by auto
  qed (simp add: bitmap_clear_def in_bitmap_iff)
qed simp

lemma reserve_pages_ok:
  assumes "\<forall>p\<in>set ps. p < 8 * length (pmm_bitmap s)" "distinct ps"
  obtains bm where
    "reserve_pages ps s = Ok (s\<lparr>pmm_bitmap := bm, free_pages :=
        free_pages s - of_nat (card {p \<in> set ps. \<not> page_used (pmm_bitmap s) p})\<rparr>)"
    "length bm = length (pmm_bitmap s)" "\<And>j. page_used bm j \<longleftrightarrow> page_used (pmm_bitmap s) j \<or> j \<in> set ps"
  using assms
proof (induction ps arbitrary: s thesis)
  case Nil
  show ?case by (rule Nil(1) [of "pmm_bitmap s"]) simp_all
next
  case (Cons p ps)
  then have p: "p < 8 * length (pmm_bitmap s)" by simp
  show thesis
  proof (cases "page_used (pmm_bitmap s) p")
    case True
    have "{q \<in> set (p # ps). \<not> page_used (pmm_bitmap s) q} = {q \<in> set ps. \<not> page_used (pmm_bitmap s) q}"
      using True by auto
    moreover have "\<forall>p\<in>set ps. p < 8 * length (pmm_bitmap s)" "distinct ps" using Cons.prems by auto
    then obtain bm where bm: "reserve_pages ps s = Ok (s\<lparr>pmm_bitmap := bm, free_pages :=
        free_pages s - of_nat (card {p \<in> set ps. \<not> page_used (pmm_bitmap s) p})\<rparr>)"
      "length bm = length (pmm_bitmap s)" "\<And>j. page_used bm j \<longleftrightarrow> page_used (pmm_bitmap s) j \<or> j \<in> set ps"
      using Cons.IH [of s] by blast
    moreover have "reserve_pages (p # ps) s = reserve_pages ps s" using True p by (simp add: run_simps)
    moreover have "page_used bm j \<longleftrightarrow> page_used (pmm_bitmap s) j \<or> j \<in> set (p # ps)" for j
      using bm(3) True by auto
    ultimately show thesis using Cons.prems(1) [of bm] by metis
  next
    case False
    from bitmap_set_ok [OF p] obtain bm where bm: "bitmap_set (pmm_bitmap s) p = Ok bm"
      "length bm = length (pmm_bitmap s)" "\<And>j. page_used bm j \<longleftrightarrow> page_used (pmm_bitmap s) j \<or> j = p"
      by blast
    let ?s = "s\<lparr>pmm_bitmap := bm, free_pages := free_pages s - 1\<rparr>"
    have "{q \<in> set (p # ps). \<not> page_used (pmm_bitmap s) q} = insert p {q \<in> set ps. \<not> page_used bm q}"
      using False bm(3) Cons.prems(3) by auto
    then have card: "card {q \<in> set (p # ps). \<not> page_used (pmm_bitmap s) q} = Suc (card {q \<in> set ps. \<not> page_used bm q})"
      using Cons.prems(3) by simp
    have "\<forall>p\<in>set ps. p < 8 * length (pmm_bitmap ?s)" "distinct ps" using Cons.prems bm(2) by auto
    then obtain bm' where "reserve_pages ps ?s = Ok (?s\<lparr>pmm_bitmap := bm', free_pages :=
          free_pages ?s - of_nat (card {p \<in> set ps. \<not> page_used bm p})\<rparr>)"
        "length bm' = length bm" "\<And>j. page_used bm' j \<longleftrightarrow> page_used bm j \<or> j \<in> set ps"
      using Cons.IH [of ?s] by auto
    then show thesis using bm p False card
      by (intro Cons.prems(1) [of bm']) (auto simp: run_simps algebra_simps)
  qed
qed

lemma page_used_replicate:
  assumes "j < 8 * n"
  shows "page_used (replicate n 0xFF) j"
proof -
  have "j div 8 < n" using assms by auto
  then have "page_used (replicate n (- 1)) j" unfolding page_used_def by (simp add: bit_minus_1_iff)
  moreover have "(- 1 :: u8) = 0xFF" by simp
  ultimately show ?thesis by (simp only:)
qed

lemma pmm_init_start:
  assumes "total_pages s = 0" "usable_pages mm \<noteq> []" "bitmap_home mm = Some e"
  obtains bm where "length bm = bitmap_bytes mm" "\<And>j. j < 8 * bitmap_bytes mm \<Longrightarrow> page_used bm j"
    "pmm_init mm s =
       bindr (clear_pages (usable_pages mm)
               (s\<lparr>total_pages := length (usable_pages mm), bitmap_bits := length (usable_pages mm),
                  bitmap_next := 0, pmm_bitmap := bm, free_pages := free_pages s - 1\<rparr>))
             (reserve_pages [entry_first e ..< entry_first e + (bitmap_bytes mm + 4096 - 1) div 4096])"
proof -
  let ?bm = "replicate (bitmap_bytes mm) 0xFF :: u8 list"
  have "0 < length ?bm" using assms(2) by (cases "usable_pages mm") (auto simp: bitmap_bytes_def)
  then have 0: "0 < 8 * length ?bm" by simp
  from bitmap_set_ok [OF this] obtain bm where bm: "bitmap_set ?bm 0 = Ok bm" "length bm = length ?bm"
    "\<And>j. page_used bm j \<longleftrightarrow> page_used ?bm j \<or> j = 0" by blast
  have "page_used ?bm 0" using 0 by (intro page_used_replicate) simp
  then show thesis
    using assms bm 0 page_used_replicate
    by (intro that [of bm])
       (auto simp: pmm_init_def Let_def total_is_length clear_entries_pages bitmap_test_ok
           bitmap_home_def bitmap_bytes_def entry_first_def)
qed

text \<open>
  With the usable pages numbered from zero without holes, initialisation
  returns a well-formed allocator in which every usable page is free except
  the bitmap's own; the counter, decremented for page zero before anything was
  counted, ends one below the number of free pages.
\<close>

lemma pmm_init_without_holes:
  assumes "total_pages s = 0" "free_pages s = 0" "pmm_lock s = 0" "usable_pages mm \<noteq> []"
    and home: "bitmap_home mm = Some e"
    and packed: "distinct (usable_pages mm)" "set (usable_pages mm) = {..<length (usable_pages mm)}"
    and size: "length (usable_pages mm) \<le> 2 ^ 52"
    and fits: "bitmap_own_pages mm e \<subseteq> {..<length (usable_pages mm)}"
  shows "\<exists>s'. pmm_init mm s = Ok s' \<and> pmm_wf s' \<and> pmm_counted 1 s' \<and>
              free_pgs s' = {..<length (usable_pages mm)} - bitmap_own_pages mm e"
proof -
  let ?n = "length (usable_pages mm)"
  let ?own = "[entry_first e ..< entry_first e + (bitmap_bytes mm + 4096 - 1) div 4096]"
  have n8: "?n \<le> 8 * bitmap_bytes mm" by (auto simp: bitmap_bytes_def)
  obtain bm where bm: "length bm = bitmap_bytes mm" "\<And>j. j < 8 * bitmap_bytes mm \<Longrightarrow> page_used bm j"
    "pmm_init mm s = bindr (clear_pages (usable_pages mm)
               (s\<lparr>total_pages := ?n, bitmap_bits := ?n, bitmap_next := 0, pmm_bitmap := bm,
                  free_pages := - 1\<rparr>)) (reserve_pages ?own)"
    using pmm_init_start [OF assms(1,4) home] assms(2) by auto
  let ?s = "s\<lparr>total_pages := ?n, bitmap_bits := ?n, bitmap_next := 0, pmm_bitmap := bm, free_pages := - 1\<rparr>"
  have "\<forall>p\<in>set (usable_pages mm). p < 8 * length (pmm_bitmap ?s)"
    unfolding packed(2) using bm(1) n8 by auto
  from clear_pages_ok [OF this] obtain bm1 where 1: "length bm1 = bitmap_bytes mm"
    "\<And>j. page_used bm1 j \<longleftrightarrow> page_used bm j \<and> \<not> j < ?n"
    "clear_pages (usable_pages mm) ?s = Ok (?s\<lparr>pmm_bitmap := bm1, free_pages := of_nat ?n - 1\<rparr>)"
    unfolding packed(2) using bm(1) by (auto simp: algebra_simps)
  let ?s1 = "?s\<lparr>pmm_bitmap := bm1, free_pages := of_nat ?n - 1\<rparr>"
  have own: "set ?own = bitmap_own_pages mm e" by (simp add: bitmap_own_pages_def)
  have "\<forall>p\<in>set ?own. p < 8 * length (pmm_bitmap ?s1)"
    unfolding own using fits n8 1(1) by auto
  from reserve_pages_ok [OF this distinct_upt] obtain bm2 where 2: "length bm2 = bitmap_bytes mm"
    "\<And>j. page_used bm2 j \<longleftrightarrow> page_used bm1 j \<or> j \<in> bitmap_own_pages mm e"
    "reserve_pages ?own ?s1 = Ok (?s1\<lparr>pmm_bitmap := bm2, free_pages := of_nat ?n - 1 -
        of_nat (card {p \<in> bitmap_own_pages mm e. \<not> page_used bm1 p})\<rparr>)"
    unfolding own using 1(1) by auto
  let ?s2 = "?s1\<lparr>pmm_bitmap := bm2, free_pages := of_nat ?n - 1 -
        of_nat (card {p \<in> bitmap_own_pages mm e. \<not> page_used bm1 p})\<rparr>"
  have "{p \<in> bitmap_own_pages mm e. \<not> page_used bm1 p} = bitmap_own_pages mm e"
    using fits 1(2) by auto
  moreover have free: "free_pgs ?s2 = {..<?n} - bitmap_own_pages mm e"
    by (auto simp: free_pgs_def 1(2) 2(2))
  moreover have "card ({..<?n} - bitmap_own_pages mm e) = ?n - card (bitmap_own_pages mm e)"
    using fits by (subst card_Diff_subset) (auto simp: bitmap_own_pages_def)
  moreover have "card (bitmap_own_pages mm e) \<le> ?n"
    using card_mono [OF _ fits] by simp
  ultimately have "pmm_counted 1 ?s2" by (simp add: pmm_counted_def of_nat_diff)
  moreover have "pmm_wf ?s2"
    using size assms(3) 2(1) by (simp add: pmm_wf_def pmm_shape_def bitmap_bytes_def)
  moreover have "pmm_init mm s = Ok ?s2" by (simp only: bm(3) 1(3) 2(3) bindr.simps)
  ultimately show ?thesis using free by blast
qed

text \<open>A usable page whose number is past the end of the bitmap makes initialisation write outside it.\<close>

lemma pmm_init_with_hole:
  assumes "total_pages s = 0" "bitmap_home mm = Some e"
    and "p \<in> set (usable_pages mm)" "8 * bitmap_bytes mm \<le> p"
  shows "pmm_init mm s = Stop OutOfBounds"
proof -
  have "usable_pages mm \<noteq> []" using assms(3) by auto
  from pmm_init_start [OF assms(1) this assms(2)] obtain bm where "length bm = bitmap_bytes mm"
    "pmm_init mm s =
       bindr (clear_pages (usable_pages mm)
               (s\<lparr>total_pages := length (usable_pages mm), bitmap_bits := length (usable_pages mm),
                  bitmap_next := 0, pmm_bitmap := bm, free_pages := free_pages s - 1\<rparr>))
             (reserve_pages [entry_first e ..< entry_first e + (bitmap_bytes mm + 4096 - 1) div 4096])"
    by blast
  then show ?thesis using assms(3,4) by (simp add: clear_pages_out_of_bounds bexI [of _ p])
qed

end
