(* ===== verification/Pmm_Spec.thy ===== *)
theory Pmm_Spec
  imports Pmm_Init
begin

text \<open>
  The properties of the page allocator and of the memory primitives it builds
  on, each followed by an instance on a small concrete machine.
\<close>

section \<open>Concrete machines\<close>

definition demo_pmm :: pmm where
  "demo_pmm = \<lparr>int_flag = True, phys_mem = (\<lambda>_. 0), pmm_lock = 0, pmm_bitmap = [0xF1, 0xFF],
     bitmap_bits = 16, bitmap_next = 2, total_pages = 16, free_pages = 3\<rparr>"

definition unset_pmm :: pmm where
  "unset_pmm = demo_pmm\<lparr>total_pages := 0, free_pages := 0\<rparr>"

definition demo_memmap :: "memmap_entry list" where
  "demo_memmap = [\<lparr>me_base = 0, me_length = 0x4000, me_type = 0\<rparr>]"

definition holed_memmap :: "memmap_entry list" where
  "holed_memmap = [\<lparr>me_base = 0, me_length = 0x4000, me_type = 0\<rparr>,
     \<lparr>me_base = 0x10000000, me_length = 0x4000, me_type = 0\<rparr>]"

lemma free_pgs_filter:
  "free_pgs s = set (filter (\<lambda>b. \<not> page_used (pmm_bitmap s) b) [0..<bitmap_bits s])"
  by (auto simp: free_pgs_def)

lemma demo_pmm_free: "free_pgs demo_pmm = {1, 2, 3}"
proof -
  have "filter (\<lambda>b. \<not> page_used [0xF1, 0xFF] b) [0..<16] = [1, 2, 3]"
    by (simp add: page_used_def upt_rec)
  then show ?thesis by (simp add: free_pgs_filter demo_pmm_def)
qed

lemma demo_pmm_wf: "pmm_wf demo_pmm"
  by (simp add: pmm_wf_def pmm_shape_def demo_pmm_def)

lemma demo_pmm_frames: "free_frames demo_pmm = {0x1000, 0x2000, 0x3000}"
  by (simp add: free_frames_def demo_pmm_free page_addr_def PMM_PAGE_SIZE_def)

section \<open>Single pages\<close>

text \<open>
  C1. On a well-formed allocator with a free page, \<open>pmm_alloc\<close> returns the address of
  the first free page in the order its search visits them (from the rotating
  position up, then from zero), takes exactly that page and keeps the allocator
  well-formed; with none left it panics.
\<close>

theorem pmm_alloc_behaviour:
  assumes "pmm_wf s"
  shows "case find (\<lambda>b. b \<in> free_pgs s) (search_order s) of
           None \<Rightarrow> pmm_alloc s = Stop (Panic ''pmm: out of memory'') \<and> free_pgs s = {}
         | Some b \<Rightarrow> (\<exists>s'. pmm_alloc s = Ok (page_addr b, s') \<and> free_pgs s' = free_pgs s - {b} \<and>
             pmm_wf s' \<and> phys_mem s' = phys_mem s \<and> free_pages s' = free_pages s - 1)"
proof -
  have eq: "find (\<lambda>b. b \<in> free_pgs s) (search_order s) = find (\<lambda>i. \<not> page_used (pmm_bitmap s) i) (search_order s)"
    using set_search_order [of s] assms by (intro find_cong) (auto simp: free_pgs_def pmm_wf_def)
  show ?thesis
  proof (rule pmm_alloc_correct [OF assms])
    assume "free_pgs s = {}" "pmm_alloc s = Stop (Panic ''pmm: out of memory'')"
    then show ?thesis by (auto split: option.split simp: find_Some_iff)
  next
    fix b bm nx s'
    assume "find (\<lambda>i. \<not> page_used (pmm_bitmap s) i) (search_order s) = Some b"
      "s' = s\<lparr>pmm_bitmap := bm, bitmap_next := nx, free_pages := free_pages s - 1\<rparr>"
      "pmm_alloc s = Ok (page_addr b, s')" "free_pgs s' = free_pgs s - {b}" "pmm_wf s'"
    then show ?thesis unfolding eq by (auto intro!: exI [of _ s'])
  qed
qed

lemma demo_search: "find (\<lambda>b. b \<in> free_pgs demo_pmm) (search_order demo_pmm) = Some 2"
  by (simp add: demo_pmm_free) (simp add: search_order_def demo_pmm_def upt_rec)

theorem pmm_alloc_behaviour_witness:
  "\<exists>s'. pmm_alloc demo_pmm = Ok (0x2000, s') \<and> free_pgs s' = {1, 3}"
proof -
  obtain s' where "pmm_alloc demo_pmm = Ok (page_addr 2, s')" "free_pgs s' = free_pgs demo_pmm - {2}"
    using pmm_alloc_behaviour [OF demo_pmm_wf, unfolded demo_search option.case] by blast
  moreover have "{1, 2, 3} - {2} = {1, 3 :: nat}" by auto
  ultimately show ?thesis by (simp add: demo_pmm_free page_addr_def PMM_PAGE_SIZE_def)
qed

text \<open>
  C2. As many successive \<open>pmm_alloc\<close> calls as there are free frames all succeed, and
  they hand out pairwise different frames, each of which was free at the start and
  none of which is free at the end.
\<close>

theorem pmm_allocations_distinct:
  assumes "pmm_wf s" "n \<le> card (free_frames s)"
  shows "\<exists>fs t. pmm.alloc_many n s = Ok (fs, t) \<and> length fs = n \<and> distinct fs \<and>
           set fs \<subseteq> free_frames s \<and> free_frames t = free_frames s - set fs \<and> pmm_wf t"
proof -
  have "finite (free_frames s)" by (simp add: free_frames_def)
  then obtain fs t where run: "pmm.alloc_many n s = Ok (fs, t)"
    using pmm.alloc_many_returns [OF assms(1) _ assms(2)] by (auto simp: returns_iff)
  show ?thesis using pmm.alloc_many_distinct [OF assms(1) run] run by blast
qed

theorem pmm_allocations_distinct_witness:
  "\<exists>fs t. pmm.alloc_many 3 demo_pmm = Ok (fs, t) \<and> distinct fs \<and> length fs = 3 \<and>
     set fs \<subseteq> {0x1000, 0x2000, 0x3000}"
  using pmm_allocations_distinct [OF demo_pmm_wf, of 3] by (auto simp: demo_pmm_frames)

text \<open>
  C3. Freeing the frame that \<open>pmm_alloc\<close> just returned succeeds and restores the set of
  free frames, the invariant and the difference between the counter and the number
  of free pages.
\<close>

theorem pmm_alloc_free_roundtrip:
  assumes "pmm_wf s" "pmm_counted d s" "pmm_alloc s = Ok (a, t)"
  shows "\<exists>u. pmm_free a t = Ok u \<and> free_frames u = free_frames s \<and> pmm_wf u \<and> pmm_counted d u"
proof -
  obtain b bm nx where b: "b \<in> free_pgs s" "a = page_addr b" "pmm_wf t"
      "t = s\<lparr>pmm_bitmap := bm, bitmap_next := nx, free_pages := free_pages s - 1\<rparr>"
    by (rule pmm_alloc_Ok [OF assms(1,3)])
  have bt: "b < bitmap_bits t" using free_pgs_less [OF b(1)] b(4) by simp
  obtain u where u: "pmm_free a t = Ok u" "free_frames u = free_frames s" "pmm_wf u"
    using pmm.release_after_alloc [OF assms(1,3)] by blast
  then show ?thesis
    using pmm_counted_free [OF b(3) pmm_counted_alloc [OF assms] bt] b(2) by auto
qed

lemma demo_pmm_counted: "pmm_counted 0 demo_pmm"
  by (simp add: pmm_counted_def demo_pmm_free) (simp add: demo_pmm_def)

lemma demo_pmm_alloc: "\<exists>s'. pmm_alloc demo_pmm = Ok (0x2000, s')"
proof (rule pmm_alloc_correct [OF demo_pmm_wf])
  fix b bm nx s'
  assume "pmm_alloc demo_pmm = Ok (page_addr b, s')"
    "find (\<lambda>i. \<not> page_used (pmm_bitmap demo_pmm) i) (search_order demo_pmm) = Some b"
  then show ?thesis
    by (simp add: search_order_def demo_pmm_def upt_rec page_used_def page_addr_def PMM_PAGE_SIZE_def)
qed (simp add: demo_pmm_free)

theorem pmm_alloc_free_roundtrip_witness:
  "\<exists>t u. pmm_alloc demo_pmm = Ok (0x2000, t) \<and> pmm_free 0x2000 t = Ok u \<and>
     free_frames u = {0x1000, 0x2000, 0x3000} \<and> pmm_counted 0 u"
proof -
  obtain t where t: "pmm_alloc demo_pmm = Ok (0x2000, t)" using demo_pmm_alloc by blast
  show ?thesis using pmm_alloc_free_roundtrip [OF demo_pmm_wf demo_pmm_counted t] t
    by (auto simp: demo_pmm_frames)
qed

section \<open>Runs of pages\<close>

text \<open>
  C4. For two pages or more, \<open>pmm_alloc_pages\<close> succeeds exactly when a run of that many
  free pages lies on one side of the search position; it then takes exactly one
  such run, lowers the counter by its length and keeps the invariant. Otherwise it
  panics.
\<close>

theorem pmm_alloc_pages_behaviour:
  assumes "pmm_wf s" "2 \<le> count"
  shows "(\<exists>b s'. findable s count b \<and> pmm_alloc_pages count s = Ok (page_addr b, s') \<and>
            free_pgs s' = free_pgs s - {b..<b + count} \<and> free_pages s' = free_pages s - of_nat count \<and> pmm_wf s') \<or>
         (\<nexists>b. findable s count b) \<and> pmm_alloc_pages count s = Stop (Panic ''pmm: out of memory'')"
proof (rule pmm_alloc_pages_correct [OF assms])
  fix b bm s'
  assume "findable s count b"
    "s' = s\<lparr>pmm_bitmap := bm, bitmap_next := b + count, free_pages := free_pages s - of_nat count\<rparr>"
    "pmm_alloc_pages count s = Ok (page_addr b, s')" "free_pgs s' = free_pgs s - {b..<b + count}" "pmm_wf s'"
  then show ?thesis by (intro disjI1 exI [of _ b] exI [of _ s']) simp
qed simp

lemma clear_window_run:
  "clear_window s lo hi count b \<longleftrightarrow> lo \<le> b \<and> b + count \<le> hi \<and> (\<forall>k < count. b + k \<in> free_pgs s)"
  unfolding clear_window_def subset_eq by (auto simp: nat_le_iff_add)

lemma demo_pmm_windows: "bitmap_next demo_pmm = 2" "bitmap_bits demo_pmm = 16"
  by (simp_all add: demo_pmm_def)

lemma demo_pmm_findable: "findable demo_pmm 2 b \<longleftrightarrow> b = 2"
  unfolding findable_def clear_window_run demo_pmm_free demo_pmm_windows
  by (auto simp: eval_nat_numeral less_Suc_eq)

theorem pmm_alloc_pages_behaviour_witness:
  "\<exists>s'. pmm_alloc_pages 2 demo_pmm = Ok (0x2000, s') \<and> free_pgs s' = {1}"
proof -
  have "{2..<2 + 2} = {2, 3 :: nat}" by auto
  then have "{1, 2, 3} - {2..<2 + 2} = {1 :: nat}" by auto
  then show ?thesis
    using pmm_alloc_pages_behaviour [OF demo_pmm_wf, of 2]
    by (auto simp: demo_pmm_findable demo_pmm_free page_addr_def PMM_PAGE_SIZE_def)
qed

text \<open>
  A run of free pages that straddles the search position is not found: here pages
  1, 2 and 3 are free, the search position is 2, and a request for three pages panics.
\<close>

theorem pmm_alloc_pages_misses_straddling_run:
  "pmm_wf demo_pmm \<and> {1..<1 + 3} \<subseteq> free_pgs demo_pmm \<and>
   pmm_alloc_pages 3 demo_pmm = Stop (Panic ''pmm: out of memory'')"
proof -
  have "\<not> findable demo_pmm 3 b" for b
    unfolding findable_def clear_window_run demo_pmm_free demo_pmm_windows
    by (auto simp: eval_nat_numeral less_Suc_eq)
  moreover have "{1..<1 + 3} \<subseteq> free_pgs demo_pmm" by (auto simp: demo_pmm_free)
  ultimately show ?thesis
    using demo_pmm_wf pmm_alloc_pages_correct [OF demo_pmm_wf, of 3] by fastforce
qed

section \<open>Initialisation\<close>

text \<open>
  C15. When the usable pages are numbered from zero without holes, \<open>pmm_init\<close> returns a
  well-formed allocator in which exactly the usable pages outside the bitmap are
  free, and whose counter is one below the number of free pages.
\<close>

theorem pmm_init_packed_memory:
  assumes "total_pages s = 0" "free_pages s = 0" "pmm_lock s = 0" "usable_pages mm \<noteq> []"
    and "bitmap_home mm = Some e"
    and "distinct (usable_pages mm)" "set (usable_pages mm) = {..<length (usable_pages mm)}"
    and "length (usable_pages mm) \<le> 2 ^ 52"
    and "bitmap_own_pages mm e \<subseteq> {..<length (usable_pages mm)}"
  shows "\<exists>s'. pmm_init mm s = Ok s' \<and> pmm_wf s' \<and> pmm_counted 1 s' \<and>
              free_pgs s' = {..<length (usable_pages mm)} - bitmap_own_pages mm e"
  by (rule pmm_init_without_holes [OF assms])

lemma demo_usable: "usable_pages demo_memmap = [0, 1, 2, 3]"
  by (simp add: usable_pages_def demo_memmap_def usable_def LIMINE_MEMMAP_USABLE_def entry_first_def
      entry_pages_def PMM_PAGE_SIZE_def upt_rec)

theorem pmm_init_packed_memory_witness:
  "\<exists>s'. pmm_init demo_memmap unset_pmm = Ok s' \<and> pmm_wf s' \<and> pmm_counted 1 s' \<and> free_pgs s' = {1, 2, 3}"
proof -
  have home: "bitmap_home demo_memmap = Some (hd demo_memmap)"
    by (simp add: bitmap_home_def bitmap_bytes_def demo_usable)
      (simp add: demo_memmap_def usable_def LIMINE_MEMMAP_USABLE_def)
  have own: "bitmap_own_pages demo_memmap (hd demo_memmap) = {0}"
    by (simp add: bitmap_own_pages_def bitmap_bytes_def demo_usable)
      (auto simp: demo_memmap_def entry_first_def PMM_PAGE_SIZE_def)
  have upto: "{..<Suc (Suc (Suc (Suc 0)))} = {0, 1, 2, 3}" by auto
  have "{0, 1, 2, 3} - {0} = {1, 2, 3 :: nat}" by auto
  then show ?thesis
    using pmm_init_packed_memory [of unset_pmm demo_memmap "hd demo_memmap", OF _ _ _ _ home]
    by (simp add: own demo_usable unset_pmm_def demo_pmm_def upto)
qed

text \<open>
  The bitmap has one bit per usable page but is indexed by page number: a usable
  page whose number does not fit makes \<open>pmm_init\<close> write outside the bitmap.
\<close>

theorem pmm_init_memory_with_hole:
  assumes "total_pages s = 0" "bitmap_home mm = Some e"
    and "p \<in> set (usable_pages mm)" "8 * bitmap_bytes mm \<le> p"
  shows "pmm_init mm s = Stop OutOfBounds"
  by (rule pmm_init_with_hole [OF assms])

lemma holed_usable: "usable_pages holed_memmap = [0, 1, 2, 3, 0x10000, 0x10001, 0x10002, 0x10003]"
  by (simp add: usable_pages_def holed_memmap_def usable_def LIMINE_MEMMAP_USABLE_def entry_first_def
      entry_pages_def PMM_PAGE_SIZE_def upt_rec)

theorem pmm_init_memory_with_hole_witness: "pmm_init holed_memmap unset_pmm = Stop OutOfBounds"
proof (rule pmm_init_memory_with_hole)
  show "bitmap_home holed_memmap = Some (hd holed_memmap)"
    by (simp add: bitmap_home_def bitmap_bytes_def holed_usable)
      (simp add: holed_memmap_def usable_def LIMINE_MEMMAP_USABLE_def)
  show "0x10000 \<in> set (usable_pages holed_memmap)" by (simp add: holed_usable)
qed (simp_all add: unset_pmm_def bitmap_bytes_def holed_usable)

end
