(* ===== verification/Kvma.thy ===== *)
theory Kvma
  imports Pmm
begin

text \<open>
  The kernel virtual-address allocator of \<open>arch/x86_64/mm/vmm.c\<close>: a linked list
  of free regions threaded through a static pool of 512 nodes. The pointer code
  is modelled as it is, with pool indices for pointers and the place that holds
  a link (\<open>vma_region_t**\<close>) as \<open>None\<close> for the list head and \<open>Some p\<close> for the
  \<open>next\<close> field of node \<open>p\<close>. The loops carry fuel: a list without a cycle visits
  each of the 512 nodes once, and the correctness lemmas show that the fuel
  given is enough. The code is then related to first-fit and merge on a list of
  regions, and that list to the set of free virtual pages.
\<close>

section \<open>State and operations\<close>

record vma_region =
  vr_base :: u64
  vr_pages :: u64
  vr_next :: "nat option"

record kvma = pmm +
  kvma_lock :: u32
  vma_pool :: "vma_region list"
  vma_free_list :: "nat option"

definition KERNEL_VMA_BASE :: u64 where
  "KERNEL_VMA_BASE = 0xFFFF900000000000"

definition KERNEL_VMA_SIZE :: u64 where
  "KERNEL_VMA_SIZE = 512 * 1024 * 1024 * 1024"

definition kvma_lock_acquire :: "'a kvma_scheme \<Rightarrow> (u64 \<times> 'a kvma_scheme) run" where
  "kvma_lock_acquire s =
     bindr (spin_lock_irqsave (kvma_lock s) s) (\<lambda>(f, l, s). Ok (f, s\<lparr>kvma_lock := l\<rparr>))"

definition kvma_lock_release :: "u64 \<Rightarrow> 'a kvma_scheme \<Rightarrow> 'a kvma_scheme" where
  "kvma_lock_release f s = (let (l, s) = spin_unlock_irqrestore f s in s\<lparr>kvma_lock := l\<rparr>)"

definition kvma_node_alloc :: "vma_region list \<Rightarrow> nat run" where
  "kvma_node_alloc pool =
     (case find (\<lambda>i. vr_pages (pool ! i) = 0) [0..<length pool] of
        Some i \<Rightarrow> Ok i
      | None \<Rightarrow> Stop (Panic ''vmm: vma_pool exhausted''))"

definition set_link :: "nat option \<Rightarrow> nat option \<Rightarrow> 'a kvma_scheme \<Rightarrow> 'a kvma_scheme" where
  "set_link prev v s =
     (case prev of
        None \<Rightarrow> s\<lparr>vma_free_list := v\<rparr>
      | Some p \<Rightarrow> s\<lparr>vma_pool := (vma_pool s)[p := (vma_pool s ! p)\<lparr>vr_next := v\<rparr>]\<rparr>)"

definition vmm_kvma_init :: "'a kvma_scheme \<Rightarrow> 'a kvma_scheme run" where
  "vmm_kvma_init s =
     bindr (kvma_lock_acquire s) (\<lambda>(irq_flags, s).
     bindr (kvma_node_alloc (vma_pool s)) (\<lambda>r.
       Ok (kvma_lock_release irq_flags
             (s\<lparr>vma_pool := (vma_pool s)[r := \<lparr>vr_base = KERNEL_VMA_BASE,
                   vr_pages = KERNEL_VMA_SIZE div PMM_PAGE_SIZE, vr_next = None\<rparr>],
                vma_free_list := Some r\<rparr>))))"

primrec kvma_alloc_loop ::
  "nat \<Rightarrow> u64 \<Rightarrow> nat option \<Rightarrow> nat option \<Rightarrow> 'a kvma_scheme \<Rightarrow> (u64 \<times> 'a kvma_scheme) option run" where
  "kvma_alloc_loop 0 count prev cur s = Stop Hang"
| "kvma_alloc_loop (Suc fuel) count prev cur s =
     (case cur of
        None \<Rightarrow> Ok None
      | Some c \<Rightarrow>
          (if length (vma_pool s) \<le> c then Stop BadPointer
           else
             (let node = vma_pool s ! c
              in if vr_pages node \<ge> count then
                   (let base = vr_base node;
                        node1 = node\<lparr>vr_base := vr_base node + count * PMM_PAGE_SIZE,
                                     vr_pages := vr_pages node - count\<rparr>
                    in if vr_pages node1 = 0 then
                         (let s = set_link prev (vr_next node) (s\<lparr>vma_pool := (vma_pool s)[c := node1]\<rparr>)
                          in Ok (Some (base,
                               s\<lparr>vma_pool := (vma_pool s)[c := (vma_pool s ! c)\<lparr>vr_base := 0, vr_next := None\<rparr>]\<rparr>)))
                       else Ok (Some (base, s\<lparr>vma_pool := (vma_pool s)[c := node1]\<rparr>)))
                 else kvma_alloc_loop fuel count (Some c) (vr_next node) s)))"

definition kvma_alloc :: "u64 \<Rightarrow> 'a kvma_scheme \<Rightarrow> (u64 \<times> 'a kvma_scheme) run" where
  "kvma_alloc count s =
     bindr (kvma_lock_acquire s) (\<lambda>(irq_flags, s).
     bindr (kvma_alloc_loop (Suc (length (vma_pool s))) count None (vma_free_list s) s) (\<lambda>r.
       case r of
         Some (base, s) \<Rightarrow> Ok (base, kvma_lock_release irq_flags s)
       | None \<Rightarrow> Stop (Panic ''vmm: kernel VA space exhausted'')))"

text \<open>The search loop of \<open>kvma_free\<close>: the link to change and the first region at or above \<open>base\<close>.\<close>

primrec kvma_seek ::
  "nat \<Rightarrow> u64 \<Rightarrow> nat option \<Rightarrow> nat option \<Rightarrow> vma_region list \<Rightarrow> (nat option \<times> nat option) run" where
  "kvma_seek 0 base prev cur pool = Stop Hang"
| "kvma_seek (Suc fuel) base prev cur pool =
     (case cur of
        None \<Rightarrow> Ok (prev, None)
      | Some c \<Rightarrow>
          (if length pool \<le> c then Stop BadPointer
           else if vr_base (pool ! c) < base then kvma_seek fuel base (Some c) (vr_next (pool ! c)) pool
           else Ok (prev, Some c)))"

definition vr_end :: "vma_region \<Rightarrow> u64" where
  "vr_end r = vr_base r + vr_pages r * PMM_PAGE_SIZE"

text \<open>The part of \<open>kvma_free\<close> after the merge with the preceding region.\<close>

definition kvma_insert :: "u64 \<Rightarrow> u64 \<Rightarrow> nat option \<Rightarrow> nat option \<Rightarrow> 'a kvma_scheme \<Rightarrow> 'a kvma_scheme run" where
  "kvma_insert base count prev cur s =
     (let new_node = bindr (kvma_node_alloc (vma_pool s)) (\<lambda>n.
            Ok (set_link prev (Some n)
                  (s\<lparr>vma_pool := (vma_pool s)[n := \<lparr>vr_base = base, vr_pages = count, vr_next = cur\<rparr>]\<rparr>)))
      in case cur of
           Some c \<Rightarrow>
             if base + count * PMM_PAGE_SIZE = vr_base (vma_pool s ! c) then
               Ok (s\<lparr>vma_pool := (vma_pool s)[c := (vma_pool s ! c)\<lparr>vr_base := base,
                       vr_pages := vr_pages (vma_pool s ! c) + count\<rparr>]\<rparr>)
             else new_node
         | None \<Rightarrow> new_node)"

text \<open>The merge of the grown region \<open>p\<close> with the region \<open>cur\<close> that follows it.\<close>

definition kvma_absorb :: "nat \<Rightarrow> nat option \<Rightarrow> 'a kvma_scheme \<Rightarrow> 'a kvma_scheme" where
  "kvma_absorb p cur s =
     (let pool = vma_pool s
      in case cur of
           None \<Rightarrow> s
         | Some c \<Rightarrow>
             if vr_end (pool ! p) = vr_base (pool ! c) then
               (let pool = pool[p := (pool ! p)\<lparr>vr_pages := vr_pages (pool ! p) + vr_pages (pool ! c),
                                                vr_next := vr_next (pool ! c)\<rparr>]
                in s\<lparr>vma_pool := pool[c := (pool ! c)\<lparr>vr_pages := 0\<rparr>]\<rparr>)
             else s)"

definition kvma_merge :: "u64 \<Rightarrow> u64 \<Rightarrow> nat option \<Rightarrow> nat option \<Rightarrow> 'a kvma_scheme \<Rightarrow> 'a kvma_scheme run" where
  "kvma_merge base count prev cur s =
     (case prev of
        None \<Rightarrow> kvma_insert base count prev cur s
      | Some p \<Rightarrow>
          if vr_end (vma_pool s ! p) = base then
            Ok (kvma_absorb p cur
                  (s\<lparr>vma_pool := (vma_pool s)[p := (vma_pool s ! p)\<lparr>vr_pages := vr_pages (vma_pool s ! p) + count\<rparr>]\<rparr>))
          else kvma_insert base count prev cur s)"

definition kvma_free :: "u64 \<Rightarrow> u64 \<Rightarrow> 'a kvma_scheme \<Rightarrow> 'a kvma_scheme run" where
  "kvma_free base count s =
     bindr (kvma_lock_acquire s) (\<lambda>(irq_flags, s).
     bindr (kvma_seek (Suc (length (vma_pool s))) base None (vma_free_list s) (vma_pool s)) (\<lambda>(prev, cur).
     bindr (kvma_merge base count prev cur s) (\<lambda>s.
       Ok (kvma_lock_release irq_flags s))))"

section \<open>Linked lists in the pool\<close>

primrec seg :: "vma_region list \<Rightarrow> nat option \<Rightarrow> nat list \<Rightarrow> nat option \<Rightarrow> bool" where
  "seg pool h [] t \<longleftrightarrow> h = t"
| "seg pool h (i # is) t \<longleftrightarrow> h = Some i \<and> i < length pool \<and> seg pool (vr_next (pool ! i)) is t"

definition last_link :: "nat list \<Rightarrow> nat option" where
  "last_link is = (if is = [] then None else Some (last is))"

lemma seg_append: "seg pool h (xs @ ys) t \<longleftrightarrow> (\<exists>m. seg pool h xs m \<and> seg pool m ys t)"
  by (induction xs arbitrary: h) auto

lemma seg_in_pool: "seg pool h is t \<Longrightarrow> i \<in> set is \<Longrightarrow> i < length pool"
  by (induction "is" arbitrary: h) auto

lemma seg_update_other: "i \<notin> set is \<Longrightarrow> seg (pool[i := x]) h is t \<longleftrightarrow> seg pool h is t"
  by (induction "is" arbitrary: h) auto

lemma seg_update_same_next:
  assumes "vr_next x = vr_next (pool ! i)"
  shows "seg (pool[i := x]) h is t \<longleftrightarrow> seg pool h is t"
proof (induction "is" arbitrary: h)
  case (Cons j js)
  have "vr_next (pool[i := x] ! j) = vr_next (pool ! j)" if "j < length pool"
    using that assms by (cases "i = j") auto
  then show ?case unfolding seg.simps Cons.IH length_list_update by metis
qed simp

lemma seg_functional: "seg pool h is t \<Longrightarrow> seg pool h is t' \<Longrightarrow> t = t'"
  by (induction "is" arbitrary: h) auto

text \<open>Writing the last link of a segment redirects the segment.\<close>

lemma seg_relink:
  assumes "seg pool h (xs @ [p]) t" "p \<notin> set xs" "vr_next x = v"
  shows "seg (pool[p := x]) h (xs @ [p]) v"
  using assms by (auto simp: seg_append seg_update_other)


lemma set_link_seg:
  assumes "seg (vma_pool s) (vma_free_list s) as m" "distinct as"
    and "seg (vma_pool s) v zs None" "set as \<inter> set zs = {}"
  shows "seg (vma_pool (set_link (last_link as) v s)) (vma_free_list (set_link (last_link as) v s)) (as @ zs) None"
proof (cases as rule: rev_cases)
  case Nil
  then show ?thesis using assms(3) by (simp add: last_link_def set_link_def)
next
  case (snoc xs p)
  let ?pool = "(vma_pool s)[p := (vma_pool s ! p)\<lparr>vr_next := v\<rparr>]"
  have "seg ?pool (vma_free_list s) (xs @ [p]) v"
    using assms(1,2) snoc by (intro seg_relink [where t = m]) auto
  moreover have "seg ?pool v zs None"
    using assms(3,4) snoc by (auto simp: seg_update_other)
  ultimately show ?thesis
    using snoc by (auto simp: last_link_def set_link_def seg_append [of _ _ "xs @ [p]"] simp del: append_assoc)
qed

lemma relink_fields:
  "vr_base (pool[p := (pool ! p)\<lparr>vr_next := v\<rparr>] ! i) = vr_base (pool ! i)"
  "vr_pages (pool[p := (pool ! p)\<lparr>vr_next := v\<rparr>] ! i) = vr_pages (pool ! i)"
  by (cases "p < length pool"; simp add: nth_list_update list_update_beyond)+

lemma set_link_fields [simp]:
  "length (vma_pool (set_link prev v s)) = length (vma_pool s)"
  "vr_base (vma_pool (set_link prev v s) ! i) = vr_base (vma_pool s ! i)"
  "vr_pages (vma_pool (set_link prev v s) ! i) = vr_pages (vma_pool s ! i)"
  "kvma_lock (set_link prev v s) = kvma_lock s"
  "int_flag (set_link prev v s) = int_flag s"
  by (simp_all add: set_link_def relink_fields split: option.split)

section \<open>First fit and merge on a list of regions\<close>

type_synonym region = "nat \<times> nat"

fun va_take :: "nat \<Rightarrow> region list \<Rightarrow> (nat \<times> region list) option" where
  "va_take k [] = None"
| "va_take k ((b, n) # rs) =
     (if k \<le> n then Some (b, if n = k then rs else (b + k, n - k) # rs)
      else map_option (\<lambda>(x, rs'). (x, (b, n) # rs')) (va_take k rs))"

fun va_give :: "nat \<Rightarrow> nat \<Rightarrow> region list \<Rightarrow> region list" where
  "va_give b n [] = [(b, n)]"
| "va_give b n ((b1, n1) # rs) =
     (if b1 < b then
        (if b1 + n1 = b then
           (case rs of
              (b2, n2) # rs' \<Rightarrow> if b1 + n1 + n = b2 then (b1, n1 + n + n2) # rs' else (b1, n1 + n) # rs
            | [] \<Rightarrow> [(b1, n1 + n)])
         else (b1, n1) # va_give b n rs)
      else if b + n = b1 then (b, n1 + n) # rs
      else (b, n) # (b1, n1) # rs)"

text \<open>
  \<open>separated lo hi rs\<close>: the regions are non-empty, lie in \<open>[lo, hi)\<close>, ascend, and
  leave a gap between neighbours, so no two of them could be merged.
\<close>

fun separated :: "nat \<Rightarrow> nat \<Rightarrow> region list \<Rightarrow> bool" where
  "separated lo hi [] \<longleftrightarrow> True"
| "separated lo hi ((b, n) # rs) \<longleftrightarrow> lo \<le> b \<and> 0 < n \<and> b + n \<le> hi \<and> separated (b + n + 1) hi rs"

definition va_pages :: "region list \<Rightarrow> nat set" where
  "va_pages rs = (\<Union>(b, n)\<in>set rs. {b..<b + n})"

lemma va_pages_simps [simp]:
  "va_pages [] = {}" "va_pages ((b, n) # rs) = {b..<b + n} \<union> va_pages rs"
  "va_pages (rs @ rs') = va_pages rs \<union> va_pages rs'"
  by (auto simp: va_pages_def)

lemma separated_mono: "separated lo hi rs \<Longrightarrow> lo' \<le> lo \<Longrightarrow> separated lo' hi rs"
  by (cases rs) auto

lemma separated_pages: "separated lo hi rs \<Longrightarrow> va_pages rs \<subseteq> {lo..<hi}"
  by (induction lo hi rs rule: separated.induct) fastforce+

lemma va_take_None: "va_take k rs = None \<longleftrightarrow> (\<forall>(b, n)\<in>set rs. n < k)"
  by (induction k rs rule: va_take.induct) auto

text \<open>First fit takes a range of free pages out of the set and keeps the regions apart.\<close>

lemma va_take_Some:
  assumes "separated lo hi rs" "va_take k rs = Some (b, rs')"
  shows "{b..<b + k} \<subseteq> va_pages rs \<and> va_pages rs' = va_pages rs - {b..<b + k} \<and> separated lo hi rs'"
  using assms
proof (induction rs arbitrary: lo rs')
  case (Cons r rs)
  obtain b1 n1 where r: "r = (b1, n1)" by fastforce
  have sep: "separated (b1 + n1 + 1) hi rs" "lo \<le> b1" "0 < n1" "b1 + n1 \<le> hi"
    using Cons.prems(1) r by auto
  note above = separated_pages [OF sep(1)]
  show ?case
  proof (cases "k \<le> n1")
    case True
    have sep': "separated lo hi rs" by (rule separated_mono [OF sep(1)]) (use sep in simp)
    show ?thesis
    proof (cases "n1 = k")
      case True
      then have "b = b1" "rs' = rs" using Cons.prems(2) r by auto
      then show ?thesis using True r above sep' by force
    next
      case False
      then have "b = b1" "rs' = (b1 + k, n1 - k) # rs" using Cons.prems(2) r True by auto
      then show ?thesis using True False r above sep by force
    qed
  next
    case False
    then obtain rs1 where rs1: "va_take k rs = Some (b, rs1)" "rs' = (b1, n1) # rs1"
      using Cons.prems(2) r by auto
    note IH = Cons.IH [OF sep(1) rs1(1)]
    moreover have "{b..<b + k} \<inter> {b1..<b1 + n1} = {}"
      using IH above by fastforce
    ultimately show ?thesis using rs1(2) r sep by auto
  qed
qed simp

lemma apart_iff: "{b..<b + n} \<inter> {c..<c + m} = {} \<longleftrightarrow> b + n \<le> c \<or> c + m \<le> b" if "0 < n" "0 < m" for b c n m :: nat
  using that by (auto simp: Int_atLeastLessThan)

text \<open>Giving a range back adds it to the set; neighbouring regions are merged, so the gaps stay.\<close>

lemma va_give_correct:
  assumes "separated lo hi rs" "0 < n" "lo \<le> b" "b + n \<le> hi" "{b..<b + n} \<inter> va_pages rs = {}"
  shows "va_pages (va_give b n rs) = va_pages rs \<union> {b..<b + n} \<and> separated lo hi (va_give b n rs)"
  using assms
proof (induction rs arbitrary: lo)
  case (Cons r rs)
  obtain b1 n1 where r: "r = (b1, n1)" by fastforce
  have sep: "separated (b1 + n1 + 1) hi rs" "lo \<le> b1" "0 < n1" "b1 + n1 \<le> hi"
    using Cons.prems(1) r by auto
  have "{b..<b + n} \<inter> {b1..<b1 + n1} = {}" and apart: "{b..<b + n} \<inter> va_pages rs = {}"
    using Cons.prems(5) r by (simp_all add: Int_Un_distrib)
  then have side: "b + n \<le> b1 \<or> b1 + n1 \<le> b" using Cons.prems(2) sep(3) by (simp only: apart_iff)
  consider (before) "\<not> b1 < b" | (touch) "b1 < b" "b1 + n1 = b" | (after) "b1 < b" "b1 + n1 \<noteq> b" by blast
  then show ?case
  proof cases
    case before
    then have "b + n \<le> b1" using side sep(3) by auto
    then show ?thesis using before r sep Cons.prems by (auto simp: ac_simps)
  next
    case touch
    show ?thesis
    proof (cases rs)
      case Nil
      then show ?thesis using touch r sep Cons.prems by auto
    next
      case (Cons r2 rs2)
      obtain b2 n2 where r2: "r2 = (b2, n2)" by fastforce
      have "{b..<b + n} \<inter> {b2..<b2 + n2} = {}" "0 < n2" "b < b2"
        using apart Cons r2 sep(1) touch by (auto simp: Int_Un_distrib)
      then have "b + n \<le> b2" using Cons.prems(2) by (simp add: apart_iff)
      then show ?thesis using touch r r2 Cons sep Cons.prems by (auto simp: ac_simps)
    qed
  next
    case after
    then have "b1 + n1 + 1 \<le> b" using side by auto
    then show ?thesis using Cons.IH [OF sep(1) Cons.prems(2) _ Cons.prems(4) apart] after r sep by auto
  qed
qed auto

end
