(* ===== verification/Kvma_Refine.thy ===== *)
theory Kvma_Refine
  imports Kvma
begin

text \<open>
  The linked list of free regions implements first fit and merge on a list of
  regions (\<open>va_take\<close>, \<open>va_give\<close>), and through it the set of free virtual pages.
  \<open>kvma_rep s ns rs\<close> says that the list threaded through the nodes \<open>ns\<close> of the
  pool spells the regions \<open>rs\<close> and that every other node is unused.
\<close>

section \<open>Representation\<close>

definition holds :: "vma_region \<Rightarrow> region \<Rightarrow> bool" where
  "holds r = (\<lambda>(b, n). vr_base r = page_addr b \<and> vr_pages r = of_nat n \<and> 0 < n \<and> b + n < 2 ^ 52)"

definition kvma_rep :: "'a kvma_scheme \<Rightarrow> nat list \<Rightarrow> region list \<Rightarrow> bool" where
  "kvma_rep s ns rs \<longleftrightarrow>
     seg (vma_pool s) (vma_free_list s) ns None \<and> distinct ns \<and>
     list_all2 (\<lambda>i. holds (vma_pool s ! i)) ns rs \<and>
     (\<forall>i<length (vma_pool s). i \<notin> set ns \<longrightarrow> vr_pages (vma_pool s ! i) = 0)"

lemma holds_iff [simp]:
  "holds r (b, n) \<longleftrightarrow> vr_base r = page_addr b \<and> vr_pages r = of_nat n \<and> 0 < n \<and> b + n < 2 ^ 52"
  by (simp add: holds_def)

lemma small_of_nat_le: "(of_nat k :: u64) \<le> of_nat n \<longleftrightarrow> k \<le> n" if "k < 2 ^ 52" "n < 2 ^ 52"
  using that by (simp add: word_le_nat_alt unat_of_nat_u64)

lemma small_of_nat_eq: "(of_nat k :: u64) = of_nat n \<longleftrightarrow> k = n" if "k < 2 ^ 52" "n < 2 ^ 52"
  using of_nat_u64_inj [of k n] that by auto

lemma of_nat_minus: "k \<le> n \<Longrightarrow> (of_nat n :: u64) - of_nat k = of_nat (n - k)"
  by (simp add: of_nat_diff)

lemma page_addr_add: "page_addr b + of_nat k * PMM_PAGE_SIZE = page_addr (b + k)"
  by (simp add: page_addr_def algebra_simps)

lemma page_addr_less: "page_addr a < page_addr b \<longleftrightarrow> a < b" if "a < 2 ^ 52" "b < 2 ^ 52"
  using that by (simp add: word_less_nat_alt unat_page_addr)

lemma rep_length: "kvma_rep s ns rs \<Longrightarrow> length ns \<le> length (vma_pool s)"
proof -
  assume "kvma_rep s ns rs"
  then have "set ns \<subseteq> {..<length (vma_pool s)}" "distinct ns"
    by (auto simp: kvma_rep_def dest: seg_in_pool)
  then show ?thesis using card_mono [of "{..<length (vma_pool s)}" "set ns"] by (simp add: distinct_card)
qed

lemma nodes_cong:
  assumes "list_all2 (\<lambda>i. holds (pool ! i)) is rs"
    and "\<And>i. i \<in> set is \<Longrightarrow> vr_base (pool' ! i) = vr_base (pool ! i) \<and> vr_pages (pool' ! i) = vr_pages (pool ! i)"
  shows "list_all2 (\<lambda>i. holds (pool' ! i)) is rs"
  using assms(1) by (rule list.rel_mono_strong) (auto simp: holds_def assms(2) split: prod.splits)

lemma nodes_update_other:
  "c \<notin> set is \<Longrightarrow> list_all2 (\<lambda>i. holds (pool[c := x] ! i)) is rs \<longleftrightarrow> list_all2 (\<lambda>i. holds (pool ! i)) is rs"
  by (intro list.rel_cong refl) (metis nth_list_update_neq)

lemma list_all2_member: "list_all2 P xs ys \<Longrightarrow> x \<in> set xs \<Longrightarrow> \<exists>y\<in>set ys. P x y"
  by (metis in_set_conv_nth list_all2_conv_all_nth)

section \<open>Allocation\<close>

text \<open>What the loop does once it stands on a node that is large enough.\<close>

definition take_node :: "u64 \<Rightarrow> nat option \<Rightarrow> nat \<Rightarrow> 'a kvma_scheme \<Rightarrow> u64 \<times> 'a kvma_scheme" where
  "take_node count prev c s =
     (let node = vma_pool s ! c;
          node1 = node\<lparr>vr_base := vr_base node + count * PMM_PAGE_SIZE, vr_pages := vr_pages node - count\<rparr>
      in (vr_base node,
          if vr_pages node1 = 0 then
            (let s = set_link prev (vr_next node) (s\<lparr>vma_pool := (vma_pool s)[c := node1]\<rparr>)
             in s\<lparr>vma_pool := (vma_pool s)[c := (vma_pool s ! c)\<lparr>vr_base := 0, vr_next := None\<rparr>]\<rparr>)
          else s\<lparr>vma_pool := (vma_pool s)[c := node1]\<rparr>))"

lemma alloc_loop_finds:
  assumes "seg (vma_pool s) cur (as @ c # bs) None" "length as < fuel"
    and "\<forall>a\<in>set as. \<not> count \<le> vr_pages (vma_pool s ! a)" "count \<le> vr_pages (vma_pool s ! c)"
  shows "kvma_alloc_loop fuel count (last_link xs) cur s = Ok (Some (take_node count (last_link (xs @ as)) c s))"
  using assms
proof (induction as arbitrary: fuel cur xs)
  case Nil
  then show ?case by (cases fuel) (auto simp: take_node_def Let_def)
next
  case (Cons a as)
  then obtain f where f: "fuel = Suc f" by (cases fuel) auto
  have "kvma_alloc_loop f count (last_link (xs @ [a])) (vr_next (vma_pool s ! a)) s =
        Ok (Some (take_node count (last_link ((xs @ [a]) @ as)) c s))"
    using Cons.prems f by (intro Cons.IH) auto
  moreover have "last_link (xs @ [a]) = Some a" by (simp add: last_link_def)
  ultimately show ?case using Cons.prems f by auto
qed

lemma alloc_loop_fails:
  assumes "seg (vma_pool s) cur ns None" "length ns < fuel"
    and "\<forall>a\<in>set ns. \<not> count \<le> vr_pages (vma_pool s ! a)"
  shows "kvma_alloc_loop fuel count prev cur s = Ok None"
  using assms
proof (induction ns arbitrary: fuel cur prev)
  case Nil
  then show ?case by (cases fuel) auto
next
  case (Cons a as)
  then show ?case by (cases fuel) auto
qed

lemma va_take_split:
  assumes "va_take k rs = Some (b, rs')"
  obtains as n bs where "rs = as @ (b, n) # bs" "\<forall>(x, m)\<in>set as. m < k" "k \<le> n"
    "rs' = as @ (if n = k then bs else (b + k, n - k) # bs)"
  using assms
proof (induction rs arbitrary: rs' thesis)
  case (Cons r rs)
  obtain b1 n1 where r: "r = (b1, n1)" by fastforce
  show ?case
  proof (cases "k \<le> n1")
    case True
    then show ?thesis using r Cons.prems by (intro Cons.prems(1) [of "[]" n1 rs]) auto
  next
    case False
    then obtain rs1 where "va_take k rs = Some (b, rs1)" "rs' = (b1, n1) # rs1"
      using Cons.prems(2) r by auto
    moreover from this(1) obtain as n bs where "rs = as @ (b, n) # bs" "\<forall>(x, m)\<in>set as. m < k" "k \<le> n"
        "rs1 = as @ (if n = k then bs else (b + k, n - k) # bs)"
      using Cons.IH by blast
    ultimately show ?thesis using r False by (intro Cons.prems(1) [of "(b1, n1) # as" n bs]) auto
  qed
qed simp

text \<open>Changing the region a node holds, but not its link.\<close>

lemma update_node_rep:
  assumes rep: "kvma_rep s (as @ c # cs) (ras @ r # rcs)" and len: "length as = length ras"
    and x: "holds x r'" "vr_next x = vr_next (vma_pool s ! c)"
  shows "kvma_rep (s\<lparr>vma_pool := (vma_pool s)[c := x]\<rparr>) (as @ c # cs) (ras @ r' # rcs)"
proof -
  let ?pool = "vma_pool s"
  have other: "list_all2 (\<lambda>i. holds (?pool ! i)) as ras" "list_all2 (\<lambda>i. holds (?pool ! i)) cs rcs"
    and dist: "distinct (as @ c # cs)" and segs: "seg ?pool (vma_free_list s) (as @ c # cs) None"
    and unused: "\<forall>i<length ?pool. i \<notin> set (as @ c # cs) \<longrightarrow> vr_pages (?pool ! i) = 0"
    using rep len by (auto simp: kvma_rep_def list_all2_append)
  have cl: "c < length ?pool" using segs by (auto simp: seg_append)
  have "seg (?pool[c := x]) (vma_free_list s) (as @ c # cs) None"
    using segs x(2) by (subst seg_update_same_next) auto
  moreover have "list_all2 (\<lambda>i. holds (?pool[c := x] ! i)) (as @ c # cs) (ras @ r' # rcs)"
    using other dist cl x(1) by (intro list_all2_appendI list.rel_intros) (auto simp: nodes_update_other)
  moreover have "\<forall>i<length ?pool. i \<notin> set (as @ c # cs) \<longrightarrow> vr_pages (?pool[c := x] ! i) = 0"
    using unused by auto
  ultimately show ?thesis using dist unfolding kvma_rep_def by simp
qed

text \<open>Taking \<open>k\<close> pages from the node that holds \<open>(b, n)\<close>, in the middle of the list.\<close>

lemma take_node_rep:
  assumes rep: "kvma_rep s (as @ c # cs) (ras @ (b, n) # rcs)" and len: "length as = length ras"
    and k: "k \<le> n"
  shows "\<exists>s' ns'. take_node (of_nat k) (last_link as) c s = (page_addr b, s') \<and>
     kvma_rep s' ns' (ras @ (if n = k then rcs else (b + k, n - k) # rcs)) \<and>
     s' = s\<lparr>vma_pool := vma_pool s', vma_free_list := vma_free_list s'\<rparr>"
proof -
  let ?pool = "vma_pool s"
  have c: "vr_base (?pool ! c) = page_addr b" "vr_pages (?pool ! c) = of_nat n" "0 < n" "b + n < 2 ^ 52"
    and other: "list_all2 (\<lambda>i. holds (?pool ! i)) as ras" "list_all2 (\<lambda>i. holds (?pool ! i)) cs rcs"
    and dist: "distinct (as @ c # cs)" and segs: "seg ?pool (vma_free_list s) (as @ c # cs) None"
    and unused: "\<forall>i<length ?pool. i \<notin> set (as @ c # cs) \<longrightarrow> vr_pages (?pool ! i) = 0"
    using rep len by (auto simp: kvma_rep_def list_all2_append)
  have cl: "c < length ?pool" using segs by (auto simp: seg_append)
  let ?node = "(?pool ! c)\<lparr>vr_base := page_addr (b + k), vr_pages := of_nat (n - k)\<rparr>"
  let ?s1 = "s\<lparr>vma_pool := ?pool[c := ?node]\<rparr>"
  have take: "take_node (of_nat k) (last_link as) c s =
      (page_addr b, if n = k then
         (let t = set_link (last_link as) (vr_next (?pool ! c)) ?s1
          in t\<lparr>vma_pool := (vma_pool t)[c := (vma_pool t ! c)\<lparr>vr_base := 0, vr_next := None\<rparr>]\<rparr>)
       else ?s1)"
  proof (cases "n = k")
    case True
    then show ?thesis using c by (simp add: take_node_def page_addr_add Let_def)
  next
    case False
    have "(of_nat n :: u64) \<noteq> of_nat k" using small_of_nat_eq [of n k] c(4) k False by auto
    then show ?thesis using c k False by (simp add: take_node_def page_addr_add Let_def of_nat_diff)
  qed
  show ?thesis
  proof (cases "n = k")
    case False
    then have "kvma_rep ?s1 (as @ c # cs) (ras @ (b + k, n - k) # rcs)"
      using c k by (intro update_node_rep [OF rep len]) auto
    then show ?thesis using take False by (intro exI [of _ ?s1] exI [of _ "as @ c # cs"]) simp
  next
    case True
    define t where "t = set_link (last_link as) (vr_next (?pool ! c)) ?s1"
    define s' where "s' = t\<lparr>vma_pool := (vma_pool t)[c := (vma_pool t ! c)\<lparr>vr_base := 0, vr_next := None\<rparr>]\<rparr>"
    have notin: "c \<notin> set as" "c \<notin> set cs" "distinct as" "set as \<inter> set cs = {}" "distinct (as @ cs)"
      using dist by auto
    have "seg ?pool (vma_free_list s) as (Some c)" "seg ?pool (vr_next (?pool ! c)) cs None"
      using segs by (auto simp: seg_append)
    then have "seg (vma_pool t) (vma_free_list t) (as @ cs) None"
      unfolding t_def using notin by (intro set_link_seg [where m = "Some c"]) (auto simp: seg_update_other)
    then have seg': "seg (vma_pool s') (vma_free_list s') (as @ cs) None"
      using notin by (simp add: seg_update_other s'_def)
    have len': "length (vma_pool s') = length ?pool" by (simp add: s'_def t_def)
    have same: "vr_base (vma_pool s' ! i) = vr_base (?pool ! i) \<and> vr_pages (vma_pool s' ! i) = vr_pages (?pool ! i)"
      if "i \<noteq> c" for i
      using that by (simp add: s'_def t_def)
    have "vr_pages (vma_pool s' ! c) = 0" using cl True by (simp add: s'_def t_def)
    then have unused': "vr_pages (vma_pool s' ! i) = 0" if "i < length ?pool" "i \<notin> set (as @ cs)" for i
      using that unused same [of i] by (cases "i = c") auto
    have "list_all2 (\<lambda>i. holds (vma_pool s' ! i)) (as @ cs) (ras @ rcs)"
      using nodes_cong [OF other(1)] nodes_cong [OF other(2)] notin(1,2) same
      by (intro list_all2_appendI) metis+
    then have "kvma_rep s' (as @ cs) (ras @ rcs)"
      using notin(5) seg' len' unused' unfolding kvma_rep_def by simp
    moreover have "s' = s\<lparr>vma_pool := vma_pool s', vma_free_list := vma_free_list s'\<rparr>"
      by (simp add: s'_def t_def set_link_def split: option.split)
    moreover have "take_node (of_nat k) (last_link as) c s = (page_addr b, s')"
      using take True by (simp add: s'_def t_def Let_def)
    ultimately show ?thesis using True by (intro exI [of _ s'] exI [of _ "as @ cs"]) simp
  qed
qed


lemma kvma_rep_irrelevant [simp]:
  "kvma_rep (s\<lparr>int_flag := f, kvma_lock := l\<rparr>) ns rs \<longleftrightarrow> kvma_rep s ns rs"
  by (simp add: kvma_rep_def)

lemma kvma_lock_acquire_free [run_simps]:
  "kvma_lock s = 0 \<Longrightarrow> kvma_lock_acquire s = Ok (rflags s, s\<lparr>int_flag := False, kvma_lock := 1\<rparr>)"
  by (simp add: kvma_lock_acquire_def run_simps)

lemma kvma_lock_release_simp [run_simps]:
  "kvma_lock_release (rflags s) t = t\<lparr>int_flag := int_flag s \<or> int_flag t, kvma_lock := 0\<rparr>"
  by (simp add: kvma_lock_release_def run_simps)

text \<open>\<open>kvma_alloc\<close> is first fit on the list of regions.\<close>

lemma kvma_alloc_refines:
  assumes rep: "kvma_rep s ns rs" and lock: "kvma_lock s = 0" and k: "k < 2 ^ 52"
  shows "case va_take k rs of
           None \<Rightarrow> kvma_alloc (of_nat k) s = Stop (Panic ''vmm: kernel VA space exhausted'')
         | Some (b, rs') \<Rightarrow> \<exists>pool h ns'. kvma_alloc (of_nat k) s = Ok (page_addr b, s\<lparr>vma_pool := pool, vma_free_list := h\<rparr>) \<and>
                                      kvma_rep (s\<lparr>vma_pool := pool, vma_free_list := h\<rparr>) ns' rs'"
proof -
  let ?l = "s\<lparr>int_flag := False, kvma_lock := 1\<rparr>"
  have seg: "seg (vma_pool s) (vma_free_list s) ns None" and nodes: "list_all2 (\<lambda>i. holds (vma_pool s ! i)) ns rs"
    using rep by (auto simp: kvma_rep_def)
  have fuel: "length ns < Suc (length (vma_pool s))" using rep_length [OF rep] by simp
  have fits: "of_nat k \<le> vr_pages (vma_pool s ! i) \<longleftrightarrow> k \<le> n" if "holds (vma_pool s ! i) (b, n)" for i b n
    using that k by (auto simp: small_of_nat_le)
  show ?thesis
  proof (cases "va_take k rs")
    case None
    then have small: "\<forall>(b, n)\<in>set rs. n < k" by (simp add: va_take_None)
    have "\<not> of_nat k \<le> vr_pages (vma_pool s ! i)" if i: "i \<in> set ns" for i
    proof -
      obtain x m where "(x, m) \<in> set rs" "holds (vma_pool s ! i) (x, m)"
        using list_all2_member [OF nodes i] by fastforce
      then show ?thesis using fits [of i x m] small by fastforce
    qed
    then have "kvma_alloc_loop (Suc (length (vma_pool s))) (of_nat k) None (vma_free_list s) ?l = Ok None"
      using seg fuel by (intro alloc_loop_fails [where ns = ns]) auto
    then show ?thesis using None lock by (simp add: kvma_alloc_def run_simps del: kvma_alloc_loop.simps)
  next
    case (Some p)
    obtain b rs' where p: "p = (b, rs')" by fastforce
    obtain ras n rbs where split: "rs = ras @ (b, n) # rbs" "\<forall>(x, m)\<in>set ras. m < k" "k \<le> n"
      "rs' = ras @ (if n = k then rbs else (b + k, n - k) # rbs)"
      using va_take_split Some p by metis
    obtain as c bs where ns: "ns = as @ c # bs" "list_all2 (\<lambda>i. holds (vma_pool s ! i)) as ras" "holds (vma_pool s ! c) (b, n)"
      using nodes unfolding split(1) by (auto simp: list_all2_append2 list_all2_Cons2 simp del: holds_iff)
    have "\<not> of_nat k \<le> vr_pages (vma_pool s ! i)" if i: "i \<in> set as" for i
    proof -
      obtain x m where "(x, m) \<in> set ras" "holds (vma_pool s ! i) (x, m)"
        using list_all2_member [OF ns(2) i] by fastforce
      then show ?thesis using fits [of i x m] split(2) by fastforce
    qed
    then have loop: "kvma_alloc_loop (Suc (length (vma_pool s))) (of_nat k) None (vma_free_list s) ?l =
        Ok (Some (take_node (of_nat k) (last_link as) c ?l))"
      using seg fuel ns(1) fits [OF ns(3)] split(3)
        alloc_loop_finds [of ?l "vma_free_list s" as c bs "Suc (length (vma_pool s))" "of_nat k" "[]"]
      by (simp add: last_link_def del: kvma_alloc_loop.simps)
    have "kvma_rep ?l (as @ c # bs) (ras @ (b, n) # rbs)" using rep ns(1) split(1) by simp
    from take_node_rep [OF this list_all2_lengthD [OF ns(2)] split(3)]
    obtain s' ns' where s': "take_node (of_nat k) (last_link as) c ?l = (page_addr b, s')"
      "kvma_rep s' ns' rs'" "s' = ?l\<lparr>vma_pool := vma_pool s', vma_free_list := vma_free_list s'\<rparr>"
      using split(4) by blast
    let ?s = "s\<lparr>vma_pool := vma_pool s', vma_free_list := vma_free_list s'\<rparr>"
    have "kvma_lock_release (rflags s) s' = ?s"
      by (subst s'(3)) (simp add: run_simps lock)
    moreover have "kvma_rep ?s ns' rs'" using s'(2) by (simp add: kvma_rep_def)
    ultimately show ?thesis using Some p loop s'(1) lock
      by (auto simp: kvma_alloc_def run_simps simp del: kvma_alloc_loop.simps)
  qed
qed

section \<open>Release\<close>

lemma seek_finds:
  assumes "seg pool cur (as @ bs) None" "length as < fuel"
    and "\<forall>a\<in>set as. vr_base (pool ! a) < base" "\<forall>c cs. bs = c # cs \<longrightarrow> \<not> vr_base (pool ! c) < base"
  shows "kvma_seek fuel base (last_link xs) cur pool =
           Ok (last_link (xs @ as), case bs of [] \<Rightarrow> None | c # cs \<Rightarrow> Some c)"
  using assms
proof (induction as arbitrary: fuel cur xs)
  case Nil
  then show ?case by (cases fuel; cases bs) auto
next
  case (Cons a as)
  then obtain f where f: "fuel = Suc f" by (cases fuel) auto
  have "kvma_seek f base (last_link (xs @ [a])) (vr_next (pool ! a)) pool =
        Ok (last_link ((xs @ [a]) @ as), case bs of [] \<Rightarrow> None | c # cs \<Rightarrow> Some c)"
    using Cons.prems f by (intro Cons.IH) auto
  moreover have "last_link (xs @ [a]) = Some a" by (simp add: last_link_def)
  ultimately show ?case using Cons.prems f by auto
qed


definition first_link :: "nat list \<Rightarrow> nat option" where
  "first_link is = (case is of [] \<Rightarrow> None | i # _ \<Rightarrow> Some i)"

lemma seg_first: "seg pool m is None \<Longrightarrow> m = first_link is"
  by (cases "is") (auto simp: first_link_def)

text \<open>Linking a new node between \<open>as\<close> and \<open>bs\<close>.\<close>

lemma insert_node_rep:
  assumes rep: "kvma_rep s (as @ bs) (ras @ rbs)" and len: "length as = length ras"
    and i: "i < length (vma_pool s)" "i \<notin> set (as @ bs)"
    and x: "holds x r" "vr_next x = first_link bs"
  shows "kvma_rep (set_link (last_link as) (Some i) (s\<lparr>vma_pool := (vma_pool s)[i := x]\<rparr>)) (as @ i # bs) (ras @ r # rbs)"
proof -
  let ?pool = "vma_pool s"
  have other: "list_all2 (\<lambda>i. holds (?pool ! i)) as ras" "list_all2 (\<lambda>i. holds (?pool ! i)) bs rbs"
    and dist: "distinct (as @ bs)" and segs: "seg ?pool (vma_free_list s) (as @ bs) None"
    and unused: "\<forall>i<length ?pool. i \<notin> set (as @ bs) \<longrightarrow> vr_pages (?pool ! i) = 0"
    using rep len by (auto simp: kvma_rep_def list_all2_append)
  obtain m where m: "seg ?pool (vma_free_list s) as m" "seg ?pool m bs None"
    using segs by (auto simp: seg_append)
  define s' where "s' = set_link (last_link as) (Some i) (s\<lparr>vma_pool := ?pool[i := x]\<rparr>)"
  have seg': "seg (vma_pool s') (vma_free_list s') (as @ i # bs) None"
    unfolding s'_def
  proof (rule set_link_seg)
    show "seg (vma_pool (s\<lparr>vma_pool := ?pool[i := x]\<rparr>)) (vma_free_list (s\<lparr>vma_pool := ?pool[i := x]\<rparr>)) as m"
      using m(1) i(2) by (simp add: seg_update_other)
    show "seg (vma_pool (s\<lparr>vma_pool := ?pool[i := x]\<rparr>)) (Some i) (i # bs) None"
      using m(2) i x(2) seg_first [OF m(2)] by (simp add: seg_update_other)
  qed (use dist i in auto)
  have len': "length (vma_pool s') = length ?pool" by (simp add: s'_def)
  have same: "vr_base (vma_pool s' ! j) = vr_base (?pool ! j) \<and> vr_pages (vma_pool s' ! j) = vr_pages (?pool ! j)"
    if "j \<noteq> i" for j using that by (simp add: s'_def)
  have new: "holds (vma_pool s' ! i) r" using x(1) i(1) by (cases r) (simp add: s'_def)
  have "list_all2 (\<lambda>i. holds (vma_pool s' ! i)) (as @ i # bs) (ras @ r # rbs)"
    using nodes_cong [OF other(1)] nodes_cong [OF other(2)] i(2) same new
    by (intro list_all2_appendI list.rel_intros) (metis Un_iff set_append)+
  moreover have "vr_pages (vma_pool s' ! j) = 0" if "j < length ?pool" "j \<notin> set (as @ i # bs)" for j
    using that unused same [of j] by auto
  ultimately have "kvma_rep s' (as @ i # bs) (ras @ r # rbs)"
    using seg' len' dist i(2) unfolding kvma_rep_def by auto
  then show ?thesis by (simp only: s'_def)
qed

text \<open>Absorbing the node \<open>c\<close> into its predecessor \<open>p\<close>.\<close>

lemma absorb_node_rep:
  assumes rep: "kvma_rep s (as @ p # c # cs) (ras @ r1 # r2 # rcs)" and len: "length as = length ras"
    and x: "holds x r" "vr_next x = vr_next (vma_pool s ! c)" and y: "vr_pages y = 0"
  shows "kvma_rep (s\<lparr>vma_pool := (vma_pool s)[p := x, c := y]\<rparr>) (as @ p # cs) (ras @ r # rcs)"
proof -
  let ?pool = "vma_pool s"
  have other: "list_all2 (\<lambda>i. holds (?pool ! i)) as ras" "list_all2 (\<lambda>i. holds (?pool ! i)) cs rcs"
    and dist: "distinct (as @ p # c # cs)" and segs: "seg ?pool (vma_free_list s) (as @ p # c # cs) None"
    and unused: "\<forall>i<length ?pool. i \<notin> set (as @ p # c # cs) \<longrightarrow> vr_pages (?pool ! i) = 0"
    using rep len by (auto simp: kvma_rep_def list_all2_append)
  have pl: "p < length ?pool" "c < length ?pool"
    and seg1: "seg ?pool (vma_free_list s) as (Some p)" "seg ?pool (vr_next (?pool ! c)) cs None"
    using segs by (auto simp: seg_append)
  have "seg (?pool[p := x, c := y]) (vma_free_list s) (as @ p # cs) None"
    using seg1 dist pl x(2) by (auto simp: seg_append seg_update_other)
  moreover have "list_all2 (\<lambda>i. holds (?pool[p := x, c := y] ! i)) (as @ p # cs) (ras @ r # rcs)"
    using other dist pl x(1) by (intro list_all2_appendI list.rel_intros) (auto simp: nodes_update_other)
  moreover have "vr_pages (?pool[p := x, c := y] ! i) = 0" if "i < length ?pool" "i \<notin> set (as @ p # cs)" for i
    using that unused y pl by (cases "i = c") auto
  ultimately show ?thesis using dist unfolding kvma_rep_def by simp
qed


lemma node_alloc_free:
  assumes rep: "kvma_rep s ns rs" and room: "length ns < length (vma_pool s)"
  obtains i where "kvma_node_alloc (vma_pool s) = Ok i" "i < length (vma_pool s)" "i \<notin> set ns"
proof -
  let ?P = "\<lambda>i. vr_pages (vma_pool s ! i) = 0"
  have used: "\<not> ?P i" if "i \<in> set ns" for i
  proof -
    have "list_all2 (\<lambda>i. holds (vma_pool s ! i)) ns rs" using rep by (simp add: kvma_rep_def)
    from list_all2_member [OF this that] obtain b n where "holds (vma_pool s ! i) (b, n)" by fastforce
    then show ?thesis using small_of_nat_eq [of n 0] by (simp del: of_nat_eq_0_iff)
  qed
  have "card (set ns) < card {..<length (vma_pool s)}"
    using rep room by (simp add: kvma_rep_def distinct_card)
  then obtain j where "j < length (vma_pool s)" "j \<notin> set ns"
    by (metis card_mono finite_set lessThan_iff not_le subsetI)
  then have "?P j" using rep by (simp add: kvma_rep_def)
  then obtain i where i: "find ?P [0..<length (vma_pool s)] = Some i"
    using \<open>j < _\<close> by (cases "find ?P [0..<length (vma_pool s)]") (auto simp: find_None_iff)
  then have "i < length (vma_pool s)" "?P i" by (auto simp: find_Some_iff)
  then show thesis using that i used by (auto simp: kvma_node_alloc_def)
qed

definition give_here :: "nat \<Rightarrow> nat \<Rightarrow> region list \<Rightarrow> region list" where
  "give_here b n rs =
     (case rs of (b2, n2) # rs' \<Rightarrow> if b + n = b2 then (b, n2 + n) # rs' else (b, n) # rs | [] \<Rightarrow> [(b, n)])"

lemma kvma_insert_rep:
  assumes rep: "kvma_rep s (as @ bs) (ras @ rbs)" and len: "length as = length ras"
    and n: "0 < n" "b + n < 2 ^ 52" and room: "length (as @ bs) < length (vma_pool s)"
  shows "\<exists>s' ns'. kvma_insert (page_addr b) (of_nat n) (last_link as) (first_link bs) s = Ok s' \<and>
           kvma_rep s' ns' (ras @ give_here b n rbs) \<and>
           s' = s\<lparr>vma_pool := vma_pool s', vma_free_list := vma_free_list s'\<rparr>"
proof (cases "\<exists>n2 rcs. rbs = (b + n, n2) # rcs")
  case True
  then obtain n2 rcs where rbs: "rbs = (b + n, n2) # rcs" by blast
  then obtain c cs where bs: "bs = c # cs" "holds (vma_pool s ! c) (b + n, n2)"
    using rep len by (auto simp: kvma_rep_def list_all2_append list_all2_Cons2 simp del: holds_iff)
  let ?x = "(vma_pool s ! c)\<lparr>vr_base := page_addr b, vr_pages := vr_pages (vma_pool s ! c) + of_nat n\<rparr>"
  let ?s = "s\<lparr>vma_pool := (vma_pool s)[c := ?x]\<rparr>"
  have "holds ?x (b, n2 + n)" using bs(2) n by simp
  then have "kvma_rep ?s (as @ bs) (ras @ give_here b n rbs)"
    using update_node_rep [of s as c cs ras "(b + n, n2)" rcs ?x "(b, n2 + n)"] rep len bs(1) rbs
    by (simp add: give_here_def del: holds_iff)
  moreover have "kvma_insert (page_addr b) (of_nat n) (last_link as) (first_link bs) s = Ok ?s"
    using bs by (simp add: kvma_insert_def first_link_def page_addr_add)
  ultimately show ?thesis by (intro exI [of _ ?s] exI [of _ "as @ bs"]) simp
next
  case False
  obtain i where i: "kvma_node_alloc (vma_pool s) = Ok i" "i < length (vma_pool s)" "i \<notin> set (as @ bs)"
    using node_alloc_free [OF rep room] by blast
  let ?x = "\<lparr>vr_base = page_addr b, vr_pages = of_nat n, vr_next = first_link bs\<rparr>"
  let ?s = "set_link (last_link as) (Some i) (s\<lparr>vma_pool := (vma_pool s)[i := ?x]\<rparr>)"
  have here: "give_here b n rbs = (b, n) # rbs"
    using False by (auto simp: give_here_def split: list.splits)
  have "kvma_rep ?s (as @ i # bs) (ras @ (b, n) # rbs)"
    using n by (intro insert_node_rep [OF rep len i(2,3)]) auto
  moreover have "kvma_insert (page_addr b) (of_nat n) (last_link as) (first_link bs) s = Ok ?s"
  proof (cases bs)
    case Nil
    then show ?thesis using i by (simp add: kvma_insert_def first_link_def)
  next
    case (Cons c cs)
    then obtain b2 n2 rcs where rbs: "rbs = (b2, n2) # rcs" "holds (vma_pool s ! c) (b2, n2)"
      using rep len by (auto simp: kvma_rep_def list_all2_append list_all2_Cons1 simp del: holds_iff)
    then have "page_addr (b + n) \<noteq> vr_base (vma_pool s ! c)"
      using False n page_addr_inj [of "b + n" b2] by auto
    then show ?thesis using i Cons by (simp add: kvma_insert_def first_link_def page_addr_add)
  qed
  moreover have "?s = s\<lparr>vma_pool := vma_pool ?s, vma_free_list := vma_free_list ?s\<rparr>"
    by (simp add: set_link_def split: option.split)
  ultimately show ?thesis unfolding here by blast
qed


text \<open>Release relative to a split of the list at the released address.\<close>

definition give_merge :: "nat \<Rightarrow> nat \<Rightarrow> region list \<Rightarrow> region list \<Rightarrow> region list" where
  "give_merge b n ras rbs =
     (if ras \<noteq> [] \<and> fst (last ras) + snd (last ras) = b then
        butlast ras @
          (case rbs of
             (b2, n2) # rcs \<Rightarrow>
               if b + n = b2 then (fst (last ras), snd (last ras) + n + n2) # rcs
               else (fst (last ras), snd (last ras) + n) # rbs
           | [] \<Rightarrow> [(fst (last ras), snd (last ras) + n)])
      else ras @ give_here b n rbs)"

lemma va_give_split:
  assumes "separated lo hi (ras @ rbs)" "\<forall>(x, m)\<in>set ras. x < b" "\<forall>b2 n2 rcs. rbs = (b2, n2) # rcs \<longrightarrow> b \<le> b2"
  shows "va_give b n (ras @ rbs) = give_merge b n ras rbs"
  using assms
proof (induction ras arbitrary: lo)
  case Nil
  then show ?case by (cases rbs) (auto simp: give_merge_def give_here_def)
next
  case (Cons r ras)
  obtain b1 n1 where r: "r = (b1, n1)" by fastforce
  have IH: "va_give b n (ras @ rbs) = give_merge b n ras rbs"
    using Cons.prems r by (intro Cons.IH [of "b1 + n1 + 1"]) auto
  show ?case
  proof (cases ras)
    case Nil
    then show ?thesis using r Cons.prems IH
      by (cases rbs) (auto simp: give_merge_def give_here_def)
  next
    case (Cons r2 ras2)
    then obtain b2 n2 where "r2 = (b2, n2)" by fastforce
    then have "b1 < b" "b1 + n1 < b" using Cons.prems r Cons by auto
    then have "va_give b n ((r # ras) @ rbs) = r # give_merge b n ras rbs" using r IH by simp
    moreover have l: "last (r # ras) = last ras" "butlast (r # ras) = r # butlast ras" "ras \<noteq> []"
      using Cons by auto
    ultimately show ?thesis unfolding give_merge_def l(1,2) by simp
  qed
qed

lemma vr_end_holds: "holds r (b, n) \<Longrightarrow> vr_end r = page_addr (b + n)"
  by (simp add: vr_end_def page_addr_add)

lemma kvma_merge_rep:
  assumes rep: "kvma_rep s (as @ bs) (ras @ rbs)" and len: "length as = length ras"
    and n: "0 < n" "b + n < 2 ^ 52" and room: "length (as @ bs) < length (vma_pool s)"
  shows "\<exists>s' ns'. kvma_merge (page_addr b) (of_nat n) (last_link as) (first_link bs) s = Ok s' \<and>
           kvma_rep s' ns' (give_merge b n ras rbs) \<and>
           s' = s\<lparr>vma_pool := vma_pool s', vma_free_list := vma_free_list s'\<rparr>"
proof (cases "ras \<noteq> [] \<and> fst (last ras) + snd (last ras) = b")
  case False
  have "kvma_merge (page_addr b) (of_nat n) (last_link as) (first_link bs) s =
        kvma_insert (page_addr b) (of_nat n) (last_link as) (first_link bs) s"
  proof (cases as rule: rev_cases)
    case Nil
    then show ?thesis by (simp add: kvma_merge_def last_link_def)
  next
    case (snoc as' p)
    then obtain ras' b1 n1 where ras: "ras = ras' @ [(b1, n1)]" using len
      by (cases ras rule: rev_cases) auto
    then have p: "holds (vma_pool s ! p) (b1, n1)"
      using rep len snoc by (simp add: kvma_rep_def list_all2_append del: holds_iff)
    have "vr_end (vma_pool s ! p) \<noteq> page_addr b"
      using False ras p n page_addr_inj [of "b1 + n1" b] by (simp add: vr_end_holds [OF p])
    then show ?thesis using snoc by (simp add: kvma_merge_def last_link_def)
  qed
  then show ?thesis
    using kvma_insert_rep [OF rep len n room] False by (auto simp: give_merge_def)
next
  case True
  then obtain ras' b1 n1 where ras: "ras = ras' @ [(b1, n1)]" "b1 + n1 = b"
    by (cases ras rule: rev_cases) auto
  then obtain as' p where as: "as = as' @ [p]" "length as' = length ras'" using len
    by (cases as rule: rev_cases) auto
  have p: "holds (vma_pool s ! p) (b1, n1)"
    using rep len as ras by (simp add: kvma_rep_def list_all2_append del: holds_iff)
  have rep1: "kvma_rep s (as' @ p # bs) (ras' @ (b1, n1) # rbs)" using rep as ras by simp
  let ?x = "(vma_pool s ! p)\<lparr>vr_pages := vr_pages (vma_pool s ! p) + of_nat n\<rparr>"
  define t where "t = s\<lparr>vma_pool := (vma_pool s)[p := ?x]\<rparr>"
  have x: "holds ?x (b1, n1 + n)" using p n ras(2) by simp
  have rep2: "kvma_rep t (as' @ p # bs) (ras' @ (b1, n1 + n) # rbs)"
    unfolding t_def using x by (intro update_node_rep [OF rep1 as(2)]) (auto simp del: holds_iff)
  have tp: "vma_pool t ! p = ?x" and pl: "p < length (vma_pool s)"
    using rep1 by (auto simp: kvma_rep_def seg_append t_def)
  have code: "kvma_merge (page_addr b) (of_nat n) (last_link as) (first_link bs) s = Ok (kvma_absorb p (first_link bs) t)"
    using as ras by (simp add: kvma_merge_def last_link_def vr_end_holds [OF p] t_def)
  have frame_t: "t = s\<lparr>vma_pool := vma_pool t, vma_free_list := vma_free_list t\<rparr>" by (simp add: t_def)
  have endp: "vr_end (vma_pool t ! p) = page_addr (b + n)"
    using vr_end_holds [OF x] by (simp add: tp add.assoc flip: ras(2))
  show ?thesis
  proof (cases bs)
    case Nil
    then have "rbs = []" using rep2 as(2) by (auto simp: kvma_rep_def list_all2_append)
    then show ?thesis
      using Nil rep2 code frame_t ras
      by (intro exI [of _ t]) (auto simp: first_link_def give_merge_def kvma_absorb_def)
  next
    case (Cons c cs)
    then obtain b2 n2 rcs where rbs: "rbs = (b2, n2) # rcs" "holds (vma_pool t ! c) (b2, n2)"
      using rep2 as(2) by (auto simp: kvma_rep_def list_all2_append list_all2_Cons1 simp del: holds_iff)
    have touch: "vr_end (vma_pool t ! p) = vr_base (vma_pool t ! c) \<longleftrightarrow> b + n = b2"
      using endp rbs(2) n page_addr_inj [of "b + n" b2] by auto
    show ?thesis
    proof (cases "b + n = b2")
      case False
      then show ?thesis using Cons rbs rep2 code frame_t ras touch
        by (intro exI [of _ t]) (auto simp: first_link_def give_merge_def kvma_absorb_def Let_def)
    next
      case True
      define x2 where "x2 = (vma_pool t ! p)\<lparr>vr_pages := vr_pages (vma_pool t ! p) + vr_pages (vma_pool t ! c),
                                       vr_next := vr_next (vma_pool t ! c)\<rparr>"
      define u where "u = t\<lparr>vma_pool := (vma_pool t)[p := x2, c := ((vma_pool t)[p := x2] ! c)\<lparr>vr_pages := 0\<rparr>]\<rparr>"
      have "holds x2 (b1, n1 + n + n2)" using x rbs(2) True ras(2) by (simp add: x2_def tp)
      then have "kvma_rep u (as' @ p # cs) (ras' @ (b1, n1 + n + n2) # rcs)"
        unfolding u_def using rep2 Cons rbs(1) as(2) by (intro absorb_node_rep) (auto simp: x2_def simp del: holds_iff)
      moreover have "kvma_merge (page_addr b) (of_nat n) (last_link as) (first_link bs) s = Ok u"
        using code Cons touch True by (simp add: first_link_def u_def x2_def kvma_absorb_def Let_def)
      moreover have "u = s\<lparr>vma_pool := vma_pool u, vma_free_list := vma_free_list u\<rparr>"
        by (simp add: u_def t_def)
      ultimately show ?thesis using True rbs(1) ras
        by (intro exI [of _ u] exI [of _ "as' @ p # cs"]) (simp add: give_merge_def)
    qed
  qed
qed


text \<open>\<open>kvma_free\<close> is \<open>va_give\<close> on the list of regions.\<close>

lemma kvma_free_refines:
  assumes rep: "kvma_rep s ns rs" and lock: "kvma_lock s = 0" and sep: "separated lo hi rs"
    and n: "0 < n" "b + n < 2 ^ 52" and room: "length ns < length (vma_pool s)"
  shows "\<exists>pool h ns'. kvma_free (page_addr b) (of_nat n) s = Ok (s\<lparr>vma_pool := pool, vma_free_list := h\<rparr>) \<and>
           kvma_rep (s\<lparr>vma_pool := pool, vma_free_list := h\<rparr>) ns' (va_give b n rs)"
proof -
  let ?P = "\<lambda>(x, m). x < b"
  let ?l = "s\<lparr>int_flag := False, kvma_lock := 1\<rparr>"
  define ras rbs where "ras = takeWhile ?P rs" and "rbs = dropWhile ?P rs"
  have rs: "rs = ras @ rbs" by (simp add: ras_def rbs_def)
  have before: "\<forall>(x, m)\<in>set ras. x < b" by (auto simp: ras_def dest: set_takeWhileD)
  have after: "\<forall>b2 n2 rcs. rbs = (b2, n2) # rcs \<longrightarrow> b \<le> b2"
    using dropWhile_eq_Cons_conv [of ?P rs] by (auto simp: rbs_def)
  have nodes: "list_all2 (\<lambda>i. holds (vma_pool s ! i)) ns rs" and seg: "seg (vma_pool s) (vma_free_list s) ns None"
    using rep by (auto simp: kvma_rep_def)
  obtain as bs where ns: "ns = as @ bs" "length as = length ras"
      "list_all2 (\<lambda>i. holds (vma_pool s ! i)) as ras" "list_all2 (\<lambda>i. holds (vma_pool s ! i)) bs rbs"
    using nodes unfolding rs by (auto simp: list_all2_append2)
  have below: "vr_base (vma_pool s ! i) < page_addr b" if i: "i \<in> set as" for i
  proof -
    obtain x m where "(x, m) \<in> set ras" "holds (vma_pool s ! i) (x, m)"
      using list_all2_member [OF ns(3) i] by fastforce
    then show ?thesis using before n page_addr_less [of x b] by auto
  qed
  have above: "\<not> vr_base (vma_pool s ! c) < page_addr b" if c: "bs = c # cs" for c cs
  proof -
    obtain b2 n2 rcs where "rbs = (b2, n2) # rcs" "holds (vma_pool s ! c) (b2, n2)"
      using ns(4) c by (auto simp: list_all2_Cons1 simp del: holds_iff)
    then show ?thesis using after n page_addr_less [of b2 b] by auto
  qed
  have seek: "kvma_seek (Suc (length (vma_pool s))) (page_addr b) None (vma_free_list s) (vma_pool s) =
      Ok (last_link as, first_link bs)"
    using seek_finds [of "vma_pool s" "vma_free_list s" as bs "Suc (length (vma_pool s))" "page_addr b" "[]"]
      seg ns(1) below above rep_length [OF rep] by (simp add: last_link_def first_link_def del: kvma_seek.simps)
  have "kvma_rep ?l (as @ bs) (ras @ rbs)" using rep ns(1) rs by simp
  from kvma_merge_rep [OF this ns(2) n] room ns(1)
  obtain s' ns' where s': "kvma_merge (page_addr b) (of_nat n) (last_link as) (first_link bs) ?l = Ok s'"
    "kvma_rep s' ns' (give_merge b n ras rbs)" "s' = ?l\<lparr>vma_pool := vma_pool s', vma_free_list := vma_free_list s'\<rparr>"
    by auto
  let ?s = "s\<lparr>vma_pool := vma_pool s', vma_free_list := vma_free_list s'\<rparr>"
  have "kvma_lock_release (rflags s) s' = ?s" by (subst s'(3)) (simp add: run_simps lock)
  then have "kvma_free (page_addr b) (of_nat n) s = Ok ?s"
    using seek s'(1) lock by (simp add: kvma_free_def run_simps del: kvma_seek.simps)
  moreover have "kvma_rep ?s ns' (va_give b n rs)"
    using s'(2) va_give_split [of lo hi ras rbs b n] sep before after rs by (simp add: kvma_rep_def)
  ultimately show ?thesis by blast
qed

text \<open>First fit fails only when no region is long enough; a free range lies inside one region.\<close>

lemma separated_interval:
  assumes "separated lo hi rs" "0 < k" "{b..<b + k} \<subseteq> va_pages rs"
  shows "\<exists>(c, m)\<in>set rs. c \<le> b \<and> b + k \<le> c + m"
  using assms
proof (induction rs arbitrary: lo)
  case (Cons r rs)
  obtain c m where r: "r = (c, m)" by fastforce
  have above: "va_pages rs \<subseteq> {c + m + 1..<hi}" using Cons.prems(1) r by (intro separated_pages) auto
  show ?case
  proof (cases "b < c + m")
    case True
    have "c \<le> b" using Cons.prems(2,3) above r True by fastforce
    moreover have "b + k \<le> c + m"
    proof (rule ccontr)
      assume "\<not> b + k \<le> c + m"
      then have "c + m \<in> va_pages (r # rs)" using Cons.prems(3) True by auto
      then show False using above r by auto
    qed
    ultimately show ?thesis using r by auto
  next
    case False
    then have "{b..<b + k} \<subseteq> va_pages rs" using Cons.prems(3) r by fastforce
    then show ?thesis using Cons.IH [of "c + m + 1"] Cons.prems(1,2) r by auto
  qed
qed simp

lemma va_take_covers:
  assumes "separated lo hi rs" "0 < k" "{b..<b + k} \<subseteq> va_pages rs"
  shows "va_take k rs \<noteq> None"
proof -
  obtain c m where "(c, m) \<in> set rs" "c \<le> b" "b + k \<le> c + m"
    using separated_interval [OF assms] by auto
  moreover from this have "\<not> m < k" by linarith
  ultimately show ?thesis unfolding va_take_None by blast
qed

section \<open>The contract\<close>

text \<open>
  \<open>kvma_wf s F\<close>: the list is well formed and its regions cover exactly the set
  \<open>F\<close> of free virtual pages, all of them in \<open>[lo, hi)\<close>.
\<close>

definition kvma_wf :: "nat \<Rightarrow> nat \<Rightarrow> nat set \<Rightarrow> 'a kvma_scheme \<Rightarrow> bool" where
  "kvma_wf lo hi F s \<longleftrightarrow> kvma_lock s = 0 \<and> hi < 2 ^ 52 \<and>
     (\<exists>ns rs. kvma_rep s ns rs \<and> separated lo hi rs \<and> va_pages rs = F)"

lemma kvma_alloc_fresh:
  assumes wf: "kvma_wf lo hi F s" and k: "k < 2 ^ 52" and run: "kvma_alloc (of_nat k) s = Ok (a, s')"
  shows "\<exists>b. a = page_addr b \<and> {b..<b + k} \<subseteq> F \<and> kvma_wf lo hi (F - {b..<b + k}) s' \<and>
             s' = s\<lparr>vma_pool := vma_pool s', vma_free_list := vma_free_list s'\<rparr>"
proof -
  obtain ns rs where rep: "kvma_rep s ns rs" "separated lo hi rs" "va_pages rs = F" "kvma_lock s = 0"
    using wf by (auto simp: kvma_wf_def)
  note refines = kvma_alloc_refines [OF rep(1,4) k]
  obtain b rs' where t: "va_take k rs = Some (b, rs')"
    using refines run by (cases "va_take k rs") auto
  then obtain pool h ns' where "a = page_addr b" "s' = s\<lparr>vma_pool := pool, vma_free_list := h\<rparr>"
      "kvma_rep s' ns' rs'"
    using refines run by auto
  then show ?thesis using va_take_Some [OF rep(2) t] rep wf unfolding kvma_wf_def by auto
qed

lemma kvma_alloc_returns:
  assumes wf: "kvma_wf lo hi F s" and k: "0 < k" "k < 2 ^ 52" and F: "{b..<b + k} \<subseteq> F"
  shows "returns (kvma_alloc (of_nat k) s)"
proof -
  obtain ns rs where rep: "kvma_rep s ns rs" "separated lo hi rs" "va_pages rs = F" "kvma_lock s = 0"
    using wf by (auto simp: kvma_wf_def)
  have "va_take k rs \<noteq> None"
    using va_take_covers [OF rep(2) k(1)] F rep(3) by blast
  then show ?thesis using kvma_alloc_refines [OF rep(1,4) k(2)] by (auto simp: returns_iff)
qed

lemma kvma_free_returns:
  assumes wf: "kvma_wf lo hi F s" and n: "0 < n" "lo \<le> b" "b + n \<le> hi" "{b..<b + n} \<inter> F = {}"
    and room: "\<And>ns rs. kvma_rep s ns rs \<Longrightarrow> length ns < length (vma_pool s)"
  shows "\<exists>s'. kvma_free (page_addr b) (of_nat n) s = Ok s' \<and> kvma_wf lo hi (F \<union> {b..<b + n}) s' \<and>
             s' = s\<lparr>vma_pool := vma_pool s', vma_free_list := vma_free_list s'\<rparr>"
proof -
  obtain ns rs where rep: "kvma_rep s ns rs" "separated lo hi rs" "va_pages rs = F" "kvma_lock s = 0"
    using wf by (auto simp: kvma_wf_def)
  have "b + n < 2 ^ 52" using wf n by (simp add: kvma_wf_def)
  from kvma_free_refines [OF rep(1,4,2) n(1) this room [OF rep(1)]]
  obtain pool h ns' where "kvma_free (page_addr b) (of_nat n) s = Ok (s\<lparr>vma_pool := pool, vma_free_list := h\<rparr>)"
      "kvma_rep (s\<lparr>vma_pool := pool, vma_free_list := h\<rparr>) ns' (va_give b n rs)"
    by blast
  then show ?thesis using va_give_correct [OF rep(2) n(1-3)] n(4) rep wf unfolding kvma_wf_def by auto
qed


section \<open>The interface\<close>

text \<open>
  What the heap relies on: an allocator of page ranges, specified over the set
  of free pages. A sequence of allocations gets pairwise disjoint ranges.
\<close>

locale range_allocator =
  fixes alloc :: "nat \<Rightarrow> 's \<Rightarrow> (u64 \<times> 's) run"
    and rep :: "nat set \<Rightarrow> 's \<Rightarrow> bool"
  assumes alloc_fresh: "rep F s \<Longrightarrow> 0 < k \<Longrightarrow> k < 2 ^ 52 \<Longrightarrow> alloc k s = Ok (a, t) \<Longrightarrow>
      \<exists>b. a = page_addr b \<and> {b..<b + k} \<subseteq> F \<and> rep (F - {b..<b + k}) t"
    and alloc_returns: "rep F s \<Longrightarrow> 0 < k \<Longrightarrow> k < 2 ^ 52 \<Longrightarrow> {b..<b + k} \<subseteq> F \<Longrightarrow> returns (alloc k s)"
begin

primrec alloc_all :: "nat list \<Rightarrow> 's \<Rightarrow> (u64 list \<times> 's) run" where
  "alloc_all [] s = Ok ([], s)"
| "alloc_all (k # ks) s = bindr (alloc k s) (\<lambda>(a, s). bindr (alloc_all ks s) (\<lambda>(as, s). Ok (a # as, s)))"

lemma alloc_all_disjoint:
  assumes "rep F s" "\<forall>k\<in>set ks. 0 < k \<and> k < 2 ^ 52" "alloc_all ks s = Ok (as, t)"
  shows "\<exists>bs. as = map page_addr bs \<and> length bs = length ks \<and>
    (\<forall>i<length ks. {bs ! i..<bs ! i + ks ! i} \<subseteq> F) \<and>
    (\<forall>i<length ks. \<forall>j<i. {bs ! i..<bs ! i + ks ! i} \<inter> {bs ! j..<bs ! j + ks ! j} = {})"
  using assms
proof (induction ks arbitrary: F s as)
  case (Cons k ks)
  then obtain a u as' where a: "alloc k s = Ok (a, u)" and as': "alloc_all ks u = Ok (as', t)" "as = a # as'"
    by (auto simp: bindr_eq_Ok)
  have k: "0 < k" "k < 2 ^ 52" using Cons.prems(2) by auto
  obtain b where b: "a = page_addr b" "{b..<b + k} \<subseteq> F" "rep (F - {b..<b + k}) u"
    using alloc_fresh [OF Cons.prems(1) k a] by blast
  have "\<forall>k\<in>set ks. 0 < k \<and> k < 2 ^ 52" using Cons.prems(2) by simp
  from Cons.IH [OF b(3) this as'(1)] obtain bs where bs: "as' = map page_addr bs" "length bs = length ks"
    "\<forall>i<length ks. {bs ! i..<bs ! i + ks ! i} \<subseteq> F - {b..<b + k}"
    "\<forall>i<length ks. \<forall>j<i. {bs ! i..<bs ! i + ks ! i} \<inter> {bs ! j..<bs ! j + ks ! j} = {}"
    by blast
  show ?case
  proof (intro exI [of _ "b # bs"] conjI allI impI)
    fix i assume i: "i < length (k # ks)"
    show "{(b # bs) ! i..<(b # bs) ! i + (k # ks) ! i} \<subseteq> F"
      using i b(2) bs(3) by (cases i) (simp, fastforce)
    fix j assume j: "j < i"
    then obtain i' where i': "i = Suc i'" "i' < length ks" using i by (cases i) auto
    show "{(b # bs) ! i..<(b # bs) ! i + (k # ks) ! i} \<inter> {(b # bs) ! j..<(b # bs) ! j + (k # ks) ! j} = {}"
    proof (cases j)
      case 0
      then show ?thesis using bs(3) i' unfolding i'(1) 0 nth_Cons_0 nth_Cons_Suc by blast
    next
      case (Suc j')
      then show ?thesis using bs(4) i' j unfolding i'(1) Suc nth_Cons_Suc by blast
    qed
  qed (use as'(2) b(1) bs in auto)
qed simp

end

interpretation kva: range_allocator "\<lambda>k. kvma_alloc (of_nat k)" "kvma_wf lo hi" for lo hi
proof
  show "\<exists>b. a = page_addr b \<and> {b..<b + k} \<subseteq> F \<and> kvma_wf lo hi (F - {b..<b + k}) t"
    if "kvma_wf lo hi F s" "k < 2 ^ 52" "kvma_alloc (of_nat k) s = Ok (a, t)" for F s k a t
    using kvma_alloc_fresh [OF that] by blast
qed (rule kvma_alloc_returns)

section \<open>Initialisation\<close>

text \<open>\<open>vmm_kvma_init\<close> leaves one region: the whole kernel virtual-memory window.\<close>

definition kvma_lo :: nat where
  "kvma_lo = unat (KERNEL_VMA_BASE div PMM_PAGE_SIZE)"

definition kvma_hi :: nat where
  "kvma_hi = unat ((KERNEL_VMA_BASE + KERNEL_VMA_SIZE) div PMM_PAGE_SIZE)"

lemma kvma_window: "kvma_lo = 0xFFFF900000000" "kvma_hi = 0xFFFF908000000"
  by (simp_all add: kvma_lo_def kvma_hi_def KERNEL_VMA_BASE_def KERNEL_VMA_SIZE_def PMM_PAGE_SIZE_def)

lemma kvma_init_wf:
  assumes "kvma_lock s = 0" "length (vma_pool s) = 512" "\<forall>i<512. vr_pages (vma_pool s ! i) = 0"
  shows "\<exists>s'. vmm_kvma_init s = Ok s' \<and> kvma_wf kvma_lo kvma_hi {kvma_lo..<kvma_hi} s'"
proof -
  let ?r = "\<lparr>vr_base = KERNEL_VMA_BASE, vr_pages = KERNEL_VMA_SIZE div PMM_PAGE_SIZE, vr_next = None\<rparr>"
  let ?s = "s\<lparr>vma_pool := (vma_pool s)[0 := ?r], vma_free_list := Some 0\<rparr>"
  have "find (\<lambda>i. vr_pages (vma_pool s ! i) = 0) [0..<length (vma_pool s)] = Some 0"
    unfolding assms(2) by (subst upt_conv_Cons) (simp_all add: assms(3))
  then have "vmm_kvma_init s = Ok ?s"
    using assms(1) by (simp add: vmm_kvma_init_def run_simps kvma_node_alloc_def)
  moreover have "holds ?r (kvma_lo, 0x8000000)"
    by (simp add: kvma_window page_addr_def KERNEL_VMA_BASE_def KERNEL_VMA_SIZE_def PMM_PAGE_SIZE_def)
  then have "kvma_rep ?s [0] [(kvma_lo, 0x8000000)]"
    using assms(2,3) by (auto simp: kvma_rep_def simp del: holds_iff)
  moreover have "separated kvma_lo kvma_hi [(kvma_lo, 0x8000000)]" "va_pages [(kvma_lo, 0x8000000)] = {kvma_lo..<kvma_hi}"
    by (simp_all add: kvma_window)
  ultimately show ?thesis using assms(1) by (force simp: kvma_wf_def kvma_window(2))
qed

end
