(* ===== verification/Paging.thy ===== *)
theory Paging
  imports Kvma_Refine
begin

text \<open>
  The page tables of \<open>arch/x86_64/mm/vmm.c\<close>. Tables live in physical memory: the
  code reaches them through the higher-half direct map, so a table pointer is
  the physical address of the table and an access to \<open>table[i]\<close> is a 64-bit load
  or store at \<open>8 i\<close>. The direct map itself is taken for granted: the bootloader's
  and the kernel's own map (\<open>hhdm_offset\<close>) give the same view of physical memory.
  TLB invalidation has no effect in the model.
\<close>

section \<open>Constants and state\<close>

definition PTE_PRESENT :: u64 where "PTE_PRESENT = 0x1"
definition PTE_WRITABLE :: u64 where "PTE_WRITABLE = 0x2"
definition PTE_USER :: u64 where "PTE_USER = 0x4"
definition PTE_HUGE :: u64 where "PTE_HUGE = 0x80"
definition PTE_LOCAL_OWNED :: u64 where "PTE_LOCAL_OWNED = 0x200"
definition PTE_NX :: u64 where "PTE_NX = 0x8000000000000000"
definition PTE_ADDR_MASK :: u64 where "PTE_ADDR_MASK = 0x000FFFFFFFFFF000"

definition PAGE_SIZE_4K :: u64 where "PAGE_SIZE_4K = 0x1000"
definition PAGE_SIZE_2M :: u64 where "PAGE_SIZE_2M = 0x200000"
definition PAGE_SIZE_1G :: u64 where "PAGE_SIZE_1G = 0x40000000"
definition HHDM_VBASE :: u64 where "HHDM_VBASE = 0xFFFF800000000000"
definition HHDM_SIZE_GB :: nat where "HHDM_SIZE_GB = 4096"
definition UINTPTR_MAX :: u64 where "UINTPTR_MAX = 0xFFFFFFFFFFFFFFFF"

lemmas pte_consts = PTE_PRESENT_def PTE_WRITABLE_def PTE_USER_def PTE_HUGE_def PTE_LOCAL_OWNED_def
  PTE_NX_def PTE_ADDR_MASK_def PAGE_SIZE_4K_def PAGE_SIZE_2M_def PAGE_SIZE_1G_def

definition PML4_INDEX :: "u64 \<Rightarrow> nat" where "PML4_INDEX a = unat (drop_bit 39 a AND 0x1FF)"
definition PDPT_INDEX :: "u64 \<Rightarrow> nat" where "PDPT_INDEX a = unat (drop_bit 30 a AND 0x1FF)"
definition PD_INDEX :: "u64 \<Rightarrow> nat" where "PD_INDEX a = unat (drop_bit 21 a AND 0x1FF)"
definition PT_INDEX :: "u64 \<Rightarrow> nat" where "PT_INDEX a = unat (drop_bit 12 a AND 0x1FF)"

record paging = kvma +
  vmm_lock :: u32
  cr3 :: u64
  kernel_pagedir_phys :: u64

definition pte :: "mem \<Rightarrow> u64 \<Rightarrow> nat \<Rightarrow> u64" where
  "pte m table i = read64 m (table + 8 * of_nat i)"

definition set_pte :: "u64 \<Rightarrow> nat \<Rightarrow> u64 \<Rightarrow> 'a pmm_scheme \<Rightarrow> 'a pmm_scheme" where
  "set_pte table i v s = s\<lparr>phys_mem := write64 (phys_mem s) (table + 8 * of_nat i) v\<rparr>"

definition vmm_lock_acquire :: "'a paging_scheme \<Rightarrow> (u64 \<times> 'a paging_scheme) run" where
  "vmm_lock_acquire s =
     bindr (spin_lock_irqsave (vmm_lock s) s) (\<lambda>(f, l, s). Ok (f, s\<lparr>vmm_lock := l\<rparr>))"

definition vmm_lock_release :: "u64 \<Rightarrow> 'a paging_scheme \<Rightarrow> 'a paging_scheme" where
  "vmm_lock_release f s = (let (l, s) = spin_unlock_irqrestore f s in s\<lparr>vmm_lock := l\<rparr>)"

text \<open>The bracket every locked entry point of the file puts around its work.\<close>

definition with_vmm_lock :: "('a paging_scheme \<Rightarrow> ('r \<times> 'a paging_scheme) run) \<Rightarrow> 'a paging_scheme \<Rightarrow> ('r \<times> 'a paging_scheme) run" where
  "with_vmm_lock body s =
     bindr (vmm_lock_acquire s) (\<lambda>(irq_flags, s).
     bindr (body s) (\<lambda>(r, s). Ok (r, vmm_lock_release irq_flags s)))"

definition with_vmm_lock0 :: "('a paging_scheme \<Rightarrow> 'a paging_scheme run) \<Rightarrow> 'a paging_scheme \<Rightarrow> 'a paging_scheme run" where
  "with_vmm_lock0 body s =
     bindr (with_vmm_lock (\<lambda>s. bindr (body s) (\<lambda>s. Ok ((), s))) s) (\<lambda>(_, s). Ok s)"

section \<open>Mapping\<close>

definition table_get_or_create :: "u64 \<Rightarrow> nat \<Rightarrow> u64 \<Rightarrow> 'a pmm_scheme \<Rightarrow> (u64 \<times> 'a pmm_scheme) run" where
  "table_get_or_create table idx flags s =
     (let perm_bits = flags AND (PTE_WRITABLE OR PTE_USER OR PTE_LOCAL_OWNED);
          e = pte (phys_mem s) table idx
      in bindr (if e AND PTE_PRESENT = 0 then
                  bindr (pmm_alloc_zeroed s) (\<lambda>(phys, s).
                    Ok (set_pte table idx ((phys AND PTE_ADDR_MASK) OR PTE_PRESENT OR perm_bits) s))
                else if e AND perm_bits \<noteq> perm_bits then Ok (set_pte table idx (e OR perm_bits) s)
                else Ok s) (\<lambda>s.
         Ok (pte (phys_mem s) table idx AND PTE_ADDR_MASK, s)))"

definition map_4k_nolock :: "u64 \<Rightarrow> u64 \<Rightarrow> u64 \<Rightarrow> u64 \<Rightarrow> 'a pmm_scheme \<Rightarrow> 'a pmm_scheme run" where
  "map_4k_nolock pml4 va pa flags s =
     bindr (table_get_or_create pml4 (PML4_INDEX va) flags s) (\<lambda>(pdpt, s).
     bindr (table_get_or_create pdpt (PDPT_INDEX va) flags s) (\<lambda>(pd, s).
     bindr (table_get_or_create pd (PD_INDEX va) flags s) (\<lambda>(pt, s).
       Ok (set_pte pt (PT_INDEX va) ((pa AND PTE_ADDR_MASK) OR flags OR PTE_PRESENT) s))))"

definition map_4k :: "u64 \<Rightarrow> u64 \<Rightarrow> u64 \<Rightarrow> u64 \<Rightarrow> 'a paging_scheme \<Rightarrow> 'a paging_scheme run" where
  "map_4k pml4 va pa flags = with_vmm_lock0 (map_4k_nolock pml4 va pa flags)"

definition map_4k_run :: "u64 \<Rightarrow> u64 \<Rightarrow> u64 \<Rightarrow> nat \<Rightarrow> u64 \<Rightarrow> 'a pmm_scheme \<Rightarrow> 'a pmm_scheme run" where
  "map_4k_run pml4 va pa count flags =
     foreach (\<lambda>i. map_4k_nolock pml4 (va + of_nat i * PAGE_SIZE_4K) (pa + of_nat i * PAGE_SIZE_4K) flags) [0..<count]"

definition map_4k_pages :: "u64 \<Rightarrow> u64 \<Rightarrow> u64 \<Rightarrow> nat \<Rightarrow> u64 \<Rightarrow> 'a paging_scheme \<Rightarrow> 'a paging_scheme run" where
  "map_4k_pages pml4 va pa count flags = with_vmm_lock0 (map_4k_run pml4 va pa count flags)"

definition map_2m_nolock :: "u64 \<Rightarrow> u64 \<Rightarrow> u64 \<Rightarrow> u64 \<Rightarrow> 'a pmm_scheme \<Rightarrow> 'a pmm_scheme run" where
  "map_2m_nolock pml4 va pa flags s =
     bindr (table_get_or_create pml4 (PML4_INDEX va) flags s) (\<lambda>(pdpt, s).
     bindr (table_get_or_create pdpt (PDPT_INDEX va) flags s) (\<lambda>(pd, s).
       Ok (set_pte pd (PD_INDEX va) ((pa AND PTE_ADDR_MASK) OR flags OR PTE_HUGE OR PTE_PRESENT) s)))"

definition map_2m :: "u64 \<Rightarrow> u64 \<Rightarrow> u64 \<Rightarrow> u64 \<Rightarrow> 'a paging_scheme \<Rightarrow> 'a paging_scheme run" where
  "map_2m pml4 va pa flags = with_vmm_lock0 (map_2m_nolock pml4 va pa flags)"

definition map_2m_pages :: "u64 \<Rightarrow> u64 \<Rightarrow> u64 \<Rightarrow> nat \<Rightarrow> u64 \<Rightarrow> 'a paging_scheme \<Rightarrow> 'a paging_scheme run" where
  "map_2m_pages pml4 va pa count flags = with_vmm_lock0
     (foreach (\<lambda>i. map_2m_nolock pml4 (va + of_nat i * PAGE_SIZE_2M) (pa + of_nat i * PAGE_SIZE_2M) flags) [0..<count])"

definition map_1g_nolock :: "u64 \<Rightarrow> u64 \<Rightarrow> u64 \<Rightarrow> u64 \<Rightarrow> 'a pmm_scheme \<Rightarrow> 'a pmm_scheme run" where
  "map_1g_nolock pml4 va pa flags s =
     bindr (table_get_or_create pml4 (PML4_INDEX va) flags s) (\<lambda>(pdpt, s).
       Ok (set_pte pdpt (PDPT_INDEX va) ((pa AND PTE_ADDR_MASK) OR flags OR PTE_HUGE OR PTE_PRESENT) s))"

definition map_1g :: "u64 \<Rightarrow> u64 \<Rightarrow> u64 \<Rightarrow> u64 \<Rightarrow> 'a paging_scheme \<Rightarrow> 'a paging_scheme run" where
  "map_1g pml4 va pa flags = with_vmm_lock0 (map_1g_nolock pml4 va pa flags)"

definition map_1g_pages :: "u64 \<Rightarrow> u64 \<Rightarrow> u64 \<Rightarrow> nat \<Rightarrow> u64 \<Rightarrow> 'a paging_scheme \<Rightarrow> 'a paging_scheme run" where
  "map_1g_pages pml4 va pa count flags = with_vmm_lock0
     (foreach (\<lambda>i. map_1g_nolock pml4 (va + of_nat i * PAGE_SIZE_1G) (pa + of_nat i * PAGE_SIZE_1G) flags) [0..<count])"


section \<open>Unmapping\<close>

definition table_empty :: "mem \<Rightarrow> u64 \<Rightarrow> bool" where
  "table_empty m table = (\<forall>i\<in>set [0..<512]. pte m table i AND PTE_PRESENT = 0)"

definition table_is_empty :: "mem \<Rightarrow> u64 \<Rightarrow> bool" where
  "table_is_empty m table = (\<forall>i\<in>set [0..<512]. pte m table i = 0)"

definition unmap_4k_nolock :: "u64 \<Rightarrow> u64 \<Rightarrow> bool \<Rightarrow> 'a pmm_scheme \<Rightarrow> 'a pmm_scheme run" where
  "unmap_4k_nolock pml4 va free_phys s =
     (let m = phys_mem s; pml4e = pte m pml4 (PML4_INDEX va)
      in if pml4e AND PTE_PRESENT = 0 then Ok s
         else
           (let pdpt = pml4e AND PTE_ADDR_MASK; pdpte = pte m pdpt (PDPT_INDEX va)
            in if pdpte AND PTE_PRESENT = 0 then Ok s
               else
                 (let pd = pdpte AND PTE_ADDR_MASK; pde = pte m pd (PD_INDEX va)
                  in if pde AND PTE_PRESENT = 0 then Ok s
                     else if pde AND PTE_HUGE \<noteq> 0 then Ok s
                     else
                       (let pt = pde AND PTE_ADDR_MASK; e = pte m pt (PT_INDEX va)
                        in if e AND PTE_PRESENT = 0 then Ok s
                           else
                             (let pa = e AND PTE_ADDR_MASK; owned = (e AND PTE_LOCAL_OWNED \<noteq> 0);
                                  s = set_pte pt (PT_INDEX va) 0 s
                              in if free_phys \<and> owned then pmm_free pa s else Ok s)))))"

definition unmap_4k :: "u64 \<Rightarrow> u64 \<Rightarrow> 'a paging_scheme \<Rightarrow> 'a paging_scheme run" where
  "unmap_4k pml4 va = with_vmm_lock0 (unmap_4k_nolock pml4 va True)"

definition unmap_4k_pages :: "u64 \<Rightarrow> u64 \<Rightarrow> nat \<Rightarrow> 'a paging_scheme \<Rightarrow> 'a paging_scheme run" where
  "unmap_4k_pages pml4 va count = with_vmm_lock0
     (foreach (\<lambda>i. unmap_4k_nolock pml4 (va + of_nat i * PAGE_SIZE_4K) True) [0..<count])"

section \<open>Translation\<close>

definition page_dir_virt_to_phys :: "mem \<Rightarrow> u64 \<Rightarrow> u64 \<Rightarrow> u64" where
  "page_dir_virt_to_phys m pml4 vaddr =
     (let pml4_e = pte m pml4 (PML4_INDEX vaddr)
      in if pml4_e AND PTE_PRESENT = 0 then UINTPTR_MAX
         else
           (let pdpt = pml4_e AND PTE_ADDR_MASK; pdpt_e = pte m pdpt (PDPT_INDEX vaddr)
            in if pdpt_e AND PTE_PRESENT = 0 then UINTPTR_MAX
               else if pdpt_e AND PTE_HUGE \<noteq> 0 then
                 (pdpt_e AND PTE_ADDR_MASK) OR (vaddr AND (PAGE_SIZE_1G - 1))
               else
                 (let pd = pdpt_e AND PTE_ADDR_MASK; pd_e = pte m pd (PD_INDEX vaddr)
                  in if pd_e AND PTE_PRESENT = 0 then UINTPTR_MAX
                     else if pd_e AND PTE_HUGE \<noteq> 0 then
                       (pd_e AND PTE_ADDR_MASK) OR (vaddr AND (PAGE_SIZE_2M - 1))
                     else
                       (let pt = pd_e AND PTE_ADDR_MASK; pt_e = pte m pt (PT_INDEX vaddr)
                        in if pt_e AND PTE_PRESENT = 0 then UINTPTR_MAX
                           else (pt_e AND PTE_ADDR_MASK) OR (vaddr AND (PAGE_SIZE_4K - 1))))))"

definition get_current_pml4 :: "'a paging_scheme \<Rightarrow> u64" where
  "get_current_pml4 s = cr3 s"

text \<open>
  \<open>vmm_virt_to_phys\<close> walks the tables of the current address space with the lock
  held; its \<open>goto not_present\<close> joins the releases of all the early exits.
\<close>

definition vmm_virt_to_phys :: "u64 \<Rightarrow> 'a paging_scheme \<Rightarrow> (u64 \<times> 'a paging_scheme) run" where
  "vmm_virt_to_phys vaddr = with_vmm_lock (\<lambda>s.
     let m = phys_mem s; pml4_e = pte m (cr3 s) (PML4_INDEX vaddr)
     in if pml4_e AND PTE_PRESENT = 0 then Ok (UINTPTR_MAX, s)
        else
          (let pdpt_e = pte m (pml4_e AND PTE_ADDR_MASK) (PDPT_INDEX vaddr)
           in if pdpt_e AND PTE_PRESENT = 0 then Ok (UINTPTR_MAX, s)
              else if pdpt_e AND PTE_HUGE \<noteq> 0 then
                Ok ((pdpt_e AND PTE_ADDR_MASK) OR (vaddr AND (PAGE_SIZE_1G - 1)), s)
              else
                (let pd_e = pte m (pdpt_e AND PTE_ADDR_MASK) (PD_INDEX vaddr)
                 in if pd_e AND PTE_PRESENT = 0 then Ok (UINTPTR_MAX, s)
                    else if pd_e AND PTE_HUGE \<noteq> 0 then
                      Ok ((pd_e AND PTE_ADDR_MASK) OR (vaddr AND (PAGE_SIZE_2M - 1)), s)
                    else
                      (let e = pte m (pd_e AND PTE_ADDR_MASK) (PT_INDEX vaddr)
                       in if e AND PTE_PRESENT = 0 then Ok (UINTPTR_MAX, s)
                          else Ok ((e AND PTE_ADDR_MASK) OR (vaddr AND (PAGE_SIZE_4K - 1)), s)))))"

definition vmm_map_page :: "u64 \<Rightarrow> u64 \<Rightarrow> u64 \<Rightarrow> 'a paging_scheme \<Rightarrow> 'a paging_scheme run" where
  "vmm_map_page va pa flags s = map_4k (get_current_pml4 s) va pa flags s"

definition vmm_unmap_page :: "u64 \<Rightarrow> 'a paging_scheme \<Rightarrow> 'a paging_scheme run" where
  "vmm_unmap_page va = with_vmm_lock0 (\<lambda>s.
     let m = phys_mem s; pml4 = get_current_pml4 s; pml4_e = pte m pml4 (PML4_INDEX va)
     in if pml4_e AND PTE_PRESENT = 0 then Ok s
        else
          (let pdpt = pml4_e AND PTE_ADDR_MASK; pdpt_e = pte m pdpt (PDPT_INDEX va)
           in if pdpt_e AND PTE_PRESENT = 0 \<or> pdpt_e AND PTE_HUGE \<noteq> 0 then Ok s
              else
                (let pd = pdpt_e AND PTE_ADDR_MASK; pd_e = pte m pd (PD_INDEX va)
                 in if pd_e AND PTE_PRESENT = 0 \<or> pd_e AND PTE_HUGE \<noteq> 0 then Ok s
                    else
                      (let pt = pd_e AND PTE_ADDR_MASK; s = set_pte pt (PT_INDEX va) 0 s
                       in if \<not> table_is_empty (phys_mem s) pt then Ok s
                          else bindr (pmm_free pt (set_pte pd (PD_INDEX va) 0 s)) (\<lambda>s.
                               if \<not> table_is_empty (phys_mem s) pd then Ok s
                               else bindr (pmm_free pd (set_pte pdpt (PDPT_INDEX va) 0 s)) (\<lambda>s.
                                    if \<not> table_is_empty (phys_mem s) pdpt then Ok s
                                    else pmm_free pdpt (set_pte pml4 (PML4_INDEX va) 0 s)))))))"

section \<open>User ranges\<close>

definition uvma_page_free :: "mem \<Rightarrow> u64 \<Rightarrow> u64 \<Rightarrow> bool" where
  "uvma_page_free m pml4 cur =
     (let pml4e = pte m pml4 (PML4_INDEX cur)
      in if pml4e AND PTE_PRESENT = 0 then True
         else
           (let pdpte = pte m (pml4e AND PTE_ADDR_MASK) (PDPT_INDEX cur)
            in if pdpte AND PTE_PRESENT = 0 then True
               else if pdpte AND PTE_HUGE \<noteq> 0 then False
               else
                 (let pde = pte m (pdpte AND PTE_ADDR_MASK) (PD_INDEX cur)
                  in if pde AND PTE_PRESENT = 0 then True
                     else if pde AND PTE_HUGE \<noteq> 0 then False
                     else pte m (pde AND PTE_ADDR_MASK) (PT_INDEX cur) AND PTE_PRESENT = 0)))"

definition uvma_is_range_free :: "mem \<Rightarrow> u64 \<Rightarrow> u64 \<Rightarrow> nat \<Rightarrow> bool" where
  "uvma_is_range_free m pml4 va count =
     (\<forall>i\<in>set [0..<count]. uvma_page_free m pml4 (va + of_nat i * PAGE_SIZE_4K))"

text \<open>
  The search loop of \<open>uvma_map_pages\<close>. It does not change the state, so once it
  has tried all \<open>2^52\<close> page addresses it repeats itself for ever: with that much
  fuel, running out means the loop never ends.
\<close>

primrec uvma_search :: "nat \<Rightarrow> mem \<Rightarrow> u64 \<Rightarrow> nat \<Rightarrow> u64 \<Rightarrow> u64 \<Rightarrow> u64 option run" where
  "uvma_search 0 m pml4 count start va = Stop Hang"
| "uvma_search (Suc fuel) m pml4 count start va =
     (if uvma_is_range_free m pml4 va count then Ok (Some va)
      else
        (let va = va + PAGE_SIZE_4K
         in if va < start then Ok None else uvma_search fuel m pml4 count start va))"

definition uvma_map_pages :: "u64 \<Rightarrow> u64 \<Rightarrow> nat \<Rightarrow> u64 \<Rightarrow> u64 \<Rightarrow> 'a paging_scheme \<Rightarrow> (u64 \<times> 'a paging_scheme) run" where
  "uvma_map_pages pml4 pa count flags search_start_vaddr s =
     (if pml4 = 0 \<or> count = 0 then Ok (0, s)
      else if pa AND (PAGE_SIZE_4K - 1) \<noteq> 0 \<or> search_start_vaddr AND (PAGE_SIZE_4K - 1) \<noteq> 0 then Ok (0, s)
      else
        (let flags = flags OR PTE_PRESENT
         in with_vmm_lock (\<lambda>s.
              bindr (uvma_search (2 ^ 52) (phys_mem s) pml4 count search_start_vaddr search_start_vaddr) (\<lambda>r.
                case r of
                  None \<Rightarrow> Ok (0, s)
                | Some va \<Rightarrow>
                    bindr (map_4k_run pml4 va pa count flags s) (\<lambda>s. Ok (va, s)))) s))"

section \<open>Teardown\<close>

primrec vmm_free_user_tables :: "nat \<Rightarrow> u64 \<Rightarrow> 'a pmm_scheme \<Rightarrow> 'a pmm_scheme run" where
  "vmm_free_user_tables 0 table s = Ok s"
| "vmm_free_user_tables (Suc l) table s =
     (let level = Suc l
      in foreach (\<lambda>i s.
           let e = pte (phys_mem s) table i
           in if e AND PTE_PRESENT = 0 then Ok s
              else
                (let phys = e AND PTE_ADDR_MASK;
                     leaf = (level = 1 \<or> (level < 4 \<and> e AND PTE_HUGE \<noteq> 0))
                 in bindr (if leaf then (if e AND PTE_LOCAL_OWNED \<noteq> 0 then pmm_free phys s else Ok s)
                           else bindr (vmm_free_user_tables l phys s) (pmm_free phys)) (\<lambda>s.
                    Ok (set_pte table i 0 s)))) [0..<(if level = 4 then 256 else 512)] s)"

definition vmm_pagetable_free_owned :: "u64 \<Rightarrow> 'a paging_scheme \<Rightarrow> 'a paging_scheme run" where
  "vmm_pagetable_free_owned pml4_phys s =
     (if pml4_phys = 0 \<or> pml4_phys = kernel_pagedir_phys s then Ok s
      else if cr3 s = pml4_phys then Ok s
      else bindr (with_vmm_lock0 (vmm_free_user_tables 4 pml4_phys) s) (pmm_free pml4_phys))"

section \<open>The direct map\<close>

definition hhdm_check_coverage :: "memmap_entry list \<Rightarrow> unit run" where
  "hhdm_check_coverage mm =
     (let top = fold (\<lambda>e top. if me_base e + me_length e > top then me_base e + me_length e else top) mm 0
      in if top > of_nat HHDM_SIZE_GB * PAGE_SIZE_1G then Stop (Panic ''HHDM_SIZE_GB too small for installed RAM'')
         else Ok ())"

definition hhdm_map_physical_memory :: "bool \<Rightarrow> u64 \<Rightarrow> 'a paging_scheme \<Rightarrow> 'a paging_scheme run" where
  "hhdm_map_physical_memory huge1g pml4 =
     (let flags = PTE_PRESENT OR PTE_WRITABLE OR PTE_NX
      in foreach (\<lambda>gb.
           let pa = of_nat gb * PAGE_SIZE_1G; va = HHDM_VBASE + pa
           in if huge1g then map_1g pml4 va pa flags
              else foreach (\<lambda>k. map_2m pml4 (va + of_nat k * PAGE_SIZE_2M) (pa + of_nat k * PAGE_SIZE_2M) flags) [0..<512])
         [0..<HHDM_SIZE_GB])"

definition hhdm_map_kernel :: "u64 \<Rightarrow> u64 \<Rightarrow> u64 \<Rightarrow> u64 \<Rightarrow> 'a paging_scheme \<Rightarrow> 'a paging_scheme run" where
  "hhdm_map_kernel kphys kvirt ksize pml4 =
     (let ksize = (ksize + PAGE_SIZE_4K - 1) AND NOT (PAGE_SIZE_4K - 1)
      in foreach (\<lambda>k. map_4k pml4 (kvirt + of_nat k * PAGE_SIZE_4K) (kphys + of_nat k * PAGE_SIZE_4K) (PTE_PRESENT OR PTE_WRITABLE))
           [0..<unat (ksize div PAGE_SIZE_4K)])"

definition hhdm_init :: "memmap_entry list \<Rightarrow> bool \<Rightarrow> u64 \<Rightarrow> u64 \<Rightarrow> u64 \<Rightarrow> 'a paging_scheme \<Rightarrow> 'a paging_scheme run" where
  "hhdm_init mm huge1g kphys kvirt ksize s =
     bindr (hhdm_check_coverage mm) (\<lambda>_.
     bindr (pmm_alloc_zeroed s) (\<lambda>(pml4_phys, s).
     bindr (hhdm_map_physical_memory huge1g pml4_phys s) (\<lambda>s.
     bindr (hhdm_map_kernel kphys kvirt ksize pml4_phys s) (\<lambda>s.
       Ok (s\<lparr>kernel_pagedir_phys := pml4_phys, cr3 := pml4_phys\<rparr>)))))"

end
