(* ===== verification/Paging_Facts.thy ===== *)
theory Paging_Facts
  imports Paging
begin

text \<open>
  The page tables seen as a tree. \<open>tbl m root p\<close> is the table reached from the
  root by the indices \<open>p\<close>, and \<open>walk m root q\<close> is the entry at which the hardware
  walk along \<open>q\<close> ends, with the number of indices left over (0 for a 4 KiB page).
  \<open>vm_tree\<close> says that tables are distinct allocated frames. Mapping and unmapping
  then change the walk of exactly one page.
\<close>

section \<open>Entries in memory\<close>

lemma in_page_iff:
  fixes x :: u64
  assumes "b < 2 ^ 52"
  shows "unat (x - page_addr b) < 4096 \<longleftrightarrow> unat x div 4096 = b"
proof (cases "page_addr b \<le> x")
  case True
  then have le: "b * 4096 \<le> unat x" using unat_page_addr [OF assms] by (simp add: word_le_nat_alt)
  have "unat (x - page_addr b) = unat x - b * 4096"
    using unat_sub [OF True] unat_page_addr [OF assms] by simp
  then show ?thesis using le by (auto simp: div_nat_eqI)
next
  case False
  then have lt: "unat x < b * 4096" using unat_page_addr [OF assms] by (simp add: word_le_nat_alt)
  have "unat (x - page_addr b) = 2 ^ 64 + unat x - b * 4096"
    using False unat_page_addr [OF assms] by (simp add: unat_sub_if' word_le_nat_alt)
  moreover have "b * 4096 \<le> 2 ^ 64 - 4096" using assms by auto
  ultimately have "\<not> unat (x - page_addr b) < 4096" using lt by simp
  moreover have "unat x div 4096 < b" using lt by (simp add: div_less_iff_less_mult)
  ultimately show ?thesis by simp
qed

lemma unat_entry:
  assumes "b < 2 ^ 52" "i < 512" "k < 8"
  shows "unat (page_addr b + 8 * of_nat i + of_nat k) = 4096 * b + 8 * i + k"
proof -
  have "page_addr b + 8 * of_nat i + of_nat k = (of_nat (4096 * b + 8 * i + k) :: u64)"
    by (simp add: page_addr_def PMM_PAGE_SIZE_def)
  moreover have "4096 * b + 8 * i + k < 2 ^ 64" using assms by auto
  ultimately show ?thesis by (simp only: unat_of_nat_u64)
qed

lemma entry_page:
  assumes "b < 2 ^ 52" "i < 512" "k < 8"
  shows "unat (page_addr b + 8 * of_nat i + of_nat k) div 4096 = b"
  unfolding unat_entry [OF assms] using assms by (intro div_nat_eqI) auto

lemma aligned8_entry: "b < 2 ^ 52 \<Longrightarrow> i < 512 \<Longrightarrow> aligned8 (page_addr b + 8 * of_nat i)"
  using unat_entry [of b i 0] by (simp add: aligned8_def)

lemma pte_write_same [simp]: "pte (write64 m (t + 8 * of_nat i) v) t i = v"
  by (simp add: pte_def)

lemma pte_write_other:
  assumes "b < 2 ^ 52" "c < 2 ^ 52" "i < 512" "j < 512" "(c, j) \<noteq> (b, i)"
  shows "pte (write64 m (page_addr b + 8 * of_nat i) v) (page_addr c) j = pte m (page_addr c) j"
proof -
  have "page_addr b + 8 * of_nat i \<noteq> page_addr c + 8 * of_nat j"
  proof
    assume eq: "page_addr b + 8 * of_nat i = page_addr c + 8 * of_nat j"
    then have "b = c" using entry_page [of b i 0] entry_page [of c j 0] assms by simp
    moreover have "4096 * b + 8 * i = 4096 * c + 8 * j"
      using eq unat_entry [of b i 0] unat_entry [of c j 0] assms by simp
    ultimately show False using assms(5) by simp
  qed
  then show ?thesis
    unfolding pte_def using assms by (intro read64_write64_other aligned8_entry) auto
qed

lemma pte_fill_zero:
  assumes "b < 2 ^ 52" "j < 512"
  shows "pte (mem_fill m (page_addr b) 4096 0) (page_addr b) j = 0"
proof -
  have "pte (mem_fill m (page_addr b) 4096 0) (page_addr b) j = read64 (\<lambda>_. 0) (page_addr b + 8 * of_nat j)"
    unfolding pte_def
  proof (rule read64_cong)
    fix k :: nat assume "k < 8"
    then show "mem_fill m (page_addr b) 4096 0 (page_addr b + 8 * of_nat j + of_nat k) = 0"
      using entry_page [OF assms] in_page_iff [OF assms(1)] by (simp only: mem_fill_def refl if_True)
  qed
  also have "\<dots> = 0" by (rule bit_word_eqI) (simp add: bit_read64)
  finally show ?thesis .
qed

lemma pte_fill_other:
  assumes "b < 2 ^ 52" "c < 2 ^ 52" "j < 512" "b \<noteq> c"
  shows "pte (mem_fill m (page_addr b) 4096 x) (page_addr c) j = pte m (page_addr c) j"
  unfolding pte_def
proof (rule read64_cong)
  fix k :: nat assume "k < 8"
  then show "mem_fill m (page_addr b) 4096 x (page_addr c + 8 * of_nat j + of_nat k) =
        m (page_addr c + 8 * of_nat j + of_nat k)"
    using entry_page [OF assms(2,3)] in_page_iff [OF assms(1)] assms(4) [symmetric] by (simp only: mem_fill_def if_False)
qed

section \<open>Entry bits\<close>

definition present :: "u64 \<Rightarrow> bool" where "present e \<longleftrightarrow> e AND PTE_PRESENT \<noteq> 0"
definition huge :: "u64 \<Rightarrow> bool" where "huge e \<longleftrightarrow> e AND PTE_HUGE \<noteq> 0"
definition frame_of :: "u64 \<Rightarrow> u64" where "frame_of e = e AND PTE_ADDR_MASK"

lemma and_exp_nonzero: "(e AND 2 ^ k \<noteq> 0) \<longleftrightarrow> bit e k" if "k < LENGTH('a)" for e :: "'a::len word"
  using that by (metis and_exp_eq_0_iff_not_bit)

lemma present_bit: "present e \<longleftrightarrow> bit e 0"
  unfolding present_def PTE_PRESENT_def using and_exp_nonzero [of 0 e] by simp

lemma huge_bit: "huge e \<longleftrightarrow> bit e 7"
  unfolding huge_def PTE_HUGE_def using and_exp_nonzero [of 7 e] by simp

lemma bit_addr_mask: "bit PTE_ADDR_MASK n \<longleftrightarrow> 12 \<le> n \<and> n < 52"
proof -
  have mask: "PTE_ADDR_MASK = push_bit 12 (mask 40)" by (simp add: PTE_ADDR_MASK_def mask_eq_exp_minus_1)
  show ?thesis unfolding mask by (auto simp: bit_push_bit_iff bit_mask_iff)
qed

lemma page_addr_push: "page_addr b = push_bit 12 (of_nat b)"
  by (simp add: page_addr_def PMM_PAGE_SIZE_def push_bit_eq_mult)

lemma frame_of_page [simp]:
  assumes "b < 2 ^ 40"
  shows "frame_of (page_addr b) = page_addr b"
proof (rule bit_word_eqI)
  fix n assume "n < LENGTH(64)"
  have "\<not> bit (of_nat b :: u64) k" if "40 \<le> k" for k
  proof -
    have "b < 2 ^ k" using assms that by (meson less_le_trans one_le_numeral power_increasing)
    then have "\<not> bit b k" by (simp add: bit_iff_odd)
    then show ?thesis by (simp add: bit_of_nat_iff)
  qed
  then have "n < 52" if "bit (of_nat b :: u64) (n - 12)" "12 \<le> n"
    using that by (cases "n < 52") auto
  then show "bit (frame_of (page_addr b)) n = bit (page_addr b) n"
    by (auto simp: frame_of_def bit_and_iff bit_addr_mask page_addr_push bit_push_bit_iff)
qed


text \<open>The permission bits a mapping request carries do not touch the frame, presence or size of an entry.\<close>

definition perm_of :: "u64 \<Rightarrow> u64" where
  "perm_of flags = flags AND (PTE_WRITABLE OR PTE_USER OR PTE_LOCAL_OWNED)"

lemma bit_perm: "bit (perm_of flags) n \<Longrightarrow> n \<in> {1, 2, 9}"
proof -
  assume "bit (perm_of flags) n"
  then have "bit (0x206 :: u64) n" by (simp add: perm_of_def pte_consts bit_and_iff)
  moreover have "(0x206 :: u64) = 2 ^ 1 OR 2 ^ 2 OR 2 ^ 9" by simp
  ultimately have "bit (2 ^ 1 OR 2 ^ 2 OR 2 ^ 9 :: u64) n" by (simp only:)
  then show ?thesis by (auto simp only: bit_or_iff bit_exp_iff)
qed

lemma or_perm [simp]:
  "present (e OR perm_of f) \<longleftrightarrow> present e" "huge (e OR perm_of f) \<longleftrightarrow> huge e" "frame_of (e OR perm_of f) = frame_of e"
proof -
  show "present (e OR perm_of f) \<longleftrightarrow> present e" "huge (e OR perm_of f) \<longleftrightarrow> huge e"
    using bit_perm [of f 0] bit_perm [of f 7] by (auto simp: present_bit huge_bit bit_or_iff)
  show "frame_of (e OR perm_of f) = frame_of e"
    by (rule bit_word_eqI) (auto simp: frame_of_def bit_and_iff bit_or_iff bit_addr_mask dest: bit_perm)
qed

lemma new_entry [simp]:
  fixes f :: u64
  assumes "b < 2 ^ 40"
  defines "e \<equiv> (page_addr b AND PTE_ADDR_MASK) OR PTE_PRESENT OR perm_of f"
  shows "present e" "\<not> huge e" "frame_of e = page_addr b"
proof -
  have b: "page_addr b AND PTE_ADDR_MASK = page_addr b" using frame_of_page [OF assms(1)] by (simp add: frame_of_def)
  have low: "\<not> bit (page_addr b) n" if "n < 12" for n using that by (simp add: page_addr_push bit_push_bit_iff)
  have one: "bit PTE_PRESENT n \<longleftrightarrow> n = 0" for n by (simp add: PTE_PRESENT_def bit_1_iff)
  show "present e" by (simp add: e_def present_bit bit_or_iff one)
  show "\<not> huge e" using low [of 7] bit_perm [of f 7] by (auto simp: e_def huge_bit bit_or_iff one b)
  have "frame_of e = frame_of (page_addr b)"
    unfolding e_def b
    by (rule bit_word_eqI) (auto simp: frame_of_def bit_and_iff bit_or_iff bit_addr_mask one dest: bit_perm)
  then show "frame_of e = page_addr b" using assms(1) by simp
qed

section \<open>Tables and walks\<close>

definition next_table :: "u64 \<Rightarrow> u64 option" where
  "next_table e = (if present e \<and> \<not> huge e then Some (frame_of e) else None)"

primrec tbl :: "mem \<Rightarrow> u64 \<Rightarrow> nat list \<Rightarrow> u64 option" where
  "tbl m t [] = Some t"
| "tbl m t (i # is) = (case next_table (pte m t i) of None \<Rightarrow> None | Some u \<Rightarrow> tbl m u is)"

primrec walk :: "mem \<Rightarrow> u64 \<Rightarrow> nat list \<Rightarrow> (nat \<times> u64) option" where
  "walk m t [] = None"
| "walk m t (i # is) =
     (let e = pte m t i
      in if \<not> present e then None
         else if is = [] \<or> huge e then Some (length is, e)
         else walk m (frame_of e) is)"

definition idx_ok :: "nat list \<Rightarrow> bool" where
  "idx_ok p \<longleftrightarrow> (\<forall>i\<in>set p. i < 512)"

lemma idx_ok_simps [simp]:
  "idx_ok []" "idx_ok (i # p) \<longleftrightarrow> i < 512 \<and> idx_ok p" "idx_ok (p @ q) \<longleftrightarrow> idx_ok p \<and> idx_ok q"
  by (auto simp: idx_ok_def)

lemma tbl_append: "tbl m t (p @ q) = (case tbl m t p of None \<Rightarrow> None | Some u \<Rightarrow> tbl m u q)"
  by (induction p arbitrary: t) (auto split: option.split)

lemma walk_append:
  "tbl m t p = Some u \<Longrightarrow> q \<noteq> [] \<Longrightarrow> walk m t (p @ q) = walk m u q"
  by (induction p arbitrary: t) (auto simp: next_table_def Let_def split: option.splits if_splits)

lemma walk_blocked:
  "tbl m t p = Some u \<Longrightarrow> \<not> present (pte m u i) \<Longrightarrow> walk m t (p @ i # is) = None"
  by (simp add: walk_append)

section \<open>Changing one entry\<close>

text \<open>
  \<open>differs_at m m' root p0 i\<close>: in the tables of \<open>m\<close>, the memory \<open>m'\<close> differs at
  most in entry \<open>i\<close> of the table reached by \<open>p0\<close>.
\<close>

definition differs_at :: "mem \<Rightarrow> mem \<Rightarrow> u64 \<Rightarrow> nat list \<Rightarrow> nat \<Rightarrow> bool" where
  "differs_at m m' root p0 i \<longleftrightarrow>
     (\<forall>p t j. length p \<le> 3 \<longrightarrow> idx_ok p \<longrightarrow> j < 512 \<longrightarrow> tbl m root p = Some t \<longrightarrow> (p, j) \<noteq> (p0, i) \<longrightarrow>
              pte m' t j = pte m t j)"

definition avoids :: "nat list \<Rightarrow> nat list \<Rightarrow> nat list \<Rightarrow> nat \<Rightarrow> bool" where
  "avoids p q p0 i \<longleftrightarrow> (\<forall>k<length q. (p @ take k q, q ! k) \<noteq> (p0, i))"

lemma avoids_Nil [simp]: "avoids p [] p0 i"
  by (simp add: avoids_def)

lemma avoids_Cons [simp]: "avoids p (j # q) p0 i \<longleftrightarrow> (p, j) \<noteq> (p0, i) \<and> avoids (p @ [j]) q p0 i"
  by (auto simp: avoids_def less_Suc_eq_0_disj)

lemma differs_atD:
  "differs_at m m' root p0 i \<Longrightarrow> tbl m root p = Some t \<Longrightarrow> length p \<le> 3 \<Longrightarrow> idx_ok p \<Longrightarrow> j < 512 \<Longrightarrow>
   (p, j) \<noteq> (p0, i) \<Longrightarrow> pte m' t j = pte m t j"
  unfolding differs_at_def by blast

lemma tbl_agree:
  assumes "differs_at m m' root p0 i" "tbl m root p = Some t" "length p + length q \<le> 4" "idx_ok (p @ q)" "avoids p q p0 i"
  shows "tbl m' t q = tbl m t q"
  using assms(2-)
proof (induction q arbitrary: p t)
  case (Cons j q)
  have "pte m' t j = pte m t j"
    using Cons.prems by (intro differs_atD [OF assms(1)]) auto
  then show ?case
    using Cons.IH [of "p @ [j]"] Cons.prems by (auto simp: tbl_append split: option.split)
qed simp

lemma walk_agree:
  assumes "differs_at m m' root p0 i" "tbl m root p = Some t" "length p + length q \<le> 4" "idx_ok (p @ q)" "avoids p q p0 i"
  shows "walk m' t q = walk m t q"
  using assms(2-)
proof (induction q arbitrary: p t)
  case (Cons j q)
  have "pte m' t j = pte m t j"
    using Cons.prems by (intro differs_atD [OF assms(1)]) auto
  moreover have "walk m' (frame_of (pte m t j)) q = walk m (frame_of (pte m t j)) q"
    if "present (pte m t j)" "\<not> huge (pte m t j)"
    using Cons.IH [of "p @ [j]" "frame_of (pte m t j)"] Cons.prems that by (simp add: tbl_append next_table_def)
  ultimately show ?case by (auto simp: Let_def)
qed simp


lemma through_or_avoids: "avoids [] q p i \<or> (\<exists>r. q = p @ i # r)"
proof -
  have "q = p @ i # drop (Suc k) q" if "k < length q" "take k q = p" "q ! k = i" for k
    using that id_take_nth_drop by blast
  then show ?thesis by (auto simp: avoids_def)
qed

lemma avoids_shorter: "length q \<le> length p \<Longrightarrow> avoids [] q p i"
  by (auto simp: avoids_def)

lemma avoids_beyond: "length p0 < length p \<Longrightarrow> avoids p r p0 i"
  by (auto simp: avoids_def)

lemma tbl_through:
  assumes "differs_at m m' root p i" "tbl m root p = Some t" "length p \<le> 3" "idx_ok p"
  shows "tbl m' root (p @ i # r) = (case next_table (pte m' t i) of None \<Rightarrow> None | Some u \<Rightarrow> tbl m' u r)"
proof -
  have "tbl m' root p = Some t"
    using tbl_agree [OF assms(1), of "[]" root p] assms avoids_shorter [of p p i] by simp
  then show ?thesis by (simp add: tbl_append)
qed

lemma walk_through:
  assumes "differs_at m m' root p i" "tbl m root p = Some t" "length p \<le> 3" "idx_ok p"
  shows "walk m' root (p @ i # r) = walk m' t (i # r)"
proof -
  have "tbl m' root p = Some t"
    using tbl_agree [OF assms(1), of "[]" root p] assms avoids_shorter [of p p i] by simp
  then show ?thesis by (simp add: walk_append)
qed

section \<open>The invariant\<close>

definition is_table_frame :: "'a pmm_scheme \<Rightarrow> u64 \<Rightarrow> bool" where
  "is_table_frame s t \<longleftrightarrow> (\<exists>b. t = page_addr b \<and> 0 < b \<and> b < bitmap_bits s \<and> b \<notin> free_pgs s)"

definition vm_pmm :: "'a pmm_scheme \<Rightarrow> bool" where
  "vm_pmm s \<longleftrightarrow> pmm_wf s \<and> bitmap_bits s \<le> 2 ^ 40 \<and> 0 \<notin> free_pgs s"

definition vm_tree :: "'a pmm_scheme \<Rightarrow> u64 \<Rightarrow> bool" where
  "vm_tree s root \<longleftrightarrow> vm_pmm s \<and>
     (\<forall>p t. length p \<le> 3 \<longrightarrow> idx_ok p \<longrightarrow> tbl (phys_mem s) root p = Some t \<longrightarrow> is_table_frame s t) \<and>
     (\<forall>p q t. length p \<le> 3 \<longrightarrow> length q \<le> 3 \<longrightarrow> idx_ok p \<longrightarrow> idx_ok q \<longrightarrow>
        tbl (phys_mem s) root p = Some t \<longrightarrow> tbl (phys_mem s) root q = Some t \<longrightarrow> p = q)"

lemma vm_tree_frame:
  assumes "vm_tree s root" "length p \<le> 3" "idx_ok p" "tbl (phys_mem s) root p = Some t"
  obtains b where "t = page_addr b" "0 < b" "b < bitmap_bits s" "b < 2 ^ 40" "b < 2 ^ 52" "b \<notin> free_pgs s"
proof -
  obtain b where b: "t = page_addr b" "0 < b" "b < bitmap_bits s" "b \<notin> free_pgs s"
    using assms unfolding vm_tree_def is_table_frame_def by blast
  then have "b < 2 ^ 40" using assms(1) by (simp add: vm_tree_def vm_pmm_def)
  then show thesis using that b by simp
qed

lemma vm_tree_inj:
  "vm_tree s root \<Longrightarrow> length p \<le> 3 \<Longrightarrow> length q \<le> 3 \<Longrightarrow> idx_ok p \<Longrightarrow> idx_ok q \<Longrightarrow>
   tbl (phys_mem s) root p = Some t \<Longrightarrow> tbl (phys_mem s) root q = Some t \<Longrightarrow> p = q"
  unfolding vm_tree_def by blast

lemma vm_tree_pmm: "vm_tree s root \<Longrightarrow> pmm_wf s"
  by (simp add: vm_tree_def vm_pmm_def)

lemma write_differs:
  assumes tree: "vm_tree s root" and p: "tbl (phys_mem s) root p = Some t" "length p \<le> 3" "idx_ok p" "i < 512"
  shows "differs_at (phys_mem s) (write64 (phys_mem s) (t + 8 * of_nat i) v) root p i"
  unfolding differs_at_def
proof (intro allI impI)
  fix q u j
  assume q: "length q \<le> 3" "idx_ok q" "j < 512" "tbl (phys_mem s) root q = Some u" "(q, j) \<noteq> (p, i)"
  obtain b where b: "t = page_addr b" "b < 2 ^ 52" using vm_tree_frame [OF tree p(2,3,1)] by blast
  obtain c where c: "u = page_addr c" "c < 2 ^ 52" using vm_tree_frame [OF tree q(1,2,4)] by blast
  have "(c, j) \<noteq> (b, i)"
  proof
    assume "(c, j) = (b, i)"
    then have "q = p" using vm_tree_inj [OF tree q(1) p(2) q(2) p(3) q(4)] p(1) b(1) c(1) by simp
    then show False using q(5) \<open>(c, j) = (b, i)\<close> by simp
  qed
  then show "pte (write64 (phys_mem s) (t + 8 * of_nat i) v) u j = pte (phys_mem s) u j"
    using pte_write_other b c p(4) q(3) by simp
qed

lemma fill_write_differs:
  assumes tree: "vm_tree s root" and p: "tbl (phys_mem s) root p = Some t" "length p \<le> 3" "idx_ok p" "i < 512"
    and f: "f \<in> free_pgs s"
  shows "differs_at (phys_mem s) (write64 (mem_fill (phys_mem s) (page_addr f) 4096 0) (t + 8 * of_nat i) v) root p i"
  unfolding differs_at_def
proof (intro allI impI)
  let ?m = "mem_fill (phys_mem s) (page_addr f) 4096 0"
  fix q u j
  assume q: "length q \<le> 3" "idx_ok q" "j < 512" "tbl (phys_mem s) root q = Some u" "(q, j) \<noteq> (p, i)"
  obtain b where b: "t = page_addr b" "b < 2 ^ 52" using vm_tree_frame [OF tree p(2,3,1)] by blast
  obtain c where c: "u = page_addr c" "c < 2 ^ 52" "c \<notin> free_pgs s" using vm_tree_frame [OF tree q(1,2,4)] by blast
  have f52: "f < 2 ^ 52" using f tree by (auto simp: vm_tree_def vm_pmm_def free_pgs_def)
  have "(c, j) \<noteq> (b, i)"
  proof
    assume "(c, j) = (b, i)"
    then have "q = p" using vm_tree_inj [OF tree q(1) p(2) q(2) p(3) q(4)] p(1) b(1) c(1) by simp
    then show False using q(5) \<open>(c, j) = (b, i)\<close> by simp
  qed
  then have "pte (write64 ?m (t + 8 * of_nat i) v) u j = pte ?m u j"
    using pte_write_other b c p(4) q(3) by simp
  also have "\<dots> = pte (phys_mem s) u j"
    unfolding c(1) using f f52 c q(3) by (intro pte_fill_other) auto
  finally show "pte (write64 ?m (t + 8 * of_nat i) v) u j = pte (phys_mem s) u j" .
qed


section \<open>Creating a table\<close>

lemma not_present_zero [simp]: "\<not> present 0"
  by (simp add: present_def)

text \<open>An interior entry that keeps its target changes no table and no walk.\<close>

lemma same_target:
  assumes d: "differs_at m m' root p i" "tbl m root p = Some t" "length p \<le> 2" "idx_ok p" "i < 512"
    and e: "next_table (pte m' t i) = next_table (pte m t i)" "next_table (pte m t i) = Some u"
  shows "length q \<le> 3 \<Longrightarrow> idx_ok q \<Longrightarrow> tbl m' root q = tbl m root q"
    and "length q = 4 \<Longrightarrow> idx_ok q \<Longrightarrow> walk m' root q = walk m root q"
proof -
  have u: "tbl m root (p @ [i]) = Some u" using d(2) e(2) by (simp add: tbl_append)
  have p3: "length p \<le> 3" using d(3) by simp
  show "tbl m' root q = tbl m root q" if q: "length q \<le> 3" "idx_ok q"
    using through_or_avoids [of q p i]
  proof
    assume "avoids [] q p i"
    then show ?thesis using tbl_agree [OF d(1), of "[]" root q] q by simp
  next
    assume "\<exists>r. q = p @ i # r"
    then obtain r where r: "q = p @ i # r" by blast
    have "tbl m' u r = tbl m u r"
      using q r by (intro tbl_agree [OF d(1) u]) (auto simp: avoids_beyond)
    then show ?thesis
      using tbl_through [OF d(1,2) p3 d(4)] r e d(2) by (simp add: tbl_append)
  qed
  show "walk m' root q = walk m root q" if q: "length q = 4" "idx_ok q"
    using through_or_avoids [of q p i]
  proof
    assume "avoids [] q p i"
    then show ?thesis using walk_agree [OF d(1), of "[]" root q] q by simp
  next
    assume "\<exists>r. q = p @ i # r"
    then obtain r where r: "q = p @ i # r" by blast
    then have "r \<noteq> []" using q d(3) by auto
    have "walk m' u r = walk m u r"
      using q r by (intro walk_agree [OF d(1) u]) (auto simp: avoids_beyond)
    then show ?thesis
      using walk_through [OF d(1,2) p3 d(4)] walk_append [OF d(2), of "i # r"] r \<open>r \<noteq> []\<close> e
      by (auto simp: next_table_def split: if_splits)
  qed
qed

text \<open>Hanging an empty table into an absent entry adds that table and changes no walk.\<close>

lemma fresh_target:
  assumes d: "differs_at m m' root p i" "tbl m root p = Some t" "length p \<le> 2" "idx_ok p" "i < 512"
    and e: "\<not> present (pte m t i)" "next_table (pte m' t i) = Some u" and z: "\<forall>j<512. pte m' u j = 0"
  shows "length q \<le> 3 \<Longrightarrow> idx_ok q \<Longrightarrow> tbl m' root q = (if q = p @ [i] then Some u else tbl m root q)"
    and "length q = 4 \<Longrightarrow> idx_ok q \<Longrightarrow> walk m' root q = walk m root q"
proof -
  have p3: "length p \<le> 3" using d(3) by simp
  show "tbl m' root q = (if q = p @ [i] then Some u else tbl m root q)" if q: "length q \<le> 3" "idx_ok q"
    using through_or_avoids [of q p i]
  proof
    assume a: "avoids [] q p i"
    then have "q \<noteq> p @ [i]" by (auto simp: avoids_def)
    then show ?thesis using a tbl_agree [OF d(1), of "[]" root q] q by simp
  next
    assume "\<exists>r. q = p @ i # r"
    then obtain r where r: "q = p @ i # r" by blast
    have "tbl m root q = None" using r d(2) e(1) by (simp add: tbl_append next_table_def)
    moreover have "tbl m' root q = tbl m' u r" using tbl_through [OF d(1,2) p3 d(4)] r e(2) by simp
    moreover have "tbl m' u r = (if r = [] then Some u else None)"
      using z r q by (cases r) (auto simp: next_table_def)
    ultimately show ?thesis using r by auto
  qed
  show "walk m' root q = walk m root q" if q: "length q = 4" "idx_ok q"
    using through_or_avoids [of q p i]
  proof
    assume "avoids [] q p i"
    then show ?thesis using walk_agree [OF d(1), of "[]" root q] q by simp
  next
    assume "\<exists>r. q = p @ i # r"
    then obtain r where r: "q = p @ i # r" by blast
    then obtain j r' where r': "r = j # r'" "j < 512" using q d(3) by (cases r) auto
    have "walk m root q = None" using r d(2) e(1) walk_blocked by simp
    moreover have "walk m' root q = walk m' t (i # r)" using walk_through [OF d(1,2) p3 d(4)] r by simp
    ultimately show ?thesis using e(2) z r' by (auto simp: next_table_def Let_def split: if_splits)
  qed
qed

lemma pmm_alloc_zeroed_Ok:
  assumes "vm_pmm s" "pmm_alloc_zeroed s = Ok (a, s')"
  obtains b bm nx where "b \<in> free_pgs s" "0 < b" "a = page_addr b"
    "s' = s\<lparr>phys_mem := mem_fill (phys_mem s) a 4096 0, pmm_bitmap := bm, bitmap_next := nx, free_pages := free_pages s - 1\<rparr>"
    "free_pgs s' = free_pgs s - {b}" "vm_pmm s'"
proof -
  have wf: "pmm_wf s" using assms(1) by (simp add: vm_pmm_def)
  obtain t where t: "pmm_alloc s = Ok (a, t)"
    "s' = (if a = 0 then t else t\<lparr>phys_mem := mem_fill (phys_mem t) a 4096 0\<rparr>)"
    using assms(2) by (auto simp: pmm_alloc_zeroed_def bindr_eq_Ok split: if_splits)
  obtain b bm nx where b: "b \<in> free_pgs s" "a = page_addr b"
      "t = s\<lparr>pmm_bitmap := bm, bitmap_next := nx, free_pages := free_pages s - 1\<rparr>"
      "free_pgs t = free_pgs s - {b}" "pmm_wf t"
    by (rule pmm_alloc_Ok [OF wf t(1)])
  have "0 < b" using assms(1) b(1) by (cases b) (auto simp: vm_pmm_def)
  moreover have "b < 2 ^ 52" using assms(1) b(1) by (auto simp: vm_pmm_def free_pgs_def)
  ultimately have "a \<noteq> 0" using b(2) unat_page_addr [of b] by auto
  then have st: "s' = t\<lparr>phys_mem := mem_fill (phys_mem t) a 4096 0\<rparr>" using t(2) by simp
  then have s': "s' = s\<lparr>phys_mem := mem_fill (phys_mem s) a 4096 0, pmm_bitmap := bm, bitmap_next := nx,
      free_pages := free_pages s - 1\<rparr>"
    using b(3) by simp
  moreover have free: "free_pgs s' = free_pgs s - {b}" using st b(4) by (simp add: free_pgs_def)
  moreover have "pmm_wf s'" using st b(5) by (simp add: pmm_wf_def pmm_shape_def)
  moreover have "bitmap_bits s' = bitmap_bits s" using s' by simp
  then have "vm_pmm s'" using assms(1) \<open>pmm_wf s'\<close> free by (simp add: vm_pmm_def)
  ultimately show thesis using that b(1,2) \<open>0 < b\<close> by blast
qed


text \<open>The effect of \<open>table_get_or_create\<close> on a tree: the table is there, and no page moved.\<close>

lemma table_get_or_create_tree:
  assumes tree: "vm_tree s root" and p: "tbl (phys_mem s) root p = Some t" "length p \<le> 2" "idx_ok p" "i < 512"
    and nohuge: "present (pte (phys_mem s) t i) \<Longrightarrow> \<not> huge (pte (phys_mem s) t i)"
    and run: "table_get_or_create t i flags s = Ok (u, s')"
  shows "vm_tree s' root" and "tbl (phys_mem s') root (p @ [i]) = Some u"
    and "\<And>q. length q = 4 \<Longrightarrow> idx_ok q \<Longrightarrow> walk (phys_mem s') root q = walk (phys_mem s) root q"
    and "free_pgs s' \<subseteq> free_pgs s" and "bitmap_bits s' = bitmap_bits s"
    and "pmm.more s' = pmm.more s"
proof -
  let ?m = "phys_mem s" and ?e = "pte (phys_mem s) t i"
  have p3: "length p \<le> 3" using p(2) by simp
  have props: "vm_tree s' root \<and> tbl (phys_mem s') root (p @ [i]) = Some u \<and>
    (\<forall>q. length q = 4 \<longrightarrow> idx_ok q \<longrightarrow> walk (phys_mem s') root q = walk (phys_mem s) root q) \<and>
    free_pgs s' \<subseteq> free_pgs s \<and> bitmap_bits s' = bitmap_bits s \<and> pmm.more s' = pmm.more s"
  proof (cases "present ?e")
    case True
    define e' where "e' = (if ?e AND perm_of flags \<noteq> perm_of flags then ?e OR perm_of flags else ?e)"
    have s': "phys_mem s' = (if ?e AND perm_of flags \<noteq> perm_of flags then write64 ?m (t + 8 * of_nat i) e' else ?m)"
      "s' = s\<lparr>phys_mem := phys_mem s'\<rparr>" "u = frame_of e'"
      using run True
      by (auto simp: table_get_or_create_def Let_def present_def perm_of_def [symmetric] set_pte_def e'_def frame_of_def
               split: if_splits)
    have nt: "next_table e' = next_table ?e" "next_table ?e = Some u"
      using True nohuge s'(3) by (auto simp: e'_def next_table_def)
    have d: "differs_at ?m (phys_mem s') root p i"
      using write_differs [OF tree p(1) p3 p(3,4)] s'(1) by (simp add: differs_at_def)
    have e2: "pte (phys_mem s') t i = e'" using s'(1) by (simp add: e'_def)
    note same = same_target [OF d p(1-4), unfolded e2, OF nt]
    have eqs: "free_pgs s' = free_pgs s" "bitmap_bits s' = bitmap_bits s" "pmm.more s' = pmm.more s" "pmm_wf s' = pmm_wf s"
      by (subst s'(2); simp add: free_pgs_def pmm_wf_def pmm_shape_def)+
    have "vm_tree s' root"
      using tree same(1) eqs unfolding vm_tree_def vm_pmm_def is_table_frame_def by simp
    moreover have "tbl (phys_mem s') root (p @ [i]) = Some u"
      using same(1) [of "p @ [i]"] p nt(2) by (simp add: tbl_append)
    ultimately show ?thesis using same(2) eqs by blast
  next
    case False
    obtain f t' where alloc: "pmm_alloc_zeroed s = Ok (f, t')"
      and s': "s' = set_pte t i ((f AND PTE_ADDR_MASK) OR PTE_PRESENT OR perm_of flags) t'"
      and u: "u = frame_of (pte (phys_mem s') t i)"
      using run False
      by (auto simp: table_get_or_create_def Let_def present_def perm_of_def [symmetric] bindr_eq_Ok frame_of_def)
    have vmp: "vm_pmm s" using tree by (simp add: vm_tree_def)
    obtain b bm nx where b: "b \<in> free_pgs s" "0 < b" "f = page_addr b"
        "t' = s\<lparr>phys_mem := mem_fill ?m f 4096 0, pmm_bitmap := bm, bitmap_next := nx, free_pages := free_pages s - 1\<rparr>"
        "free_pgs t' = free_pgs s - {b}" "vm_pmm t'"
      by (rule pmm_alloc_zeroed_Ok [OF vmp alloc])
    have b40: "b < 2 ^ 40" "b < 2 ^ 52" using b(1) vmp by (auto simp: vm_pmm_def free_pgs_def)
    define e' where "e' = (page_addr b AND PTE_ADDR_MASK) OR PTE_PRESENT OR perm_of flags"
    have m': "phys_mem s' = write64 (mem_fill ?m (page_addr b) 4096 0) (t + 8 * of_nat i) e'"
      using s' b(3,4) by (simp add: set_pte_def e'_def)
    have d: "differs_at ?m (phys_mem s') root p i"
      unfolding m' by (rule fill_write_differs [OF tree p(1) p3 p(3,4) b(1)])
    have e2: "pte (phys_mem s') t i = e'" by (simp add: m')
    have nt: "next_table e' = Some u" "u = page_addr b"
      using new_entry [OF b40(1), of flags] u e2 by (auto simp: next_table_def e'_def)
    obtain c where c: "t = page_addr c" "c < 2 ^ 52" "c \<notin> free_pgs s" using vm_tree_frame [OF tree p3 p(3,1)] by blast
    have z: "\<forall>j<512. pte (phys_mem s') u j = 0"
    proof (intro allI impI)
      fix j :: nat assume "j < 512"
      moreover have "b \<noteq> c" using b(1) c(3) by blast
      ultimately show "pte (phys_mem s') u j = 0"
        unfolding m' nt(2) c(1) using pte_fill_zero [OF b40(2)] by (subst pte_write_other [OF c(2) b40(2) p(4)]) auto
    qed
    note fresh = fresh_target [OF d p(1-4) False, unfolded e2, OF nt(1) z]
    have free: "free_pgs s' = free_pgs s - {b}" and bits: "bitmap_bits s' = bitmap_bits s" and more: "pmm.more s' = pmm.more s"
      using b(4,5) s' by (simp_all add: set_pte_def free_pgs_def)
    have vmp': "vm_pmm s'"
      using b(6) s' by (simp add: set_pte_def vm_pmm_def pmm_wf_def pmm_shape_def free_pgs_def)
    have new: "is_table_frame s' u"
      using b(1,2) nt(2) free bits by (auto simp: is_table_frame_def free_pgs_def)
    have old: "is_table_frame s' v" if "is_table_frame s v" for v
      using that free bits by (auto simp: is_table_frame_def)
    have "\<not> is_table_frame s u"
    proof
      assume "is_table_frame s u"
      then obtain d where "page_addr b = page_addr d" "d < bitmap_bits s" "d \<notin> free_pgs s"
        using nt(2) by (auto simp: is_table_frame_def)
      moreover from this have "d < 2 ^ 52" using vmp by (simp add: vm_pmm_def)
      ultimately show False using page_addr_inj b40(2) b(1) by blast
    qed
    then have notu: "tbl ?m root q \<noteq> Some u" if "length q \<le> 3" "idx_ok q" for q
      using tree that unfolding vm_tree_def by blast
    have "vm_tree s' root"
      unfolding vm_tree_def
    proof (intro conjI allI impI)
      fix q v assume q: "length q \<le> 3" "idx_ok q" "tbl (phys_mem s') root q = Some v"
      then show "is_table_frame s' v"
        using fresh(1) [OF q(1,2)] new old tree unfolding vm_tree_def by (metis option.inject)
      fix q' assume "length q' \<le> 3" "idx_ok q'" "tbl (phys_mem s') root q' = Some v"
      then show "q = q'"
        using fresh(1) [OF q(1,2)] fresh(1) [of q'] q notu vm_tree_inj [OF tree] by (metis option.inject)
    qed (rule vmp')
    moreover have "tbl (phys_mem s') root (p @ [i]) = Some u"
      using fresh(1) [of "p @ [i]"] p by simp
    ultimately show ?thesis using fresh(2) free bits more by blast
  qed
  then show "vm_tree s' root" and "tbl (phys_mem s') root (p @ [i]) = Some u"
    and "\<And>q. length q = 4 \<Longrightarrow> idx_ok q \<Longrightarrow> walk (phys_mem s') root q = walk (phys_mem s) root q"
    and "free_pgs s' \<subseteq> free_pgs s" and "bitmap_bits s' = bitmap_bits s"
    and "pmm.more s' = pmm.more s"
    by blast+
qed

end
