(* ===== verification/Paging_Map.thy ===== *)
theory Paging_Map
  imports Paging_Facts
begin

text \<open>
  Correctness of mapping, unmapping and translation over the tree view: one
  page's walk changes and no other, translation reads the walk, ranges map page
  by page, and the search for a free user range is first fit.
\<close>

section \<open>Paths\<close>

definition path :: "u64 \<Rightarrow> nat list" where
  "path va = [PML4_INDEX va, PDPT_INDEX va, PD_INDEX va, PT_INDEX va]"

lemma index_less: "unat (w AND 0x1FF) < 512" for w :: u64
proof -
  have "w AND 0x1FF \<le> 0x1FF" by (rule word_and_le1)
  then show ?thesis by (simp add: word_le_nat_alt)
qed

lemma path_ok [simp]: "idx_ok (path va)" "length (path va) = 4"
  by (simp_all add: path_def PML4_INDEX_def PDPT_INDEX_def PD_INDEX_def PT_INDEX_def index_less)

lemma unat_index: "unat (drop_bit k w AND 0x1FF) = unat w div 2 ^ k mod 512" for w :: u64
proof -
  have "(0x1FF :: u64) = mask 9" by (simp add: mask_eq_exp_minus_1)
  then have "unat (drop_bit k w AND 0x1FF) = unat (take_bit 9 (drop_bit k w))" by (simp only: take_bit_eq_mask)
  also have "\<dots> = take_bit 9 (drop_bit k (unat w))" by (simp only: unsigned_take_bit_eq unat_drop_bit_eq)
  finally show ?thesis by (simp add: take_bit_eq_mod drop_bit_eq_div)
qed

lemma path_page:
  assumes "n < 2 ^ 52"
  shows "path (page_addr n) = [n div 2 ^ 27 mod 512, n div 2 ^ 18 mod 512, n div 2 ^ 9 mod 512, n mod 512]"
proof -
  have "n * 4096 div (4096 * 2 ^ k) = n div 2 ^ k" for k
    by (simp add: div_mult2_eq)
  from this [of 27] this [of 18] this [of 9] this [of 0] show ?thesis
    by (simp add: path_def PML4_INDEX_def PDPT_INDEX_def PD_INDEX_def PT_INDEX_def unat_index unat_page_addr [OF assms])
qed

text \<open>Pages of the 48-bit address space are told apart by their paths.\<close>

lemma path_page_inj:
  assumes "a div 2 ^ 36 = b div 2 ^ 36" "a < 2 ^ 52" "b < 2 ^ 52" "path (page_addr a) = path (page_addr b)"
  shows "a = b"
proof -
  have digit: "x = y" if "x div 512 = y div 512" "x mod 512 = y mod 512" for x y :: nat
    using that by (metis div_mult_mod_eq)
  have steps: "n div 2 ^ 27 div 512 = n div 2 ^ 36" "n div 2 ^ 18 div 512 = n div 2 ^ 27"
    "n div 2 ^ 9 div 512 = n div 2 ^ 18" "n div 512 = n div 2 ^ 9" for n :: nat
    by (simp_all flip: div_mult2_eq)
  have idx: "a div 2 ^ 27 mod 512 = b div 2 ^ 27 mod 512" "a div 2 ^ 18 mod 512 = b div 2 ^ 18 mod 512"
    "a div 2 ^ 9 mod 512 = b div 2 ^ 9 mod 512" "a mod 512 = b mod 512"
    using assms(4) unfolding path_page [OF assms(2)] path_page [OF assms(3)] by simp_all
  have "a div 2 ^ 27 = b div 2 ^ 27" by (rule digit [OF _ idx(1)]) (simp only: steps(1) assms(1))
  then have "a div 2 ^ 18 = b div 2 ^ 18" by (intro digit [OF _ idx(2)]) (simp only: steps(2))
  then have "a div 2 ^ 9 = b div 2 ^ 9" by (intro digit [OF _ idx(3)]) (simp only: steps(3))
  then show ?thesis by (intro digit [OF _ idx(4)]) (simp only: steps(4))
qed

section \<open>Leaf entries\<close>

lemma set_leaf:
  assumes tree: "vm_tree s root" and p: "tbl (phys_mem s) root p = Some t" "length p = 3" "idx_ok p" "i < 512"
  shows "vm_tree (set_pte t i v s) root"
    and "length q = 4 \<Longrightarrow> idx_ok q \<Longrightarrow> walk (phys_mem (set_pte t i v s)) root q =
           (if q = p @ [i] then (if present v then Some (0, v) else None) else walk (phys_mem s) root q)"
proof -
  let ?m = "phys_mem s" and ?m' = "phys_mem (set_pte t i v s)"
  have m': "?m' = write64 ?m (t + 8 * of_nat i) v" by (simp add: set_pte_def)
  have p3: "length p \<le> 3" using p(2) by simp
  have d: "differs_at ?m ?m' root p i" unfolding m' by (rule write_differs [OF tree p(1) p3 p(3,4)])
  have e: "pte ?m' t i = v" by (simp add: m')
  have same: "tbl ?m' root q = tbl ?m root q" if "length q \<le> 3" "idx_ok q" for q
    using tbl_agree [OF d, of "[]" root q] that p(2) avoids_shorter [of q p i] by simp
  have "free_pgs (set_pte t i v s) = free_pgs s" "bitmap_bits (set_pte t i v s) = bitmap_bits s" "vm_pmm (set_pte t i v s) = vm_pmm s"
    by (simp_all add: set_pte_def free_pgs_def vm_pmm_def pmm_wf_def pmm_shape_def)
  then show "vm_tree (set_pte t i v s) root"
    using tree same unfolding vm_tree_def is_table_frame_def by simp
  assume q: "length q = 4" "idx_ok q"
  show "walk ?m' root q = (if q = p @ [i] then (if present v then Some (0, v) else None) else walk ?m root q)"
    using through_or_avoids [of q p i]
  proof
    assume a: "avoids [] q p i"
    then have "q \<noteq> p @ [i]" by (auto simp: avoids_def)
    then show ?thesis using a walk_agree [OF d, of "[]" root q] q by simp
  next
    assume "\<exists>r. q = p @ i # r"
    then have r: "q = p @ [i]" using q p(2) by auto
    then show ?thesis using walk_through [OF d p(1) p3 p(3), of "[]"] e by simp
  qed
qed

section \<open>Mapping one page\<close>

definition small_path :: "mem \<Rightarrow> u64 \<Rightarrow> u64 \<Rightarrow> bool" where
  "small_path m root va \<longleftrightarrow> (case walk m root (path va) of None \<Rightarrow> True | Some (k, e) \<Rightarrow> k = 0)"

definition leaf_entry :: "u64 \<Rightarrow> u64 \<Rightarrow> u64" where
  "leaf_entry pa flags = (pa AND PTE_ADDR_MASK) OR flags OR PTE_PRESENT"

lemma present_leaf [simp]: "present (leaf_entry pa flags)"
  by (simp add: present_bit leaf_entry_def bit_or_iff PTE_PRESENT_def)

lemma small_path_entry:
  assumes "small_path m root va" "path va = p @ i # r" "r \<noteq> []" "tbl m root p = Some t" "present (pte m t i)"
  shows "\<not> huge (pte m t i)"
  using assms walk_append [OF assms(4), of "i # r"] by (auto simp: small_path_def)

text \<open>Everything \<open>map_4k_nolock\<close> may change besides physical memory and the bitmap is left alone.\<close>

definition pmm_only :: "'a pmm_scheme \<Rightarrow> 'a pmm_scheme \<Rightarrow> bool" where
  "pmm_only s s' \<longleftrightarrow> free_pgs s' \<subseteq> free_pgs s \<and> bitmap_bits s' = bitmap_bits s \<and> pmm.more s' = pmm.more s"

lemma pmm_only_refl [simp]: "pmm_only s s" and pmm_only_trans: "pmm_only s t \<Longrightarrow> pmm_only t u \<Longrightarrow> pmm_only s u"
  by (auto simp: pmm_only_def)

lemma map_4k_nolock_walk:
  assumes tree: "vm_tree s root" and small: "small_path (phys_mem s) root va"
    and run: "map_4k_nolock root va pa flags s = Ok s'"
  shows "vm_tree s' root" and "pmm_only s s'"
    and "\<And>q. length q = 4 \<Longrightarrow> idx_ok q \<Longrightarrow> walk (phys_mem s') root q =
           (if q = path va then Some (0, leaf_entry pa flags) else walk (phys_mem s) root q)"
proof -
  obtain pdpt s1 pd s2 pt s3 where r:
      "table_get_or_create root (PML4_INDEX va) flags s = Ok (pdpt, s1)"
      "table_get_or_create pdpt (PDPT_INDEX va) flags s1 = Ok (pd, s2)"
      "table_get_or_create pd (PD_INDEX va) flags s2 = Ok (pt, s3)"
      "s' = set_pte pt (PT_INDEX va) (leaf_entry pa flags) s3"
    using run by (auto simp: map_4k_nolock_def bindr_eq_Ok leaf_entry_def)
  have idx: "PML4_INDEX va < 512" "PDPT_INDEX va < 512" "PD_INDEX va < 512" "PT_INDEX va < 512"
    using path_ok(1) [of va] by (auto simp: path_def)
  let ?p1 = "[PML4_INDEX va]" and ?p2 = "[PML4_INDEX va, PDPT_INDEX va]" and ?p3 = "[PML4_INDEX va, PDPT_INDEX va, PD_INDEX va]"
  have small_at: "small_path (phys_mem t) root va" if "walk (phys_mem t) root (path va) = walk (phys_mem s) root (path va)" for t :: "'a pmm_scheme"
    using that small by (simp add: small_path_def)
  have t0: "tbl (phys_mem s) root [] = Some root" by simp
  note g1 = table_get_or_create_tree [OF tree t0 _ _ idx(1) small_path_entry [OF small _ _ t0] r(1)]
  have s1: "vm_tree s1 root" "tbl (phys_mem s1) root ?p1 = Some pdpt" "pmm_only s s1"
      "\<And>q. length q = 4 \<Longrightarrow> idx_ok q \<Longrightarrow> walk (phys_mem s1) root q = walk (phys_mem s) root q"
    using g1 by (auto simp: path_def pmm_only_def)
  have sm1: "small_path (phys_mem s1) root va" by (rule small_at) (simp add: s1(4))
  note g2 = table_get_or_create_tree [OF s1(1,2) _ _ idx(2) small_path_entry [OF sm1 _ _ s1(2)] r(2)]
  have s2: "vm_tree s2 root" "tbl (phys_mem s2) root ?p2 = Some pd" "pmm_only s1 s2"
      "\<And>q. length q = 4 \<Longrightarrow> idx_ok q \<Longrightarrow> walk (phys_mem s2) root q = walk (phys_mem s) root q"
    using g2 idx s1(4) by (auto simp: path_def pmm_only_def)
  have sm2: "small_path (phys_mem s2) root va" by (rule small_at) (simp add: s2(4))
  note g3 = table_get_or_create_tree [OF s2(1,2) _ _ idx(3) small_path_entry [OF sm2 _ _ s2(2)] r(3)]
  have s3: "vm_tree s3 root" "tbl (phys_mem s3) root ?p3 = Some pt" "pmm_only s2 s3"
      "\<And>q. length q = 4 \<Longrightarrow> idx_ok q \<Longrightarrow> walk (phys_mem s3) root q = walk (phys_mem s) root q"
    using g3 idx s2(4) by (auto simp: path_def pmm_only_def)
  note leaf = set_leaf [OF s3(1,2) _ _ idx(4), where v = "leaf_entry pa flags"]
  show "vm_tree s' root" using leaf(1) idx by (simp add: r(4))
  show "walk (phys_mem s') root q = (if q = path va then Some (0, leaf_entry pa flags) else walk (phys_mem s) root q)"
    if "length q = 4" "idx_ok q" for q
    using leaf(2) [of q] that idx s3(4) [OF that] by (simp add: r(4) path_def)
  have "pmm_only s3 s'" by (simp add: r(4) set_pte_def pmm_only_def free_pgs_def)
  then show "pmm_only s s'" using s1(3) s2(3) s3(3) pmm_only_trans by blast
qed


section \<open>Translation\<close>

text \<open>No entry of the top-level table claims to be a large page, as the architecture requires.\<close>

definition root_ok :: "mem \<Rightarrow> u64 \<Rightarrow> bool" where
  "root_ok m root \<longleftrightarrow> (\<forall>q e. length q = 4 \<longrightarrow> idx_ok q \<longrightarrow> walk m root q \<noteq> Some (3, e))"

definition translate :: "(nat \<times> u64) option \<Rightarrow> u64 \<Rightarrow> u64" where
  "translate r va = (case r of None \<Rightarrow> UINTPTR_MAX | Some (k, e) \<Rightarrow> frame_of e OR (va AND (2 ^ (12 + 9 * k) - 1)))"

lemma walk_path:
  assumes "root_ok m root"
  shows "walk m root (path va) =
    (let e4 = pte m root (PML4_INDEX va); e3 = pte m (frame_of e4) (PDPT_INDEX va);
         e2 = pte m (frame_of e3) (PD_INDEX va); e1 = pte m (frame_of e2) (PT_INDEX va)
     in if \<not> present e4 then None else if \<not> present e3 then None else if huge e3 then Some (2, e3)
        else if \<not> present e2 then None else if huge e2 then Some (1, e2)
        else if \<not> present e1 then None else Some (0, e1))"
proof -
  have "walk m root (path va) \<noteq> Some (3, pte m root (PML4_INDEX va))"
    using assms path_ok unfolding root_ok_def by blast
  then show ?thesis by (auto simp: path_def Let_def)
qed

lemma virt_to_phys_walk:
  "root_ok m root \<Longrightarrow> page_dir_virt_to_phys m root va = translate (walk m root (path va)) va"
  by (simp add: walk_path page_dir_virt_to_phys_def translate_def Let_def present_def huge_def frame_of_def pte_consts)

lemma page_free_walk:
  "root_ok m root \<Longrightarrow> uvma_page_free m root va \<longleftrightarrow> walk m root (path va) = None"
  by (simp add: walk_path uvma_page_free_def Let_def present_def huge_def frame_of_def)

lemma root_ok_update:
  assumes "root_ok m root" and "\<And>q. length q = 4 \<Longrightarrow> idx_ok q \<Longrightarrow> walk m' root q = walk m root q \<or> (\<exists>e. walk m' root q = Some (0, e)) \<or> walk m' root q = None"
  shows "root_ok m' root"
  unfolding root_ok_def
proof (intro allI impI notI)
  fix q e assume q: "length q = 4" "idx_ok q" "walk m' root q = Some (3, e)"
  have "walk m root q \<noteq> Some (3, e)" using assms(1) q(1,2) unfolding root_ok_def by blast
  then show False using assms(2) [OF q(1,2)] q(3) by auto
qed

lemma vmm_lock_acquire_free [run_simps]:
  "vmm_lock s = 0 \<Longrightarrow> vmm_lock_acquire s = Ok (rflags s, s\<lparr>int_flag := False, vmm_lock := 1\<rparr>)"
  by (simp add: vmm_lock_acquire_def run_simps)

lemma vmm_lock_release_simp [run_simps]:
  "vmm_lock_release (rflags s) t = t\<lparr>int_flag := int_flag s \<or> int_flag t, vmm_lock := 0\<rparr>"
  by (simp add: vmm_lock_release_def run_simps)

lemma vmm_virt_to_phys_same:
  "vmm_lock s = 0 \<Longrightarrow> vmm_virt_to_phys va s = Ok (page_dir_virt_to_phys (phys_mem s) (cr3 s) va, s)"
  by (simp add: vmm_virt_to_phys_def with_vmm_lock_def page_dir_virt_to_phys_def Let_def run_simps)

section \<open>Unmapping one page\<close>

lemma unmap_4k_nolock_run:
  assumes tree: "vm_tree s root" and root: "root_ok (phys_mem s) root" and small: "walk (phys_mem s) root (path va) = Some (0, e)"
  shows "\<exists>t. vm_tree t root \<and> free_pgs t = free_pgs s \<and> bitmap_bits t = bitmap_bits s \<and> pmm.more t = pmm.more s \<and>
    (\<forall>q. length q = 4 \<longrightarrow> idx_ok q \<longrightarrow> walk (phys_mem t) root q = (if q = path va then None else walk (phys_mem s) root q)) \<and>
    unmap_4k_nolock root va free_phys s =
      (if free_phys \<and> e AND PTE_LOCAL_OWNED \<noteq> 0 then pmm_free (frame_of e) t else Ok t)"
proof -
  let ?m = "phys_mem s"
  define e4 where "e4 = pte ?m root (PML4_INDEX va)"
  define e3 where "e3 = pte ?m (frame_of e4) (PDPT_INDEX va)"
  define e2 where "e2 = pte ?m (frame_of e3) (PD_INDEX va)"
  have w: "present e4" "present e3" "\<not> huge e3" "present e2" "\<not> huge e2"
    "present e" "e = pte ?m (frame_of e2) (PT_INDEX va)"
    using small unfolding walk_path [OF root] by (auto simp: Let_def e4_def e3_def e2_def split: if_splits)
  have "\<not> huge e4"
    using root small w(1) unfolding root_ok_def path_def by (auto simp: Let_def e4_def)
  let ?p = "[PML4_INDEX va, PDPT_INDEX va, PD_INDEX va]"
  have t: "tbl ?m root ?p = Some (frame_of e2)"
    using w \<open>\<not> huge e4\<close> by (simp add: next_table_def e4_def e3_def e2_def)
  have idx: "idx_ok ?p" "PT_INDEX va < 512" using path_ok(1) [of va] by (auto simp: path_def)
  define t where "t = set_pte (frame_of e2) (PT_INDEX va) 0 s"
  note leaf = set_leaf [OF tree t _ idx, where v = 0]
  have "vm_tree t root" using leaf(1) by (simp add: t_def)
  moreover have "walk (phys_mem t) root q = (if q = path va then None else walk ?m root q)"
    if "length q = 4" "idx_ok q" for q
    using leaf(2) [of q] that by (simp add: t_def path_def)
  moreover have "free_pgs t = free_pgs s" "bitmap_bits t = bitmap_bits s" "pmm.more t = pmm.more s"
    by (simp_all add: t_def set_pte_def free_pgs_def)
  moreover have "unmap_4k_nolock root va free_phys s =
        (if free_phys \<and> e AND PTE_LOCAL_OWNED \<noteq> 0 then pmm_free (frame_of e) t else Ok t)"
    using w(1-6) unfolding unmap_4k_nolock_def Let_def t_def w(7) e4_def e3_def e2_def present_def huge_def frame_of_def
    by simp
  ultimately show ?thesis by blast
qed

section \<open>Mapping a run of pages\<close>

text \<open>\<open>one_half n count\<close>: the pages \<open>n, \<dots>, n + count - 1\<close> do not cross a 48-bit boundary.\<close>

definition one_half :: "nat \<Rightarrow> nat \<Rightarrow> bool" where
  "one_half n count \<longleftrightarrow> (\<forall>i<count. (n + i) div 2 ^ 36 = n div 2 ^ 36 \<and> n + i < 2 ^ 52)"

lemma one_half_inj:
  "one_half n count \<Longrightarrow> i < count \<Longrightarrow> j < count \<Longrightarrow> path (page_addr (n + i)) = path (page_addr (n + j)) \<Longrightarrow> i = j"
  using path_page_inj [of "n + i" "n + j"] by (simp add: one_half_def)

lemma page_addr_step: "page_addr n + of_nat i * PAGE_SIZE_4K = page_addr (n + i)"
  by (simp add: page_addr_def PMM_PAGE_SIZE_def PAGE_SIZE_4K_def algebra_simps)

lemma map_4k_run_walk:
  assumes tree: "vm_tree s root" and half: "one_half n count"
    and small: "\<forall>i<count. small_path (phys_mem s) root (page_addr (n + i))"
    and run: "map_4k_run root (page_addr n) pa count flags s = Ok s'"
  shows "vm_tree s' root \<and> pmm_only s s' \<and>
    (\<forall>i<count. walk (phys_mem s') root (path (page_addr (n + i))) = Some (0, leaf_entry (pa + of_nat i * PAGE_SIZE_4K) flags)) \<and>
    (\<forall>q. length q = 4 \<longrightarrow> idx_ok q \<longrightarrow> (\<forall>i<count. q \<noteq> path (page_addr (n + i))) \<longrightarrow>
         walk (phys_mem s') root q = walk (phys_mem s) root q)"
  using half small run
proof (induction count arbitrary: s')
  case 0
  then show ?case using tree by (simp add: map_4k_run_def)
next
  case (Suc c)
  obtain t where t: "map_4k_run root (page_addr n) pa c flags s = Ok t"
    and step: "map_4k_nolock root (page_addr (n + c)) (pa + of_nat c * PAGE_SIZE_4K) flags t = Ok s'"
    using Suc.prems(3) by (auto simp: map_4k_run_def foreach_append bindr_eq_Ok page_addr_step)
  have IH: "vm_tree t root" "pmm_only s t"
    "\<forall>i<c. walk (phys_mem t) root (path (page_addr (n + i))) = Some (0, leaf_entry (pa + of_nat i * PAGE_SIZE_4K) flags)"
    "\<And>q. length q = 4 \<Longrightarrow> idx_ok q \<Longrightarrow> \<forall>i<c. q \<noteq> path (page_addr (n + i)) \<Longrightarrow>
         walk (phys_mem t) root q = walk (phys_mem s) root q"
    using Suc.IH [OF _ _ t] Suc.prems by (auto simp: one_half_def)
  have new: "\<forall>i<c. path (page_addr (n + c)) \<noteq> path (page_addr (n + i))"
    using one_half_inj [OF Suc.prems(1), of c] by (metis less_Suc_eq less_irrefl)
  then have "walk (phys_mem t) root (path (page_addr (n + c))) = walk (phys_mem s) root (path (page_addr (n + c)))"
    by (intro IH(4)) auto
  then have "small_path (phys_mem t) root (page_addr (n + c))"
    using Suc.prems(2) by (simp add: small_path_def)
  note one = map_4k_nolock_walk [OF IH(1) this step]
  have "walk (phys_mem s') root (path (page_addr (n + i))) = Some (0, leaf_entry (pa + of_nat i * PAGE_SIZE_4K) flags)"
    if "i < Suc c" for i
  proof (cases "i = c")
    case False
    then have "i < c" using that by simp
    moreover from this have "path (page_addr (n + i)) \<noteq> path (page_addr (n + c))" using new by metis
    ultimately show ?thesis using one(3) [of "path (page_addr (n + i))"] IH(3) by simp
  qed (simp add: one(3))
  moreover have "walk (phys_mem s') root q = walk (phys_mem s) root q"
    if "length q = 4" "idx_ok q" "\<forall>i<Suc c. q \<noteq> path (page_addr (n + i))" for q
    using one(3) [OF that(1,2)] IH(4) that by simp
  ultimately show ?case using one(1,2) IH(2) pmm_only_trans by blast
qed

lemma vm_tree_irrelevant [simp]:
  "vm_tree (s\<lparr>int_flag := f, vmm_lock := l\<rparr>) root \<longleftrightarrow> vm_tree s root" for s :: "'a paging_scheme"
  by (simp add: vm_tree_def vm_pmm_def is_table_frame_def free_pgs_def pmm_wf_def pmm_shape_def)

section \<open>Finding a free user range\<close>

lemma uvma_search_first_fit:
  assumes "uvma_search fuel m root count start va = Ok (Some r)"
  shows "\<exists>k<fuel. r = va + of_nat k * PAGE_SIZE_4K \<and> uvma_is_range_free m root r count \<and>
             (\<forall>j<k. \<not> uvma_is_range_free m root (va + of_nat j * PAGE_SIZE_4K) count)"
  using assms
proof (induction fuel arbitrary: va)
  case (Suc fuel)
  show ?case
  proof (cases "uvma_is_range_free m root va count")
    case True
    then show ?thesis using Suc.prems by (intro exI [of _ 0]) simp
  next
    case False
    then have "uvma_search fuel m root count start (va + PAGE_SIZE_4K) = Ok (Some r)"
      using Suc.prems by (simp add: Let_def split: if_splits)
    from Suc.IH [OF this] obtain k where k: "k < fuel" "r = va + PAGE_SIZE_4K + of_nat k * PAGE_SIZE_4K"
      "uvma_is_range_free m root r count"
      "\<forall>j<k. \<not> uvma_is_range_free m root (va + PAGE_SIZE_4K + of_nat j * PAGE_SIZE_4K) count" by blast
    have step: "va + of_nat (Suc j) * PAGE_SIZE_4K = va + PAGE_SIZE_4K + of_nat j * PAGE_SIZE_4K" for j
      by (simp add: algebra_simps)
    have "\<not> uvma_is_range_free m root (va + of_nat j * PAGE_SIZE_4K) count" if "j < Suc k" for j
      using that False k(4) step by (cases j) (simp, metis Suc_less_eq)
    then show ?thesis using k step [of k] by (intro exI [of _ "Suc k"]) auto
  qed
qed simp

lemma range_free_walk:
  assumes "root_ok m root"
  shows "uvma_is_range_free m root (page_addr n) count \<longleftrightarrow>
           (\<forall>i<count. walk m root (path (page_addr (n + i))) = None)"
  by (auto simp: uvma_is_range_free_def page_addr_step page_free_walk [OF assms])

lemma uvma_map_pages_correct:
  assumes tree: "vm_tree s root" and root: "root_ok (phys_mem s) root" and lock: "vmm_lock s = 0"
    and args: "root \<noteq> 0" "0 < count" "pa AND 0xFFF = 0" "start AND 0xFFF = 0"
    and run: "uvma_map_pages root pa count flags start s = Ok (va, s')"
    and found: "va \<noteq> 0" "va = page_addr n" "one_half n count"
  shows "vm_tree s' root \<and> vmm_lock s' = 0 \<and>
    (\<exists>k. va = start + of_nat k * PAGE_SIZE_4K \<and>
         (\<forall>j<k. \<not> uvma_is_range_free (phys_mem s) root (start + of_nat j * PAGE_SIZE_4K) count)) \<and>
    (\<forall>i<count. walk (phys_mem s) root (path (page_addr (n + i))) = None \<and>
       walk (phys_mem s') root (path (page_addr (n + i))) =
         Some (0, leaf_entry (pa + of_nat i * PAGE_SIZE_4K) (flags OR PTE_PRESENT))) \<and>
    (\<forall>q. length q = 4 \<longrightarrow> idx_ok q \<longrightarrow> (\<forall>i<count. q \<noteq> path (page_addr (n + i))) \<longrightarrow>
         walk (phys_mem s') root q = walk (phys_mem s) root q)"
proof -
  let ?l = "s\<lparr>int_flag := False, vmm_lock := 1\<rparr>"
  obtain t where search: "uvma_search (2 ^ 52) (phys_mem s) root count start start = Ok (Some va)"
    and map: "map_4k_run root va pa count (flags OR PTE_PRESENT) ?l = Ok t"
    and s': "s' = vmm_lock_release (rflags s) t"
    using run args found(1) lock
    by (auto simp: uvma_map_pages_def with_vmm_lock_def run_simps PAGE_SIZE_4K_def Let_def
             split: option.splits simp del: uvma_search.simps)
  obtain k where k: "va = start + of_nat k * PAGE_SIZE_4K" "uvma_is_range_free (phys_mem s) root va count"
      "\<forall>j<k. \<not> uvma_is_range_free (phys_mem s) root (start + of_nat j * PAGE_SIZE_4K) count"
    using uvma_search_first_fit [OF search] by blast
  have free: "\<forall>i<count. walk (phys_mem s) root (path (page_addr (n + i))) = None"
    using k(2) range_free_walk [OF root] found(2) by simp
  have "vm_tree ?l root" using tree by simp
  moreover have "\<forall>i<count. small_path (phys_mem ?l) root (page_addr (n + i))" using free by (simp add: small_path_def)
  ultimately have m: "vm_tree t root \<and> pmm_only ?l t \<and>
      (\<forall>i<count. walk (phys_mem t) root (path (page_addr (n + i))) =
         Some (0, leaf_entry (pa + of_nat i * PAGE_SIZE_4K) (flags OR PTE_PRESENT))) \<and>
      (\<forall>q. length q = 4 \<longrightarrow> idx_ok q \<longrightarrow> (\<forall>i<count. q \<noteq> path (page_addr (n + i))) \<longrightarrow>
         walk (phys_mem t) root q = walk (phys_mem ?l) root q)"
    using map_4k_run_walk [OF _ found(3) _ map [unfolded found(2)]] by blast
  have s'': "s' = t\<lparr>int_flag := int_flag s \<or> int_flag t, vmm_lock := 0\<rparr>" using s' by (simp add: run_simps)
  have "vm_tree s' root" "vmm_lock s' = 0" "phys_mem s' = phys_mem t" using m by (simp_all add: s'')
  then show ?thesis using m k free by auto
qed

end
