(* ===== verification/Heap.thy ===== *)
theory Heap
  imports Paging_Map
begin

text \<open>
  The kernel heap \<open>kernel/src/memory/memory.c\<close>: a fixed array of free regions, a
  size header in front of every block, and growth by whole pages taken from the
  page allocator, the kernel address allocator and the page tables. \<open>kmem\<close> is
  the kernel's view of heap memory, by virtual address.
\<close>

section \<open>State\<close>

record free_region =
  fr_base :: u64
  fr_length :: u64

definition MAX_FREE_REGIONS :: nat where "MAX_FREE_REGIONS = 102"
definition KERNEL_HEAP_SEED_PAGES :: nat where "KERNEL_HEAP_SEED_PAGES = 4"

record heap = paging +
  heap_lock :: u32
  free_region_count :: nat
  free_regions :: "free_region list"
  kmem :: mem

definition heap_lock_acquire :: "'a heap_scheme \<Rightarrow> (u64 \<times> 'a heap_scheme) run" where
  "heap_lock_acquire s =
     bindr (spin_lock_irqsave (heap_lock s) s) (\<lambda>(f, l, s). Ok (f, s\<lparr>heap_lock := l\<rparr>))"

definition heap_lock_release :: "u64 \<Rightarrow> 'a heap_scheme \<Rightarrow> 'a heap_scheme" where
  "heap_lock_release f s = (let (l, s) = spin_unlock_irqrestore f s in s\<lparr>heap_lock := l\<rparr>)"

abbreviation zero_region :: free_region where
  "zero_region \<equiv> \<lparr>fr_base = 0, fr_length = 0\<rparr>"

definition fr_end :: "free_region \<Rightarrow> u64" where
  "fr_end r = fr_base r + fr_length r"

text \<open>
  \<open>x & ~7U\<close>: the mask is a 32-bit constant, zero-extended to 64 bits, so the
  operation also clears the upper half of \<open>x\<close>.
\<close>

definition align8 :: "u64 \<Rightarrow> u64" where
  "align8 x = x AND ucast (NOT (7 :: u32))"

section \<open>The region array\<close>

text \<open>\<open>shift_left j n\<close> is the loop that moves entries \<open>j + 1, \<dots>, n - 1\<close> down by one; entry \<open>n - 1\<close> keeps its value.\<close>

definition shift_left :: "nat \<Rightarrow> nat \<Rightarrow> free_region list \<Rightarrow> free_region list" where
  "shift_left j n rs = fold (\<lambda>k rs. rs[k := rs ! Suc k]) [j..<n - 1] rs"

text \<open>
  The inner loop of \<open>force_free_nolock\<close>. \<open>r\<close> is the slot the pointer \<open>region\<close>
  was taken from: it stays where it is when the entries shift under it, while the
  index \<open>i\<close> is adjusted.
\<close>

function absorb_others :: "nat \<Rightarrow> nat \<Rightarrow> nat \<Rightarrow> nat \<Rightarrow> free_region list \<Rightarrow> nat \<times> free_region list" where
  "absorb_others r i j n rs =
     (if j \<ge> n then (n, rs)
      else if j = i then absorb_others r i (j + 1) n rs
      else
        (let region = rs ! r; other = rs ! j
         in if fr_base region \<le> fr_end other \<and> fr_end region \<ge> fr_base other then
              (let merge_start = (if fr_base region < fr_base other then fr_base region else fr_base other);
                   merge_end = (if fr_end region > fr_end other then fr_end region else fr_end other);
                   rs = rs[r := \<lparr>fr_base = merge_start, fr_length = merge_end - merge_start\<rparr>];
                   rs = (shift_left j n rs)[n - 1 := zero_region]
               in absorb_others r (if j < i then i - 1 else i) j (n - 1) rs)
            else absorb_others r i (j + 1) n rs))"
  by pat_completeness auto
termination by (relation "measure (\<lambda>(r, i, j, n, rs). n - j)") auto

declare absorb_others.simps [simp del]

definition force_free_nolock :: "u64 \<Rightarrow> u64 \<Rightarrow> 'a heap_scheme \<Rightarrow> 'a heap_scheme" where
  "force_free_nolock address sz s =
     (let new_start = address AND NOT 0xFFF;
          new_end = (address + sz + 0xFFF) AND NOT 0xFFF
      in if new_end \<le> 0x10000 then s
         else
           (let new_start = (if new_start < 0x10000 then 0x10000 else new_start);
                n = free_region_count s; rs = free_regions s
            in case find (\<lambda>i. new_end \<ge> fr_base (rs ! i) \<and> new_start \<le> fr_end (rs ! i)) [0..<n] of
                 Some i \<Rightarrow>
                   (let region_start = fr_base (rs ! i); region_end = fr_end (rs ! i);
                        merged_start = (if new_start < region_start then new_start else region_start);
                        merged_end = (if new_end > region_end then new_end else region_end);
                        rs = rs[i := \<lparr>fr_base = merged_start, fr_length = merged_end - merged_start\<rparr>];
                        (n, rs) = absorb_others i i 0 n rs
                    in s\<lparr>free_region_count := n, free_regions := rs\<rparr>)
               | None \<Rightarrow>
                   if n < MAX_FREE_REGIONS then
                     s\<lparr>free_regions := rs[n := \<lparr>fr_base = new_start, fr_length = new_end - new_start\<rparr>],
                       free_region_count := n + 1\<rparr>
                   else s))"

definition force_free :: "u64 \<Rightarrow> u64 \<Rightarrow> 'a heap_scheme \<Rightarrow> 'a heap_scheme run" where
  "force_free address sz s =
     bindr (heap_lock_acquire s) (\<lambda>(irq_flags, s).
       Ok (heap_lock_release irq_flags (force_free_nolock address sz s)))"

section \<open>Finding space\<close>

text \<open>
  One sweep over the array extends the candidate \<open>[base, base + sz)\<close> with every
  unmerged region that starts where it ends; the sweeps repeat until one changes
  nothing. A sweep that changes something merges at least one more region.
\<close>

definition extend_step :: "free_region list \<Rightarrow> u64 \<Rightarrow> nat \<Rightarrow> u64 \<times> nat list \<Rightarrow> u64 \<times> nat list" where
  "extend_step rs base j = (\<lambda>(sz, merged).
     if j \<in> set merged \<or> fr_length (rs ! j) = 0 then (sz, merged)
     else if fr_base (rs ! j) = base + sz then (sz + fr_length (rs ! j), j # merged)
     else (sz, merged))"

definition extend_sweep :: "free_region list \<Rightarrow> nat \<Rightarrow> u64 \<Rightarrow> u64 \<times> nat list \<Rightarrow> u64 \<times> nat list" where
  "extend_sweep rs n base = fold (extend_step rs base) [0..<n]"

primrec extend_all :: "nat \<Rightarrow> free_region list \<Rightarrow> nat \<Rightarrow> u64 \<Rightarrow> u64 \<times> nat list \<Rightarrow> (u64 \<times> nat list) run" where
  "extend_all 0 rs n base st = Stop Hang"
| "extend_all (Suc fuel) rs n base st =
     (let st' = extend_sweep rs n base st
      in if length (snd st') \<noteq> length (snd st) then extend_all fuel rs n base st' else Ok st')"

primrec first_region_from :: "u64 \<Rightarrow> nat \<Rightarrow> nat list \<Rightarrow> free_region list \<Rightarrow> (nat \<times> free_region list) option run" where
  "first_region_from requested n [] rs = Ok None"
| "first_region_from requested n (i # is) rs =
     (if fr_length (rs ! i) = 0 then first_region_from requested n is rs
      else bindr (extend_all (n + 1) rs n (fr_base (rs ! i)) (fr_length (rs ! i), [i])) (\<lambda>(sz, merged).
        if sz \<ge> requested then
          (let rs = fold (\<lambda>j rs. if j \<in> set merged \<and> j \<noteq> i then rs[j := zero_region] else rs) [0..<n] rs
           in Ok (Some (i, rs[i := (rs ! i)\<lparr>fr_length := sz\<rparr>])))
        else first_region_from requested n is rs))"

definition first_region_of_size_or_more :: "u64 \<Rightarrow> nat \<Rightarrow> free_region list \<Rightarrow> (nat \<times> free_region list) option run" where
  "first_region_of_size_or_more sz n rs =
     first_region_from (align8 (sz + 8 + 7)) n [0..<n] rs"

section \<open>kmalloc and kfree\<close>

definition first_region_state :: "u64 \<Rightarrow> 'a heap_scheme \<Rightarrow> (nat option \<times> 'a heap_scheme) run" where
  "first_region_state sz s =
     bindr (first_region_of_size_or_more sz (free_region_count s) (free_regions s)) (\<lambda>r.
       case r of
         None \<Rightarrow> Ok (None, s)
       | Some (i, rs) \<Rightarrow> Ok (Some i, s\<lparr>free_regions := rs\<rparr>))"

definition region_usable :: "nat option \<Rightarrow> 'a heap_scheme \<Rightarrow> bool" where
  "region_usable r s = (case r of None \<Rightarrow> False | Some i \<Rightarrow> \<not> fr_base (free_regions s ! i) \<le> 0xFFFF)"

text \<open>The growth step of \<open>kmalloc_impl\<close>; \<open>None\<close> is its early return with a null pointer.\<close>

definition heap_grow :: "u64 \<Rightarrow> 'a heap_scheme \<Rightarrow> (nat option option \<times> 'a heap_scheme) run" where
  "heap_grow full_size s =
     (let pages_needed = (full_size + PMM_PAGE_SIZE - 1) div PMM_PAGE_SIZE
      in bindr (pmm_alloc_pages_zeroed (unat pages_needed) s) (\<lambda>(pa, s).
           if pa = 0 then Ok (None, s)
           else bindr (kvma_alloc pages_needed s) (\<lambda>(va, s).
             if va = 0 then bindr (pmm_free_pages pa (unat pages_needed) s) (\<lambda>s. Ok (None, s))
             else
               (let pml4 = kernel_pagedir_phys s
                in bindr (foreach (\<lambda>i. map_4k pml4 (va + of_nat i * PMM_PAGE_SIZE) (pa + of_nat i * PMM_PAGE_SIZE)
                            (PTE_PRESENT OR PTE_WRITABLE)) [0..<unat pages_needed] s) (\<lambda>s.
                   bindr (first_region_state full_size (force_free_nolock va (pages_needed * PMM_PAGE_SIZE) s)) (\<lambda>(r, s).
                   Ok (Some r, s)))))))"

definition kmalloc_take :: "u64 \<Rightarrow> u64 \<Rightarrow> nat \<Rightarrow> 'a heap_scheme \<Rightarrow> u64 \<times> 'a heap_scheme" where
  "kmalloc_take sz full_size i s =
     (let header = fr_base (free_regions s ! i);
          s = s\<lparr>kmem := write64 (kmem s) header sz\<rparr>;
          r = (free_regions s ! i)\<lparr>fr_base := header + full_size, fr_length := fr_length (free_regions s ! i) - full_size\<rparr>;
          s = s\<lparr>free_regions := (free_regions s)[i := r]\<rparr>;
          s = (if fr_length r = 0 then
                 s\<lparr>free_regions := shift_left i (free_region_count s) (free_regions s),
                   free_region_count := free_region_count s - 1\<rparr>
               else s)
      in (header + 8, s))"

definition kmalloc_impl :: "u64 \<Rightarrow> 'a heap_scheme \<Rightarrow> (u64 \<times> 'a heap_scheme) run" where
  "kmalloc_impl sz s =
     (if sz = 0 then Ok (0, s)
      else if sz > of_nat SIZE_MAX - 8 then Ok (0, s)
      else
        bindr (heap_lock_acquire s) (\<lambda>(irq_flags, s).
          let full_size = align8 (sz + 8 + 7)
          in bindr (first_region_state full_size s) (\<lambda>(r, s).
             bindr (if region_usable r s then Ok (Some r, s) else heap_grow full_size s) (\<lambda>(r, s).
               case r of
                 None \<Rightarrow> Ok (0, heap_lock_release irq_flags s)
               | Some r \<Rightarrow>
                   (if \<not> region_usable r s then Ok (0, heap_lock_release irq_flags s)
                    else
                      (let (p, s) = kmalloc_take sz full_size (the r) s
                       in Ok (p, heap_lock_release irq_flags s)))))))"

text \<open>The sort of \<open>kfree_impl\<close>: one comparison of slots \<open>i < j\<close>, then all of them in order.\<close>

definition swap_step :: "nat \<times> nat \<Rightarrow> free_region list \<Rightarrow> free_region list" where
  "swap_step = (\<lambda>(i, j) rs.
     if fr_length (rs ! j) = 0 then rs
     else if fr_length (rs ! i) = 0 \<or> fr_base (rs ! j) < fr_base (rs ! i) then rs[i := rs ! j, j := rs ! i]
     else rs)"

definition sort_regions :: "free_region list \<Rightarrow> free_region list" where
  "sort_regions rs =
     fold (\<lambda>i. fold (\<lambda>j. swap_step (i, j)) [i + 1..<MAX_FREE_REGIONS]) [0..<MAX_FREE_REGIONS - 1] rs"

text \<open>The coalescing loop, run from \<open>j = i + 1\<close>: slot \<open>j\<close> is looked at again after the entries behind it moved down.\<close>

function join_following :: "nat \<Rightarrow> nat \<Rightarrow> free_region list \<Rightarrow> free_region list" where
  "join_following i j rs =
     (if j \<ge> length rs then rs
      else if fr_length (rs ! j) = 0 then join_following i (j + 1) rs
      else if i < j \<and> fr_end (rs ! i) = fr_base (rs ! j) then
        (let rs = rs[i := (rs ! i)\<lparr>fr_length := fr_length (rs ! i) + fr_length (rs ! j)\<rparr>];
             rs = (shift_left j (length rs) rs)[length rs - 1 := zero_region]
         in join_following i j rs)
      else join_following i (j + 1) rs)"
  by pat_completeness auto

definition live_from :: "nat \<Rightarrow> free_region list \<Rightarrow> nat" where
  "live_from j rs = length (filter (\<lambda>r. fr_length r \<noteq> 0) (drop j rs))"

lemma shift_fold_nth:
  assumes "m < length rs"
  shows "length (fold (\<lambda>k rs. rs[k := rs ! Suc k]) [j..<m] rs) = length rs"
    and "k < length rs \<Longrightarrow>
      fold (\<lambda>k rs. rs[k := rs ! Suc k]) [j..<m] rs ! k = (if j \<le> k \<and> k < m then rs ! Suc k else rs ! k)"
  using assms
proof (induction m arbitrary: k)
  case (Suc m)
  {
    case 1
    then show ?case using Suc by simp
  next
    case 2
    then show ?case using Suc by (auto simp: nth_list_update not_le less_Suc_eq)
  }
qed auto

lemma length_shift_left [simp]: "n \<le> length rs \<Longrightarrow> length (shift_left j n rs) = length rs"
  unfolding shift_left_def by (cases n) (auto simp: shift_fold_nth(1))

lemma shift_left_nth:
  "n \<le> length rs \<Longrightarrow> k < length rs \<Longrightarrow>
   shift_left j n rs ! k = (if j \<le> k \<and> k < n - 1 then rs ! Suc k else rs ! k)"
  unfolding shift_left_def by (cases n) (auto simp: shift_fold_nth(2))

lemma shift_left_remove:
  assumes "j < n" "n \<le> length rs"
  shows "(shift_left j n rs)[n - Suc 0 := x] = take j rs @ drop (Suc j) (take n rs) @ [x] @ drop n rs"
proof (rule nth_equalityI)
  fix k
  assume "k < length ((shift_left j n rs)[n - Suc 0 := x])"
  then have "k < length rs" using assms by simp
  then consider "k < j" | "j \<le> k" "k < n - 1" | "k = n - 1" | "n \<le> k" using assms by linarith
  then show "(shift_left j n rs)[n - Suc 0 := x] ! k = (take j rs @ drop (Suc j) (take n rs) @ [x] @ drop n rs) ! k"
    using assms \<open>k < length rs\<close>
    by cases (auto simp: shift_left_nth nth_list_update nth_append nth_Cons' not_less)
qed (use assms in auto)

lemma live_from_shift:
  assumes "j < length rs" "fr_length (rs ! j) \<noteq> 0" "i < j"
  shows "live_from j ((shift_left j (length rs) (rs[i := r]))[length rs - Suc 0 := zero_region]) < live_from j rs"
proof -
  have "drop j ((shift_left j (length rs) (rs[i := r]))[length rs - 1 := zero_region]) = drop (Suc j) rs @ [zero_region]"
    using assms shift_left_remove [of j "length rs" "rs[i := r]"] by simp
  moreover have "drop j rs = rs ! j # drop (Suc j) rs"
    using assms by (simp add: Cons_nth_drop_Suc)
  ultimately show ?thesis using assms by (simp add: live_from_def)
qed

lemma live_from_mono: "live_from (Suc j) rs \<le> live_from j rs"
  by (cases "j < length rs") (simp_all add: live_from_def flip: Cons_nth_drop_Suc)

termination join_following
proof (relation "measures [\<lambda>(i, j, rs). live_from j rs, \<lambda>(i, j, rs). length rs - j]")
  fix i j and rs x xa :: "free_region list"
  assume "\<not> length rs \<le> j" "fr_length (rs ! j) \<noteq> 0" "i < j \<and> fr_end (rs ! i) = fr_base (rs ! j)"
    and x: "x = rs[i := (rs ! i)\<lparr>fr_length := fr_length (rs ! i) + fr_length (rs ! j)\<rparr>]"
      "xa = (shift_left j (length x) x)[length x - 1 := zero_region]"
  then have "live_from j xa < live_from j rs"
    by (simp add: live_from_shift)
  then show "((i, j, xa), i, j, rs) \<in> measures [\<lambda>(i, j, rs). live_from j rs, \<lambda>(i, j, rs). length rs - j]"
    by simp
qed (auto simp: live_from_mono order.strict_iff_order)

declare join_following.simps [simp del]

definition coalesce :: "free_region list \<Rightarrow> free_region list" where
  "coalesce rs =
     fold (\<lambda>i rs. if fr_length (rs ! i) = 0 then rs else join_following i (i + 1) rs) [0..<MAX_FREE_REGIONS - 1] rs"

definition kfree_impl :: "u64 \<Rightarrow> 'a heap_scheme \<Rightarrow> 'a heap_scheme run" where
  "kfree_impl p s =
     (if p = 0 then Ok s
      else
        bindr (heap_lock_acquire s) (\<lambda>(irq_flags, s).
          let sz = read64 (kmem s) (p - 8) + 8
          in if sz = 0 then Ok (heap_lock_release irq_flags s)
             else
               (let sz = align8 (sz + 7)
                in case find (\<lambda>i. fr_length (free_regions s ! i) = 0) [0..<MAX_FREE_REGIONS] of
                     None \<Rightarrow> Ok (heap_lock_release irq_flags s)
                   | Some i \<Rightarrow>
                       (let rs = coalesce (sort_regions ((free_regions s)[i := \<lparr>fr_base = p - 8, fr_length = sz\<rparr>]))
                        in Ok (heap_lock_release irq_flags
                             (s\<lparr>free_regions := rs,
                                free_region_count := length (filter (\<lambda>r. fr_length r > 0) rs)\<rparr>))))))"

definition get_pter_size :: "u64 \<Rightarrow> 'a heap_scheme \<Rightarrow> u64" where
  "get_pter_size p s = read64 (kmem s) (p - 8)"

definition krealloc_impl :: "u64 \<Rightarrow> u64 \<Rightarrow> 'a heap_scheme \<Rightarrow> (u64 \<times> 'a heap_scheme) run" where
  "krealloc_impl p sz s =
     bindr (heap_lock_acquire s) (\<lambda>(irq_flags, s).
       if sz = 0 then bindr (kfree_impl p s) (\<lambda>s. Ok (0, heap_lock_release irq_flags s))
       else if p = 0 then kmalloc_impl sz s
       else
         bindr (kmalloc_impl sz s) (\<lambda>(new_ptr, s).
           if new_ptr = 0 then Ok (0, heap_lock_release irq_flags s)
           else
             (let old_len = get_pter_size p s;
                  copy_size = (if sz < old_len then sz else old_len);
                  s = s\<lparr>kmem := memcpy (kmem s) new_ptr p (unat copy_size)\<rparr>
              in bindr (kfree_impl p s) (\<lambda>s. Ok (new_ptr, s)))))"

definition aligned_malloc :: "u64 \<Rightarrow> u64 \<Rightarrow> 'a heap_scheme \<Rightarrow> (u64 \<times> 'a heap_scheme) run" where
  "aligned_malloc sz alignment s =
     (if alignment AND (alignment - 1) \<noteq> 0 then Ok (0, s)
      else
        (let extra = alignment - 1 + 8
         in bindr (kmalloc_impl (sz + extra) s) (\<lambda>(raw, s).
              if raw = 0 then Ok (0, s)
              else
                (let aligned_addr = (raw + 8 + alignment - 1) AND NOT (alignment - 1)
                 in Ok (aligned_addr, s\<lparr>kmem := write64 (kmem s) (aligned_addr - 8) raw\<rparr>)))))"

definition aligned_free :: "u64 \<Rightarrow> 'a heap_scheme \<Rightarrow> 'a heap_scheme run" where
  "aligned_free p s = kfree_impl (read64 (kmem s) (p - 8)) s"

definition page_kalloc :: "u64 \<Rightarrow> u64 \<Rightarrow> 'a heap_scheme \<Rightarrow> (u64 \<times> 'a heap_scheme) run" where
  "page_kalloc count flags s =
     bindr (pmm_alloc_pages_zeroed (unat count) s) (\<lambda>(pa, s).
     bindr (kvma_alloc count s) (\<lambda>(va, s).
       let pml4 = kernel_pagedir_phys s
       in bindr (foreach (\<lambda>i. map_4k pml4 (va + of_nat i * PMM_PAGE_SIZE) (pa + of_nat i * PMM_PAGE_SIZE) flags)
                  [0..<unat count] s) (\<lambda>s.
          Ok (va, s))))"

definition page_kfree :: "u64 \<Rightarrow> u64 \<Rightarrow> 'a heap_scheme \<Rightarrow> 'a heap_scheme run" where
  "page_kfree va count s =
     bindr (vmm_virt_to_phys va s) (\<lambda>(pa, s).
     bindr (foreach (\<lambda>i. vmm_unmap_page (va + of_nat i * PMM_PAGE_SIZE)) [0..<unat count] s) (\<lambda>s.
     bindr (pmm_free_pages pa (unat count) s) (\<lambda>s.
     kvma_free va count s)))"

text \<open>\<open>init_allocator\<close>: \<open>False\<close> is its result \<open>-1\<close>.\<close>

primrec init_allocator_loop :: "nat \<Rightarrow> 'a heap_scheme \<Rightarrow> (bool \<times> 'a heap_scheme) run" where
  "init_allocator_loop 0 s = Ok (True, s)"
| "init_allocator_loop (Suc k) s =
     bindr (pmm_alloc_zeroed s) (\<lambda>(pa, s).
       if pa = 0 then Ok (False, s)
       else bindr (kvma_alloc 1 s) (\<lambda>(va, s).
         if va = 0 then bindr (pmm_free pa s) (\<lambda>s. Ok (False, s))
         else bindr (map_4k (kernel_pagedir_phys s) va pa (PTE_PRESENT OR PTE_WRITABLE) s) (\<lambda>s.
           let n = free_region_count s
           in init_allocator_loop k
                (if n < MAX_FREE_REGIONS then
                   s\<lparr>free_regions := (free_regions s)[n := \<lparr>fr_base = va, fr_length = PMM_PAGE_SIZE\<rparr>],
                     free_region_count := n + 1\<rparr>
                 else s))))"

definition init_allocator :: "'a heap_scheme \<Rightarrow> (bool \<times> 'a heap_scheme) run" where
  "init_allocator = init_allocator_loop KERNEL_HEAP_SEED_PAGES"

section \<open>Reserving a range\<close>

text \<open>
  \<open>force_alloc_nolock\<close>: the page loop gives back the slack of the first and the last
  page, the region loop cuts the range out of every region. The page loop ends
  unless \<open>page_va\<close> wraps around; \<open>Hang\<close> is that case.
\<close>

primrec force_alloc_pages :: "nat \<Rightarrow> u64 \<Rightarrow> u64 \<Rightarrow> u64 \<Rightarrow> 'a heap_scheme \<Rightarrow> 'a heap_scheme run" where
  "force_alloc_pages 0 address end_addr page_va s = Stop Hang"
| "force_alloc_pages (Suc fuel) address end_addr page_va s =
     (if page_va < end_addr then
        (let page_start = page_va; page_end = page_va + PMM_PAGE_SIZE;
             s = (if address > page_start then force_free_nolock page_start (address - page_start) s else s);
             s = (if end_addr < page_end then force_free_nolock end_addr (page_end - end_addr) s else s)
         in force_alloc_pages fuel address end_addr (page_va + PMM_PAGE_SIZE) s)
      else Ok s)"

primrec force_alloc_regions :: "nat \<Rightarrow> u64 \<Rightarrow> u64 \<Rightarrow> nat \<Rightarrow> nat \<Rightarrow> free_region list \<Rightarrow> (nat \<times> free_region list) run" where
  "force_alloc_regions 0 address lock_end i n rs = Stop Hang"
| "force_alloc_regions (Suc fuel) address lock_end i n rs =
     (if i \<ge> n then Ok (n, rs)
      else
        (let region = rs ! i; base = fr_base region; region_end = fr_end region
         in if lock_end \<le> base \<or> address \<ge> region_end then
              force_alloc_regions fuel address lock_end (i + 1) n rs
            else if address \<le> base \<and> lock_end \<ge> region_end then
              force_alloc_regions fuel address lock_end i (n - 1) (shift_left i n rs)
            else if address \<le> base \<and> lock_end < region_end then
              force_alloc_regions fuel address lock_end (i + 1) n
                (rs[i := \<lparr>fr_base = lock_end, fr_length = region_end - lock_end\<rparr>])
            else if address > base \<and> lock_end \<ge> region_end then
              force_alloc_regions fuel address lock_end (i + 1) n (rs[i := region\<lparr>fr_length := address - base\<rparr>])
            else
              (let rs = rs[i := region\<lparr>fr_length := address - base\<rparr>]
               in if n < MAX_FREE_REGIONS then
                    (let rs = fold (\<lambda>j rs. rs[j := rs ! (j - 1)]) (rev [i + 2..<n + 1]) rs;
                         rs = rs[i + 1 := \<lparr>fr_base = lock_end, fr_length = region_end - lock_end\<rparr>]
                     in force_alloc_regions fuel address lock_end (i + 1) (n + 1) rs)
                  else force_alloc_regions fuel address lock_end (i + 1) n rs)))"

definition force_alloc_nolock :: "u64 \<Rightarrow> u64 \<Rightarrow> 'a heap_scheme \<Rightarrow> 'a heap_scheme run" where
  "force_alloc_nolock address sz s =
     (let end_addr = address + sz; first_page = address AND NOT (PMM_PAGE_SIZE - 1)
      in bindr (force_alloc_pages (unat ((end_addr - first_page) div PMM_PAGE_SIZE) + 2) address end_addr first_page s) (\<lambda>s.
         bindr (force_alloc_regions (2 * MAX_FREE_REGIONS + 1) address end_addr 0 (free_region_count s) (free_regions s)) (\<lambda>(n, rs).
         Ok (s\<lparr>free_region_count := n, free_regions := rs\<rparr>))))"

definition force_alloc :: "u64 \<Rightarrow> u64 \<Rightarrow> 'a heap_scheme \<Rightarrow> 'a heap_scheme run" where
  "force_alloc address sz s =
     bindr (heap_lock_acquire s) (\<lambda>(irq_flags, s).
     bindr (force_alloc_nolock address sz s) (\<lambda>s.
       Ok (heap_lock_release irq_flags s)))"

end
