(* ===== verification/Heap_Facts.thy ===== *)
theory Heap_Facts
  imports Heap "HOL-Library.Multiset"
begin

text \<open>
  What the free-region array stands for. \<open>cover rs b\<close> counts the regions that
  contain byte \<open>b\<close>; a heap is sound when no byte is covered twice. Every routine
  of the heap is shown to change \<open>cover\<close> by exactly the block it gives or takes.
\<close>

section \<open>Regions as byte sets\<close>

definition fr_bytes :: "free_region \<Rightarrow> nat set" where
  "fr_bytes r = {unat (fr_base r)..<unat (fr_base r) + unat (fr_length r)}"

definition in_region :: "nat \<Rightarrow> free_region \<Rightarrow> nat" where
  "in_region b r = of_bool (b \<in> fr_bytes r)"

definition cover :: "free_region list \<Rightarrow> nat \<Rightarrow> nat" where
  "cover rs b = sum_list (map (in_region b) rs)"

definition fr_ok :: "free_region \<Rightarrow> bool" where
  "fr_ok r \<longleftrightarrow> unat (fr_base r) + unat (fr_length r) < 2 ^ 64 \<and> (fr_length r \<noteq> 0 \<longrightarrow> 0xFFFF < fr_base r)"

definition fr_key :: "free_region \<Rightarrow> nat" where
  "fr_key r = (if fr_length r = 0 then 2 ^ 64 else unat (fr_base r))"

lemma in_region_zero [simp]: "fr_length r = 0 \<Longrightarrow> in_region b r = 0"
  by (simp add: in_region_def fr_bytes_def)

lemma fr_ok_zero [simp]: "fr_ok zero_region"
  by (simp add: fr_ok_def)

lemma fr_key_max [simp]: "fr_key r \<le> fr_key zero_region"
  using unat_less_u64 [of "fr_base r"] by (simp add: fr_key_def)

lemma fr_end_unat: "fr_ok r \<Longrightarrow> unat (fr_end r) = unat (fr_base r) + unat (fr_length r)"
  by (simp add: fr_end_def fr_ok_def unat_add_lem [THEN iffD1])

lemma cover_mset: "mset rs = mset rs' \<Longrightarrow> cover rs = cover rs'"
  by (rule ext) (simp add: cover_def flip: sum_mset_sum_list)

lemma cover_append [simp]: "cover (xs @ ys) b = cover xs b + cover ys b"
  by (simp add: cover_def)

lemma cover_Cons [simp]: "cover (r # rs) b = in_region b r + cover rs b"
  by (simp add: cover_def)

lemma cover_Nil [simp]: "cover [] b = 0"
  by (simp add: cover_def)

lemma cover_split: "i < length rs \<Longrightarrow> cover rs b = cover (take i rs) b + in_region b (rs ! i) + cover (drop (Suc i) rs) b"
  by (metis add.assoc cover_Cons cover_append id_take_nth_drop)

lemma cover_update:
  "i < length rs \<Longrightarrow> cover (rs[i := r]) b + in_region b (rs ! i) = cover rs b + in_region b r"
  by (simp add: cover_split [of i rs] upd_conv_take_nth_drop)

lemma cover_remove:
  assumes "j < n" "n \<le> length rs"
  shows "cover ((shift_left j n rs)[n - 1 := zero_region]) b + in_region b (rs ! j) = cover rs b"
proof -
  have "cover rs b = cover (take n rs) b + cover (drop n rs) b"
    by (metis append_take_drop_id cover_append)
  also have "cover (take n rs) b = cover (take j rs) b + in_region b (rs ! j) + cover (drop (Suc j) (take n rs)) b"
    using assms cover_split [of j "take n rs" b] by (simp add: min_def)
  finally show ?thesis
    using assms by (simp add: shift_left_remove)
qed

lemma cover_nth: "j < length rs \<Longrightarrow> in_region b (rs ! j) \<le> cover rs b"
  by (simp add: cover_split [of j])

lemma cover_two:
  assumes "i < j" "j < length rs"
  shows "in_region b (rs ! i) + in_region b (rs ! j) \<le> cover rs b"
proof -
  have "in_region b (rs ! i) \<le> cover (take j rs) b"
    using cover_nth [of i "take j rs" b] assms by simp
  then show ?thesis using assms by (simp add: cover_split [of j])
qed

section \<open>Joining two neighbours\<close>

lemma join_bytes:
  assumes "fr_ok r" "fr_ok q" "fr_end r = fr_base q"
  defines "x \<equiv> r\<lparr>fr_length := fr_length r + fr_length q\<rparr>"
  shows "in_region b x = in_region b r + in_region b q"
    and "fr_ok x" and "fr_length r \<noteq> 0 \<Longrightarrow> fr_length x \<noteq> 0"
proof -
  have q: "unat (fr_base q) = unat (fr_base r) + unat (fr_length r)"
    using assms fr_end_unat by metis
  have len: "unat (fr_length x) = unat (fr_length r) + unat (fr_length q)"
    using assms q unfolding fr_ok_def x_def by (simp add: unat_add_lem [THEN iffD1])
  show "in_region b x = in_region b r + in_region b q"
    using q len unfolding in_region_def fr_bytes_def x_def by auto
  show nz: "fr_length x \<noteq> 0" if "fr_length r \<noteq> 0"
    using that len by (metis add_is_0 unat_0 unat_eq_zero)
  have "unat (fr_base x) + unat (fr_length x) < 2 ^ 64"
    using assms(2) q len unfolding fr_ok_def by (simp add: x_def)
  moreover have "0xFFFF < fr_base x" if "fr_length x \<noteq> 0"
  proof (cases "fr_length r = 0")
    case True
    then have "fr_length q \<noteq> 0" "fr_base q = fr_base r"
      using that assms(3) by (auto simp: x_def fr_end_def)
    then show ?thesis using assms(2) by (simp add: fr_ok_def x_def)
  qed (use assms(1) in \<open>simp add: fr_ok_def x_def\<close>)
  ultimately show "fr_ok x" unfolding fr_ok_def by blast
qed

definition live_bases :: "nat \<Rightarrow> free_region list \<Rightarrow> u64 set" where
  "live_bases i rs = {fr_base r |r. r \<in> set (drop i rs) \<and> fr_length r \<noteq> 0}"

definition join_step :: "nat \<Rightarrow> nat \<Rightarrow> free_region list \<Rightarrow> free_region list" where
  "join_step i j rs =
     (let rs = rs[i := (rs ! i)\<lparr>fr_length := fr_length (rs ! i) + fr_length (rs ! j)\<rparr>]
      in (shift_left j (length rs) rs)[length rs - 1 := zero_region])"

lemma join_step_eq:
  assumes "i < j" "j < length rs"
  defines "x \<equiv> (rs ! i)\<lparr>fr_length := fr_length (rs ! i) + fr_length (rs ! j)\<rparr>"
  shows "join_step i j rs = take i rs @ x # drop (Suc i) (take j rs) @ drop (Suc j) rs @ [zero_region]"
proof -
  have "join_step i j rs = take j (rs[i := x]) @ drop (Suc j) (rs[i := x]) @ [zero_region]"
    using assms shift_left_remove [of j "length rs" "rs[i := x]" zero_region] by (simp add: join_step_def)
  moreover have "take j (rs[i := x]) = take i rs @ x # drop (Suc i) (take j rs)"
    using assms(1,2) upd_conv_take_nth_drop [of i "take j rs" x]
    by (simp add: take_update_swap min_def)
  ultimately show ?thesis using assms(1) by simp
qed

lemma list_split_two:
  assumes "i < j" "j < length rs"
  shows "rs = take i rs @ rs ! i # drop (Suc i) (take j rs) @ rs ! j # drop (Suc j) rs"
proof -
  have "take j rs = take i rs @ rs ! i # drop (Suc i) (take j rs)"
    using assms id_take_nth_drop [of i "take j rs"] by (simp add: min_def)
  then show ?thesis
    using id_take_nth_drop [OF assms(2)] by (metis append.assoc append_Cons)
qed

lemma join_step_facts:
  assumes ij: "i < j" "j < length rs"
    and ok: "\<forall>r \<in> set rs. fr_ok r"
    and live: "fr_length (rs ! i) \<noteq> 0" "fr_length (rs ! j) \<noteq> 0"
    and adj: "fr_end (rs ! i) = fr_base (rs ! j)"
    and sorted: "sorted (map fr_key rs)"
  defines "rs' \<equiv> join_step i j rs"
  shows "length rs' = length rs" "\<forall>r \<in> set rs'. fr_ok r" "cover rs' = cover rs" "sorted (map fr_key rs')"
    "take i rs' = take i rs" "live_bases i rs' \<subseteq> live_bases i rs"
    "fr_base (rs' ! i) = fr_base (rs ! i)" "fr_length (rs' ! i) \<noteq> 0"
    "fr_end (rs' ! i) = fr_end (rs ! j)"
    "\<forall>k. i < k \<and> k < j \<longrightarrow> rs' ! k = rs ! k"
proof -
  define x where "x = (rs ! i)\<lparr>fr_length := fr_length (rs ! i) + fr_length (rs ! j)\<rparr>"
  define A where "A = take i rs"
  define B where "B = drop (Suc i) (take j rs)"
  define C where "C = drop (Suc j) rs"
  have len: "length A = i" "length B = j - Suc i" using ij by (auto simp: A_def B_def)
  have rs': "rs' = A @ x # B @ C @ [zero_region]"
    using join_step_eq [OF ij] by (simp add: rs'_def x_def A_def B_def C_def)
  have rs: "rs = A @ rs ! i # B @ rs ! j # C"
    using list_split_two [OF ij] by (simp add: A_def B_def C_def)
  have mem: "rs ! i \<in> set rs" "rs ! j \<in> set rs" using ij by auto
  have oki: "fr_ok (rs ! i)" "fr_ok (rs ! j)" using ok mem by auto
  note x = join_bytes [OF oki adj, folded x_def]
  have key: "fr_key x = fr_key (rs ! i)" using live x(3) by (simp add: fr_key_def x_def)
  have "set rs = set (A @ rs ! i # B @ rs ! j # C)" using rs by metis
  then have ok': "\<forall>r \<in> set (A @ B @ C). fr_ok r" using ok by auto
  show "length rs' = length rs" using rs' arg_cong [OF rs, of length] by simp
  show "\<forall>r \<in> set rs'. fr_ok r" using ok' x(2) rs' by auto
  show "cover rs' = cover rs"
  proof
    fix b
    have "cover rs b = cover (A @ rs ! i # B @ rs ! j # C) b" using rs by metis
    then show "cover rs' b = cover rs b" by (simp add: rs' x(1))
  qed
  have "sorted (map fr_key (A @ rs ! i # B @ rs ! j # C))" using rs sorted by metis
  then show "sorted (map fr_key rs')"
    by (auto simp: rs' sorted_append key)
  show "take i rs' = take i rs" using len by (simp add: rs' A_def)
  have drop_rs: "drop i rs = rs ! i # B @ rs ! j # C"
    by (subst rs) (simp add: len)
  show "live_bases i rs' \<subseteq> live_bases i rs"
    unfolding live_bases_def drop_rs using live by (auto simp: rs' len x_def)
  have at_i: "rs' ! i = x" by (simp add: rs' nth_append len)
  show "fr_base (rs' ! i) = fr_base (rs ! i)" "fr_length (rs' ! i) \<noteq> 0"
    using x(3) live by (simp_all add: at_i) (simp add: x_def)
  show "fr_end (rs' ! i) = fr_end (rs ! j)"
    using adj by (simp add: at_i x_def fr_end_def algebra_simps)
  show "\<forall>k. i < k \<and> k < j \<longrightarrow> rs' ! k = rs ! k"
    by (subst rs) (auto simp: rs' nth_append len nth_Cons')
qed

definition sorted_ok :: "free_region list \<Rightarrow> bool" where
  "sorted_ok rs \<longleftrightarrow> (\<forall>r \<in> set rs. fr_ok r) \<and> sorted (map fr_key rs)"

definition apart_before :: "nat \<Rightarrow> nat \<Rightarrow> free_region list \<Rightarrow> bool" where
  "apart_before i j rs \<longleftrightarrow>
     (\<forall>k. i < k \<and> k < j \<and> k < length rs \<and> fr_length (rs ! k) \<noteq> 0 \<longrightarrow> fr_base (rs ! k) \<noteq> fr_end (rs ! i))"

definition joined :: "nat \<Rightarrow> free_region list \<Rightarrow> free_region list \<Rightarrow> bool" where
  "joined i rs rs' \<longleftrightarrow>
     length rs' = length rs \<and> sorted_ok rs' \<and> cover rs' = cover rs \<and> take i rs' = take i rs \<and>
     live_bases i rs' \<subseteq> live_bases i rs"

lemma joined_trans: "joined i rs rs' \<Longrightarrow> joined i rs' rs'' \<Longrightarrow> joined i rs rs''"
  unfolding joined_def by (metis order_trans)

lemma join_step_joined:
  assumes "i < j" "j < length rs" "sorted_ok rs" "fr_length (rs ! i) \<noteq> 0" "fr_length (rs ! j) \<noteq> 0"
    "fr_end (rs ! i) = fr_base (rs ! j)"
  shows "joined i rs (join_step i j rs)" "fr_length (join_step i j rs ! i) \<noteq> 0" "apart_before i j (join_step i j rs)"
proof -
  have ok: "\<forall>r \<in> set rs. fr_ok r" and sorted: "sorted (map fr_key rs)"
    using assms(3) by (auto simp: sorted_ok_def)
  note facts = join_step_facts [OF assms(1,2) ok assms(4,5,6) sorted]
  show "joined i rs (join_step i j rs)"
    using facts unfolding joined_def sorted_ok_def by blast
  show "fr_length (join_step i j rs ! i) \<noteq> 0" by (rule facts)
  show "apart_before i j (join_step i j rs)"
    unfolding apart_before_def
  proof (intro allI impI, elim conjE)
    fix k
    assume k: "i < k" "k < j" "k < length (join_step i j rs)" "fr_length (join_step i j rs ! k) \<noteq> 0"
    have same: "join_step i j rs ! k = rs ! k" using facts(10) k(1,2) by blast
    have "fr_key (rs ! k) \<le> fr_key (rs ! j)"
      using sorted k(2) assms(2) by (simp add: sorted_iff_nth_mono)
    then have "unat (fr_base (rs ! k)) \<le> unat (fr_base (rs ! j))"
      using k(4) same assms(5) by (simp add: fr_key_def)
    also have "\<dots> < unat (fr_end (rs ! j))"
      using assms(2,5) ok by (simp add: fr_end_unat unat_gt_0)
    finally show "fr_base (join_step i j rs ! k) \<noteq> fr_end (join_step i j rs ! i)"
      using same facts(9) by auto
  qed
qed

lemma join_following_joined:
  assumes "i < j" "i < length rs" "sorted_ok rs" "fr_length (rs ! i) \<noteq> 0" "apart_before i j rs"
  shows "joined i rs (join_following i j rs) \<and> apart_before i (length rs) (join_following i j rs)"
  using assms
proof (induction i j rs rule: join_following.induct)
  case (1 i j rs)
  have self: "joined i rs rs" using 1 by (simp add: joined_def)
  consider "j \<ge> length rs" | "j < length rs" "fr_length (rs ! j) \<noteq> 0" "fr_end (rs ! i) = fr_base (rs ! j)"
    | "j < length rs" "fr_length (rs ! j) = 0 \<or> fr_end (rs ! i) \<noteq> fr_base (rs ! j)" by fastforce
  then show ?case
  proof cases
    case 1
    then show ?thesis
      using self \<open>apart_before i j rs\<close> by (auto simp: join_following.simps [of i j] apart_before_def)
  next
    case 2
    note step = join_step_joined [OF "1.prems"(1) 2(1) "1.prems"(3,4) 2(2,3)]
    have eq: "join_following i j rs = join_following i j (join_step i j rs)"
      using 2 "1.prems"(1) by (simp add: join_following.simps [of i j rs] join_step_def Let_def)
    have "joined i (join_step i j rs) (join_following i j (join_step i j rs)) \<and>
      apart_before i (length (join_step i j rs)) (join_following i j (join_step i j rs))"
      using "1.IH"(2) [OF _ _ _ refl] 2 "1.prems"(1,2) step unfolding joined_def join_step_def Let_def by force
    moreover have "length (join_step i j rs) = length rs" using step(1) by (simp add: joined_def)
    ultimately show ?thesis using joined_trans [OF step(1)] unfolding eq by simp
  next
    case 3
    then have eq: "join_following i j rs = join_following i (Suc j) rs"
      by (auto simp: join_following.simps [of i j rs])
    have apart: "apart_before i (Suc j) rs"
      using "1.prems"(5) 3 by (auto simp: apart_before_def less_Suc_eq)
    show ?thesis
    proof (cases "fr_length (rs ! j) = 0")
      case True
      then show ?thesis using "1.IH"(1) "1.prems" 3 apart unfolding eq by simp
    next
      case False
      then show ?thesis using "1.IH"(3) "1.prems" 3 apart unfolding eq by simp
    qed
  qed
qed

definition coalesce_upto :: "nat \<Rightarrow> free_region list \<Rightarrow> free_region list" where
  "coalesce_upto m rs =
     fold (\<lambda>i rs. if fr_length (rs ! i) = 0 then rs else join_following i (i + 1) rs) [0..<m] rs"

definition separate :: "nat \<Rightarrow> free_region list \<Rightarrow> bool" where
  "separate m rs \<longleftrightarrow> (\<forall>i < m. fr_length (rs ! i) \<noteq> 0 \<longrightarrow> apart_before i (length rs) rs)"

lemma apart_before_joined:
  assumes "joined i rs rs'" "i' < i" "i < length rs" "apart_before i' (length rs) rs"
  shows "apart_before i' (length rs') rs'"
  unfolding apart_before_def
proof (intro allI impI, elim conjE)
  fix k
  assume k: "i' < k" "k < length rs'" "fr_length (rs' ! k) \<noteq> 0"
  have same: "rs' ! a = rs ! a" if "a < i" for a
    using assms(1) that unfolding joined_def by (metis nth_take)
  show "fr_base (rs' ! k) \<noteq> fr_end (rs' ! i')"
  proof (cases "k < i")
    case True
    then show ?thesis using assms k same by (auto simp: apart_before_def)
  next
    case False
    then have "rs' ! k \<in> set (drop i rs')"
      using k(2) by (auto simp: in_set_conv_nth intro!: exI [of _ "k - i"])
    then have "fr_base (rs' ! k) \<in> live_bases i rs"
      using assms(1) k(3) unfolding joined_def live_bases_def by blast
    then obtain r where r: "r \<in> set (drop i rs)" "fr_length r \<noteq> 0" "fr_base r = fr_base (rs' ! k)"
      unfolding live_bases_def by auto
    then obtain a where "a < length rs - i" "r = rs ! (i + a)"
      by (auto simp: in_set_conv_nth)
    then show ?thesis
      using assms(2,4) r same [OF assms(2)] by (auto simp: apart_before_def dest: spec [of _ "i + a"])
  qed
qed

lemma coalesce_upto_facts:
  assumes "sorted_ok rs" "m \<le> length rs"
  shows "length (coalesce_upto m rs) = length rs \<and> sorted_ok (coalesce_upto m rs) \<and>
    cover (coalesce_upto m rs) = cover rs \<and> separate m (coalesce_upto m rs)"
  using assms(2)
proof (induction m)
  case 0
  then show ?case using assms(1) by (simp add: coalesce_upto_def separate_def)
next
  case (Suc m)
  define rs1 where "rs1 = coalesce_upto m rs"
  have IH: "length rs1 = length rs" "sorted_ok rs1" "cover rs1 = cover rs" "separate m rs1"
    using Suc by (simp_all add: rs1_def)
  have eq: "coalesce_upto (Suc m) rs = (if fr_length (rs1 ! m) = 0 then rs1 else join_following m (m + 1) rs1)"
    by (simp add: coalesce_upto_def rs1_def)
  show ?case
  proof (cases "fr_length (rs1 ! m) = 0")
    case True
    then show ?thesis using IH unfolding eq by (simp add: separate_def less_Suc_eq)
  next
    case False
    define rs2 where "rs2 = join_following m (m + 1) rs1"
    have "apart_before m (m + 1) rs1" unfolding apart_before_def by linarith
    then have j: "joined m rs1 rs2" "apart_before m (length rs1) rs2"
      unfolding rs2_def using join_following_joined [of m "m + 1" rs1] Suc.prems IH False by simp_all
    have "separate (Suc m) rs2"
      unfolding separate_def
    proof (intro allI impI)
      fix i
      assume i: "i < Suc m" "fr_length (rs2 ! i) \<noteq> 0"
      show "apart_before i (length rs2) rs2"
      proof (cases "i = m")
        case True
        then show ?thesis using j by (simp add: joined_def)
      next
        case False
        then have "i < m" using i by simp
        moreover have "rs2 ! i = rs1 ! i"
          using j(1) \<open>i < m\<close> unfolding joined_def by (metis nth_take)
        ultimately show ?thesis
          using apart_before_joined [OF j(1)] IH Suc.prems i by (simp add: separate_def)
      qed
    qed
    then show ?thesis
      using j(1) IH False unfolding eq rs2_def joined_def by simp
  qed
qed

section \<open>The sort of kfree\<close>

lemma swap_step_key:
  "swap_step (i, j) rs = (if fr_key (rs ! j) < fr_key (rs ! i) then rs[i := rs ! j, j := rs ! i] else rs)"
proof -
  have "(2 :: nat) ^ 64 \<le> unat x \<longleftrightarrow> False" for x :: u64
    using unat_less_u64 [of x] by simp
  then show ?thesis
    unfolding swap_step_def fr_key_def
    using unat_less_u64 [of "fr_base (rs ! i)"] unat_less_u64 [of "fr_base (rs ! j)"]
    by (auto simp: word_less_nat_alt)
qed

definition select_upto :: "nat \<Rightarrow> nat \<Rightarrow> free_region list \<Rightarrow> free_region list" where
  "select_upto i m rs = fold (\<lambda>j. swap_step (i, j)) [i + 1..<m] rs"

lemma select_upto_facts:
  assumes "i < m" "m \<le> length rs"
  shows "mset (select_upto i m rs) = mset rs \<and> take i (select_upto i m rs) = take i rs \<and>
    (\<forall>k. i \<le> k \<and> k < m \<longrightarrow> fr_key (select_upto i m rs ! i) \<le> fr_key (select_upto i m rs ! k))"
  using assms
proof (induction m)
  case (Suc m)
  show ?case
  proof (cases "i = m")
    case True
    then show ?thesis by (auto simp: select_upto_def less_Suc_eq_le dest: le_antisym)
  next
    case False
    then have im: "i < m" using Suc.prems by simp
    define rs1 where "rs1 = select_upto i m rs"
    have IH: "mset rs1 = mset rs" "take i rs1 = take i rs"
      "\<forall>k. i \<le> k \<and> k < m \<longrightarrow> fr_key (rs1 ! i) \<le> fr_key (rs1 ! k)"
      using Suc im by (auto simp: rs1_def)
    have len: "length rs1 = length rs" using IH(1) mset_eq_length by blast
    have eq: "select_upto i (Suc m) rs = swap_step (i, m) rs1"
      using im by (simp add: select_upto_def rs1_def)
    show ?thesis
    proof (cases "fr_key (rs1 ! m) < fr_key (rs1 ! i)")
      case True
      then have "select_upto i (Suc m) rs = rs1[i := rs1 ! m, m := rs1 ! i]"
        by (simp add: eq swap_step_key)
      moreover have "mset (rs1[i := rs1 ! m, m := rs1 ! i]) = mset rs1"
        using im len Suc.prems by (simp add: mset_swap)
      moreover have "\<forall>k. i \<le> k \<and> k < Suc m \<longrightarrow>
          fr_key (rs1[i := rs1 ! m, m := rs1 ! i] ! i) \<le> fr_key (rs1[i := rs1 ! m, m := rs1 ! i] ! k)"
        using im len Suc.prems IH(3) True by (auto simp: nth_list_update less_Suc_eq intro: order.trans less_imp_le)
      ultimately show ?thesis using IH im by simp
    next
      case False
      then have "select_upto i (Suc m) rs = rs1" by (simp add: eq swap_step_key)
      then show ?thesis using IH False by (auto simp: less_Suc_eq)
    qed
  qed
qed simp

definition sort_upto :: "nat \<Rightarrow> free_region list \<Rightarrow> free_region list" where
  "sort_upto m rs = fold (\<lambda>i rs. select_upto i (length rs) rs) [0..<m] rs"

lemma sort_upto_facts:
  assumes "m \<le> length rs"
  shows "mset (sort_upto m rs) = mset rs \<and>
    (\<forall>a b. a < m \<and> a \<le> b \<and> b < length rs \<longrightarrow> fr_key (sort_upto m rs ! a) \<le> fr_key (sort_upto m rs ! b))"
  using assms
proof (induction m)
  case (Suc m)
  define rs1 where "rs1 = sort_upto m rs"
  define rs2 where "rs2 = select_upto m (length rs1) rs1"
  have IH: "mset rs1 = mset rs"
    "\<And>a b. a < m \<Longrightarrow> a \<le> b \<Longrightarrow> b < length rs \<Longrightarrow> fr_key (rs1 ! a) \<le> fr_key (rs1 ! b)"
    using Suc by (auto simp: rs1_def)
  have len: "length rs1 = length rs" using IH(1) mset_eq_length by blast
  have sel: "mset rs2 = mset rs1" "take m rs2 = take m rs1"
    "\<And>k. m \<le> k \<Longrightarrow> k < length rs \<Longrightarrow> fr_key (rs2 ! m) \<le> fr_key (rs2 ! k)"
    using select_upto_facts [of m "length rs1" rs1] Suc.prems len by (auto simp: rs2_def)
  have len2: "length rs2 = length rs" using sel(1) len mset_eq_length by metis
  have "mset (drop m rs2) = mset (drop m rs1)"
    using sel(1,2) by (metis add_left_imp_eq append_take_drop_id mset_append)
  then have suffix: "set (drop m rs2) = set (drop m rs1)" by (metis set_mset_mset)
  have "fr_key (rs2 ! a) \<le> fr_key (rs2 ! b)" if ab: "a < Suc m" "a \<le> b" "b < length rs" for a b
  proof (cases "a = m")
    case False
    then have a: "a < m" "rs2 ! a = rs1 ! a" using ab sel(2) by (auto simp: less_Suc_eq) (metis nth_take)
    show ?thesis
    proof (cases "b < m")
      case True
      then show ?thesis using IH(2) [of a b] a ab sel(2) by (metis nth_take)
    next
      case False
      then have "rs2 ! b \<in> set (drop m rs2)"
        using ab(3) len2 by (auto simp: in_set_conv_nth intro!: exI [of _ "b - m"])
      then obtain c where c: "c < length rs - m" "rs2 ! b = rs1 ! (m + c)"
        unfolding suffix using len by (auto simp: in_set_conv_nth)
      then have "fr_key (rs1 ! a) \<le> fr_key (rs1 ! (m + c))" using IH(2) a(1) by simp
      then show ?thesis using a c by simp
    qed
  qed (use sel(3) ab in auto)
  moreover have "sort_upto (Suc m) rs = rs2" by (simp add: sort_upto_def rs1_def rs2_def)
  ultimately show ?case using sel(1) IH(1) by simp
qed (simp add: sort_upto_def)

lemma sort_regions_upto:
  assumes "length rs = MAX_FREE_REGIONS"
  shows "sort_regions rs = sort_upto (MAX_FREE_REGIONS - 1) rs"
proof -
  have "fold (\<lambda>i. fold (\<lambda>j. swap_step (i, j)) [i + 1..<MAX_FREE_REGIONS]) is rs =
    fold (\<lambda>i rs. select_upto i (length rs) rs) is rs"
    if "\<forall>i \<in> set is. i < length rs" for "is"
    using that assms
  proof (induction "is" arbitrary: rs)
    case (Cons i "is")
    have "length (select_upto i (length rs) rs) = length rs"
      using select_upto_facts [of i "length rs" rs] Cons.prems by (metis le_refl list.set_intros(1) mset_eq_length)
    then show ?case
      using Cons.IH [of "select_upto i (length rs) rs"] Cons.prems by (simp add: select_upto_def)
  qed simp
  moreover have "\<forall>i \<in> set [0..<MAX_FREE_REGIONS - 1]. i < length rs" using assms by auto
  ultimately show ?thesis unfolding sort_regions_def sort_upto_def .
qed

lemma sort_regions_sorted:
  assumes "length rs = MAX_FREE_REGIONS"
  shows "mset (sort_regions rs) = mset rs" "sorted (map fr_key (sort_regions rs))"
proof -
  have facts: "mset (sort_regions rs) = mset rs"
    "\<forall>a b. a < length rs - 1 \<and> a \<le> b \<and> b < length rs \<longrightarrow> fr_key (sort_regions rs ! a) \<le> fr_key (sort_regions rs ! b)"
    using sort_upto_facts [of "length rs - 1" rs] assms by (simp_all add: sort_regions_upto)
  show "mset (sort_regions rs) = mset rs" by (rule facts)
  have "length (sort_regions rs) = length rs" using facts(1) mset_eq_length by blast
  then show "sorted (map fr_key (sort_regions rs))"
    using facts(2) by (auto simp: sorted_iff_nth_mono_less)
qed

end
