(* ===== verification/Heap_Alloc.thy ===== *)
theory Heap_Alloc
  imports Heap_Facts
begin

text \<open>
  Correctness of \<open>kmalloc_impl\<close>, \<open>kfree_impl\<close>, \<open>krealloc_impl\<close> and
  \<open>aligned_malloc\<close>, on top of the byte coverage of \<open>Heap_Facts\<close>.
\<close>

section \<open>The search for a region\<close>

lemma cover_sum: "cover rs b = (\<Sum>j < length rs. in_region b (rs ! j))"
  by (simp add: cover_def sum_list_sum_nth atLeast0LessThan)

abbreviation chunk :: "u64 \<Rightarrow> u64 \<Rightarrow> free_region" where
  "chunk base sz \<equiv> \<lparr>fr_base = base, fr_length = sz\<rparr>"

definition chain_ok :: "free_region list \<Rightarrow> nat \<Rightarrow> u64 \<Rightarrow> u64 \<times> nat list \<Rightarrow> bool" where
  "chain_ok rs n base st \<longleftrightarrow>
     (case st of (sz, merged) \<Rightarrow>
        distinct merged \<and> set merged \<subseteq> {..<n} \<and> fr_ok (chunk base sz) \<and> sz \<noteq> 0 \<and>
        (\<forall>b. (\<Sum>j \<in> set merged. in_region b (rs ! j)) = in_region b (chunk base sz)))"

lemma extend_step_ok:
  assumes "chain_ok rs n base st" "j < n" "fr_ok (rs ! j)"
  shows "chain_ok rs n base (extend_step rs base j st)"
proof -
  obtain sz merged where st: "st = (sz, merged)" by force
  show ?thesis
  proof (cases "j \<notin> set merged \<and> fr_length (rs ! j) \<noteq> 0 \<and> fr_base (rs ! j) = base + sz")
    case True
    have "fr_ok (chunk base sz)" using assms(1) by (simp add: chain_ok_def st)
    moreover have "fr_end (chunk base sz) = fr_base (rs ! j)" using True by (simp add: fr_end_def)
    ultimately show ?thesis
      using assms True join_bytes [of "chunk base sz" "rs ! j"] by (auto simp: st extend_step_def chain_ok_def)
  qed (use assms in \<open>auto simp: st extend_step_def\<close>)
qed

lemma extend_step_mono:
  assumes "chain_ok rs n base st" "fr_ok (rs ! j)"
  shows "fst st \<le> fst (extend_step rs base j st) \<and> set (snd st) \<subseteq> set (snd (extend_step rs base j st))"
proof -
  obtain sz merged where st: "st = (sz, merged)" by force
  have "sz \<le> sz + fr_length (rs ! j)" if adj: "fr_base (rs ! j) = base + sz"
  proof -
    have "fr_ok (chunk base sz)" using assms(1) by (simp add: chain_ok_def st)
    then have "unat (fr_base (rs ! j)) = unat base + unat sz"
      using fr_end_unat [of "chunk base sz"] adj by (simp add: fr_end_def)
    then have "unat sz + unat (fr_length (rs ! j)) < 2 ^ 64"
      using assms(2) by (simp add: fr_ok_def)
    then have "unat (sz + fr_length (rs ! j)) = unat sz + unat (fr_length (rs ! j))"
      by (simp add: unat_add_lem [THEN iffD1])
    then show ?thesis by (simp add: word_le_nat_alt)
  qed
  then show ?thesis by (auto simp: st extend_step_def)
qed

lemma extend_step_length: "length (snd st) \<le> length (snd (extend_step rs base j st))"
  by (cases st) (simp add: extend_step_def)

lemma extend_sweep_ok:
  assumes "chain_ok rs n base st" "\<forall>r \<in> set rs. fr_ok r" "n \<le> length rs"
  shows "chain_ok rs n base (extend_sweep rs n base st) \<and> fst st \<le> fst (extend_sweep rs n base st) \<and>
    set (snd st) \<subseteq> set (snd (extend_sweep rs n base st))"
proof -
  have "chain_ok rs n base (fold (extend_step rs base) js st) \<and> fst st \<le> fst (fold (extend_step rs base) js st) \<and>
    set (snd st) \<subseteq> set (snd (fold (extend_step rs base) js st))" if "\<forall>j \<in> set js. j < n" for js
    using that assms(1)
  proof (induction js arbitrary: st)
    case (Cons j js)
    then have j: "j < n" "fr_ok (rs ! j)" using assms(2,3) by auto
    note step = extend_step_ok [OF Cons.prems(2) j] extend_step_mono [OF Cons.prems(2) j(2)]
    show ?case using Cons.IH [OF _ step(1)] Cons.prems(1) step(2) by auto
  qed simp
  then show ?thesis by (simp add: extend_sweep_def)
qed

lemma extend_sweep_length: "length (snd st) \<le> length (snd (fold (extend_step rs base) js st))"
proof (induction js arbitrary: st)
  case (Cons j js)
  show ?case
    using extend_step_length [of st rs base j] Cons.IH [of "extend_step rs base j st"] by simp
qed simp

lemma extend_sweep_fixed:
  assumes "length (snd (fold (extend_step rs base) js st)) = length (snd st)"
  shows "fold (extend_step rs base) js st = st \<and> (\<forall>j \<in> set js. extend_step rs base j st = st)"
  using assms
proof (induction js arbitrary: st)
  case (Cons a js)
  have len: "length (snd (extend_step rs base a st)) = length (snd st)"
    using Cons.prems extend_step_length [of st rs base a]
      extend_sweep_length [of "extend_step rs base a st" rs base js] by simp
  then have same: "extend_step rs base a st = st"
    by (cases st) (auto simp: extend_step_def split: if_splits)
  then show ?case using Cons.IH [of st] Cons.prems by simp
qed simp

lemma chain_length:
  assumes "chain_ok rs n base st"
  shows "length (snd st) \<le> n"
proof -
  have "card (set (snd st)) \<le> card {..<n}"
    using assms by (intro card_mono) (auto simp: chain_ok_def split: prod.splits)
  then show ?thesis using assms by (auto simp: chain_ok_def distinct_card split: prod.splits)
qed

lemma extend_all_ok:
  assumes "chain_ok rs n base st" "\<forall>r \<in> set rs. fr_ok r" "n \<le> length rs" "n - length (snd st) < fuel"
  shows "\<exists>st'. extend_all fuel rs n base st = Ok st' \<and> chain_ok rs n base st' \<and>
    fst st \<le> fst st' \<and> set (snd st) \<subseteq> set (snd st') \<and> (\<forall>j < n. extend_step rs base j st' = st')"
  using assms
proof (induction fuel arbitrary: st)
  case (Suc fuel)
  define st1 where "st1 = extend_sweep rs n base st"
  have ok1: "chain_ok rs n base st1" and mono: "fst st \<le> fst st1" "set (snd st) \<subseteq> set (snd st1)"
    using extend_sweep_ok [OF Suc.prems(1-3)] by (simp_all add: st1_def)
  show ?case
  proof (cases "length (snd st1) = length (snd st)")
    case True
    then have "st1 = st \<and> (\<forall>j < n. extend_step rs base j st = st)"
      using extend_sweep_fixed [of rs base "[0..<n]" st] unfolding st1_def extend_sweep_def by auto
    then show ?thesis using True ok1 by (simp add: st1_def [symmetric])
  next
    case False
    then have "length (snd st) < length (snd st1)"
      using extend_sweep_length [of st rs base "[0..<n]"] by (simp add: st1_def extend_sweep_def)
    then have "n - length (snd st1) < fuel"
      using Suc.prems(4) chain_length [OF ok1] by linarith
    then obtain st' where st': "extend_all fuel rs n base st1 = Ok st'" "chain_ok rs n base st'"
        "fst st1 \<le> fst st'" "set (snd st1) \<subseteq> set (snd st')" "\<forall>j < n. extend_step rs base j st' = st'"
      using Suc.IH [OF ok1 Suc.prems(2,3)] by blast
    then show ?thesis
      using False order_trans [OF mono(1) st'(3)] order_trans [OF mono(2) st'(4)]
      by (simp add: st1_def [symmetric])
  qed
qed simp

declare extend_all.simps [simp del]

text \<open>The fixed point of the sweeps: no remaining region starts where the chain ends.\<close>

definition zero_merged :: "nat \<Rightarrow> nat \<Rightarrow> nat list \<Rightarrow> free_region list \<Rightarrow> free_region list" where
  "zero_merged n i merged rs =
     fold (\<lambda>j rs. if j \<in> set merged \<and> j \<noteq> i then rs[j := zero_region] else rs) [0..<n] rs"

definition commit_chain :: "nat \<Rightarrow> nat \<Rightarrow> u64 \<Rightarrow> nat list \<Rightarrow> free_region list \<Rightarrow> free_region list" where
  "commit_chain n i sz merged rs =
     (let rs = zero_merged n i merged rs in rs[i := (rs ! i)\<lparr>fr_length := sz\<rparr>])"

lemma zero_merged_nth:
  assumes "n \<le> length rs"
  shows "length (zero_merged n i merged rs) = length rs \<and>
    (\<forall>k < length rs. zero_merged n i merged rs ! k = (if k < n \<and> k \<in> set merged \<and> k \<noteq> i then zero_region else rs ! k))"
  using assms
proof (induction n)
  case (Suc n)
  then have "length (zero_merged n i merged rs) = length rs"
    "\<And>k. k < length rs \<Longrightarrow> zero_merged n i merged rs ! k = (if k < n \<and> k \<in> set merged \<and> k \<noteq> i then zero_region else rs ! k)"
    by auto
  moreover have "zero_merged (Suc n) i merged rs =
    (if n \<in> set merged \<and> n \<noteq> i then (zero_merged n i merged rs)[n := zero_region] else zero_merged n i merged rs)"
    by (simp add: zero_merged_def)
  ultimately show ?case using Suc.prems by (auto simp: nth_list_update less_Suc_eq)
qed (simp add: zero_merged_def)

lemma commit_chain_nth:
  assumes "n \<le> length rs" "i < n" "set merged \<subseteq> {..<n}"
  shows "length (commit_chain n i sz merged rs) = length rs"
    and "k < length rs \<Longrightarrow> commit_chain n i sz merged rs ! k =
      (if k = i then chunk (fr_base (rs ! i)) sz else if k \<in> set merged then zero_region else rs ! k)"
  using zero_merged_nth [OF assms(1), of i merged] assms
  by (auto simp: commit_chain_def Let_def nth_list_update)

lemma commit_chain_cover:
  assumes "n \<le> length rs" "i < n" "chain_ok rs n (fr_base (rs ! i)) (sz, merged)" "i \<in> set merged"
  shows "cover (commit_chain n i sz merged rs) = cover rs"
proof
  fix b
  have sub: "set merged \<subseteq> {..<n}" using assms(3) by (simp add: chain_ok_def)
  let ?rs = "commit_chain n i sz merged rs"
  note nth = commit_chain_nth [OF assms(1,2) sub]
  have split: "(\<Sum>j < length rs. f j) = (\<Sum>j \<in> set merged. f j) + (\<Sum>j \<in> {..<length rs} - set merged. f j)"
    for f :: "nat \<Rightarrow> nat"
    using sub assms(1) by (subst sum.subset_diff [of "set merged"]) auto
  have "(\<Sum>j \<in> set merged. in_region b (?rs ! j)) = (\<Sum>j \<in> set merged. if j = i then in_region b (chunk (fr_base (rs ! i)) sz) else 0)"
    using sub assms(1) by (intro sum.cong) (auto simp: nth(2))
  also have "\<dots> = in_region b (chunk (fr_base (rs ! i)) sz)"
    using assms(4) by simp
  also have "\<dots> = (\<Sum>j \<in> set merged. in_region b (rs ! j))"
    using assms(3) by (simp add: chain_ok_def)
  finally have merged: "(\<Sum>j \<in> set merged. in_region b (?rs ! j)) = (\<Sum>j \<in> set merged. in_region b (rs ! j))" .
  have "(\<Sum>j \<in> {..<length rs} - set merged. in_region b (?rs ! j)) = (\<Sum>j \<in> {..<length rs} - set merged. in_region b (rs ! j))"
    using assms(4) by (intro sum.cong) (auto simp: nth(2))
  then show "cover ?rs b = cover rs b"
    unfolding cover_sum nth(1) split using merged by simp
qed

lemma chain_start:
  assumes "fr_ok (rs ! i)" "fr_length (rs ! i) \<noteq> 0" "i < n"
  shows "chain_ok rs n (fr_base (rs ! i)) (fr_length (rs ! i), [i])"
proof -
  have eq: "chunk (fr_base (rs ! i)) (fr_length (rs ! i)) = rs ! i" by simp
  show ?thesis unfolding chain_ok_def prod.case eq using assms by simp
qed

text \<open>
  The result of the search: either a region that is large enough, with the bytes
  covered unchanged, or nothing, and then no region on its own is large enough.
\<close>

lemma first_region_from_correct:
  assumes ok: "\<forall>r \<in> set rs. fr_ok r" and n: "n \<le> length rs" and "\<forall>i \<in> set is. i < n"
  shows "first_region_from requested n is rs = Ok None \<and>
      (\<forall>i \<in> set is. fr_length (rs ! i) \<noteq> 0 \<longrightarrow> fr_length (rs ! i) < requested) \<or>
    (\<exists>i rs' sz. first_region_from requested n is rs = Ok (Some (i, rs')) \<and> i \<in> set is \<and> requested \<le> sz \<and> sz \<noteq> 0 \<and>
      fr_length (rs ! i) \<noteq> 0 \<and>
      length rs' = length rs \<and> rs' ! i = chunk (fr_base (rs ! i)) sz \<and> fr_ok (rs' ! i) \<and> cover rs' = cover rs \<and>
      (\<forall>k < length rs. k \<noteq> i \<longrightarrow> rs' ! k = rs ! k \<or> rs' ! k = zero_region \<and> k < n))"
  using assms(3)
proof (induction "is")
  case (Cons i "is")
  show ?case
  proof (cases "fr_length (rs ! i) = 0")
    case True
    then show ?thesis using Cons by (auto; blast)
  next
    case False
    have i: "i < n" "i < length rs" "fr_ok (rs ! i)" using Cons.prems ok n by auto
    have fuel: "n - length (snd (fr_length (rs ! i), [i])) < n + 1" by simp
    obtain sz merged where ext: "extend_all (n + 1) rs n (fr_base (rs ! i)) (fr_length (rs ! i), [i]) = Ok (sz, merged)"
      "chain_ok rs n (fr_base (rs ! i)) (sz, merged)" "fr_length (rs ! i) \<le> sz" "i \<in> set merged"
      using extend_all_ok [OF chain_start [OF i(3) False i(1)] ok n fuel] by auto
    show ?thesis
    proof (cases "sz \<ge> requested")
      case True
      let ?rs = "commit_chain n i sz merged rs"
      have sub: "set merged \<subseteq> {..<n}" "fr_ok (chunk (fr_base (rs ! i)) sz)" "sz \<noteq> 0"
        using ext(2) by (simp_all add: chain_ok_def)
      have "first_region_from requested n (i # is) rs = Ok (Some (i, ?rs))"
        using False ext(1) True by (simp add: commit_chain_def zero_merged_def Let_def)
      then show ?thesis
        using True i False sub commit_chain_nth [OF n i(1) sub(1)] commit_chain_cover [OF n i(1) ext(2,4)]
        by (intro disjI2 exI [of _ i] exI [of _ ?rs] exI [of _ sz]) (auto simp: chain_ok_def)
    next
      case small: False
      then have "first_region_from requested n (i # is) rs = first_region_from requested n is rs"
        using False ext(1) by simp
      moreover have "fr_length (rs ! i) < requested" using small ext(3) by auto
      ultimately show ?thesis using Cons by (auto; blast)
    qed
  qed
qed simp

section \<open>Sizes\<close>

lemma bit_align8: "bit (align8 x) k \<longleftrightarrow> bit x k \<and> 3 \<le> k \<and> k < 32"
proof -
  have eq: "(ucast (NOT (7 :: u32)) :: u64) = push_bit 3 (mask 29)"
    by (simp add: mask_eq_exp_minus_1 push_bit_eq_mult)
  show ?thesis unfolding align8_def eq by (auto simp: bit_and_iff bit_push_bit_iff bit_mask_iff)
qed

lemma align8_small:
  assumes "unat x < 2 ^ 32"
  shows "unat (align8 x) = unat x div 8 * 8"
proof -
  have high: "k < 32" if "bit x k" for k
  proof (rule ccontr)
    assume "\<not> k < 32"
    have "bit (unat x) k" using that by (simp add: bit_unsigned_iff)
    then have "2 ^ k \<le> unat x" by (metis bit_iff_odd div_less even_zero not_less)
    moreover have "(2 :: nat) ^ 32 \<le> 2 ^ k" using \<open>\<not> k < 32\<close> by (intro power_increasing) auto
    ultimately show False using assms by linarith
  qed
  have "align8 x = push_bit 3 (drop_bit 3 x)"
    by (rule bit_eqI) (use high in \<open>auto simp: bit_align8 bit_push_bit_iff bit_drop_bit_eq not_le\<close>)
  moreover have "unat (push_bit 3 (drop_bit 3 x)) = unat x div 8 * 8"
  proof -
    have less: "unat x div 8 * 8 < 2 ^ 64" using unat_less_u64 [of x] by linarith
    have "unat (x div 8) = unat x div 8" by (simp add: unat_div)
    then have "of_nat (unat x div 8) = x div 8" by (metis of_nat_unat ucast_id)
    then have eq: "push_bit 3 (drop_bit 3 x) = of_nat (unat x div 8 * 8)"
      by (simp add: push_bit_eq_mult drop_bit_eq_div mult.commute)
    show ?thesis unfolding eq by (rule unat_of_nat_u64 [OF less])
  qed
  ultimately show ?thesis by simp
qed

lemma unat_add_small:
  fixes x :: u64
  assumes "unat x + k < 2 ^ 64"
  shows "unat (x + of_nat k) = unat x + k"
  using assms by (simp add: unat_word_ariths(1) unat_of_nat_u64)

text \<open>The bytes a request for \<open>sz\<close> bytes occupies: the header and the payload, rounded up to eight.\<close>

definition block_size :: "nat \<Rightarrow> nat" where
  "block_size sz = (sz + 15) div 8 * 8"

lemma block_size_bounds: "sz + 8 \<le> block_size sz" "block_size sz < sz + 16" "block_size sz mod 8 = 0"
  unfolding block_size_def by (linarith | simp)+

lemma full_size:
  assumes "unat sz + 15 < 2 ^ 32"
  shows "unat (align8 (sz + 8 + 7)) = block_size (unat sz)"
proof -
  have eq: "sz + 8 + 7 = sz + of_nat 15" by simp
  have un: "unat (sz + 8 + 7) = unat sz + 15" unfolding eq using assms by (intro unat_add_small) simp
  show ?thesis unfolding block_size_def un [symmetric] by (rule align8_small) (use assms un in simp)
qed

lemma requested_size:
  assumes "unat sz + 30 < 2 ^ 32"
  shows "unat (align8 (align8 (sz + 8 + 7) + 8 + 7)) = block_size (unat sz) + 8"
proof -
  have full: "unat (align8 (sz + 8 + 7)) = block_size (unat sz)" using assms by (intro full_size) simp
  then have "unat (align8 (sz + 8 + 7)) + 15 < 2 ^ 32"
    using assms block_size_bounds(2) [of "unat sz"] by simp
  then have "unat (align8 (align8 (sz + 8 + 7) + 8 + 7)) = block_size (block_size (unat sz))"
    using full_size [of "align8 (sz + 8 + 7)"] by (simp only: full)
  moreover have "block_size n = n + 8" if "n mod 8 = 0" for n
    using that unfolding block_size_def by presburger
  ultimately show ?thesis using block_size_bounds(3) by simp
qed

end
