(* ===== verification/Heap_Spec.thy ===== *)
theory Heap_Spec
  imports Heap_Alloc
begin

text \<open>
  The contract of the kernel heap. Blocks are intervals of bytes; \<open>heap_wf\<close> says
  that no byte is in two free regions and that the slots past the region count
  are empty. The theory ends with the interface other components rely on and the
  properties of the heap.
\<close>

section \<open>The invariant\<close>

definition heap_free :: "'a heap_scheme \<Rightarrow> nat set" where
  "heap_free s = {b. cover (free_regions s) b = 1}"

definition heap_wf :: "'a heap_scheme \<Rightarrow> bool" where
  "heap_wf s \<longleftrightarrow>
     heap_lock s = 0 \<and> length (free_regions s) = MAX_FREE_REGIONS \<and> free_region_count s \<le> MAX_FREE_REGIONS \<and>
     (\<forall>r \<in> set (free_regions s). fr_ok r) \<and> (\<forall>b. cover (free_regions s) b \<le> 1) \<and>
     (\<forall>k. free_region_count s \<le> k \<and> k < MAX_FREE_REGIONS \<longrightarrow> fr_length (free_regions s ! k) = 0)"

definition heap_room :: "'a heap_scheme \<Rightarrow> bool" where
  "heap_room s \<longleftrightarrow> (\<exists>k < MAX_FREE_REGIONS. fr_length (free_regions s ! k) = 0)"

definition heap_fits :: "nat \<Rightarrow> 'a heap_scheme \<Rightarrow> bool" where
  "heap_fits sz s \<longleftrightarrow> 0 < sz \<and> sz + 30 < 2 ^ 32 \<and>
     (\<exists>i < free_region_count s. block_size sz + 8 \<le> unat (fr_length (free_regions s ! i)))"

definition heap_block :: "u64 \<Rightarrow> nat \<Rightarrow> nat set" where
  "heap_block p sz = {unat p - 8..<unat p - 8 + block_size sz}"

definition heap_holds :: "u64 \<Rightarrow> nat \<Rightarrow> 'a heap_scheme \<Rightarrow> bool" where
  "heap_holds p sz s \<longleftrightarrow>
     sz + 30 < 2 ^ 32 \<and> 0xFFFF + 8 < unat p \<and> unat p - 8 + block_size sz < 2 ^ 64 \<and>
     unat (read64 (kmem s) (p - 8)) = sz \<and> heap_block p sz \<inter> heap_free s = {}"

lemma heap_lock_acquire_free [run_simps]:
  "heap_lock s = 0 \<Longrightarrow> heap_lock_acquire s = Ok (rflags s, s\<lparr>int_flag := False, heap_lock := 1\<rparr>)"
  by (simp add: heap_lock_acquire_def run_simps)

lemma heap_lock_acquire_held [run_simps]: "heap_lock s \<noteq> 0 \<Longrightarrow> heap_lock_acquire s = Stop Deadlock"
  by (simp add: heap_lock_acquire_def run_simps)

lemma heap_lock_release_simp [run_simps]:
  "heap_lock_release (rflags s) t = t\<lparr>int_flag := int_flag s \<or> int_flag t, heap_lock := 0\<rparr>"
  by (simp add: heap_lock_release_def run_simps)

section \<open>kmalloc\<close>

text \<open>Cutting the front off a region.\<close>

lemma cut_front:
  assumes "fr_ok (chunk base sz)" "unat full + 8 \<le> unat sz"
  shows "in_region b (chunk base full) + in_region b (chunk (base + full) (sz - full)) = in_region b (chunk base sz)"
    and "fr_ok (chunk (base + full) (sz - full))" "fr_length (chunk (base + full) (sz - full)) \<noteq> 0"
    and "unat (base + full) = unat base + unat full"
proof -
  have bound: "unat base + unat sz < 2 ^ 64" using assms(1) by (simp add: fr_ok_def)
  have sz: "sz \<noteq> 0" using assms(2) by auto
  then have base: "0xFFFF < base" using assms(1) by (simp add: fr_ok_def)
  show sum: "unat (base + full) = unat base + unat full"
    using bound assms(2) by (simp add: unat_add_lem [THEN iffD1])
  have diff: "unat (sz - full) = unat sz - unat full"
    using assms(2) by (simp add: unat_sub_if' )
  show "fr_length (chunk (base + full) (sz - full)) \<noteq> 0"
    using diff assms(2) by (auto simp: unat_eq_0 [symmetric])
  have "0xFFFF < base + full" using base sum by (simp add: word_less_nat_alt)
  then show "fr_ok (chunk (base + full) (sz - full))"
    using sum diff bound assms(2) by (simp add: fr_ok_def)
  show "in_region b (chunk base full) + in_region b (chunk (base + full) (sz - full)) = in_region b (chunk base sz)"
    using sum diff assms(2) by (auto simp: in_region_def fr_bytes_def)
qed

lemma kmalloc_fit:
  assumes wf: "heap_wf s" and fits: "heap_fits (unat sz) s"
  obtains p rs s' where
    "s' = s\<lparr>kmem := write64 (kmem s) (p - 8) sz, free_regions := rs\<rparr>"
    "kmalloc_impl sz s = Ok (p, s')" "heap_wf s'"
    "0xFFFF + 8 < unat p" "unat p - 8 + block_size (unat sz) < 2 ^ 64"
    "\<And>b. cover rs b + of_bool (b \<in> heap_block p (unat sz)) = cover (free_regions s) b"
    "\<And>k. k < MAX_FREE_REGIONS \<Longrightarrow> fr_length (free_regions s ! k) = 0 \<Longrightarrow> fr_length (rs ! k) = 0"
proof -
  define n where "n = free_region_count s"
  define rs0 where "rs0 = free_regions s"
  define full where "full = align8 (sz + 8 + 7)"
  define req where "req = align8 (full + 8 + 7)"
  have wf': "heap_lock s = 0" "length rs0 = MAX_FREE_REGIONS" "n \<le> MAX_FREE_REGIONS" "\<forall>r \<in> set rs0. fr_ok r"
    "\<And>b. cover rs0 b \<le> 1" "\<And>k. n \<le> k \<Longrightarrow> k < MAX_FREE_REGIONS \<Longrightarrow> fr_length (rs0 ! k) = 0"
    using wf by (auto simp: heap_wf_def n_def rs0_def)
  have small: "0 < unat sz" "unat sz + 30 < 2 ^ 32" using fits by (auto simp: heap_fits_def)
  obtain j where j: "j < n" "block_size (unat sz) + 8 \<le> unat (fr_length (rs0 ! j))"
    using fits by (auto simp: heap_fits_def n_def rs0_def)
  have full: "unat full = block_size (unat sz)" unfolding full_def using small by (intro full_size) simp
  have req: "unat req = unat full + 8" unfolding req_def full_def using requested_size [OF small(2)] full full_def by simp
  have is_n: "\<forall>i \<in> set [0..<n]. i < n" by simp
  have "\<not> (\<forall>i \<in> set [0..<n]. fr_length (rs0 ! i) \<noteq> 0 \<longrightarrow> fr_length (rs0 ! i) < req)"
    using j full req by (auto simp: word_less_nat_alt intro!: bexI [of _ j])
  then obtain i rs1 L where found: "first_region_from req n [0..<n] rs0 = Ok (Some (i, rs1))" "i < n" "req \<le> L" "L \<noteq> 0"
      "length rs1 = length rs0" "rs1 ! i = chunk (fr_base (rs0 ! i)) L" "fr_ok (rs1 ! i)" "cover rs1 = cover rs0"
      "\<And>k. k < length rs0 \<Longrightarrow> k \<noteq> i \<Longrightarrow> rs1 ! k = rs0 ! k \<or> rs1 ! k = zero_region \<and> k < n"
      and live_i: "fr_length (rs0 ! i) \<noteq> 0"
    using first_region_from_correct [OF wf'(4) _ is_n, of req] wf'(2,3) by auto
  define base where "base = fr_base (rs0 ! i)"
  have iL: "i < MAX_FREE_REGIONS" using found(2) wf'(3) by simp
  have ok: "fr_ok (chunk base L)" using found(6,7) by (simp add: base_def)
  have cut: "unat full + 8 \<le> unat L" using found(3) req by (simp add: word_le_nat_alt)
  note cut_facts = cut_front [OF ok cut]
  have basehi: "0xFFFF < base" using ok found(4) by (simp add: fr_ok_def)
  define rs2 where "rs2 = rs1[i := chunk (base + full) (L - full)]"
  define s' where "s' = s\<lparr>kmem := write64 (kmem s) base sz, free_regions := rs2\<rparr>"
  have len2: "length rs2 = MAX_FREE_REGIONS" using found(5) wf'(2) by (simp add: rs2_def)
  have nth2: "rs2 ! k = (if k = i then chunk (base + full) (L - full) else rs1 ! k)" for k
    using iL found(5) wf'(2) by (simp add: rs2_def nth_list_update)
  have empty: "fr_length (rs2 ! k) = 0" if "k < MAX_FREE_REGIONS" "fr_length (rs0 ! k) = 0" "k \<noteq> i" for k
    using that found(9) [of k] wf'(2) by (auto simp: nth2)
  have sz0: "sz \<noteq> 0" and not_max: "\<not> sz > of_nat SIZE_MAX - 8"
    using small by (auto simp: SIZE_MAX_def word_less_nat_alt)
  let ?t = "s\<lparr>int_flag := False, heap_lock := 1\<rparr>"
  have first: "first_region_state full ?t = Ok (Some i, ?t\<lparr>free_regions := rs1\<rparr>)"
    using found(1) by (simp add: first_region_state_def first_region_of_size_or_more_def req_def n_def rs0_def)
  have use: "region_usable (Some i) (?t\<lparr>free_regions := rs1\<rparr>)"
    using basehi by (simp add: region_usable_def found(6) base_def not_le)
  have take: "kmalloc_take sz full i (?t\<lparr>free_regions := rs1\<rparr>) =
      (base + 8, ?t\<lparr>kmem := write64 (kmem s) base sz, free_regions := rs2\<rparr>)"
    using cut_facts(3) by (simp add: kmalloc_take_def Let_def found(6) base_def rs2_def)
  have run: "kmalloc_impl sz s = Ok (base + 8, s')"
    unfolding kmalloc_impl_def full_def [symmetric] Let_def
    using sz0 not_max wf'(1) first use take by (simp add: run_simps s'_def)
  have cover: "cover rs2 b + in_region b (chunk base full) = cover rs0 b" for b
    using cover_update [of i rs1 "chunk (base + full) (L - full)" b] iL found(5,6,8) wf'(2) cut_facts(1) [of b]
    by (simp add: rs2_def base_def)
  show thesis
  proof (rule that [where s' = s' and p = "base + 8" and rs = rs2])
    show "s' = s\<lparr>kmem := write64 (kmem s) (base + 8 - 8) sz, free_regions := rs2\<rparr>" by (simp add: s'_def)
    show "kmalloc_impl sz s = Ok (base + 8, s')" by (rule run)
    have base8: "unat (base + 8) = unat base + 8"
      using ok cut unat_add_small [of base 8] by (simp add: fr_ok_def)
    show "0xFFFF + 8 < unat (base + 8)" using basehi base8 by (simp add: word_less_nat_alt)
    show "unat (base + 8) - 8 + block_size (unat sz) < 2 ^ 64"
      using ok cut full base8 by (simp add: fr_ok_def)
    show "cover rs2 b + of_bool (b \<in> heap_block (base + 8) (unat sz)) = cover (free_regions s) b" for b
      using cover [of b] full base8 by (simp add: in_region_def fr_bytes_def heap_block_def rs0_def)
    show "fr_length (rs2 ! k) = 0" if "k < MAX_FREE_REGIONS" "fr_length (free_regions s ! k) = 0" for k
      using empty [of k] that live_i by (auto simp: rs0_def)
    have "fr_ok (rs2 ! k)" if "k < MAX_FREE_REGIONS" for k
      using found(9) [of k] that wf'(2,4) cut_facts(2) by (auto simp: nth2)
    then have "\<forall>r \<in> set rs2. fr_ok r" using len2 by (auto simp: in_set_conv_nth)
    moreover have "cover rs2 b \<le> 1" for b using cover [of b] wf'(5) [of b] by linarith
    moreover have "fr_length (rs2 ! k) = 0" if "n \<le> k" "k < MAX_FREE_REGIONS" for k
      using empty [of k] wf'(6) that found(2) by auto
    ultimately show "heap_wf s'"
      using wf'(1,3) len2 by (simp add: heap_wf_def s'_def n_def)
  qed
qed

section \<open>kfree\<close>

lemma live_prefix:
  assumes "sorted (map fr_key rs)" "length (filter (\<lambda>r. fr_length r > 0) rs) \<le> k" "k < length rs"
  shows "fr_length (rs ! k) = 0"
proof (rule ccontr)
  assume live: "fr_length (rs ! k) \<noteq> 0"
  have "fr_length (rs ! j) > 0" if "j < Suc k" for j
  proof -
    have "fr_key (rs ! j) \<le> fr_key (rs ! k)"
      using assms(1,3) that by (simp add: sorted_iff_nth_mono)
    then have "fr_key (rs ! j) < 2 ^ 64" using live unat_less_u64 [of "fr_base (rs ! k)"] by (simp add: fr_key_def)
    then show ?thesis by (auto simp: fr_key_def word_gt_0 split: if_splits)
  qed
  then have "filter (\<lambda>r. fr_length r > 0) (take (Suc k) rs) = take (Suc k) rs"
    using assms(3) by (auto simp: filter_id_conv in_set_conv_nth)
  then have "Suc k \<le> length (filter (\<lambda>r. fr_length r > 0) (take (Suc k) rs @ drop (Suc k) rs))"
    using assms(3) by (simp del: append_take_drop_id)
  then show False using assms(2) by simp
qed

text \<open>
  After \<open>kfree_impl\<close> the region array is sorted by base address with the empty slots last,
  and no region ends where another begins.
\<close>

definition tidy :: "'a heap_scheme \<Rightarrow> bool" where
  "tidy s \<longleftrightarrow>
     (\<forall>i j. i < j \<and> j < free_region_count s \<longrightarrow>
        fr_base (free_regions s ! i) \<le> fr_base (free_regions s ! j) \<and>
        fr_end (free_regions s ! i) \<noteq> fr_base (free_regions s ! j)) \<and>
     (\<forall>i < MAX_FREE_REGIONS. fr_length (free_regions s ! i) \<noteq> 0 \<longleftrightarrow> i < free_region_count s)"

lemma find_first:
  assumes "\<exists>i < n. P i"
  shows "\<exists>i < n. find P [0..<n] = Some i \<and> P i"
proof (cases "find P [0..<n]")
  case None
  then show ?thesis using assms by (auto simp: find_None_iff)
next
  case (Some i)
  then have "i < n \<and> P i" by (auto simp: find_Some_iff)
  then show ?thesis using Some by blast
qed

lemma filter_prefix_length:
  assumes "\<And>k. length (filter P xs) \<le> k \<Longrightarrow> k < length xs \<Longrightarrow> \<not> P (xs ! k)" "k < length (filter P xs)"
  shows "P (xs ! k)"
proof (rule ccontr)
  let ?n = "length (filter P xs)"
  assume bad: "\<not> P (xs ! k)"
  have "?n = card {i. i < length xs \<and> P (xs ! i)}" by (simp add: length_filter_conv_card)
  also have "\<dots> \<le> card ({..<?n} - {k})"
    using assms(1) bad by (intro card_mono) (auto simp: not_le [symmetric])
  also have "\<dots> < ?n" using assms(2) by simp
  finally show False by simp
qed

lemma kfree_correct:
  assumes wf: "heap_wf s" and holds: "heap_holds p sz s" and room: "heap_room s"
  obtains rs s' where
    "s' = s\<lparr>free_regions := rs, free_region_count := length (filter (\<lambda>r. fr_length r > 0) rs)\<rparr>"
    "kfree_impl p s = Ok s'" "heap_wf s'" "tidy s'"
    "\<And>b. cover rs b = cover (free_regions s) b + of_bool (b \<in> heap_block p sz)"
proof -
  define rs0 where "rs0 = free_regions s"
  have wf': "heap_lock s = 0" "length rs0 = MAX_FREE_REGIONS" "\<forall>r \<in> set rs0. fr_ok r" "\<And>b. cover rs0 b \<le> 1"
    using wf by (auto simp: heap_wf_def rs0_def)
  have h: "sz + 30 < 2 ^ 32" "0xFFFF + 8 < unat p" "unat p - 8 + block_size sz < 2 ^ 64"
    "unat (read64 (kmem s) (p - 8)) = sz" "heap_block p sz \<inter> heap_free s = {}"
    using holds by (auto simp: heap_holds_def)
  define hd where "hd = read64 (kmem s) (p - 8)"
  define full where "full = align8 (hd + 8 + 7)"
  have full: "unat full = block_size sz" unfolding full_def using h(1,4) full_size [of hd] by (simp add: hd_def)
  have p8: "unat (p - 8) = unat p - 8" using h(2) by (simp add: unat_sub_if')
  obtain i where i: "i < MAX_FREE_REGIONS" "fr_length (rs0 ! i) = 0"
      "find (\<lambda>i. fr_length (rs0 ! i) = 0) [0..<MAX_FREE_REGIONS] = Some i"
    using find_first [of MAX_FREE_REGIONS "\<lambda>i. fr_length (rs0 ! i) = 0"] room by (auto simp: heap_room_def rs0_def)
  define rs1 where "rs1 = rs0[i := chunk (p - 8) full]"
  define rs2 where "rs2 = sort_regions rs1"
  define rs where "rs = coalesce rs2"
  have len1: "length rs1 = MAX_FREE_REGIONS" using wf'(2) by (simp add: rs1_def)
  have okc: "fr_ok (chunk (p - 8) full)"
    using h(2,3) full p8 by (auto simp: fr_ok_def word_less_nat_alt)
  have cover1: "cover rs1 b = cover rs0 b + of_bool (b \<in> heap_block p sz)" for b
    using cover_update [of i rs0 "chunk (p - 8) full" b] i wf'(2) full p8
    by (simp add: rs1_def in_region_def fr_bytes_def heap_block_def)
  have ok1: "\<forall>r \<in> set rs1. fr_ok r"
    using wf'(3) okc set_update_subset_insert [of rs0 i "chunk (p - 8) full"] by (auto simp: rs1_def)
  have perm: "mset rs2 = mset rs1" "sorted (map fr_key rs2)"
    using sort_regions_sorted [OF len1] by (simp_all add: rs2_def)
  have sorted2: "sorted_ok rs2" "length rs2 = MAX_FREE_REGIONS" "cover rs2 = cover rs1"
    using perm(2) ok1 len1 mset_eq_setD [OF perm(1)] mset_eq_length [OF perm(1)] cover_mset [OF perm(1)]
    by (simp_all add: sorted_ok_def)
  have fin: "length rs = MAX_FREE_REGIONS" "sorted_ok rs" "cover rs = cover rs1" "separate (MAX_FREE_REGIONS - 1) rs"
    using coalesce_upto_facts [OF sorted2(1), of "MAX_FREE_REGIONS - 1"] sorted2
    by (simp_all add: rs_def coalesce_def coalesce_upto_def)
  define s' where "s' = s\<lparr>free_regions := rs, free_region_count := length (filter (\<lambda>r. fr_length r > 0) rs)\<rparr>"
  have "unat (hd + 8) = sz + 8" using unat_add_small [of hd 8] h(1,4) by (simp add: hd_def)
  then have nonzero: "hd + 8 \<noteq> 0" by auto
  have p0: "p \<noteq> 0" using h(2) by auto
  have run: "kfree_impl p s = Ok s'"
    unfolding kfree_impl_def Let_def
    using p0 nonzero wf'(1) i(3)
    by (simp add: run_simps hd_def rs0_def rs_def rs2_def rs1_def full_def s'_def add.commute)
  have sorted: "sorted (map fr_key rs)" and ok: "\<forall>r \<in> set rs. fr_ok r" using fin(2) by (auto simp: sorted_ok_def)
  define n where "n = length (filter (\<lambda>r. fr_length r > 0) rs)"
  have above: "fr_length (rs ! k) = 0" if "n \<le> k" "k < MAX_FREE_REGIONS" for k
    using live_prefix [OF sorted] that fin(1) by (simp add: n_def)
  have below: "fr_length (rs ! k) > 0" if "k < n" for k
    by (rule filter_prefix_length [where xs = rs]) (use above that fin(1) in \<open>auto simp: n_def\<close>)
  have n_le: "n \<le> MAX_FREE_REGIONS" using fin(1) length_filter_le [of _ rs] by (simp add: n_def)
  show thesis
  proof (rule that [OF s'_def run])
    show cover: "cover rs b = cover (free_regions s) b + of_bool (b \<in> heap_block p sz)" for b
      using fin(3) cover1 by (simp add: rs0_def)
    have "cover rs b \<le> 1" for b
      using cover [of b] wf'(4) [of b] h(5) by (auto simp: rs0_def heap_free_def le_Suc_eq split: if_splits)
    then show "heap_wf s'"
      using wf'(1) fin(1) ok above n_le by (simp add: heap_wf_def s'_def n_def)
    have "fr_base (rs ! i) \<le> fr_base (rs ! j) \<and> fr_end (rs ! i) \<noteq> fr_base (rs ! j)" if ij: "i < j" "j < n" for i j
    proof -
      have live: "fr_length (rs ! i) \<noteq> 0" "fr_length (rs ! j) \<noteq> 0" using below [of i] below [of j] ij by auto
      have "fr_key (rs ! i) \<le> fr_key (rs ! j)"
        using sorted ij n_le fin(1) by (simp add: sorted_iff_nth_mono)
      moreover have "apart_before i (length rs) rs"
        using fin(4) live ij n_le by (simp add: separate_def)
      ultimately show ?thesis
        using live ij n_le fin(1) by (auto simp: fr_key_def word_le_nat_alt apart_before_def)
    qed
    moreover have "fr_length (rs ! i) \<noteq> 0 \<longleftrightarrow> i < n" if "i < MAX_FREE_REGIONS" for i
      using above [of i] below [of i] that by (cases "i < n") auto
    ultimately show "tidy s'" by (simp add: tidy_def s'_def n_def)
  qed
qed

section \<open>The interface\<close>

text \<open>
  What every user of the heap relies on: a block that was handed out stays as it is
  while other blocks come and go, and giving it back makes exactly its bytes
  available again.
\<close>

locale block_allocator =
  fixes malloc :: "u64 \<Rightarrow> 's \<Rightarrow> (u64 \<times> 's) run" and release :: "u64 \<Rightarrow> 's \<Rightarrow> 's run"
    and inv :: "'s \<Rightarrow> bool" and avail :: "'s \<Rightarrow> nat set" and fits :: "nat \<Rightarrow> 's \<Rightarrow> bool"
    and holds :: "u64 \<Rightarrow> nat \<Rightarrow> 's \<Rightarrow> bool" and room :: "'s \<Rightarrow> bool" and block :: "u64 \<Rightarrow> nat \<Rightarrow> nat set"
  assumes malloc_ok: "inv s \<Longrightarrow> fits (unat sz) s \<Longrightarrow>
      \<exists>p t. malloc sz s = Ok (p, t) \<and> inv t \<and> holds p (unat sz) t \<and> block p (unat sz) \<subseteq> avail s \<and>
        avail t = avail s - block p (unat sz) \<and> (room s \<longrightarrow> room t)"
    and malloc_keeps: "inv s \<Longrightarrow> fits (unat sz) s \<Longrightarrow> malloc sz s = Ok (p, t) \<Longrightarrow> holds q n s \<Longrightarrow> holds q n t"
    and holds_apart: "holds q n s \<Longrightarrow> block q n \<inter> avail s = {}"
    and release_ok: "inv s \<Longrightarrow> holds p n s \<Longrightarrow> room s \<Longrightarrow>
      \<exists>t. release p s = Ok t \<and> inv t \<and> avail t = avail s \<union> block p n"
    and release_keeps: "inv s \<Longrightarrow> holds p n s \<Longrightarrow> room s \<Longrightarrow> holds q m s \<Longrightarrow> block q m \<inter> block p n = {} \<Longrightarrow>
      release p s = Ok t \<Longrightarrow> holds q m t"
begin

primrec malloc_all :: "u64 list \<Rightarrow> 's \<Rightarrow> (u64 list \<times> 's) run" where
  "malloc_all [] s = Ok ([], s)"
| "malloc_all (sz # szs) s = bindr (malloc sz s) (\<lambda>(p, s). bindr (malloc_all szs s) (\<lambda>(ps, s). Ok (p # ps, s)))"

primrec all_fit :: "u64 list \<Rightarrow> 's \<Rightarrow> bool" where
  "all_fit [] s = True"
| "all_fit (sz # szs) s = (fits (unat sz) s \<and> (\<forall>p t. malloc sz s = Ok (p, t) \<longrightarrow> all_fit szs t))"

lemma malloc_all_disjoint:
  assumes "inv s" "all_fit szs s" "\<forall>(q, n) \<in> set old. holds q n s"
  shows "\<exists>ps t. malloc_all szs s = Ok (ps, t) \<and> inv t \<and> length ps = length szs \<and>
    (\<forall>(q, n) \<in> set (old @ zip ps (map unat szs)). holds q n t) \<and>
    (\<forall>(q, n) \<in> set (zip ps (map unat szs)). block q n \<subseteq> avail s) \<and>
    (\<forall>i j. i < j \<and> j < length ps \<longrightarrow> block (ps ! i) (unat (szs ! i)) \<inter> block (ps ! j) (unat (szs ! j)) = {})"
  using assms
proof (induction szs arbitrary: s old)
  case (Cons sz szs)
  obtain p s1 where s1: "malloc sz s = Ok (p, s1)" "inv s1" "holds p (unat sz) s1" "block p (unat sz) \<subseteq> avail s"
      "avail s1 = avail s - block p (unat sz)"
    using malloc_ok [OF Cons.prems(1), of sz] Cons.prems(2) by auto
  have "all_fit szs s1" using Cons.prems(2) s1(1) by simp
  moreover have "\<forall>(q, n) \<in> set (old @ [(p, unat sz)]). holds q n s1"
    using Cons.prems s1 malloc_keeps [OF Cons.prems(1) _ s1(1)] by auto
  ultimately obtain ps t where t: "malloc_all szs s1 = Ok (ps, t)" "inv t" "length ps = length szs"
      "\<forall>(q, n) \<in> set ((old @ [(p, unat sz)]) @ zip ps (map unat szs)). holds q n t"
      "\<forall>(q, n) \<in> set (zip ps (map unat szs)). block q n \<subseteq> avail s1"
      "\<forall>i j. i < j \<and> j < length ps \<longrightarrow> block (ps ! i) (unat (szs ! i)) \<inter> block (ps ! j) (unat (szs ! j)) = {}"
    using Cons.IH [OF s1(2)] by blast
  have later: "block (ps ! j) (unat (szs ! j)) \<subseteq> avail s1" if "j < length ps" for j
  proof -
    have "(ps ! j, unat (szs ! j)) \<in> set (zip ps (map unat szs))"
      using t(3) that by (auto simp: set_zip intro!: exI [of _ j])
    then show ?thesis using t(5) by blast
  qed
  have "block ((p # ps) ! i) (unat ((sz # szs) ! i)) \<inter> block ((p # ps) ! j) (unat ((sz # szs) ! j)) = {}"
    if ij: "i < j" "j < length (p # ps)" for i j
  proof -
    obtain k where k: "j = Suc k" "k < length ps" using ij by (cases j) auto
    show ?thesis
    proof (cases i)
      case 0
      then show ?thesis using later [OF k(2)] s1(5) k(1) by auto
    next
      case (Suc l)
      then show ?thesis using t(6) k ij by simp
    qed
  qed
  moreover have "malloc_all (sz # szs) s = Ok (p # ps, t)" using s1(1) t(1) by simp
  ultimately show ?case
    using t(2,3,4,5) s1(4,5) by (intro exI [of _ "p # ps"] exI [of _ t]) auto
qed simp

lemma malloc_release:
  assumes "inv s" "fits (unat sz) s" "room s"
  shows "\<exists>p t u. malloc sz s = Ok (p, t) \<and> release p t = Ok u \<and> inv u \<and> avail u = avail s"
proof -
  obtain p t where t: "malloc sz s = Ok (p, t)" "inv t" "holds p (unat sz) t" "block p (unat sz) \<subseteq> avail s"
      "avail t = avail s - block p (unat sz)" "room t"
    using malloc_ok [OF assms(1,2)] assms(3) by blast
  then obtain u where "release p t = Ok u" "inv u" "avail u = avail t \<union> block p (unat sz)"
    using release_ok by blast
  then show ?thesis using t by (intro exI [of _ p] exI [of _ t] exI [of _ u]) auto
qed

end

text \<open>The heap provides the interface.\<close>

lemma heap_free_cover: "heap_wf s \<Longrightarrow> cover (free_regions s) b = of_bool (b \<in> heap_free s)"
  by (auto simp: heap_wf_def heap_free_def le_Suc_eq)

lemma unat_diff_u64:
  fixes x y :: u64
  shows "unat y \<le> unat x \<Longrightarrow> unat (x - y) = unat x - unat y"
    and "unat x < unat y \<Longrightarrow> unat (x - y) = 2 ^ 64 + unat x - unat y"
  by (simp_all add: unat_sub_if' word_le_nat_alt)

lemma header_untouched:
  assumes "heap_holds q n s" "heap_block p m \<subseteq> heap_free s" "0xFFFF + 8 < unat p" "unat p - 8 + block_size m < 2 ^ 64"
  shows "read64 (write64 (kmem s) (p - 8) v) (q - 8) = read64 (kmem s) (q - 8)"
proof (rule read64_cong)
  fix i :: nat
  assume i: "i < 8"
  have q: "unat (q - 8) = unat q - 8" "8 \<le> block_size n" "unat q - 8 + block_size n < 2 ^ 64"
    using assms(1) block_size_bounds(1) [of n] by (auto simp: heap_holds_def unat_sub_if')
  have p: "unat (p - 8) = unat p - 8" "8 \<le> block_size m" using assms(3) block_size_bounds(1) [of m] by (auto simp: unat_sub_if')
  have qi: "unat (q - 8 + of_nat i) = unat q - 8 + i"
    using unat_add_small [of "q - 8" i] q i by simp
  have "unat q - 8 + i \<in> heap_block q n" using q(2) i by (simp add: heap_block_def)
  then have "unat q - 8 + i \<notin> heap_block p m" using assms(1,2) by (auto simp: heap_holds_def)
  then have apart: "unat q - 8 + i < unat p - 8 \<or> unat p - 8 + 8 \<le> unat q - 8 + i"
    using p(2) by (auto simp: heap_block_def)
  have "\<not> unat (q - 8 + of_nat i - (p - 8)) < 8"
  proof (cases "unat p - 8 \<le> unat q - 8 + i")
    case True
    then have "unat (q - 8 + of_nat i - (p - 8)) = unat q - 8 + i - (unat p - 8)"
      using unat_diff_u64(1) [of "p - 8" "q - 8 + of_nat i"] by (simp only: qi p)
    then show ?thesis using apart True by linarith
  next
    case False
    then have "unat (q - 8 + of_nat i - (p - 8)) = 2 ^ 64 + (unat q - 8 + i) - (unat p - 8)"
      using unat_diff_u64(2) [of "q - 8 + of_nat i" "p - 8"] by (simp only: qi p not_le)
    then show ?thesis using False assms(4) p(2) by linarith
  qed
  then show "write64 (kmem s) (p - 8) v (q - 8 + of_nat i) = kmem s (q - 8 + of_nat i)"
    by (simp add: write64_def)
qed

lemma kmalloc_contract:
  assumes wf: "heap_wf s" and fits: "heap_fits (unat sz) s"
  shows "\<exists>p t. kmalloc_impl sz s = Ok (p, t) \<and> heap_wf t \<and> heap_holds p (unat sz) t \<and>
    heap_block p (unat sz) \<subseteq> heap_free s \<and> heap_free t = heap_free s - heap_block p (unat sz) \<and>
    (heap_room s \<longrightarrow> heap_room t) \<and> (\<forall>q n. heap_holds q n s \<longrightarrow> heap_holds q n t)"
proof (rule kmalloc_fit [OF assms])
  fix p rs t
  assume t: "t = s\<lparr>kmem := write64 (kmem s) (p - 8) sz, free_regions := rs\<rparr>"
    and run: "kmalloc_impl sz s = Ok (p, t)" and wft: "heap_wf t"
    and p: "0xFFFF + 8 < unat p" "unat p - 8 + block_size (unat sz) < 2 ^ 64"
    and cover: "\<And>b. cover rs b + of_bool (b \<in> heap_block p (unat sz)) = cover (free_regions s) b"
    and room: "\<And>k. k < MAX_FREE_REGIONS \<Longrightarrow> fr_length (free_regions s ! k) = 0 \<Longrightarrow> fr_length (rs ! k) = 0"
  have rs: "rs = free_regions t" by (simp add: t)
  have eq: "of_bool (b \<in> heap_free t) + of_bool (b \<in> heap_block p (unat sz)) = (of_bool (b \<in> heap_free s) :: nat)" for b
    using cover [of b] unfolding rs heap_free_cover [OF wf] heap_free_cover [OF wft] .
  have mem: "b \<in> heap_free t \<longleftrightarrow> b \<in> heap_free s \<and> b \<notin> heap_block p (unat sz)" "b \<in> heap_block p (unat sz) \<Longrightarrow> b \<in> heap_free s" for b
    using eq [of b] by (auto simp: of_bool_def split: if_splits)
  have free: "heap_free t = heap_free s - heap_block p (unat sz)" using mem(1) by blast
  have sub: "heap_block p (unat sz) \<subseteq> heap_free s" using mem(2) by blast
  have "heap_holds p (unat sz) t"
    using p fits free by (auto simp: heap_holds_def t heap_fits_def)
  moreover have "heap_holds q n t" if "heap_holds q n s" for q n
    using header_untouched [OF that sub p, of sz] that free by (auto simp: heap_holds_def t)
  moreover have "heap_room t" if "heap_room s" using that room by (auto simp: heap_room_def t)
  ultimately show ?thesis using run wft free sub by blast
qed

lemma kfree_contract:
  assumes wf: "heap_wf s" and holds: "heap_holds p n s" and room: "heap_room s"
  shows "\<exists>t. kfree_impl p s = Ok t \<and> heap_wf t \<and> tidy t \<and> heap_free t = heap_free s \<union> heap_block p n \<and>
    (\<forall>q m. heap_holds q m s \<longrightarrow> heap_block q m \<inter> heap_block p n = {} \<longrightarrow> heap_holds q m t)"
proof (rule kfree_correct [OF assms])
  fix rs t
  assume t: "t = s\<lparr>free_regions := rs, free_region_count := length (filter (\<lambda>r. fr_length r > 0) rs)\<rparr>"
    and run: "kfree_impl p s = Ok t" and wft: "heap_wf t" "tidy t"
    and cover: "\<And>b. cover rs b = cover (free_regions s) b + of_bool (b \<in> heap_block p n)"
  have rs: "rs = free_regions t" by (simp add: t)
  have eq: "of_bool (b \<in> heap_free t) = (of_bool (b \<in> heap_free s) + of_bool (b \<in> heap_block p n) :: nat)" for b
    using cover [of b] unfolding rs heap_free_cover [OF wf] heap_free_cover [OF wft(1)] .
  have "b \<in> heap_free t \<longleftrightarrow> b \<in> heap_free s \<or> b \<in> heap_block p n" for b
    using eq [of b] by (auto simp: of_bool_def split: if_splits)
  then have free: "heap_free t = heap_free s \<union> heap_block p n" by blast
  moreover have "heap_holds q m t" if "heap_holds q m s" "heap_block q m \<inter> heap_block p n = {}" for q m
    using that free by (auto simp: heap_holds_def t)
  ultimately show ?thesis using run wft by blast
qed

interpretation hp: block_allocator kmalloc_impl kfree_impl heap_wf heap_free heap_fits heap_holds heap_room heap_block
proof
  fix s t :: "'a heap_scheme" and sz p q :: u64 and n m :: nat
  show "heap_wf s \<Longrightarrow> heap_fits (unat sz) s \<Longrightarrow>
      \<exists>p t. kmalloc_impl sz s = Ok (p, t) \<and> heap_wf t \<and> heap_holds p (unat sz) t \<and> heap_block p (unat sz) \<subseteq> heap_free s \<and>
        heap_free t = heap_free s - heap_block p (unat sz) \<and> (heap_room s \<longrightarrow> heap_room t)"
    using kmalloc_contract [of s sz] by blast
  show "heap_wf s \<Longrightarrow> heap_fits (unat sz) s \<Longrightarrow> kmalloc_impl sz s = Ok (p, t) \<Longrightarrow> heap_holds q n s \<Longrightarrow> heap_holds q n t"
    using kmalloc_contract [of s sz] by auto
  show "heap_holds q n s \<Longrightarrow> heap_block q n \<inter> heap_free s = {}" by (simp add: heap_holds_def)
  show "heap_wf s \<Longrightarrow> heap_holds p n s \<Longrightarrow> heap_room s \<Longrightarrow>
      \<exists>t. kfree_impl p s = Ok t \<and> heap_wf t \<and> heap_free t = heap_free s \<union> heap_block p n"
    using kfree_contract [of s p n] by blast
  show "heap_wf s \<Longrightarrow> heap_holds p n s \<Longrightarrow> heap_room s \<Longrightarrow> heap_holds q m s \<Longrightarrow>
      heap_block q m \<inter> heap_block p n = {} \<Longrightarrow> kfree_impl p s = Ok t \<Longrightarrow> heap_holds q m t"
    using kfree_contract [of s p n] by auto
qed

section \<open>Properties\<close>

definition demo_heap :: heap where
  "demo_heap = \<lparr>int_flag = True, phys_mem = (\<lambda>_. 0), pmm_lock = 0, pmm_bitmap = [], bitmap_bits = 0, bitmap_next = 0,
     total_pages = 0, free_pages = 0, kvma_lock = 0, vma_pool = [], vma_free_list = None, vmm_lock = 0, cr3 = 0,
     kernel_pagedir_phys = 0, heap_lock = 0, free_region_count = 1,
     free_regions = chunk 0xFFFF900000000000 0x4000 # replicate 101 zero_region, kmem = (\<lambda>_. 0)\<rparr>"

lemma heap_holds_size: "heap_holds p (unat sz) t \<Longrightarrow> get_pter_size p t = sz"
  by (simp add: heap_holds_def get_pter_size_def word_unat_eq_iff)

lemma demo_heap_wf: "heap_wf demo_heap"
proof -
  have "cover (replicate 101 zero_region) b = 0" for b by (simp add: cover_def sum_list_replicate)
  then have "cover (chunk 0xFFFF900000000000 0x4000 # replicate 101 zero_region) b \<le> 1" for b
    by (simp add: in_region_def)
  then show ?thesis
    by (auto simp: heap_wf_def demo_heap_def MAX_FREE_REGIONS_def nth_Cons' fr_ok_def simp del: cover_Cons)
qed

lemma demo_heap_fits: "heap_fits 100 demo_heap"
  by (simp add: heap_fits_def demo_heap_def block_size_def)

lemma demo_heap_room: "heap_room demo_heap"
  by (simp add: heap_room_def demo_heap_def MAX_FREE_REGIONS_def) (rule exI [of _ 1], simp)



text \<open>
  C20. A sequence of requests that each fit when they are made succeeds, and the blocks it
  returns are pairwise disjoint and each keeps its size header to the end.
\<close>

theorem kmalloc_blocks_disjoint:
  assumes "heap_wf s" "hp.all_fit szs s"
  shows "\<exists>ps t. hp.malloc_all szs s = Ok (ps, t) \<and> heap_wf t \<and> length ps = length szs \<and>
    (\<forall>i j. i < j \<and> j < length ps \<longrightarrow> heap_block (ps ! i) (unat (szs ! i)) \<inter> heap_block (ps ! j) (unat (szs ! j)) = {}) \<and>
    (\<forall>(q, n) \<in> set (zip ps (map unat szs)). heap_holds q n t)"
  using hp.malloc_all_disjoint [OF assms, of "[]"] by auto

lemma demo_heap_alloc:
  "kmalloc_impl 100 demo_heap = Ok (0xFFFF900000000008, demo_heap\<lparr>kmem := write64 (\<lambda>_. 0) 0xFFFF900000000000 100,
     free_regions := chunk 0xFFFF900000000070 0x3F90 # replicate 101 zero_region\<rparr>)"
  by (simp add: kmalloc_impl_def demo_heap_def run_simps first_region_state_def first_region_of_size_or_more_def
      align8_def extend_all.simps extend_sweep_def extend_step_def region_usable_def kmalloc_take_def SIZE_MAX_def rflags_def
      heap_lock_release_def spin_unlock_irqrestore_def)

lemma demo_heap_fit_twice: "hp.all_fit [100, 100] demo_heap"
  using demo_heap_fits by (simp add: demo_heap_alloc) (simp add: heap_fits_def demo_heap_def block_size_def)

theorem kmalloc_blocks_disjoint_witness:
  "\<exists>p q t. hp.malloc_all [100, 100] demo_heap = Ok ([p, q], t) \<and> heap_block p 100 \<inter> heap_block q 100 = {}"
proof -
  obtain ps t where run: "hp.malloc_all [100, 100] demo_heap = Ok (ps, t)" "length ps = 2"
    and apart: "\<forall>i j. i < j \<and> j < length ps \<longrightarrow>
      heap_block (ps ! i) (unat ([100, 100 :: u64] ! i)) \<inter> heap_block (ps ! j) (unat ([100, 100 :: u64] ! j)) = {}"
    using kmalloc_blocks_disjoint [OF demo_heap_wf demo_heap_fit_twice] by auto
  then obtain p q where "ps = [p, q]" by (auto simp: length_Suc_conv eval_nat_numeral)
  then show ?thesis using run apart [rule_format, of 0 1] by auto
qed

text \<open>
  C6. Freeing a live block while a region slot is empty succeeds, makes exactly the bytes of
  the block available, leaves every other live block intact, and leaves the region
  array sorted, with the empty slots last and no two regions adjacent.
\<close>

theorem kfree_returns_block:
  assumes "heap_wf s" "heap_holds p n s" "heap_room s"
  shows "\<exists>t. kfree_impl p s = Ok t \<and> heap_wf t \<and> tidy t \<and> heap_free t = heap_free s \<union> heap_block p n \<and>
    (\<forall>q m. heap_holds q m s \<longrightarrow> heap_block q m \<inter> heap_block p n = {} \<longrightarrow> heap_holds q m t)"
  by (rule kfree_contract [OF assms])

theorem kfree_returns_block_witness:
  "\<exists>p s t. kmalloc_impl 100 demo_heap = Ok (p, s) \<and> kfree_impl p s = Ok t \<and> tidy t \<and>
     heap_free t = heap_free s \<union> heap_block p 100"
proof -
  obtain p s where "kmalloc_impl 100 demo_heap = Ok (p, s)" "heap_wf s" "heap_holds p 100 s" "heap_room s"
    using kmalloc_contract [OF demo_heap_wf, of 100] demo_heap_fits demo_heap_room by auto
  then show ?thesis using kfree_returns_block [of s p 100] by blast
qed

text \<open>
  C21. Freeing a block right after allocating it gives the heap back all its free bytes.
\<close>

theorem kmalloc_kfree_roundtrip:
  assumes "heap_wf s" "heap_fits (unat sz) s" "heap_room s"
  shows "\<exists>p t u. kmalloc_impl sz s = Ok (p, t) \<and> kfree_impl p t = Ok u \<and> heap_wf u \<and> heap_free u = heap_free s"
  by (rule hp.malloc_release [OF assms])

theorem kmalloc_kfree_roundtrip_witness:
  "\<exists>p t u. kmalloc_impl 100 demo_heap = Ok (p, t) \<and> kfree_impl p t = Ok u \<and> heap_free u = heap_free demo_heap"
  using kmalloc_kfree_roundtrip [OF demo_heap_wf, of 100] demo_heap_fits demo_heap_room by auto

text \<open>
  C36. \<open>krealloc_impl\<close> takes the heap lock and then calls \<open>kmalloc_impl\<close> or \<open>kfree_impl\<close>, which
  take it again: on an unlocked heap every call that would resize, allocate or free
  something never returns. Only the two calls with nothing to do get out, and the
  oversized request through a null pointer leaves the lock held.
\<close>

theorem krealloc_behaviour:
  assumes "heap_lock s = 0"
  shows "krealloc_impl p sz s =
    (if sz = 0 \<and> p = 0 then Ok (0, s)
     else if sz > of_nat SIZE_MAX - 8 then Ok (0, if p = 0 then s\<lparr>int_flag := False, heap_lock := 1\<rparr> else s)
     else Stop Deadlock)"
proof -
  have "\<not> (0 :: u64) > of_nat SIZE_MAX - 8" by (simp add: SIZE_MAX_def)
  then show ?thesis
    using assms by (auto simp: krealloc_impl_def run_simps kfree_impl_def kmalloc_impl_def)
qed

theorem krealloc_behaviour_witness: "krealloc_impl 0xFFFF900000000008 200 demo_heap = Stop Deadlock"
proof -
  have "heap_lock demo_heap = 0" by (simp add: demo_heap_def)
  from krealloc_behaviour [OF this, of "0xFFFF900000000008" 200] show ?thesis by (simp add: SIZE_MAX_def)
qed

text \<open>
  \<open>force_free_nolock\<close> keeps a pointer to the slot of the region it grows; when it
  absorbs a region from a lower slot the entries move but the pointer does not. Here
  the page \<open>[0x22000, 0x23000)\<close> is given to a heap with free regions at \<open>0x20000\<close>,
  \<open>0x21000\<close> and \<open>0x40000\<close>: the unrelated region at \<open>0x40000\<close> is dropped.
\<close>

theorem force_free_drops_region:
  "let s = demo_heap\<lparr>free_region_count := 3,
         free_regions := [chunk 0x20000 0x1000, chunk 0x21000 0x1000, chunk 0x40000 0x1000] @ replicate 99 zero_region\<rparr>;
       t = force_free_nolock 0x22000 0x1000 s
   in 0x40000 \<in> heap_free s \<and> 0x40000 \<notin> heap_free t \<and> free_region_count t = 1"
proof -
  have "force_free_nolock 0x22000 0x1000 (demo_heap\<lparr>free_region_count := 3,
         free_regions := [chunk 0x20000 0x1000, chunk 0x21000 0x1000, chunk 0x40000 0x1000] @ replicate 99 zero_region\<rparr>) =
       demo_heap\<lparr>free_region_count := 1, free_regions := [chunk 0x20000 0x3000, zero_region, zero_region] @ replicate 99 zero_region\<rparr>"
    by (simp add: force_free_nolock_def Let_def fr_end_def upt_rec absorb_others.simps shift_left_def numeral_3_eq_3)
  moreover have "cover (replicate 99 zero_region) b = 0" for b by (simp add: cover_def sum_list_replicate)
  ultimately show ?thesis by (simp add: heap_free_def in_region_def fr_bytes_def)
qed


end
