(* ===== verification/Vm_Spec.thy ===== *)
theory Vm_Spec
  imports Paging_Map Kvma_Refine
begin

text \<open>
  The properties of the kernel address allocator and of the page tables: that
  the operations return when there are frames and ranges left, and what they
  change.
\<close>

section \<open>Mapping returns\<close>

lemma pmm_alloc_zeroed_returns:
  assumes "vm_pmm s" "free_pgs s \<noteq> {}"
  shows "\<exists>a t. pmm_alloc_zeroed s = Ok (a, t) \<and> vm_pmm t \<and> card (free_pgs s) = Suc (card (free_pgs t))"
proof -
  have wf: "pmm_wf s" using assms(1) by (simp add: vm_pmm_def)
  have "returns (pmm_alloc s)" using pmm.alloc_returns [OF wf] assms(2) by (simp add: free_frames_def)
  then have "returns (pmm_alloc_zeroed s)" by (auto simp: returns_iff pmm_alloc_zeroed_def)
  then obtain a t where run: "pmm_alloc_zeroed s = Ok (a, t)" by (auto simp: returns_iff)
  show ?thesis
  proof (rule pmm_alloc_zeroed_Ok [OF assms(1) run])
    fix b
    assume b: "b \<in> free_pgs s" "free_pgs t = free_pgs s - {b}" "vm_pmm t"
    then have "card (free_pgs s) = Suc (card (free_pgs t))" by (metis card.remove finite_free_pgs)
    then show ?thesis using run b(3) by blast
  qed
qed

lemma set_pte_pmm [simp]:
  "vm_pmm (set_pte t i v s) = vm_pmm s" "free_pgs (set_pte t i v s) = free_pgs s"
  by (simp_all add: set_pte_def vm_pmm_def pmm_wf_def pmm_shape_def free_pgs_def)

lemma table_get_or_create_returns:
  assumes "vm_pmm s" "free_pgs s \<noteq> {}"
  shows "\<exists>u t. table_get_or_create tb i flags s = Ok (u, t) \<and> vm_pmm t \<and> card (free_pgs s) \<le> Suc (card (free_pgs t))"
  using pmm_alloc_zeroed_returns [OF assms] assms by (auto simp: table_get_or_create_def Let_def)

lemma map_4k_nolock_returns:
  assumes "vm_pmm s" "3 \<le> card (free_pgs s)"
  shows "\<exists>t. map_4k_nolock root va pa flags s = Ok t \<and> vm_pmm t \<and> card (free_pgs s) \<le> 3 + card (free_pgs t)"
proof -
  have ne: "free_pgs u \<noteq> {}" if "1 \<le> card (free_pgs u)" for u :: "'a pmm_scheme" using that by auto
  obtain t1 s1 where 1: "table_get_or_create root (PML4_INDEX va) flags s = Ok (t1, s1)" "vm_pmm s1"
      "card (free_pgs s) \<le> Suc (card (free_pgs s1))"
    using table_get_or_create_returns [OF assms(1) ne] assms(2) by fastforce
  obtain t2 s2 where 2: "table_get_or_create t1 (PDPT_INDEX va) flags s1 = Ok (t2, s2)" "vm_pmm s2"
      "card (free_pgs s1) \<le> Suc (card (free_pgs s2))"
    using table_get_or_create_returns [OF 1(2) ne] 1(3) assms(2) by fastforce
  obtain t3 s3 where 3: "table_get_or_create t2 (PD_INDEX va) flags s2 = Ok (t3, s3)" "vm_pmm s3"
      "card (free_pgs s2) \<le> Suc (card (free_pgs s3))"
    using table_get_or_create_returns [OF 2(2) ne] 1(3) 2(3) assms(2) by fastforce
  show ?thesis using 1 2 3 by (simp add: map_4k_nolock_def)
qed

lemma map_4k_run_returns:
  assumes "vm_pmm s" "3 * count \<le> card (free_pgs s)"
  shows "\<exists>t. map_4k_run root va pa count flags s = Ok t \<and> vm_pmm t \<and> card (free_pgs s) \<le> 3 * count + card (free_pgs t)"
  using assms(2)
proof (induction count)
  case 0
  then show ?case using assms(1) by (simp add: map_4k_run_def)
next
  case (Suc c)
  then obtain t where t: "map_4k_run root va pa c flags s = Ok t" "vm_pmm t" "card (free_pgs s) \<le> 3 * c + card (free_pgs t)"
    by auto
  then have "3 \<le> card (free_pgs t)" using Suc.prems by simp
  from map_4k_nolock_returns [OF t(2) this, of root "va + of_nat c * PAGE_SIZE_4K" "pa + of_nat c * PAGE_SIZE_4K" flags]
  show ?case using t by (auto simp: map_4k_run_def foreach_append)
qed

section \<open>Searching returns\<close>

lemma uvma_search_returns:
  assumes "uvma_is_range_free m root (page_addr (n + k)) count" "k < fuel" "n + k < 2 ^ 52" "start = page_addr n0" "n0 \<le> n"
  shows "\<exists>r. uvma_search fuel m root count start (page_addr n) = Ok (Some r)"
  using assms
proof (induction fuel arbitrary: n k)
  case (Suc fuel)
  show ?case
  proof (cases "uvma_is_range_free m root (page_addr n) count")
    case False
    then obtain j where j: "k = Suc j" using Suc.prems(1) by (cases k) auto
    have step: "page_addr n + PAGE_SIZE_4K = page_addr (Suc n)"
      using page_addr_step [of n 1] by simp
    have "\<not> page_addr (Suc n) < start"
      using Suc.prems j page_addr_less [of "Suc n" n0] by simp
    moreover have "\<exists>r. uvma_search fuel m root count start (page_addr (Suc n)) = Ok (Some r)"
      using Suc.IH [of "Suc n" j] Suc.prems j by simp
    ultimately show ?thesis using False step by (simp add: Let_def)
  qed simp
qed simp

lemma page_addr_aligned: "page_addr n AND 0xFFF = 0"
proof (rule bit_word_eqI)
  fix k
  have "page_addr n = push_bit 12 (of_nat n)" by (simp add: page_addr_def PMM_PAGE_SIZE_def push_bit_eq_mult)
  moreover have "(0xFFF :: u64) = mask 12" by (simp add: mask_eq_exp_minus_1)
  ultimately show "bit (page_addr n AND 0xFFF) k = bit (0 :: u64) k"
    by (simp only: bit_and_iff bit_push_bit_iff bit_mask_iff) auto
qed

lemma more_vmm_lock: "pmm.more t = pmm.more s \<Longrightarrow> vmm_lock t = vmm_lock s" for s t :: "'a paging_scheme"
  by (cases s; cases t) simp

section \<open>A concrete address space\<close>

definition demo_vm :: paging where
  "demo_vm = \<lparr>int_flag = True, phys_mem = (\<lambda>_. 0), pmm_lock = 0, pmm_bitmap = [0x03, 0x00], bitmap_bits = 16,
     bitmap_next = 2, total_pages = 16, free_pages = 14, kvma_lock = 0, vma_pool = replicate 512 \<lparr>vr_base = 0, vr_pages = 0, vr_next = None\<rparr>,
     vma_free_list = None, vmm_lock = 0, cr3 = 0x1000, kernel_pagedir_phys = 0x1000\<rparr>"

lemma pte_zero [simp]: "pte (\<lambda>_. 0) t i = 0"
  by (rule bit_word_eqI) (simp add: pte_def bit_read64)

lemma demo_vm_free: "free_pgs demo_vm = {2..<16}"
proof -
  have "page_used [3, 0] b \<longleftrightarrow> b < 2" if "b < 16" for b
  proof -
    have "b \<in> set [0..<16]" using that by simp
    then show ?thesis by (simp add: upt_rec page_used_def) (elim disjE; simp)
  qed
  then show ?thesis by (auto simp: free_pgs_def demo_vm_def)
qed

lemma demo_vm_tree: "vm_tree demo_vm 0x1000"
proof -
  have tbl: "tbl (\<lambda>_. 0) root p = (if p = [] then Some root else None)" for root p
    by (cases p) (simp_all add: next_table_def present_def)
  have "is_table_frame demo_vm 0x1000"
    unfolding is_table_frame_def demo_vm_free
    by (rule exI [of _ 1]) (simp add: demo_vm_def page_addr_def PMM_PAGE_SIZE_def)
  moreover have "phys_mem demo_vm = (\<lambda>_. 0)" by (simp add: demo_vm_def)
  moreover have "vm_pmm demo_vm" by (simp add: vm_pmm_def demo_vm_free) (simp add: pmm_wf_def pmm_shape_def demo_vm_def)
  ultimately show ?thesis by (auto simp: vm_tree_def tbl split: if_splits)
qed

lemma demo_vm_root: "root_ok (phys_mem demo_vm) 0x1000" "walk (phys_mem demo_vm) root q = None" "vmm_lock demo_vm = 0"
proof -
  show none: "walk (phys_mem demo_vm) root q = None" for root q
    by (cases q) (simp_all add: demo_vm_def present_def)
  show "root_ok (phys_mem demo_vm) 0x1000" by (simp add: root_ok_def none)
qed (simp add: demo_vm_def)

section \<open>Properties\<close>

text \<open>
  C16. Mapping a page that no large page covers, with three free frames left, succeeds:
  the page then translates to the given frame, every other page translates as before,
  and the tables stay well-formed.
\<close>

theorem map_4k_maps_one_page:
  assumes "vm_tree s root" "root_ok (phys_mem s) root" "vmm_lock s = 0" "small_path (phys_mem s) root va"
    and "3 \<le> card (free_pgs s)" "flags AND PTE_ADDR_MASK = 0"
  shows "\<exists>t. map_4k root va pa flags s = Ok t \<and> vm_tree t root \<and> vmm_lock t = 0 \<and>
    page_dir_virt_to_phys (phys_mem t) root va = (pa AND PTE_ADDR_MASK) OR (va AND 0xFFF) \<and>
    (\<forall>va'. path va' \<noteq> path va \<longrightarrow>
       page_dir_virt_to_phys (phys_mem t) root va' = page_dir_virt_to_phys (phys_mem s) root va')"
proof -
  let ?l = "s\<lparr>int_flag := False, vmm_lock := 1\<rparr>"
  have l: "vm_tree ?l root" "small_path (phys_mem ?l) root va" "3 \<le> card (free_pgs ?l)"
    using assms by (simp_all add: free_pgs_def)
  then have vp: "vm_pmm ?l" by (simp only: vm_tree_def)
  obtain u where run: "map_4k_nolock root va pa flags ?l = Ok u"
    using map_4k_nolock_returns [OF vp l(3)] by blast
  note u = map_4k_nolock_walk [OF l(1,2) run]
  define t where "t = u\<lparr>int_flag := int_flag s \<or> int_flag u, vmm_lock := 0\<rparr>"
  have run': "map_4k root va pa flags s = Ok t"
    using run assms(3) by (simp add: map_4k_def with_vmm_lock0_def with_vmm_lock_def run_simps t_def)
  have pm: "phys_mem t = phys_mem u" by (simp add: t_def)
  have root: "root_ok (phys_mem u) root"
    by (rule root_ok_update [OF assms(2)]) (auto simp: u(3))
  have frame: "frame_of (leaf_entry pa flags) = pa AND PTE_ADDR_MASK"
  proof (rule bit_word_eqI)
    fix n
    have "\<not> bit (flags AND PTE_ADDR_MASK) n" using assms(6) by simp
    moreover have "\<not> bit (PTE_PRESENT AND PTE_ADDR_MASK) n" by (simp add: pte_consts)
    ultimately show "bit (frame_of (leaf_entry pa flags)) n = bit (pa AND PTE_ADDR_MASK) n"
      by (auto simp: frame_of_def leaf_entry_def bit_and_iff bit_or_iff)
  qed
  have "page_dir_virt_to_phys (phys_mem t) root va = (pa AND PTE_ADDR_MASK) OR (va AND 0xFFF)"
    by (simp add: pm virt_to_phys_walk [OF root] u(3) translate_def frame)
  moreover have "page_dir_virt_to_phys (phys_mem t) root va' = page_dir_virt_to_phys (phys_mem s) root va'"
    if "path va' \<noteq> path va" for va'
    using that by (simp add: virt_to_phys_walk [OF root] virt_to_phys_walk [OF assms(2)] pm u(3))
  moreover have "vm_tree t root" "vmm_lock t = 0" using u(1) by (simp_all add: t_def)
  ultimately show ?thesis using run' by blast
qed

lemma demo_vm_small: "small_path (phys_mem demo_vm) 0x1000 va" "3 \<le> card (free_pgs demo_vm)"
  by (simp_all add: small_path_def demo_vm_root demo_vm_free)

theorem map_4k_maps_one_page_witness:
  "\<exists>t. map_4k 0x1000 0x400000 0x7000 PTE_WRITABLE demo_vm = Ok t \<and>
     page_dir_virt_to_phys (phys_mem t) 0x1000 0x400000 = 0x7000"
  using map_4k_maps_one_page [OF demo_vm_tree demo_vm_root(1,3) demo_vm_small(1) [of "0x400000"] demo_vm_small(2), of PTE_WRITABLE "0x7000"]
  by (auto simp: PTE_WRITABLE_def PTE_ADDR_MASK_def)

text \<open>
  The locked translation of the current address space and the translation of a given
  page directory are the same function.
\<close>

theorem virt_to_phys_agree:
  assumes "vmm_lock s = 0"
  shows "vmm_virt_to_phys va s = Ok (page_dir_virt_to_phys (phys_mem s) (cr3 s) va, s)"
  by (rule vmm_virt_to_phys_same [OF assms])

theorem virt_to_phys_agree_witness:
  "vmm_virt_to_phys 0x400000 demo_vm = Ok (page_dir_virt_to_phys (\<lambda>_. 0) 0x1000 0x400000, demo_vm)"
  using virt_to_phys_agree [of demo_vm "0x400000"] by (simp add: demo_vm_def)

text \<open>
  C17. Unmapping a mapped small page succeeds when its frame, if the address space owns it,
  is one the page allocator manages: the page is then unmapped, every other page keeps
  its mapping, and the frame is free exactly if it was free before or was owned.
\<close>

theorem unmap_4k_unmaps_one_page:
  assumes "vm_tree s root" "root_ok (phys_mem s) root" "vmm_lock s = 0"
    and "walk (phys_mem s) root (path va) = Some (0, e)" "frame_of e = page_addr b"
    and "e AND PTE_LOCAL_OWNED \<noteq> 0 \<longrightarrow> b < bitmap_bits s"
  shows "\<exists>t. unmap_4k root va s = Ok t \<and> vmm_lock t = 0 \<and>
    free_pgs t = free_pgs s \<union> (if e AND PTE_LOCAL_OWNED \<noteq> 0 then {b} else {}) \<and>
    (\<forall>q. length q = 4 \<longrightarrow> idx_ok q \<longrightarrow> walk (phys_mem t) root q = (if q = path va then None else walk (phys_mem s) root q))"
proof -
  let ?l = "s\<lparr>int_flag := False, vmm_lock := 1\<rparr>"
  have l: "vm_tree ?l root" "root_ok (phys_mem ?l) root" "walk (phys_mem ?l) root (path va) = Some (0, e)" "free_pgs ?l = free_pgs s"
    using assms by (simp_all add: free_pgs_def)
  obtain t where t: "vm_tree t root" "free_pgs t = free_pgs s" "bitmap_bits t = bitmap_bits s" "pmm.more t = pmm.more ?l"
      "\<And>q. length q = 4 \<Longrightarrow> idx_ok q \<Longrightarrow> walk (phys_mem t) root q = (if q = path va then None else walk (phys_mem s) root q)"
      "unmap_4k_nolock root va True ?l = (if e AND PTE_LOCAL_OWNED \<noteq> 0 then pmm_free (frame_of e) t else Ok t)"
    using unmap_4k_nolock_run [OF l(1-3), of True] l(4) by auto
  have wf: "pmm_wf t" using t(1) by (simp add: vm_tree_def vm_pmm_def)
  obtain u :: "'a paging_scheme" where u: "unmap_4k_nolock root va True ?l = Ok u" "phys_mem u = phys_mem t"
      "free_pgs u = free_pgs s \<union> (if e AND PTE_LOCAL_OWNED \<noteq> 0 then {b} else {})"
  proof (cases "e AND PTE_LOCAL_OWNED \<noteq> 0")
    case True
    then have "b < bitmap_bits t" using assms(6) t(3) by simp
    then obtain bm u where "u = t\<lparr>pmm_bitmap := bm, free_pages := free_pages t + (if b \<in> free_pgs t then 0 else 1)\<rparr>"
        "pmm_free (page_addr b) t = Ok u" "free_pgs u = insert b (free_pgs t)"
      by (rule pmm_free_correct [OF wf])
    then show thesis using that [of u] t(2,6) assms(5) True by simp
  next
    case False
    then show thesis using that [of t] t(2,6) by simp
  qed
  define v where "v = u\<lparr>int_flag := int_flag s \<or> int_flag u, vmm_lock := 0\<rparr>"
  have "unmap_4k root va s = Ok v"
    using u(1) assms(3) by (simp add: unmap_4k_def with_vmm_lock0_def with_vmm_lock_def run_simps v_def)
  moreover have "phys_mem v = phys_mem t" "free_pgs v = free_pgs u" "vmm_lock v = 0"
    using u(2) by (simp_all add: v_def free_pgs_def)
  ultimately show ?thesis using u(3) t(5) by (intro exI [of _ v]) simp
qed

lemma demo_vm_mapped:
  obtains t :: paging where "vm_tree t 0x1000" "root_ok (phys_mem t) 0x1000" "vmm_lock t = 0"
    "walk (phys_mem t) 0x1000 (path 0x400000) = Some (0, leaf_entry 0x7000 (PTE_LOCAL_OWNED OR PTE_WRITABLE))"
    "bitmap_bits t = 16"
proof -
  have vp: "vm_pmm demo_vm" using demo_vm_tree by (simp add: vm_tree_def)
  obtain t where run: "map_4k_nolock 0x1000 0x400000 0x7000 (PTE_LOCAL_OWNED OR PTE_WRITABLE) demo_vm = Ok t"
    using map_4k_nolock_returns [OF vp demo_vm_small(2)] by blast
  note t = map_4k_nolock_walk [OF demo_vm_tree demo_vm_small(1) run]
  have "root_ok (phys_mem t) 0x1000" by (rule root_ok_update [OF demo_vm_root(1)]) (auto simp: t(3))
  moreover have "vmm_lock t = 0" using t(2) more_vmm_lock [of t demo_vm] demo_vm_root(3) by (simp add: pmm_only_def)
  moreover have "bitmap_bits t = 16" using t(2) by (simp add: pmm_only_def demo_vm_def)
  ultimately show thesis using that [OF t(1)] t(3) by simp
qed

theorem unmap_4k_unmaps_one_page_witness:
  "\<exists>s t. walk (phys_mem s) 0x1000 (path 0x400000) \<noteq> None \<and> unmap_4k 0x1000 0x400000 s = Ok t \<and>
     walk (phys_mem t) 0x1000 (path 0x400000) = None \<and> 7 \<in> free_pgs (t :: paging)"
proof (rule demo_vm_mapped)
  fix s :: paging
  assume s: "vm_tree s 0x1000" "root_ok (phys_mem s) 0x1000" "vmm_lock s = 0"
    "walk (phys_mem s) 0x1000 (path 0x400000) = Some (0, leaf_entry 0x7000 (PTE_LOCAL_OWNED OR PTE_WRITABLE))"
    "bitmap_bits s = 16"
  have e: "leaf_entry 0x7000 (PTE_LOCAL_OWNED OR PTE_WRITABLE) = 0x7203"
    by (simp add: leaf_entry_def pte_consts)
  have "frame_of 0x7203 = page_addr 7" by (simp add: frame_of_def pte_consts page_addr_def PMM_PAGE_SIZE_def)
  then obtain t where "unmap_4k 0x1000 0x400000 s = Ok t" "7 \<in> free_pgs t"
      "walk (phys_mem t) 0x1000 (path 0x400000) = None"
    using unmap_4k_unmaps_one_page [OF s(1-3) s(4) [unfolded e], of 7] s(5) by (auto simp: pte_consts)
  then show ?thesis using s(4) by (intro exI [of _ s] exI [of _ t]) simp
qed

text \<open>
  C18. Searching upwards from page \<open>n0\<close>, \<open>uvma_map_pages\<close> maps the lowest free run of
  \<open>count\<close> pages, if one starts at most \<open>k\<close> pages further in the lower half of the
  address space and the page allocator can supply the tables: it returns that run's
  address, each of its pages then maps to the next frame of the given physical range,
  and no other page changes.
\<close>

theorem uvma_map_pages_first_fit:
  assumes "vm_tree s root" "root_ok (phys_mem s) root" "vmm_lock s = 0"
    and "root \<noteq> 0" "0 < count" "pa AND 0xFFF = 0" "0 < n0" "n0 + k + count \<le> 2 ^ 35"
    and "uvma_is_range_free (phys_mem s) root (page_addr (n0 + k)) count" "3 * count \<le> card (free_pgs s)"
  shows "\<exists>n t. uvma_map_pages root pa count flags (page_addr n0) s = Ok (page_addr n, t) \<and>
    n0 \<le> n \<and> n \<le> n0 + k \<and> (\<forall>j. n0 \<le> j \<and> j < n \<longrightarrow> \<not> uvma_is_range_free (phys_mem s) root (page_addr j) count) \<and>
    (\<forall>i < count. walk (phys_mem s) root (path (page_addr (n + i))) = None \<and>
       walk (phys_mem t) root (path (page_addr (n + i))) =
         Some (0, leaf_entry (pa + of_nat i * PAGE_SIZE_4K) (flags OR PTE_PRESENT))) \<and>
    (\<forall>q. length q = 4 \<longrightarrow> idx_ok q \<longrightarrow> (\<forall>i < count. q \<noteq> path (page_addr (n + i))) \<longrightarrow>
         walk (phys_mem t) root q = walk (phys_mem s) root q)"
proof -
  let ?l = "s\<lparr>int_flag := False, vmm_lock := 1\<rparr>"
  have k52: "n0 + k < 2 ^ 52" and fuel: "k < 2 ^ 52" using assms(8) by simp_all
  obtain r where search: "uvma_search (2 ^ 52) (phys_mem s) root count (page_addr n0) (page_addr n0) = Ok (Some r)"
    using uvma_search_returns [OF assms(9) fuel k52 refl order_refl] by blast
  obtain j where j: "r = page_addr n0 + of_nat j * PAGE_SIZE_4K" "uvma_is_range_free (phys_mem s) root r count"
      "\<forall>i < j. \<not> uvma_is_range_free (phys_mem s) root (page_addr n0 + of_nat i * PAGE_SIZE_4K) count"
    using uvma_search_first_fit [OF search] by blast
  define n where "n = n0 + j"
  have r: "r = page_addr n" by (simp only: j(1) page_addr_step n_def)
  have first: "\<not> uvma_is_range_free (phys_mem s) root (page_addr i) count" if "n0 \<le> i" "i < n" for i
  proof -
    define d where "d = i - n0"
    have "i = n0 + d" using that(1) by (simp add: d_def)
    then show ?thesis using j(3) [rule_format, of d] that(2) by (simp add: n_def page_addr_step)
  qed
  have nk: "n \<le> n0 + k" using first [of "n0 + k"] assms(9) by (meson le_add1 not_le)
  have "vm_tree ?l root" using assms(1) by simp
  then have vp: "vm_pmm ?l" by (simp only: vm_tree_def)
  have cards: "3 * count \<le> card (free_pgs ?l)" using assms(10) by (simp add: free_pgs_def)
  obtain u where u: "map_4k_run root (page_addr n) pa count (flags OR PTE_PRESENT) ?l = Ok u"
    using map_4k_run_returns [OF vp cards] by blast
  define t where "t = vmm_lock_release (rflags s) u"
  have align: "page_addr n0 AND 0xFFF = 0" by (rule page_addr_aligned)
  have run: "uvma_map_pages root pa count flags (page_addr n0) s = Ok (page_addr n, t)"
    using assms(3-6) align search u
    by (simp add: uvma_map_pages_def with_vmm_lock_def run_simps PAGE_SIZE_4K_def Let_def r t_def del: uvma_search.simps)
  have half: "one_half n count" unfolding one_half_def using nk assms(8) by (auto simp: div_less)
  have nz: "page_addr n \<noteq> 0" using page_addr_inj [of n 0] assms(7,8) nk by (simp add: n_def page_addr_def)
  have res: "walk (phys_mem s) root (path (page_addr (n + i))) = None \<and>
       walk (phys_mem t) root (path (page_addr (n + i))) = Some (0, leaf_entry (pa + of_nat i * PAGE_SIZE_4K) (flags OR PTE_PRESENT))"
    if "i < count" for i
    using uvma_map_pages_correct [OF assms(1-6) align run nz refl half] that by blast
  have frame: "walk (phys_mem t) root q = walk (phys_mem s) root q"
    if "length q = 4" "idx_ok q" "\<forall>i < count. q \<noteq> path (page_addr (n + i))" for q
    using uvma_map_pages_correct [OF assms(1-6) align run nz refl half] that by blast
  show ?thesis
    using run first nk res frame by (intro exI [of _ n] exI [of _ t]) (auto simp: n_def)
qed

lemma demo_vm_range_free: "uvma_is_range_free (phys_mem demo_vm) 0x1000 va count"
  by (simp add: uvma_is_range_free_def uvma_page_free_def demo_vm_def)

theorem uvma_map_pages_first_fit_witness:
  "\<exists>t. uvma_map_pages 0x1000 0x8000 2 PTE_USER (page_addr 0x400) demo_vm = Ok (page_addr 0x400, t) \<and>
     walk (phys_mem t) 0x1000 (path (page_addr 0x401)) = Some (0, leaf_entry 0x9000 (PTE_USER OR PTE_PRESENT))"
proof -
  have "3 * 2 \<le> card (free_pgs demo_vm)" by (simp add: demo_vm_free)
  from uvma_map_pages_first_fit [OF demo_vm_tree demo_vm_root(1,3), of 2 "0x8000" "0x400" 0 PTE_USER,
      OF _ _ _ _ _ demo_vm_range_free this]
  obtain n t where *: "uvma_map_pages 0x1000 0x8000 2 PTE_USER (page_addr 0x400) demo_vm = Ok (page_addr n, t)"
      "0x400 \<le> n" "n \<le> 0x400" and
    maps: "\<forall>i < 2. walk (phys_mem t) 0x1000 (path (page_addr (n + i))) =
      Some (0, leaf_entry (0x8000 + of_nat i * PAGE_SIZE_4K) (PTE_USER OR PTE_PRESENT))"
    by auto
  then have "n = 0x400" by simp
  then show ?thesis using * maps [rule_format, of 1] by (simp add: PAGE_SIZE_4K_def)
qed

section \<open>The kernel address allocator\<close>

text \<open>
  C19. The pointer code of \<open>kvma_alloc\<close> implements first fit on the list of free regions it
  represents: it returns the start of the first region that is large enough and leaves
  a list that represents what first fit leaves; when no region is large enough it panics.
\<close>

theorem kvma_alloc_is_first_fit:
  assumes "kvma_rep s ns rs" "kvma_lock s = 0" "k < 2 ^ 52"
  shows "case va_take k rs of
      None \<Rightarrow> kvma_alloc (of_nat k) s = Stop (Panic ''vmm: kernel VA space exhausted'')
    | Some (b, rs') \<Rightarrow> (\<exists>s' ns'. kvma_alloc (of_nat k) s = Ok (page_addr b, s') \<and> kvma_rep s' ns' rs' \<and> kvma_lock s' = 0)"
  using kvma_alloc_refines [OF assms] assms(2) by (auto split: option.splits)

lemma demo_vm_kvma:
  "\<exists>s ns. vmm_kvma_init demo_vm = Ok s \<and> kvma_rep s ns [(kvma_lo, 0x8000000)] \<and> kvma_lock s = 0 \<and> length ns < length (vma_pool s)"
proof -
  let ?r = "\<lparr>vr_base = KERNEL_VMA_BASE, vr_pages = KERNEL_VMA_SIZE div PMM_PAGE_SIZE, vr_next = None\<rparr>"
  let ?s = "demo_vm\<lparr>vma_pool := (vma_pool demo_vm)[0 := ?r], vma_free_list := Some 0\<rparr>"
  have "find (\<lambda>i. vr_pages (vma_pool demo_vm ! i) = 0) [0..<512] = Some 0"
    by (subst upt_conv_Cons) (simp_all add: demo_vm_def)
  then have "vmm_kvma_init demo_vm = Ok ?s"
    by (simp add: vmm_kvma_init_def run_simps kvma_node_alloc_def demo_vm_def)
  moreover have "holds ?r (kvma_lo, 0x8000000)"
    by (simp add: kvma_window page_addr_def KERNEL_VMA_BASE_def KERNEL_VMA_SIZE_def PMM_PAGE_SIZE_def)
  then have "kvma_rep ?s [0] [(kvma_lo, 0x8000000)]"
    by (auto simp: kvma_rep_def demo_vm_def simp del: holds_iff)
  ultimately show ?thesis by (intro exI [of _ ?s] exI [of _ "[0]"]) (simp add: demo_vm_def)
qed

theorem kvma_alloc_is_first_fit_witness:
  "\<exists>s t ns. vmm_kvma_init demo_vm = Ok s \<and> kvma_alloc 3 s = Ok (KERNEL_VMA_BASE, t) \<and>
     kvma_rep t ns [(kvma_lo + 3, 0x8000000 - 3)]"
proof -
  obtain s ns where s: "vmm_kvma_init demo_vm = Ok s" "kvma_rep s ns [(kvma_lo, 0x8000000)]" "kvma_lock s = 0"
    using demo_vm_kvma by blast
  have "page_addr kvma_lo = KERNEL_VMA_BASE"
    by (simp add: kvma_window page_addr_def PMM_PAGE_SIZE_def KERNEL_VMA_BASE_def)
  then show ?thesis using kvma_alloc_is_first_fit [OF s(2,3), of 3] s(1) by auto
qed

text \<open>
  C9. Giving back a range that is not free, inside the window, with a pool node to spare,
  succeeds: the list stays sorted with a gap between any two regions (every merge that
  was possible was made) and represents exactly the old free pages and the new ones.
\<close>

theorem kvma_free_merges:
  assumes "kvma_rep s ns rs" "kvma_lock s = 0" "separated lo hi rs" "length ns < length (vma_pool s)"
    and "0 < n" "lo \<le> b" "b + n \<le> hi" "hi < 2 ^ 52" "{b..<b + n} \<inter> va_pages rs = {}"
  shows "\<exists>s' ns' rs'. kvma_free (page_addr b) (of_nat n) s = Ok s' \<and> kvma_rep s' ns' rs' \<and> kvma_lock s' = 0 \<and>
    separated lo hi rs' \<and> va_pages rs' = va_pages rs \<union> {b..<b + n}"
proof -
  have "b + n < 2 ^ 52" using assms(7,8) by simp
  from kvma_free_refines [OF assms(1-3,5) this assms(4)]
  obtain pool h ns' where "kvma_free (page_addr b) (of_nat n) s = Ok (s\<lparr>vma_pool := pool, vma_free_list := h\<rparr>)"
      "kvma_rep (s\<lparr>vma_pool := pool, vma_free_list := h\<rparr>) ns' (va_give b n rs)"
    by blast
  then show ?thesis
    using va_give_correct [OF assms(3,5-7)] assms(2,9)
    by (intro exI [of _ "s\<lparr>vma_pool := pool, vma_free_list := h\<rparr>"] exI [of _ ns'] exI [of _ "va_give b n rs"]) auto
qed

definition demo_kvma :: paging where
  "demo_kvma = demo_vm\<lparr>vma_pool := (vma_pool demo_vm)[0 := \<lparr>vr_base = page_addr 103, vr_pages = 97, vr_next = None\<rparr>],
     vma_free_list := Some 0\<rparr>"

lemma demo_kvma_rep: "kvma_rep demo_kvma [0] [(103, 97)]"
proof -
  have "holds \<lparr>vr_base = page_addr 103, vr_pages = 97, vr_next = None\<rparr> (103, 97)" by simp
  then show ?thesis by (auto simp: kvma_rep_def demo_kvma_def demo_vm_def simp del: holds_iff)
qed

theorem kvma_free_merges_witness:
  "\<exists>s' ns' rs'. kvma_free (page_addr 100) 3 demo_kvma = Ok s' \<and> kvma_rep s' ns' rs' \<and> va_pages rs' = {100..<200}"
proof -
  have "va_pages [(103, 97)] \<union> {100..<100 + 3} = {100..<200}" by auto
  then show ?thesis
    using kvma_free_merges [OF demo_kvma_rep, of 50 1000 3 100] by (simp add: demo_kvma_def demo_vm_def) blast
qed

text \<open>
  \<open>vmm_kvma_init\<close> on an empty pool makes the whole kernel window, and nothing else, free.
\<close>

theorem kvma_init_opens_window:
  assumes "kvma_lock s = 0" "length (vma_pool s) = 512" "\<forall>i < 512. vr_pages (vma_pool s ! i) = 0"
  shows "\<exists>s'. vmm_kvma_init s = Ok s' \<and> kvma_wf kvma_lo kvma_hi {kvma_lo..<kvma_hi} s'"
  by (rule kvma_init_wf [OF assms])

theorem kvma_init_opens_window_witness:
  "\<exists>s'. vmm_kvma_init demo_vm = Ok s' \<and> kvma_wf kvma_lo kvma_hi {kvma_lo..<kvma_hi} s'"
  by (rule kvma_init_opens_window) (simp_all add: demo_vm_def)

end
