(* ===== verification/Hlist.thy ===== *)
theory Hlist
  imports Prelude
begin

text \<open>
  The intrusive lists of \<open>kernel/src/defines/lists.h\<close>. The links of one family of
  lists (one \<open>hlist_node\<close> member and one \<open>hlist_head\<close> member of the structures) are a
  heap of their own: \<open>hnext\<close> and \<open>hpprev\<close> by the address of the structure that embeds
  the node, \<open>hfirst\<close> by the address of the structure that embeds the head, so that
  \<open>container_of\<close> is the identity and members of different types cannot alias. A
  \<open>pprev\<close> pointer points at a head or at the \<open>next\<close> member of a node.
  \<open>hl_abs D m L\<close> says that for every head in \<open>D\<close> the links of \<open>m\<close> form the list \<open>L h\<close>,
  and that no node is on two lists; the two operations refine consing and removal.
\<close>

datatype slot = First u64 | Next u64

record hlists =
  hnext :: "u64 \<Rightarrow> u64"
  hpprev :: "u64 \<Rightarrow> slot option"
  hfirst :: "u64 \<Rightarrow> u64"

section \<open>lists.h\<close>

definition INIT_HLIST_HEAD :: "u64 \<Rightarrow> hlists \<Rightarrow> hlists" where
  "INIT_HLIST_HEAD h m = m\<lparr>hfirst := (hfirst m)(h := 0)\<rparr>"

definition INIT_HLIST_NODE :: "u64 \<Rightarrow> hlists \<Rightarrow> hlists" where
  "INIT_HLIST_NODE n m = m\<lparr>hnext := (hnext m)(n := 0), hpprev := (hpprev m)(n := None)\<rparr>"

primrec load :: "hlists \<Rightarrow> slot \<Rightarrow> u64" where
  "load m (First h) = hfirst m h"
| "load m (Next n) = hnext m n"

primrec store :: "slot \<Rightarrow> u64 \<Rightarrow> hlists \<Rightarrow> hlists" where
  "store (First h) v m = m\<lparr>hfirst := (hfirst m)(h := v)\<rparr>"
| "store (Next n) v m = m\<lparr>hnext := (hnext m)(n := v)\<rparr>"

definition hlist_add_head :: "u64 \<Rightarrow> u64 \<Rightarrow> hlists \<Rightarrow> hlists" where
  "hlist_add_head node head m =
     (let first = hfirst m head;
          m = m\<lparr>hnext := (hnext m)(node := first)\<rparr>;
          m = (if first \<noteq> 0 then m\<lparr>hpprev := (hpprev m)(first := Some (Next node))\<rparr> else m);
          m = m\<lparr>hfirst := (hfirst m)(head := node)\<rparr>
      in m\<lparr>hpprev := (hpprev m)(node := Some (First head))\<rparr>)"

definition hlist_del :: "u64 \<Rightarrow> hlists \<Rightarrow> hlists run" where
  "hlist_del n m =
     (let next = hnext m n; pprev = hpprev m n
      in case pprev of None \<Rightarrow> Stop BadPointer
         | Some sl \<Rightarrow>
             (let m = store sl next m;
                  m = (if next \<noteq> 0 then m\<lparr>hpprev := (hpprev m)(next := Some sl)\<rparr> else m);
                  m = m\<lparr>hnext := (hnext m)(n := 0)\<rparr>
              in Ok (m\<lparr>hpprev := (hpprev m)(n := None)\<rparr>)))"

text \<open>
  A loop \<open>hlist_for_each\<close> that leaves at the first node with a property; the test may
  itself stop the machine. \<open>None\<close> is a loop that never ends.
\<close>

partial_function (option) hlist_find_from :: "(u64 \<Rightarrow> bool run) \<Rightarrow> hlists \<Rightarrow> u64 \<Rightarrow> u64 run option" where
  "hlist_find_from P m pos =
     (if pos = 0 then Some (Ok 0)
      else case P pos of Stop c \<Rightarrow> Some (Stop c)
        | Ok b \<Rightarrow> if b then Some (Ok pos) else hlist_find_from P m (hnext m pos))"

definition hlist_find :: "(u64 \<Rightarrow> bool run) \<Rightarrow> u64 \<Rightarrow> hlists \<Rightarrow> u64 run" where
  "hlist_find P head m =
     (case hlist_find_from P m (hfirst m head) of None \<Rightarrow> Stop Hang | Some r \<Rightarrow> r)"

text \<open>The nodes a loop over the whole list visits.\<close>

partial_function (option) hlist_nodes_from :: "hlists \<Rightarrow> u64 \<Rightarrow> u64 list option" where
  "hlist_nodes_from m pos =
     (if pos = 0 then Some []
      else Option.bind (hlist_nodes_from m (hnext m pos)) (\<lambda>xs. Some (pos # xs)))"

definition hlist_nodes :: "u64 \<Rightarrow> hlists \<Rightarrow> u64 list run" where
  "hlist_nodes head m = (case hlist_nodes_from m (hfirst m head) of None \<Rightarrow> Stop Hang | Some xs \<Rightarrow> Ok xs)"

section \<open>The lists the links form\<close>

primrec chain :: "hlists \<Rightarrow> slot \<Rightarrow> u64 list \<Rightarrow> bool" where
  "chain m sl [] \<longleftrightarrow> load m sl = 0"
| "chain m sl (x # xs) \<longleftrightarrow> load m sl = x \<and> x \<noteq> 0 \<and> hpprev m x = Some sl \<and> chain m (Next x) xs"

definition hl_abs :: "u64 set \<Rightarrow> hlists \<Rightarrow> (u64 \<Rightarrow> u64 list) \<Rightarrow> bool" where
  "hl_abs D m L \<longleftrightarrow>
     (\<forall>h \<in> D. chain m (First h) (L h) \<and> distinct (L h)) \<and>
     (\<forall>h \<in> D. \<forall>h' \<in> D. h \<noteq> h' \<longrightarrow> set (L h) \<inter> set (L h') = {})"

lemma chain_nonzero: "chain m sl xs \<Longrightarrow> 0 \<notin> set xs"
  by (induction xs arbitrary: sl) auto

lemma chain_cong:
  assumes "load m' sl = load m sl" "\<And>x. x \<in> set xs \<Longrightarrow> hnext m' x = hnext m x \<and> hpprev m' x = hpprev m x"
  shows "chain m' sl xs \<longleftrightarrow> chain m sl xs"
  using assms by (induction xs arbitrary: sl) auto

lemma chain_nodes: "chain m sl xs \<Longrightarrow> hlist_nodes_from m (load m sl) = Some xs"
proof (induction xs arbitrary: sl)
  case Nil
  then show ?case by (simp add: hlist_nodes_from.simps)
next
  case (Cons x xs)
  then show ?case by (subst hlist_nodes_from.simps) (auto dest: Cons.IH)
qed

lemma hlist_nodes_abs: "hl_abs D m L \<Longrightarrow> h \<in> D \<Longrightarrow> hlist_nodes h m = Ok (L h)"
  using chain_nodes [of m "First h" "L h"] by (simp add: hl_abs_def hlist_nodes_def)

text \<open>A search that never stops the machine on the list returns the first hit, or NULL.\<close>

lemma chain_find:
  assumes "chain m sl xs" "\<And>x. x \<in> set xs \<Longrightarrow> P x = Ok (Q x)"
  shows "hlist_find_from P m (load m sl) = Some (Ok (case find Q xs of None \<Rightarrow> 0 | Some x \<Rightarrow> x))"
  using assms
proof (induction xs arbitrary: sl)
  case Nil
  then show ?case by (simp add: hlist_find_from.simps)
next
  case (Cons x xs)
  then have "hlist_find_from P m (hnext m x) = Some (Ok (case find Q xs of None \<Rightarrow> 0 | Some x \<Rightarrow> x))"
    using Cons.IH [of "Next x"] by simp
  then show ?case using Cons.prems by (subst hlist_find_from.simps) simp
qed

lemma hlist_find_abs:
  assumes "hl_abs D m L" "h \<in> D" "\<And>x. x \<in> set (L h) \<Longrightarrow> P x = Ok (Q x)"
  shows "hlist_find P h m = Ok (case find Q (L h) of None \<Rightarrow> 0 | Some x \<Rightarrow> x)"
  using assms chain_find [of m "First h" "L h" P Q] by (simp add: hl_abs_def hlist_find_def)

lemma hl_abs_nonzero: "hl_abs D m L \<Longrightarrow> h \<in> D \<Longrightarrow> x \<in> set (L h) \<Longrightarrow> x \<noteq> 0"
  unfolding hl_abs_def using chain_nonzero by metis

lemma hl_abs_first: "hl_abs D m L \<Longrightarrow> h \<in> D \<Longrightarrow> hfirst m h = (case L h of [] \<Rightarrow> 0 | x # xs \<Rightarrow> x)"
  unfolding hl_abs_def by (cases "L h") (auto dest!: bspec [where x = h])

lemma hl_abs_apart:
  "hl_abs D m L \<Longrightarrow> h \<in> D \<Longrightarrow> h' \<in> D \<Longrightarrow> h \<noteq> h' \<Longrightarrow> x \<in> set (L h) \<Longrightarrow> x \<notin> set (L h')"
  unfolding hl_abs_def by blast

lemma hl_abs_next:
  assumes "hl_abs D m L" "h \<in> D" "L h = xs @ x # ys"
  shows "hnext m x = (case ys of [] \<Rightarrow> 0 | y # ys \<Rightarrow> y)"
proof -
  have "chain m sl (xs @ x # ys) \<Longrightarrow> chain m (Next x) ys" for sl
    by (induction xs arbitrary: sl) auto
  then have "chain m (Next x) ys" using assms unfolding hl_abs_def by (metis (no_types))
  then show ?thesis by (cases ys) auto
qed

section \<open>Refinement\<close>

lemma hl_abs_add:
  assumes "hl_abs D m L" "h \<in> D" "x \<noteq> 0" "\<forall>h \<in> D. x \<notin> set (L h)"
  shows "hl_abs D (hlist_add_head x h m) (L(h := x # L h))"
proof -
  let ?m = "hlist_add_head x h m"
  have first: "hfirst m h = (case L h of [] \<Rightarrow> 0 | y # ys \<Rightarrow> y)" using hl_abs_first assms by blast
  have c: "chain m (First h) (L h)" "distinct (L h)" using assms unfolding hl_abs_def by auto
  have "chain ?m (Next x) (L h)"
  proof (cases "L h")
    case Nil
    then show ?thesis using first by (simp add: hlist_add_head_def Let_def)
  next
    case (Cons y ys)
    then have y: "y \<noteq> 0" "y \<noteq> x" "chain m (Next y) ys" "hfirst m h = y" "y \<notin> set ys" "x \<notin> set ys"
      using c assms by auto
    have "chain ?m (Next y) ys \<longleftrightarrow> chain m (Next y) ys"
      by (rule chain_cong) (use y in \<open>auto simp: hlist_add_head_def Let_def\<close>)
    then show ?thesis using Cons y by (simp add: hlist_add_head_def Let_def)
  qed
  then have new: "chain ?m (First h) (x # L h)" using assms(3) by (simp add: hlist_add_head_def Let_def)
  have other: "chain ?m (First h') (L h')" if h': "h' \<in> D" "h' \<noteq> h" for h'
  proof -
    have "chain ?m (First h') (L h') \<longleftrightarrow> chain m (First h') (L h')"
    proof (rule chain_cong)
      show "load ?m (First h') = load m (First h')"
        using h' by (simp add: hlist_add_head_def Let_def)
      fix z assume z: "z \<in> set (L h')"
      then have "z \<noteq> x" "z \<notin> set (L h)" using h' assms hl_abs_apart [OF assms(1)] by auto
      moreover from this(2) have "hfirst m h \<noteq> 0 \<Longrightarrow> z \<noteq> hfirst m h" using first by (auto split: list.splits)
      ultimately show "hnext ?m z = hnext m z \<and> hpprev ?m z = hpprev m z"
        by (auto simp: hlist_add_head_def Let_def)
    qed
    then show ?thesis using h' assms(1) unfolding hl_abs_def by simp
  qed
  show ?thesis unfolding hl_abs_def
  proof (intro conjI ballI impI)
    fix h' assume "h' \<in> D"
    then show "chain ?m (First h') ((L(h := x # L h)) h')" using new other by simp
    show "distinct ((L(h := x # L h)) h')"
      using \<open>h' \<in> D\<close> assms unfolding hl_abs_def by simp
  next
    fix h1 h2 assume "h1 \<in> D" "h2 \<in> D" "h1 \<noteq> h2"
    then show "set ((L(h := x # L h)) h1) \<inter> set ((L(h := x # L h)) h2) = {}"
      using assms unfolding hl_abs_def by auto
  qed
qed

text \<open>The slot that points at the node after \<open>xs\<close>, and the links without that node.\<close>

fun prev_slot :: "slot \<Rightarrow> u64 list \<Rightarrow> slot" where
  "prev_slot sl [] = sl"
| "prev_slot sl (a # xs) = prev_slot (Next a) xs"

definition unlink_at :: "u64 \<Rightarrow> slot \<Rightarrow> u64 \<Rightarrow> hlists \<Rightarrow> hlists" where
  "unlink_at x sl next m =
     (let m = store sl next m;
          m = (if next \<noteq> 0 then m\<lparr>hpprev := (hpprev m)(next := Some sl)\<rparr> else m);
          m = m\<lparr>hnext := (hnext m)(x := 0)\<rparr>
      in m\<lparr>hpprev := (hpprev m)(x := None)\<rparr>)"

lemma prev_slot_cases: "prev_slot sl xs = sl \<or> (\<exists>a \<in> set xs. prev_slot sl xs = Next a)"
  by (induction sl xs rule: prev_slot.induct) auto

lemma chain_links:
  "chain m sl (xs @ x # ys) \<Longrightarrow>
     hpprev m x = Some (prev_slot sl xs) \<and> hnext m x = (case ys of [] \<Rightarrow> 0 | y # ys \<Rightarrow> y)"
  by (induction sl xs rule: prev_slot.induct) (auto split: list.splits)

lemma hlist_del_links:
  assumes "chain m sl (xs @ x # ys)"
  shows "hlist_del x m = Ok (unlink_at x (prev_slot sl xs) (case ys of [] \<Rightarrow> 0 | y # ys \<Rightarrow> y) m)"
  using chain_links [OF assms] by (simp add: hlist_del_def unlink_at_def Let_def)

lemma load_unlink:
  assumes "sl \<noteq> sl'" "sl \<noteq> Next x"
  shows "load (unlink_at x sl' next m) sl = load m sl"
  using assms by (cases sl; cases sl') (auto simp: unlink_at_def Let_def)

lemma hpprev_unlink:
  "a \<noteq> x \<Longrightarrow> a \<noteq> next \<or> next = 0 \<Longrightarrow> hpprev (unlink_at x sl next m) a = hpprev m a"
  by (cases sl) (auto simp: unlink_at_def Let_def)

lemma hpprev_unlink_next: "next \<noteq> 0 \<Longrightarrow> next \<noteq> x \<Longrightarrow> hpprev (unlink_at x sl next m) next = Some sl"
  by (cases sl) (auto simp: unlink_at_def Let_def)

lemma load_unlink_slot: "sl \<noteq> Next x \<Longrightarrow> load (unlink_at x sl next m) sl = next"
  by (cases sl) (auto simp: unlink_at_def Let_def)

lemma hnext_unlink: "a \<noteq> x \<Longrightarrow> sl \<noteq> Next a \<Longrightarrow> hnext (unlink_at x sl next m) a = hnext m a"
  using load_unlink [of "Next a" sl x] by auto

lemma chain_unlink:
  assumes "chain m sl (xs @ x # ys)" "distinct (xs @ x # ys)" "\<And>n. sl = Next n \<Longrightarrow> n \<notin> set (xs @ x # ys)"
    and "next = (case ys of [] \<Rightarrow> 0 | y # ys \<Rightarrow> y)"
  shows "chain (unlink_at x (prev_slot sl xs) next m) sl (xs @ ys)"
  using assms
proof (induction sl xs rule: prev_slot.induct)
  case (1 sl)
  let ?m = "unlink_at x sl next m"
  have sl: "sl \<noteq> Next n" if "n \<in> set (x # ys)" for n using "1.prems"(3) that by auto
  have d: "distinct (x # ys)" and c: "chain m (Next x) ys" using "1.prems" by auto
  show ?case
  proof (cases ys)
    case Nil
    then show ?thesis using "1.prems"(4) load_unlink_slot [OF sl, of x 0 m] by simp
  next
    case (Cons y ys')
    have nx: "next = y" "y \<noteq> 0" using "1.prems"(4) Cons c by auto
    have "chain ?m (Next y) ys' \<longleftrightarrow> chain m (Next y) ys'"
    proof (rule chain_cong)
      show "load ?m (Next y) = load m (Next y)"
        by (rule load_unlink) (use sl [of y] d Cons in auto)
      fix z assume "z \<in> set ys'"
      then show "hnext ?m z = hnext m z \<and> hpprev ?m z = hpprev m z"
        using sl [of z] d Cons nx by (auto intro!: hnext_unlink hpprev_unlink)
    qed
    then show ?thesis using c d Cons nx load_unlink_slot [OF sl, of x y m] hpprev_unlink_next [of y x sl m] by auto
  qed
next
  case (2 sl a xs)
  let ?sl = "prev_slot (Next a) xs"
  let ?m = "unlink_at x ?sl next m"
  have out: "sl \<noteq> Next n" if "n \<in> set (a # xs @ x # ys)" for n using "2.prems"(3) that by auto
  have d: "distinct (a # xs @ x # ys)" and c: "load m sl = a" "a \<noteq> 0" "hpprev m a = Some sl"
      "chain m (Next a) (xs @ x # ys)"
    using "2.prems" by auto
  have "sl \<noteq> ?sl" using prev_slot_cases [of "Next a" xs] out by (metis Un_iff list.set_intros set_append)
  then have "load ?m sl = a" using c(1) out [of x] load_unlink [of sl ?sl x "next" m] by simp
  moreover have "hpprev ?m a = Some sl"
    using c(3) d "2.prems"(4) by (subst hpprev_unlink) (auto split: list.splits)
  moreover have "chain ?m (Next a) (xs @ ys)"
    by (rule "2.IH" [OF c(4)]) (use d "2.prems"(4) in auto)
  ultimately show ?case using c(2) by simp
qed

lemma hl_abs_del:
  assumes "hl_abs D m L" "h \<in> D" "x \<in> set (L h)"
  obtains m' where "hlist_del x m = Ok m'" "hl_abs D m' (L(h := remove1 x (L h)))"
proof -
  obtain xs ys where L: "L h = xs @ x # ys" "x \<notin> set xs" using split_list_first [OF assms(3)] by blast
  have c: "chain m (First h) (xs @ x # ys)" "distinct (xs @ x # ys)"
    using assms L(1) unfolding hl_abs_def by metis+
  define nx where "nx = (case ys of [] \<Rightarrow> 0 | y # ys \<Rightarrow> y)"
  define sl where "sl = prev_slot (First h) xs"
  define m' where "m' = unlink_at x sl nx m"
  have del: "hlist_del x m = Ok m'"
    using hlist_del_links [OF c(1)] by (simp add: m'_def sl_def nx_def)
  have new: "chain m' (First h) (xs @ ys)"
    unfolding m'_def sl_def by (rule chain_unlink [OF c]) (simp_all add: nx_def)
  have rem: "remove1 x (L h) = xs @ ys" using L by (simp add: remove1_append)
  have sl: "sl = First h \<or> (\<exists>a \<in> set xs. sl = Next a)" unfolding sl_def by (rule prev_slot_cases)
  have other: "chain m' (First h') (L h')" if h': "h' \<in> D" "h' \<noteq> h" for h'
  proof -
    have away: "z \<notin> set (L h)" if "z \<in> set (L h')" for z using hl_abs_apart [OF assms(1)] h' that assms(2) by metis
    have "chain m' (First h') (L h') \<longleftrightarrow> chain m (First h') (L h')"
    proof (rule chain_cong)
      show "load m' (First h') = load m (First h')"
        unfolding m'_def using h' sl by (intro load_unlink) auto
      fix z assume z: "z \<in> set (L h')"
      have "z \<noteq> x" "z \<noteq> nx \<or> nx = 0" "sl \<noteq> Next z"
        using away [OF z] L sl by (auto simp: nx_def split: list.splits)
      then show "hnext m' z = hnext m z \<and> hpprev m' z = hpprev m z"
        unfolding m'_def by (simp add: hnext_unlink hpprev_unlink)
    qed
    then show ?thesis using h' assms(1) unfolding hl_abs_def by simp
  qed
  have "hl_abs D m' (L(h := remove1 x (L h)))"
    unfolding hl_abs_def rem
  proof (intro conjI ballI impI)
    fix h' assume "h' \<in> D"
    then show "chain m' (First h') ((L(h := xs @ ys)) h')" using new other by simp
    show "distinct ((L(h := xs @ ys)) h')" using c(2) \<open>h' \<in> D\<close> assms(1) unfolding hl_abs_def by simp
  next
    fix h1 h2 assume h: "h1 \<in> D" "h2 \<in> D" "h1 \<noteq> h2"
    have "set ((L(h := xs @ ys)) h') \<subseteq> set (L h')" for h' using L by auto
    then show "set ((L(h := xs @ ys)) h1) \<inter> set ((L(h := xs @ ys)) h2) = {}"
      using h assms(1) unfolding hl_abs_def by blast
  qed
  with del show thesis by (rule that)
qed

text \<open>Initialising a fresh head, and links of nodes on no list.\<close>

lemma hl_abs_init_head:
  assumes "hl_abs D m L" "h \<notin> D"
  shows "hl_abs (insert h D) (INIT_HLIST_HEAD h m) (L(h := []))"
proof -
  have "chain (INIT_HLIST_HEAD h m) (First h') (L h') \<longleftrightarrow> chain m (First h') (L h')" if "h' \<noteq> h" for h'
    by (rule chain_cong) (use that in \<open>auto simp: INIT_HLIST_HEAD_def\<close>)
  then show ?thesis using assms unfolding hl_abs_def by (auto simp: INIT_HLIST_HEAD_def)
qed

lemma hl_abs_init_node:
  assumes "hl_abs D m L" "\<forall>h \<in> D. x \<notin> set (L h)"
  shows "hl_abs D (INIT_HLIST_NODE x m) L"
proof -
  have "chain (INIT_HLIST_NODE x m) (First h) (L h) \<longleftrightarrow> chain m (First h) (L h)" if "h \<in> D" for h
    by (rule chain_cong) (use that assms(2) in \<open>auto simp: INIT_HLIST_NODE_def\<close>)
  then show ?thesis using assms unfolding hl_abs_def by auto
qed

lemma hl_abs_subset: "hl_abs D m L \<Longrightarrow> D' \<subseteq> D \<Longrightarrow> hl_abs D' m L"
  unfolding hl_abs_def by (meson subsetD)

lemma hl_abs_cong: "(\<And>h. h \<in> D \<Longrightarrow> L h = L' h) \<Longrightarrow> hl_abs D m L \<longleftrightarrow> hl_abs D m L'"
  unfolding hl_abs_def by simp

end
