(* ===== verification/Kobj.thy ===== *)
theory Kobj
  imports Heap Hlist
begin

text \<open>
  The object store of the upper half of the kernel. Structures the kernel allocates
  (dentries, inodes, names, file descriptions, processes, threads, devices) are typed
  objects at their addresses; the links of their intrusive lists are in heaps of their
  own (theory \<open>Hlist\<close>), and plain byte buffers are in \<open>kmem\<close>. An object is static, a block
  of \<open>kmalloc\<close>, or a block of \<open>aligned_malloc\<close>; freeing anything else, or with the wrong
  function, is a \<open>BadFree\<close>, and following a pointer to no object of the right type a
  \<open>BadPointer\<close>. The allocator appears here through its contract, which theory \<open>Heap_Spec\<close>
  proves of \<open>memory.c\<close>: a request returns NULL or an address that is not in use. Which
  one, and which address, is read off the list \<open>answers\<close>, so a statement for every list is
  a statement about every behaviour of the allocator. A block comes back with whatever
  bytes it held; \<open>junk\<close> gives the words of a fresh block that the code does not initialise.
\<close>

section \<open>Structures\<close>

datatype iops = NoIops | def_vfs_i_ops | ram_dir_iops

datatype fops = NoFops | ram_file_fops | devnull_fops | devzero_fops | devfull_fops | devrandom_fops
  | devmem_fops | devport_fops | devtty_fops | devfs_indev_fops

datatype inops = NoInputOps | ps2_kbd_ops

record dentry =
  d_name :: u64
  d_parent :: u64
  d_inode :: u64
  d_count :: u32

record inode =
  i_dentry :: u64
  i_mode :: u16
  i_uid :: u32
  i_gid :: u32
  i_size :: u64
  i_count :: u32
  i_op :: iops
  i_fop :: fops
  i_private :: u64

record ramfile_info =
  ri_start :: u64
  ri_size :: u64
  ri_fixed_size :: bool

record file_t =
  f_inode :: u64
  f_pos :: u64
  f_flags :: u32
  fd_flags :: u32
  private_data :: u64
  f_ops :: fops

definition empty_file :: file_t where
  "empty_file = \<lparr>f_inode = 0, f_pos = 0, f_flags = 0, fd_flags = 0, private_data = 0, f_ops = NoFops\<rparr>"

record stack_t =
  st_top :: u64
  st_bottom :: u64
  st_size :: u64

record heap_t =
  h_lower :: u64
  h_higher :: u64
  h_size :: u64

record pcb =
  p_pid :: "16 word"
  p_name :: u64
  p_state :: u16
  p_exit_code :: u32
  p_cr3 :: u64
  p_heap :: heap_t
  opened_file_table :: u64
  opened_file_table_phys :: u64
  cwd_i :: u64
  p_uid :: u32
  p_gid :: u32
  p_ngroups :: u32
  p_groups :: u64
  p_parent :: u64
  signals_bitmap :: u64
  signal_handlers :: "u64 list"

text \<open>
  A thread leaves out the members that only code which is commented out, or no code at
  all, uses: \<open>pre_signal_k_rsp\<close>, \<open>recieved_thread_signals\<close>, \<open>claimed_process_signals\<close>, \<open>sig_saved_frame\<close>
  and \<open>in_signal\<close>. The list nodes of a structure are in theory \<open>Hlist\<close>.
\<close>

record tcb =
  t_tid :: "16 word"
  t_state :: u16
  t_exit_code :: u32
  t_process :: u64
  t_k_rsp :: u64
  t_kernel_stack :: stack_t
  t_user_stack :: stack_t
  t_fs_base :: u64
  t_gs_base :: u64
  t_fp_state :: "u8 list"
  t_signal_mask :: u64

record input_device =
  in_id :: u32
  in_name :: string
  in_private :: u64
  in_ops :: inops
  in_next :: u64
  in_prev :: u64

record block_device =
  bd_id :: u32
  bd_name :: string
  bd_private :: u64
  bd_size :: u64
  bd_block_size :: u64
  bd_ops :: u64
  bd_next :: u64
  bd_prev :: u64

datatype obj = Dentry dentry | Inode inode | Str string | Buf u64 | RamInfo ramfile_info | Pcb pcb | Tcb tcb
  | Groups "u32 list" | Strv "u64 list" | InputDev input_device | BlockDev block_device

datatype origin = Static | Block | Aligned

record kobj = heap +
  objs :: "u64 \<rightharpoonup> origin \<times> obj"
  answers :: "u64 list"
  junk :: "u64 \<Rightarrow> u64"
  d_links :: hlists
  root_dentry :: u64
  current_process :: u64

section \<open>Error codes\<close>

abbreviation E_PERM :: int where "E_PERM \<equiv> 1"
abbreviation E_NOENT :: int where "E_NOENT \<equiv> 2"
abbreviation E_IO :: int where "E_IO \<equiv> 5"
abbreviation E_NOEXEC :: int where "E_NOEXEC \<equiv> 8"
abbreviation E_CHILD :: int where "E_CHILD \<equiv> 10"
abbreviation E_NOMEM :: int where "E_NOMEM \<equiv> 12"
abbreviation E_ACCES :: int where "E_ACCES \<equiv> 13"
abbreviation E_FAULT :: int where "E_FAULT \<equiv> 14"
abbreviation E_EXIST :: int where "E_EXIST \<equiv> 17"
abbreviation E_NODEV :: int where "E_NODEV \<equiv> 19"
abbreviation E_NOTDIR :: int where "E_NOTDIR \<equiv> 20"
abbreviation E_ISDIR :: int where "E_ISDIR \<equiv> 21"
abbreviation E_INVAL :: int where "E_INVAL \<equiv> 22"
abbreviation E_MFILE :: int where "E_MFILE \<equiv> 24"
abbreviation E_NOSPC :: int where "E_NOSPC \<equiv> 28"
abbreviation E_SPIPE :: int where "E_SPIPE \<equiv> 29"
abbreviation E_RANGE :: int where "E_RANGE \<equiv> 34"
abbreviation E_NOTEMPTY :: int where "E_NOTEMPTY \<equiv> 66"
abbreviation E_NOSYS :: int where "E_NOSYS \<equiv> 90"

section \<open>Mode bits\<close>

definition S_IFMT :: u16 where "S_IFMT = 0xF000"
definition S_IFDIR :: u16 where "S_IFDIR = 0x4000"
definition S_IFREG :: u16 where "S_IFREG = 0x8000"
definition S_IFBLK :: u16 where "S_IFBLK = 0x6000"
definition S_IFCHR :: u16 where "S_IFCHR = 0x2000"

definition S_ISDIR :: "u16 \<Rightarrow> bool" where
  "S_ISDIR mode \<longleftrightarrow> mode AND S_IFMT = S_IFDIR"

section \<open>Access\<close>

definition get_dentry :: "u64 \<Rightarrow> 'a kobj_scheme \<Rightarrow> dentry run" where
  "get_dentry p s = (case objs s p of Some (k, Dentry d) \<Rightarrow> Ok d | _ \<Rightarrow> Stop BadPointer)"

definition get_inode :: "u64 \<Rightarrow> 'a kobj_scheme \<Rightarrow> inode run" where
  "get_inode p s = (case objs s p of Some (k, Inode i) \<Rightarrow> Ok i | _ \<Rightarrow> Stop BadPointer)"

definition get_str :: "u64 \<Rightarrow> 'a kobj_scheme \<Rightarrow> string run" where
  "get_str p s = (case objs s p of Some (k, Str n) \<Rightarrow> Ok n | _ \<Rightarrow> Stop BadPointer)"

definition get_ram :: "u64 \<Rightarrow> 'a kobj_scheme \<Rightarrow> ramfile_info run" where
  "get_ram p s = (case objs s p of Some (k, RamInfo i) \<Rightarrow> Ok i | _ \<Rightarrow> Stop BadPointer)"

definition get_pcb :: "u64 \<Rightarrow> 'a kobj_scheme \<Rightarrow> pcb run" where
  "get_pcb p s = (case objs s p of Some (k, Pcb i) \<Rightarrow> Ok i | _ \<Rightarrow> Stop BadPointer)"

definition get_tcb :: "u64 \<Rightarrow> 'a kobj_scheme \<Rightarrow> tcb run" where
  "get_tcb p s = (case objs s p of Some (k, Tcb i) \<Rightarrow> Ok i | _ \<Rightarrow> Stop BadPointer)"

definition get_groups :: "u64 \<Rightarrow> 'a kobj_scheme \<Rightarrow> u32 list run" where
  "get_groups p s = (case objs s p of Some (k, Groups g) \<Rightarrow> Ok g | _ \<Rightarrow> Stop BadPointer)"

definition get_strv :: "u64 \<Rightarrow> 'a kobj_scheme \<Rightarrow> u64 list run" where
  "get_strv p s = (case objs s p of Some (k, Strv g) \<Rightarrow> Ok g | _ \<Rightarrow> Stop BadPointer)"

definition get_input :: "u64 \<Rightarrow> 'a kobj_scheme \<Rightarrow> input_device run" where
  "get_input p s = (case objs s p of Some (k, InputDev g) \<Rightarrow> Ok g | _ \<Rightarrow> Stop BadPointer)"

definition get_block :: "u64 \<Rightarrow> 'a kobj_scheme \<Rightarrow> block_device run" where
  "get_block p s = (case objs s p of Some (k, BlockDev g) \<Rightarrow> Ok g | _ \<Rightarrow> Stop BadPointer)"

definition put :: "u64 \<Rightarrow> obj \<Rightarrow> 'a kobj_scheme \<Rightarrow> 'a kobj_scheme" where
  "put p ob s = s\<lparr>objs := (objs s)(p := map_option (\<lambda>(k, old). (k, ob)) (objs s p))\<rparr>"

definition dentry_name :: "u64 \<Rightarrow> 'a kobj_scheme \<Rightarrow> string run" where
  "dentry_name p s = bindr (get_dentry p s) (\<lambda>d. get_str (d_name d) s)"

text \<open>Writing one field of a structure through a pointer.\<close>

definition upd_dentry :: "u64 \<Rightarrow> (dentry \<Rightarrow> dentry) \<Rightarrow> 'a kobj_scheme \<Rightarrow> 'a kobj_scheme run" where
  "upd_dentry p f s = bindr (get_dentry p s) (\<lambda>d. Ok (put p (Dentry (f d)) s))"

definition upd_inode :: "u64 \<Rightarrow> (inode \<Rightarrow> inode) \<Rightarrow> 'a kobj_scheme \<Rightarrow> 'a kobj_scheme run" where
  "upd_inode p f s = bindr (get_inode p s) (\<lambda>i. Ok (put p (Inode (f i)) s))"

definition upd_ram :: "u64 \<Rightarrow> (ramfile_info \<Rightarrow> ramfile_info) \<Rightarrow> 'a kobj_scheme \<Rightarrow> 'a kobj_scheme run" where
  "upd_ram p f s = bindr (get_ram p s) (\<lambda>i. Ok (put p (RamInfo (f i)) s))"

definition upd_pcb :: "u64 \<Rightarrow> (pcb \<Rightarrow> pcb) \<Rightarrow> 'a kobj_scheme \<Rightarrow> 'a kobj_scheme run" where
  "upd_pcb p f s = bindr (get_pcb p s) (\<lambda>i. Ok (put p (Pcb (f i)) s))"

definition upd_tcb :: "u64 \<Rightarrow> (tcb \<Rightarrow> tcb) \<Rightarrow> 'a kobj_scheme \<Rightarrow> 'a kobj_scheme run" where
  "upd_tcb p f s = bindr (get_tcb p s) (\<lambda>i. Ok (put p (Tcb (f i)) s))"

definition upd_input :: "u64 \<Rightarrow> (input_device \<Rightarrow> input_device) \<Rightarrow> 'a kobj_scheme \<Rightarrow> 'a kobj_scheme run" where
  "upd_input p f s = bindr (get_input p s) (\<lambda>i. Ok (put p (InputDev (f i)) s))"

definition upd_block :: "u64 \<Rightarrow> (block_device \<Rightarrow> block_device) \<Rightarrow> 'a kobj_scheme \<Rightarrow> 'a kobj_scheme run" where
  "upd_block p f s = bindr (get_block p s) (\<lambda>i. Ok (put p (BlockDev (f i)) s))"

section \<open>Allocation\<close>

definition kalloc :: "origin \<Rightarrow> u64 \<Rightarrow> obj \<Rightarrow> 'a kobj_scheme \<Rightarrow> (u64 \<times> 'a kobj_scheme) run" where
  "kalloc k sz ob s =
     (if sz = 0 then Ok (0, s)
      else if heap_lock s \<noteq> 0 then Stop Deadlock
      else case answers s of [] \<Rightarrow> Ok (0, s)
        | a # as \<Rightarrow>
            if a = 0 \<or> objs s a \<noteq> None then Ok (0, s\<lparr>answers := as\<rparr>)
            else Ok (a, s\<lparr>answers := as, objs := (objs s)(a \<mapsto> (k, ob))\<rparr>))"

abbreviation kmalloc :: "u64 \<Rightarrow> obj \<Rightarrow> 'a kobj_scheme \<Rightarrow> (u64 \<times> 'a kobj_scheme) run" where
  "kmalloc \<equiv> kalloc Block"

abbreviation struct_kmalloc_align :: "u64 \<Rightarrow> obj \<Rightarrow> 'a kobj_scheme \<Rightarrow> (u64 \<times> 'a kobj_scheme) run" where
  "struct_kmalloc_align \<equiv> kalloc Aligned"

definition krelease :: "origin \<Rightarrow> u64 \<Rightarrow> 'a kobj_scheme \<Rightarrow> 'a kobj_scheme run" where
  "krelease k p s =
     (if heap_lock s \<noteq> 0 then Stop Deadlock
      else case objs s p of None \<Rightarrow> Stop BadFree
        | Some (k', ob) \<Rightarrow> if k' = k then Ok (s\<lparr>objs := (objs s)(p := None)\<rparr>) else Stop BadFree)"

definition kfree :: "u64 \<Rightarrow> 'a kobj_scheme \<Rightarrow> 'a kobj_scheme run" where
  "kfree p s = (if p = 0 then Ok s else krelease Block p s)"

definition aligned_release :: "u64 \<Rightarrow> 'a kobj_scheme \<Rightarrow> 'a kobj_scheme run" where
  "aligned_release p s = krelease Aligned p s"

text \<open>\<open>strdup\<close> of a string value: a new block that holds it, or NULL.\<close>

definition kstrdup :: "string \<Rightarrow> 'a kobj_scheme \<Rightarrow> (u64 \<times> 'a kobj_scheme) run" where
  "kstrdup n s = kmalloc (of_nat (length n) + 1) (Str n) s"

text \<open>
  \<open>krealloc_impl\<close> holds the heap lock when it calls \<open>kmalloc_impl\<close> or \<open>kfree_impl\<close> with a
  size and a pointer that reach the lock again.
\<close>

definition krealloc :: "u64 \<Rightarrow> u64 \<Rightarrow> 'a kobj_scheme \<Rightarrow> (u64 \<times> 'a kobj_scheme) run" where
  "krealloc p sz s =
     bindr (heap_lock_acquire s) (\<lambda>(irq_flags, s).
       if sz = 0 then bindr (kfree p s) (\<lambda>s. Ok (0, heap_lock_release irq_flags s))
       else if p = 0 then kmalloc sz (Buf sz) s
       else
         bindr (kmalloc sz (Buf sz) s) (\<lambda>(new_ptr, s).
           if new_ptr = 0 then Ok (0, heap_lock_release irq_flags s)
           else case objs s p of Some (k, Buf old_len) \<Rightarrow>
               (let copy_size = (if sz < old_len then sz else old_len);
                    s = s\<lparr>kmem := memcpy (kmem s) new_ptr p (unat copy_size)\<rparr>
                in bindr (kfree p s) (\<lambda>s. Ok (new_ptr, s)))
             | _ \<Rightarrow> Stop BadPointer))"

section \<open>Facts\<close>

lemma get_dentry_Ok [run_simps]: "get_dentry p s = Ok d \<longleftrightarrow> (\<exists>k. objs s p = Some (k, Dentry d))"
  by (auto simp: get_dentry_def split: option.splits obj.splits)

lemma get_inode_Ok [run_simps]: "get_inode p s = Ok d \<longleftrightarrow> (\<exists>k. objs s p = Some (k, Inode d))"
  by (auto simp: get_inode_def split: option.splits obj.splits)

lemma get_str_Ok [run_simps]: "get_str p s = Ok d \<longleftrightarrow> (\<exists>k. objs s p = Some (k, Str d))"
  by (auto simp: get_str_def split: option.splits obj.splits)

lemma get_ram_Ok [run_simps]: "get_ram p s = Ok d \<longleftrightarrow> (\<exists>k. objs s p = Some (k, RamInfo d))"
  by (auto simp: get_ram_def split: option.splits obj.splits)

lemma get_pcb_Ok [run_simps]: "get_pcb p s = Ok d \<longleftrightarrow> (\<exists>k. objs s p = Some (k, Pcb d))"
  by (auto simp: get_pcb_def split: option.splits obj.splits)

lemma get_tcb_Ok [run_simps]: "get_tcb p s = Ok d \<longleftrightarrow> (\<exists>k. objs s p = Some (k, Tcb d))"
  by (auto simp: get_tcb_def split: option.splits obj.splits)

lemma objs_put: "objs (put p ob s) q = (if q = p then map_option (\<lambda>(k, old). (k, ob)) (objs s p) else objs s q)"
  by (simp add: put_def)

lemma put_more [frame_simps]:
  "answers (put p ob s) = answers s" "junk (put p ob s) = junk s" "d_links (put p ob s) = d_links s"
  "root_dentry (put p ob s) = root_dentry s" "current_process (put p ob s) = current_process s"
  "heap_lock (put p ob s) = heap_lock s" "kmem (put p ob s) = kmem s"
  by (simp_all add: put_def)

text \<open>A successful allocation: the next answer is a fresh address.\<close>

definition granted :: "'a kobj_scheme \<Rightarrow> u64 \<Rightarrow> u64 list \<Rightarrow> bool" where
  "granted s a as \<longleftrightarrow> heap_lock s = 0 \<and> answers s = a # as \<and> a \<noteq> 0 \<and> objs s a = None"

lemma kalloc_granted:
  "granted s a as \<Longrightarrow> sz \<noteq> 0 \<Longrightarrow>
     kalloc k sz ob s = Ok (a, s\<lparr>answers := as, objs := (objs s)(a \<mapsto> (k, ob))\<rparr>)"
  by (simp add: kalloc_def granted_def)

lemma kalloc_cases:
  assumes "heap_lock s = 0"
  obtains as where "kalloc k sz ob s = Ok (0, s\<lparr>answers := as\<rparr>)"
  | a as where "granted s a as" "kalloc k sz ob s = Ok (a, s\<lparr>answers := as, objs := (objs s)(a \<mapsto> (k, ob))\<rparr>)"
proof (cases "sz = 0 \<or> answers s = []")
  case True
  then have "kalloc k sz ob s = Ok (0, s)" using assms by (auto simp: kalloc_def)
  then have "kalloc k sz ob s = Ok (0, s\<lparr>answers := answers s\<rparr>)" by simp
  then show thesis by (rule that(1))
next
  case False
  then obtain a as where "answers s = a # as" by (cases "answers s") auto
  note ans = this
  show thesis
  proof (cases "a = 0 \<or> objs s a \<noteq> None")
    case True
    then have "kalloc k sz ob s = Ok (0, s\<lparr>answers := as\<rparr>)" using False ans assms by (simp add: kalloc_def)
    then show thesis by (rule that(1))
  next
    case fresh: False
    then have "granted s a as" using ans assms unfolding granted_def by blast
    moreover from this have "kalloc k sz ob s = Ok (a, s\<lparr>answers := as, objs := (objs s)(a \<mapsto> (k, ob))\<rparr>)"
      by (rule kalloc_granted) (use False in simp)
    ultimately show thesis by (rule that(2))
  qed
qed

lemma kfree_block:
  "heap_lock s = 0 \<Longrightarrow> p \<noteq> 0 \<Longrightarrow> objs s p = Some (Block, ob) \<Longrightarrow> kfree p s = Ok (s\<lparr>objs := (objs s)(p := None)\<rparr>)"
  by (simp add: kfree_def krelease_def)

text \<open>Resizing always runs into the lock it holds, unless it frees NULL.\<close>

lemma krealloc_deadlock: "sz \<noteq> 0 \<Longrightarrow> krealloc p sz s = Stop Deadlock"
  by (cases "heap_lock s = 0")
    (simp_all add: krealloc_def heap_lock_acquire_def run_simps kalloc_def)

end
