(* ===== verification/CString.thy ===== *)
theory CString
  imports Heap
begin

text \<open>
  The C string functions of \<open>kernel/src/string/string.c\<close> on byte memory. A loop
  that runs to a terminator may run for ever, so it is a \<open>partial_function\<close> in the
  option monad: \<open>None\<close> is a call that never returns. \<open>cstr m p bs\<close> says that a
  terminated string with the bytes \<open>bs\<close> stands at \<open>p\<close>; under it every function is
  shown to return, with the value the C standard gives it. The list functions
  \<open>tokens\<close> and \<open>split_last\<close> are what \<open>strtok_r\<close> and \<open>strrchr\<close> compute; the path
  code of the file system is written over them.
\<close>

section \<open>string.c\<close>

partial_function (option) strlen_from :: "mem \<Rightarrow> u64 \<Rightarrow> u64 \<Rightarrow> u64 option" where
  "strlen_from m str sz = (if m str \<noteq> 0 then strlen_from m (str + 1) (sz + 1) else Some sz)"

definition strlen :: "mem \<Rightarrow> u64 \<Rightarrow> u64 option" where
  "strlen m str = strlen_from m str 0"

partial_function (option) strcmp :: "mem \<Rightarrow> u64 \<Rightarrow> u64 \<Rightarrow> int option" where
  "strcmp m s1 s2 =
     (if m s1 \<noteq> 0 \<and> m s1 = m s2 then strcmp m (s1 + 1) (s2 + 1)
      else Some (uint (m s1) - uint (m s2)))"

fun strncmp :: "mem \<Rightarrow> u64 \<Rightarrow> u64 \<Rightarrow> nat \<Rightarrow> int" where
  "strncmp m s1 s2 0 = 0"
| "strncmp m s1 s2 (Suc n) =
     (if m s1 \<noteq> 0 \<and> m s1 = m s2 then strncmp m (s1 + 1) (s2 + 1) n
      else uint (m s1) - uint (m s2))"

partial_function (option) strcpy_loop :: "mem \<Rightarrow> u64 \<Rightarrow> u64 \<Rightarrow> mem option" where
  "strcpy_loop m dest src =
     (let c = m src; m = m(dest := c)
      in if c \<noteq> 0 then strcpy_loop m (dest + 1) (src + 1) else Some m)"

definition strcpy :: "mem \<Rightarrow> u64 \<Rightarrow> u64 \<Rightarrow> (u64 \<times> mem) option" where
  "strcpy m dest src = map_option (\<lambda>m. (dest, m)) (strcpy_loop m dest src)"

function strncpy_copy :: "mem \<Rightarrow> u64 \<Rightarrow> u64 \<Rightarrow> nat \<Rightarrow> nat \<Rightarrow> nat \<times> mem" where
  "strncpy_copy m dest src n i =
     (if i < n \<and> m (src + of_nat i) \<noteq> 0
      then strncpy_copy (m(dest + of_nat i := m (src + of_nat i))) dest src n (Suc i) else (i, m))"
  by pat_completeness auto
termination by (relation "measure (\<lambda>(m, dest, src, n, i). n - i)") auto

function strncpy_pad :: "mem \<Rightarrow> u64 \<Rightarrow> nat \<Rightarrow> nat \<Rightarrow> mem" where
  "strncpy_pad m dest n i = (if i < n then strncpy_pad (m(dest + of_nat i := 0)) dest n (Suc i) else m)"
  by pat_completeness auto
termination by (relation "measure (\<lambda>(m, dest, n, i). n - i)") auto

declare strncpy_copy.simps [simp del] strncpy_pad.simps [simp del]

definition strncpy :: "mem \<Rightarrow> u64 \<Rightarrow> u64 \<Rightarrow> nat \<Rightarrow> u64 \<times> mem" where
  "strncpy m dest src n = (let (i, m) = strncpy_copy m dest src n 0 in (dest, strncpy_pad m dest n i))"

partial_function (option) strchr :: "mem \<Rightarrow> u64 \<Rightarrow> u8 \<Rightarrow> u64 option" where
  "strchr m str c =
     (if m str \<noteq> 0 then if m str = c then Some str else strchr m (str + 1) c else Some 0)"

partial_function (option) strrchr_from :: "mem \<Rightarrow> u64 \<Rightarrow> u8 \<Rightarrow> u64 \<Rightarrow> u64 option" where
  "strrchr_from m s c l =
     (if m s \<noteq> 0 then strrchr_from m (s + 1) c (if m s = c then s else l)
      else Some (if c = 0 then s else l))"

definition strrchr :: "mem \<Rightarrow> u64 \<Rightarrow> u8 \<Rightarrow> u64 option" where
  "strrchr m s c = strrchr_from m s c 0"

text \<open>The two scanning loops of \<open>strtok_r\<close>: \<open>inside\<close> says which characters to step over.\<close>

partial_function (option) skip_chars :: "bool \<Rightarrow> mem \<Rightarrow> u64 \<Rightarrow> u64 \<Rightarrow> u64 option" where
  "skip_chars inside m delim str =
     (if m str = 0 then Some str
      else Option.bind (strchr m delim (m str))
        (\<lambda>r. if (r \<noteq> 0) = inside then skip_chars inside m delim (str + 1) else Some str))"

definition strtok_r :: "mem \<Rightarrow> u64 \<Rightarrow> u64 \<Rightarrow> u64 \<Rightarrow> (u64 \<times> u64 \<times> mem) option" where
  "strtok_r m str delim saveptr =
     (let str = (if str = 0 then saveptr else str)
      in Option.bind (skip_chars True m delim str) (\<lambda>str.
           if m str = 0 then Some (0, saveptr, m)
           else
             (let token_start = str
              in Option.bind (skip_chars False m delim str) (\<lambda>str.
                   if m str \<noteq> 0 then Some (token_start, str + 1, m(str := 0))
                   else Some (token_start, str, m)))))"

definition strdup :: "u64 \<Rightarrow> 'a heap_scheme \<Rightarrow> (u64 \<times> 'a heap_scheme) run" where
  "strdup str s =
     (case strlen (kmem s) str of None \<Rightarrow> Stop Hang | Some len \<Rightarrow>
        bindr (kmalloc_impl (len + 1) s) (\<lambda>(pter, s).
          if pter = 0 then Ok (0, s)
          else Ok (pter, s\<lparr>kmem := memcpy (kmem s) pter str (unat (len + 1))\<rparr>)))"

definition strndup :: "u64 \<Rightarrow> u64 \<Rightarrow> 'a heap_scheme \<Rightarrow> (u64 \<times> 'a heap_scheme) run" where
  "strndup str sz s =
     (case strlen (kmem s) str of None \<Rightarrow> Stop Hang | Some stringlen \<Rightarrow>
        (let len = (if sz < stringlen then sz else stringlen)
         in bindr (kmalloc_impl (len + 1) s) (\<lambda>(pter, s).
              if pter = 0 then Ok (0, s)
              else Ok (pter, s\<lparr>kmem := (memcpy (kmem s) pter str (unat len))(pter + len := 0)\<rparr>))))"

section \<open>Terminated strings\<close>

primrec cstr :: "mem \<Rightarrow> u64 \<Rightarrow> u8 list \<Rightarrow> bool" where
  "cstr m p [] \<longleftrightarrow> m p = 0"
| "cstr m p (b # bs) \<longleftrightarrow> m p = b \<and> b \<noteq> 0 \<and> cstr m (p + 1) bs"

lemma cstr_nth: "cstr m p bs \<Longrightarrow> i < length bs \<Longrightarrow> m (p + of_nat i) = bs ! i"
  by (induction bs arbitrary: p i) (auto simp: nth_Cons add.assoc [symmetric] split: nat.splits)

lemma cstr_end: "cstr m p bs \<Longrightarrow> m (p + of_nat (length bs)) = 0"
  by (induction bs arbitrary: p) (auto simp: add.assoc [symmetric])

lemma cstr_nonzero: "cstr m p bs \<Longrightarrow> 0 \<notin> set bs"
  by (induction bs arbitrary: p) auto

lemma cstr_append: "cstr m p (as @ bs) \<longleftrightarrow>
    (\<forall>i<length as. m (p + of_nat i) = as ! i) \<and> 0 \<notin> set as \<and> cstr m (p + of_nat (length as)) bs"
proof (induction as arbitrary: p)
  case (Cons a as)
  have "(\<forall>i<length (a # as). m (p + of_nat i) = (a # as) ! i) \<longleftrightarrow>
      m p = a \<and> (\<forall>i<length as. m (p + 1 + of_nat i) = as ! i)"
    by (auto simp: less_Suc_eq_0_disj add.assoc [symmetric])
  then show ?case using Cons [of "p + 1"] by (auto simp: add.assoc [symmetric])
qed simp

text \<open>Two strings at one address are the same string.\<close>

lemma cstr_unique: "cstr m p as \<Longrightarrow> cstr m p bs \<Longrightarrow> as = bs"
proof (induction as arbitrary: p bs)
  case Nil
  then show ?case by (cases bs) auto
next
  case (Cons a as)
  then show ?case by (cases bs) auto
qed

section \<open>What the functions return\<close>

lemma strlen_from_cstr: "cstr m p bs \<Longrightarrow> strlen_from m p n = Some (n + of_nat (length bs))"
proof (induction bs arbitrary: p n)
  case Nil
  then show ?case by (simp add: strlen_from.simps)
next
  case (Cons b bs)
  then show ?case by (subst strlen_from.simps) (auto simp: add.assoc [symmetric])
qed

lemma strlen_cstr: "cstr m p bs \<Longrightarrow> strlen m p = Some (of_nat (length bs))"
  by (simp add: strlen_def strlen_from_cstr)

text \<open>The order of C strings: the first differing byte decides, a prefix comes first.\<close>

fun bytes_diff :: "u8 list \<Rightarrow> u8 list \<Rightarrow> int" where
  "bytes_diff (a # as) (b # bs) = (if a = b then bytes_diff as bs else uint a - uint b)"
| "bytes_diff (a # as) [] = uint a"
| "bytes_diff [] (b # bs) = - uint b"
| "bytes_diff [] [] = 0"

lemma strcmp_cstr: "cstr m p as \<Longrightarrow> cstr m q bs \<Longrightarrow> strcmp m p q = Some (bytes_diff as bs)"
proof (induction as bs arbitrary: p q rule: bytes_diff.induct)
  case (1 a as b bs)
  then show ?case by (subst strcmp.simps) auto
qed (subst strcmp.simps, auto)+

lemma bytes_diff_zero:
  assumes "0 \<notin> set as" "0 \<notin> set bs"
  shows "bytes_diff as bs = 0 \<longleftrightarrow> as = bs"
  using assms by (induction as bs rule: bytes_diff.induct) (auto simp: unsigned_eq_0_iff dest: unsigned_word_eqI)

lemma strcmp_zero_iff:
  assumes "cstr m p as" "cstr m q bs"
  shows "strcmp m p q = Some 0 \<longleftrightarrow> as = bs"
  using assms bytes_diff_zero [of as bs] by (simp add: strcmp_cstr cstr_nonzero)

lemma strncmp_cstr:
  "cstr m p as \<Longrightarrow> cstr m q bs \<Longrightarrow> strncmp m p q n = bytes_diff (take n as) (take n bs)"
proof (induction m p q n arbitrary: as bs rule: strncmp.induct)
  case (2 m p q n)
  then show ?case by (cases as; cases bs) auto
qed simp

lemma strchr_cstr:
  assumes "cstr m p bs"
  shows "strchr m p c = Some (if c \<in> set bs then p + of_nat (length (takeWhile (\<lambda>b. b \<noteq> c) bs)) else 0)"
  using assms
proof (induction bs arbitrary: p)
  case Nil
  then show ?case by (simp add: strchr.simps)
next
  case (Cons b bs)
  then show ?case by (subst strchr.simps) (auto simp: add.assoc [symmetric])
qed

lemma strrchr_from_cstr:
  assumes "cstr m p bs" "c \<noteq> 0"
  shows "strrchr_from m p c l = Some (if c \<in> set bs
     then p + of_nat (length bs - 1 - length (takeWhile (\<lambda>b. b \<noteq> c) (rev bs))) else l)"
  using assms(1)
proof (induction bs arbitrary: p l)
  case Nil
  then show ?case using assms by (simp add: strrchr_from.simps)
next
  case (Cons b bs)
  then have b: "m p = b" "b \<noteq> 0" "cstr m (p + 1) bs" by auto
  have "strrchr_from m p c l = strrchr_from m (p + 1) c (if b = c then p else l)"
    using b by (subst strrchr_from.simps) simp
  moreover have "takeWhile (\<lambda>x. x \<noteq> c) (rev (b # bs)) =
      (if c \<in> set bs then takeWhile (\<lambda>x. x \<noteq> c) (rev bs) else rev bs @ (if b = c then [] else [b]))"
    by (auto simp: takeWhile_append)
  moreover have "length (takeWhile (\<lambda>x. x \<noteq> c) (rev bs)) < length bs" if "c \<in> set bs"
    using that length_takeWhile_le [of "\<lambda>x. x \<noteq> c" "rev bs"] takeWhile_eq_all_conv [of "\<lambda>x. x \<noteq> c" "rev bs"]
    by (metis le_neq_implies_less length_rev set_rev takeWhile_eq_take take_all_iff)
  ultimately show ?case using Cons.IH [OF b(3)]
    by (auto simp: add.assoc [symmetric] of_nat_diff)
qed

lemma strrchr_cstr:
  assumes "cstr m p bs" "c \<noteq> 0"
  shows "strrchr m p c = Some (if c \<in> set bs
     then p + of_nat (length bs - 1 - length (takeWhile (\<lambda>b. b \<noteq> c) (rev bs))) else 0)"
  using strrchr_from_cstr [OF assms] by (simp add: strrchr_def)

section \<open>Copies\<close>

text \<open>A string of length \<open>n\<close> occupies \<open>n + 1\<close> bytes; \<open>fits_at\<close> says they do not wrap around.\<close>

definition fits_at :: "u64 \<Rightarrow> nat \<Rightarrow> bool" where
  "fits_at p n \<longleftrightarrow> p \<noteq> 0 \<and> unat p + n < 2 ^ 64"

lemma fits_at_nonzero:
  assumes "fits_at p n" "i \<le> n"
  shows "p + of_nat i \<noteq> 0"
proof -
  have "unat (p + of_nat i) = unat p + i"
    using assms by (simp add: fits_at_def unat_word_ariths unat_of_nat take_bit_nat_eq_self)
  moreover have "unat p \<noteq> 0" using assms by (simp add: fits_at_def unsigned_eq_0_iff)
  ultimately show ?thesis by (metis add_is_0 unat_0)
qed

lemma fits_at_add:
  assumes "fits_at p n" "i \<le> n"
  shows "fits_at (p + of_nat i) (n - i)"
proof -
  have "unat (p + of_nat i) = unat p + i"
    using assms by (simp add: fits_at_def unat_word_ariths unat_of_nat take_bit_nat_eq_self)
  then show ?thesis using assms fits_at_nonzero [OF assms] by (simp add: fits_at_def)
qed

lemma offset_inj:
  assumes "i < 2 ^ 64" "j < 2 ^ 64"
  shows "p + of_nat i = (p :: u64) + of_nat j \<longleftrightarrow> i = j"
  using assms by (auto dest: of_nat_u64_inj)

lemma cstr_cong:
  assumes "\<And>i. i \<le> length bs \<Longrightarrow> m' (p' + of_nat i) = m (p + of_nat i)"
  shows "cstr m' p' bs \<longleftrightarrow> cstr m p bs"
  using assms
proof (induction bs arbitrary: p p')
  case Nil
  from Nil [of 0] show ?case by simp
next
  case (Cons b bs)
  have "m' p' = m p" using Cons.prems [of 0] by simp
  moreover have "cstr m' (p' + 1) bs \<longleftrightarrow> cstr m (p + 1) bs"
    by (rule Cons.IH) (use Cons.prems [of "Suc _"] in \<open>simp add: add.assoc\<close>)
  ultimately show ?case by simp
qed

lemma cstr_upd:
  assumes "a \<notin> region p (Suc (length bs))" "length bs < 2 ^ 64"
  shows "cstr (m(a := x)) p bs \<longleftrightarrow> cstr m p bs"
proof (rule cstr_cong)
  fix i assume "i \<le> length bs"
  then have "p + of_nat i \<in> region p (Suc (length bs))"
    using assms(2) by (simp add: unat_of_nat_u64)
  then show "(m(a := x)) (p + of_nat i) = m (p + of_nat i)" using assms(1) by auto
qed

lemma cstr_mem_copy:
  assumes "cstr m src bs" "length bs < n" "n < 2 ^ 64"
  shows "cstr (mem_copy m dest src n) dest bs"
proof -
  have "cstr (mem_copy m dest src n) dest bs \<longleftrightarrow> cstr m src bs"
    by (rule cstr_cong) (use assms in \<open>simp add: mem_copy_def unat_of_nat_u64\<close>)
  then show ?thesis using assms by simp
qed

section \<open>Tokens\<close>

text \<open>The maximal runs of characters outside \<open>D\<close>.\<close>

function tokens :: "('a \<Rightarrow> bool) \<Rightarrow> 'a list \<Rightarrow> 'a list list" where
  "tokens D xs =
     (case dropWhile D xs of [] \<Rightarrow> []
      | y # ys \<Rightarrow> takeWhile (\<lambda>x. \<not> D x) (y # ys) # tokens D (dropWhile (\<lambda>x. \<not> D x) ys))"
  by pat_completeness auto
termination
proof (relation "measure (\<lambda>(D, xs). length xs)", simp)
  fix D :: "'a \<Rightarrow> bool" and xs y ys
  assume "dropWhile D xs = y # ys"
  then have "Suc (length ys) \<le> length xs" by (metis length_Cons length_dropWhile_le)
  then show "((D, dropWhile (\<lambda>x. \<not> D x) ys), D, xs) \<in> measure (\<lambda>(D, xs). length xs)"
    by (simp add: le_imp_less_Suc order.strict_trans1 [OF length_dropWhile_le])
qed

declare tokens.simps [simp del]

lemma tokens_dropWhile: "tokens D (dropWhile D xs) = tokens D xs"
  by (subst (1 2) tokens.simps) (simp add: dropWhile_idem)

lemma tokens_Nil [simp]: "tokens D [] = []"
  by (simp add: tokens.simps)

lemma tokens_Cons [simp]:
  "tokens D (x # xs) =
     (if D x then tokens D xs
      else (x # takeWhile (\<lambda>x. \<not> D x) xs) # tokens D (dropWhile (\<lambda>x. \<not> D x) xs))"
  by (subst tokens.simps) (simp add: tokens.simps [of D xs])

lemma tokens_clean: "t \<in> set (tokens D xs) \<Longrightarrow> t \<noteq> [] \<and> (\<forall>x \<in> set t. \<not> D x)"
proof (induction D xs rule: tokens.induct)
  case (1 D xs)
  show ?case
  proof (cases "dropWhile D xs")
    case Nil
    have "tokens D xs = []" by (subst tokens.simps) (simp only: Nil list.case)
    then show ?thesis using "1.prems" by simp
  next
    case (Cons y ys)
    then have "tokens D xs = takeWhile (\<lambda>x. \<not> D x) (y # ys) # tokens D (dropWhile (\<lambda>x. \<not> D x) ys)"
      by (subst tokens.simps) simp
    then have "t = takeWhile (\<lambda>x. \<not> D x) (y # ys) \<or> t \<in> set (tokens D (dropWhile (\<lambda>x. \<not> D x) ys))"
      using "1.prems" by simp
    moreover have "\<not> D y" using Cons hd_dropWhile [of D xs] by simp
    ultimately show ?thesis using "1.IH" [OF Cons] by (fastforce dest: set_takeWhileD)
  qed
qed

lemma skip_chars_cstr:
  assumes "cstr m p bs" "cstr m dl ds" "fits_at dl (length ds)"
  shows "skip_chars inside m dl p =
     Some (p + of_nat (length (takeWhile (\<lambda>b. (b \<in> set ds) = inside) bs)))"
  using assms(1)
proof (induction bs arbitrary: p)
  case Nil
  then show ?case by (simp add: skip_chars.simps)
next
  case (Cons b bs)
  then have b: "m p = b" "b \<noteq> 0" "cstr m (p + 1) bs" by auto
  have "length (takeWhile (\<lambda>x. x \<noteq> b) ds) \<le> length ds" by (rule length_takeWhile_le)
  then obtain r where r: "strchr m dl b = Some r" "r \<noteq> 0 \<longleftrightarrow> b \<in> set ds"
    using strchr_cstr [OF assms(2), of b] fits_at_nonzero [OF assms(3)] by auto
  show ?case using b r Cons.IH [OF b(3)] by (subst skip_chars.simps) (auto simp: add.assoc [symmetric])
qed

lemma cstr_drop:
  assumes "cstr m p bs" "k \<le> length bs"
  shows "cstr m (p + of_nat k) (drop k bs)"
  using assms cstr_append [of m p "take k bs" "drop k bs"] by simp

lemma cstr_take:
  assumes "cstr m p bs" "k \<le> length bs" "length bs < 2 ^ 64"
  shows "cstr (m(p + of_nat k := 0)) p (take k bs)"
proof -
  have "(m(p + of_nat k := 0)) (p + of_nat i) = take k bs ! i" if "i < k" for i
    using that assms cstr_nth [OF assms(1)] of_nat_u64_inj [of i k] by auto
  moreover have "0 \<notin> set (take k bs)" using cstr_nonzero [OF assms(1)] by (meson in_set_takeD)
  ultimately show ?thesis
    using assms cstr_append [of "m(p + of_nat k := 0)" p "take k bs" "[]"] by simp
qed

text \<open>One call of \<open>strtok_r\<close> on a string at \<open>q\<close>.\<close>

lemma strtok_r_none:
  assumes "cstr m q bs" "cstr m dl ds" "fits_at dl (length ds)" "q = (if str = 0 then save else str)"
    and "tokens (\<lambda>b. b \<in> set ds) bs = []"
  shows "strtok_r m str dl save = Some (0, save, m)"
proof -
  let ?D = "\<lambda>b. b \<in> set ds"
  have "dropWhile ?D bs = []"
  proof (rule ccontr)
    assume "dropWhile ?D bs \<noteq> []"
    then show False using assms(5) by (subst (asm) tokens.simps) (auto split: list.splits)
  qed
  then have "takeWhile ?D bs = bs" by (metis append_Nil2 takeWhile_dropWhile_id)
  then have "skip_chars True m dl q = Some (q + of_nat (length bs))"
    using skip_chars_cstr [OF assms(1,2,3), of True] by (simp del: takeWhile_eq_all_conv)
  then show ?thesis using cstr_end [OF assms(1)] assms(4) by (simp add: strtok_r_def)
qed

lemma strtok_r_some:
  assumes "cstr m q bs" "cstr m dl ds" "fits_at dl (length ds)" "q = (if str = 0 then save else str)"
    and "dropWhile (\<lambda>b. b \<in> set ds) bs = y # ys" "length bs < 2 ^ 64"
  defines "t \<equiv> q + of_nat (length (takeWhile (\<lambda>b. b \<in> set ds) bs))"
    and "w \<equiv> takeWhile (\<lambda>b. b \<notin> set ds) (y # ys)"
  shows "strtok_r m str dl save =
    Some (if length w = length (y # ys) then (t, t + of_nat (length w), m)
          else (t, t + of_nat (Suc (length w)), m(t + of_nat (length w) := 0)))"
    and "cstr m t (y # ys)"
proof -
  let ?D = "\<lambda>b. b \<in> set ds"
  have bs: "bs = takeWhile ?D bs @ y # ys" by (metis assms(5) takeWhile_dropWhile_id)
  have rest: "drop (length (takeWhile ?D bs)) bs = y # ys"
    by (metis bs append_eq_conv_conj)
  show t: "cstr m t (y # ys)"
    using cstr_drop [OF assms(1), of "length (takeWhile ?D bs)"] rest
    by (simp add: t_def length_takeWhile_le)
  have skip1: "skip_chars True m dl q = Some t"
    using skip_chars_cstr [OF assms(1,2,3), of True] by (simp add: t_def)
  have skip2: "skip_chars False m dl t = Some (t + of_nat (length w))"
    using skip_chars_cstr [OF t assms(2,3), of False] by (simp add: w_def)
  have le: "length w \<le> length (y # ys)" unfolding w_def by (rule length_takeWhile_le)
  have "m t \<noteq> 0" using t by auto
  moreover have "m (t + of_nat (length w)) = 0 \<longleftrightarrow> length w = length (y # ys)"
  proof (cases "length w = length (y # ys)")
    case True
    then show ?thesis using cstr_end [OF t] by simp
  next
    case False
    then have "length w < length (y # ys)" using le by simp
    then have "m (t + of_nat (length w)) \<in> set (y # ys)" using cstr_nth [OF t] by (metis nth_mem)
    then show ?thesis using False cstr_nonzero [OF t] by auto
  qed
  ultimately show "strtok_r m str dl save =
    Some (if length w = length (y # ys) then (t, t + of_nat (length w), m)
          else (t, t + of_nat (Suc (length w)), m(t + of_nat (length w) := 0)))"
    using skip1 skip2 assms(4) unfolding strtok_r_def by (simp add: add.assoc add.commute [of 1])
qed

text \<open>The loop of a caller that asks for token after token, and the tokens it sees.\<close>

partial_function (option) strtok_all :: "mem \<Rightarrow> u64 \<Rightarrow> u64 \<Rightarrow> u64 \<Rightarrow> (u64 list \<times> mem) option" where
  "strtok_all m str delim saveptr =
     Option.bind (strtok_r m str delim saveptr) (\<lambda>(tok, saveptr, m).
       if tok = 0 then Some ([], m)
       else Option.bind (strtok_all m 0 delim saveptr) (\<lambda>(ts, m). Some (tok # ts, m)))"

lemma unat_offset:
  assumes "unat (x - (p + of_nat i)) < n" "i + n \<le> 2 ^ 64"
  shows "unat (x - p :: u64) = i + unat (x - (p + of_nat i))"
proof -
  have "unat (x - (p + of_nat i)) + unat (of_nat i :: u64) < 2 ^ 64"
    using assms by (simp add: unat_of_nat_u64)
  then have "unat ((x - (p + of_nat i)) + of_nat i) = unat (x - (p + of_nat i)) + unat (of_nat i :: u64)"
    by (intro unat_add_lem [THEN iffD1]) simp
  then show ?thesis using assms by (simp add: unat_of_nat_u64)
qed

lemma region_sub:
  assumes "i \<le> n" "n < 2 ^ 64"
  shows "region (p + of_nat i) (Suc (n - i)) \<subseteq> region p (Suc n)"
proof
  fix x assume "x \<in> region (p + of_nat i) (Suc (n - i))"
  then show "x \<in> region p (Suc n)" using unat_offset [of x p i "Suc (n - i)"] assms by simp
qed

lemma region_apart:
  assumes "i < k" "k + n \<le> 2 ^ 64"
  shows "p + of_nat i \<notin> region (p + of_nat k) n"
proof
  assume "p + of_nat i \<in> region (p + of_nat k) n"
  then have "unat (p + of_nat i - (p + of_nat k)) < n" by simp
  from unat_offset [OF this assms(2)] show False using assms by (simp add: unat_of_nat_u64)
qed

lemma strtok_all_step:
  assumes "strtok_r m str dl save = Some (t, save', m1)" "t \<noteq> 0"
    and "strtok_all m1 0 dl save' = Some (ts, m')"
  shows "strtok_all m str dl save = Some (t # ts, m')"
  using assms by (subst strtok_all.simps) simp

lemma strtok_all_done:
  assumes "strtok_r m str dl save = Some (0, save', m')"
  shows "strtok_all m str dl save = Some ([], m')"
  using assms by (subst strtok_all.simps) simp

lemma strtok_all_tokens:
  assumes "cstr m q bs" "cstr m dl ds" "fits_at dl (length ds)" "fits_at q (length bs)"
    and "region q (Suc (length bs)) \<inter> region dl (Suc (length ds)) = {}"
    and "q = (if str = 0 then save else str)"
  shows "\<exists>ts m'. strtok_all m str dl save = Some (ts, m') \<and>
    list_all2 (cstr m') ts (tokens (\<lambda>b. b \<in> set ds) bs) \<and> (\<forall>a. a \<notin> region q (Suc (length bs)) \<longrightarrow> m' a = m a)"
  using assms
proof (induction "length bs" arbitrary: m q bs str save rule: less_induct)
  case less
  let ?D = "\<lambda>b. b \<in> set ds"
  note prems = less.prems
  have lt: "length bs < 2 ^ 64" "length ds < 2 ^ 64" using prems(3,4) by (auto simp: fits_at_def)
  show ?case
  proof (cases "dropWhile ?D bs")
    case Nil
    have none: "tokens ?D bs = []" by (subst tokens.simps) (simp only: Nil list.case)
    show ?thesis
      using strtok_all_done [OF strtok_r_none [OF prems(1,2,3,6) none]] none by auto
  next
    case (Cons y ys)
    define k where "k = length (takeWhile ?D bs)"
    define t where "t = q + of_nat k"
    define w where "w = takeWhile (\<lambda>b. b \<notin> set ds) (y # ys)"
    have some: "strtok_r m str dl save =
        Some (if length w = length (y # ys) then (t, t + of_nat (length w), m)
          else (t, t + of_nat (Suc (length w)), m(t + of_nat (length w) := 0)))" "cstr m t (y # ys)"
      using strtok_r_some [OF prems(1,2,3,6) Cons lt(1)] unfolding t_def k_def w_def by blast+
    have len: "length bs = k + length (y # ys)"
      unfolding k_def by (metis Cons length_append takeWhile_dropWhile_id)
    have nd: "y \<notin> set ds" using hd_dropWhile [of ?D bs] Cons by simp
    have w: "w \<noteq> []" "length w \<le> length (y # ys)" "w = take (length w) (y # ys)"
      unfolding w_def by (simp add: nd, rule length_takeWhile_le, rule takeWhile_eq_take)
    have rest: "drop (length w) (y # ys) = dropWhile (\<lambda>b. b \<notin> set ds) ys"
      unfolding w_def by (simp add: nd dropWhile_eq_drop)
    have tok: "tokens ?D bs = w # tokens ?D (drop (length w) (y # ys))"
      unfolding rest by (subst tokens.simps) (simp only: Cons list.case w_def)
    have "t \<noteq> 0" unfolding t_def using fits_at_nonzero [OF prems(4)] len by simp
    show ?thesis
    proof (cases "length w = length (y # ys)")
      case True
      then have tok1: "tokens ?D bs = [w]" "w = y # ys" using tok w(3) by auto
      have r1: "strtok_r m str dl save = Some (t, t + of_nat (length w), m)" using some(1) True by simp
      have "strtok_r m 0 dl (t + of_nat (length w)) = Some (0, t + of_nat (length w), m)"
        by (rule strtok_r_none [where bs = "[]", OF _ prems(2,3)]) (use cstr_end [OF some(2)] True in simp_all)
      from strtok_all_step [OF r1 \<open>t \<noteq> 0\<close> strtok_all_done [OF this]] show ?thesis
        using tok1 some(2) by auto
    next
      case False
      then have wl: "length w < length (y # ys)" using w(2) by simp
      define e where "e = t + of_nat (length w)"
      define r where "r = drop (Suc (length w)) (y # ys)"
      define save' where "save' = t + of_nat (Suc (length w))"
      have r1: "strtok_r m str dl save = Some (t, save', m(e := 0))"
        using some(1) False by (simp add: e_def save'_def)
      have lr: "length r = length (y # ys) - Suc (length w)" by (simp add: r_def)
      have save': "save' = q + of_nat (k + Suc (length w))" by (simp add: save'_def t_def add.assoc)
      have e: "e = q + of_nat (k + length w)" by (simp add: e_def t_def add.assoc)
      have bound: "k + Suc (length w) \<le> length bs" using len wl by simp
      have lr': "length r = length bs - (k + Suc (length w))" using lr len by simp
      have sub: "region save' (Suc (length r)) \<subseteq> region q (Suc (length bs))"
        unfolding save' lr' by (rule region_sub [OF bound lt(1)])
      have e_in: "e \<in> region q (Suc (length bs))"
        unfolding e using bound lt by (simp add: unat_of_nat_u64 del: of_nat_add)
      have e_out: "e \<notin> region save' (Suc (length r))"
        unfolding e save' by (rule region_apart) (use bound lt lr' in auto)
      have c1: "cstr (m(e := 0)) save' r"
        using cstr_drop [OF some(2), of "Suc (length w)"] wl e_out lt lr'
        by (simp add: cstr_upd save'_def r_def)
      have dl1: "cstr (m(e := 0)) dl ds" using prems(2,5) e_in lt by (subst cstr_upd) auto
      have cw: "cstr (m(e := 0)) t w"
        using cstr_take [OF some(2), of "length w"] w lt len by (simp add: e_def)
      have tokr: "tokens ?D (drop (length w) (y # ys)) = tokens ?D r"
      proof -
        have "drop (length w) (y # ys) = (y # ys) ! length w # r"
          unfolding r_def using wl by (rule Cons_nth_drop_Suc [symmetric])
        moreover have "?D ((y # ys) ! length w)"
          using nth_length_takeWhile [of "\<lambda>b. b \<notin> set ds" "y # ys"] wl unfolding w_def by simp
        ultimately show ?thesis by simp
      qed
      have fit: "fits_at save' (length r)"
        unfolding save' lr' by (rule fits_at_add [OF prems(4) bound])
      have apart: "region save' (Suc (length r)) \<inter> region dl (Suc (length ds)) = {}" using sub prems(5) by blast
      have shorter: "length r < length bs" using lr' bound by simp
      obtain ts m' where rec: "strtok_all (m(e := 0)) 0 dl save' = Some (ts, m')"
          "list_all2 (cstr m') ts (tokens ?D r)" "\<forall>a. a \<notin> region save' (Suc (length r)) \<longrightarrow> m' a = (m(e := 0)) a"
        using less.hyps [OF _ c1 dl1 prems(3) fit, of 0 save'] apart shorter by auto
      have "cstr m' t w \<longleftrightarrow> cstr (m(e := 0)) t w"
      proof (rule cstr_cong)
        fix i assume "i \<le> length w"
        then have "t + of_nat i \<notin> region save' (Suc (length r))"
          unfolding save'_def by (intro region_apart) (use lr len lt wl in auto)
        then show "m' (t + of_nat i) = (m(e := 0)) (t + of_nat i)" using rec(3) by blast
      qed
      then have "list_all2 (cstr m') (t # ts) (tokens ?D bs)" using cw rec(2) tok tokr by simp
      moreover have "m' a = m a" if "a \<notin> region q (Suc (length bs))" for a
      proof -
        have "a \<notin> region save' (Suc (length r))" "a \<noteq> e" using that sub e_in by blast+
        then show ?thesis using rec(3) by simp
      qed
      ultimately show ?thesis using strtok_all_step [OF r1 \<open>t \<noteq> 0\<close> rec(1)] by blast
    qed
  qed
qed

section \<open>The last slash\<close>

text \<open>What the callers of \<open>strrchr\<close> do with its result: the parts before and after the last \<open>c\<close>.\<close>

definition split_last :: "'a \<Rightarrow> 'a list \<Rightarrow> ('a list \<times> 'a list) option" where
  "split_last c xs =
     (let t = takeWhile (\<lambda>x. x \<noteq> c) (rev xs)
      in if length t = length xs then None else Some (take (length xs - 1 - length t) xs, rev t))"

lemma split_last_None: "split_last c xs = None \<longleftrightarrow> c \<notin> set xs"
  using length_takeWhile_all [of "\<lambda>x. x \<noteq> c" "rev xs"] by (auto simp: split_last_def Let_def)

lemma split_last_Some:
  assumes "split_last c xs = Some (a, b)"
  shows "xs = a @ c # b" "c \<notin> set b"
proof -
  define t where "t = takeWhile (\<lambda>x. x \<noteq> c) (rev xs)"
  have ne: "length t \<noteq> length (rev xs)" and a: "a = take (length xs - 1 - length t) xs" and b: "b = rev t"
    using assms by (auto simp: split_last_def Let_def t_def split: if_splits)
  have "\<exists>x \<in> set (rev xs). x = c"
    using ne length_takeWhile_all [of "\<lambda>x. x \<noteq> c" "rev xs"] unfolding t_def by blast
  then have "dropWhile (\<lambda>x. x \<noteq> c) (rev xs) \<noteq> []" by simp
  then obtain r where r: "dropWhile (\<lambda>x. x \<noteq> c) (rev xs) = c # r"
    by (metis (mono_tags, lifting) hd_dropWhile list.exhaust_sel)
  then have "rev xs = t @ c # r" unfolding t_def by (metis takeWhile_dropWhile_id)
  then have xs: "xs = rev r @ c # rev t" by (metis rev_append rev_rev_ident rev.simps(2) append.assoc append_Cons append_Nil)
  then show "xs = a @ c # b" by (simp add: a b)
  show "c \<notin> set b" unfolding b t_def by (auto dest: set_takeWhileD)
qed

lemma split_last_append [simp]: "c \<notin> set b \<Longrightarrow> split_last c (a @ c # b) = Some (a, b)"
proof -
  assume "c \<notin> set b"
  then have "takeWhile (\<lambda>x. x \<noteq> c) (rev (a @ c # b)) = rev b"
    by (auto simp: takeWhile_append)
  then show ?thesis by (simp add: split_last_def Let_def)
qed

lemma strrchr_split_last:
  assumes "cstr m p bs" "c \<noteq> 0"
  shows "strrchr m p c =
    Some (case split_last c bs of None \<Rightarrow> 0 | Some (a, b) \<Rightarrow> p + of_nat (length a))"
proof (cases "split_last c bs")
  case None
  then have "c \<notin> set bs" by (simp add: split_last_None)
  then show ?thesis using strrchr_cstr [OF assms] None by simp
next
  case (Some ab)
  then obtain a b where ab: "ab = (a, b)" by (cases ab)
  then have bs: "bs = a @ c # b" "c \<notin> set b" using split_last_Some [of c bs a b] Some by auto
  then have "takeWhile (\<lambda>x. x \<noteq> c) (rev bs) = rev b" by (auto simp: takeWhile_append)
  then have "strrchr m p c = Some (p + of_nat (length a))" using strrchr_cstr [OF assms] bs(1) by simp
  then show ?thesis using Some ab by simp
qed

end
