(* ===== verification/Vfs.thy ===== *)
theory Vfs
  imports Kobj CString
begin

text \<open>
  The directory layer \<open>kernel/src/vfs/vfs.c\<close>: lookup, creation and removal of directory
  entries over the sibling lists, the \<open>getdents64\<close> encoder and seeking. A name that is
  only read is passed as its string; \<open>strcmp\<close> on two names is equality of the strings
  (\<open>strcmp_zero_iff\<close>). Results are the C return values: a pointer (0 is NULL) or an error
  code, with the new state.
\<close>

section \<open>File systems\<close>

record file_system_type =
  fs_name :: string
  fs_mount :: u64

definition register_filesystem :: "file_system_type \<Rightarrow> file_system_type list \<Rightarrow> int \<times> file_system_type list" where
  "register_filesystem fs fs_registry = (0, fs # fs_registry)"

fun find_filesystem :: "string \<Rightarrow> file_system_type list \<Rightarrow> file_system_type option" where
  "find_filesystem name [] = None"
| "find_filesystem name (fs # rest) = (if fs_name fs = name then Some fs else find_filesystem name rest)"

section \<open>Directory entries\<close>

definition vfs_lookup :: "u64 \<Rightarrow> string \<Rightarrow> 'a kobj_scheme \<Rightarrow> u64 run" where
  "vfs_lookup dir fname s =
     bindr (get_inode dir s) (\<lambda>di.
     bindr (get_dentry (i_dentry di) s) (\<lambda>_.
       hlist_find (\<lambda>pos. bindr (dentry_name pos s) (\<lambda>n. Ok (fname = n))) (i_dentry di) (d_links s)))"

definition SIZEOF_INODE :: u64 where "SIZEOF_INODE = 96"
definition SIZEOF_DENTRY :: u64 where "SIZEOF_DENTRY = 56"

text \<open>The inode \<open>vfs_create\<close> fills in; its size keeps what the fresh block held.\<close>

definition new_inode :: "inode \<Rightarrow> u16 \<Rightarrow> u32 \<Rightarrow> u32 \<Rightarrow> u64 \<Rightarrow> u64 \<Rightarrow> inode" where
  "new_inode di mode uid gid dentry size_junk =
     \<lparr>i_dentry = dentry, i_mode = mode, i_uid = uid, i_gid = gid, i_size = size_junk, i_count = 0,
      i_op = i_op di, i_fop = i_fop di, i_private = 0\<rparr>"

definition current_ids :: "'a kobj_scheme \<Rightarrow> (u32 \<times> u32) run" where
  "current_ids s =
     (if current_process s \<noteq> 0 then bindr (get_pcb (current_process s) s) (\<lambda>p. Ok (p_uid p, p_gid p))
      else Ok (0, 0))"

definition vfs_create :: "u64 \<Rightarrow> u64 \<Rightarrow> u16 \<Rightarrow> bool \<Rightarrow> 'a kobj_scheme \<Rightarrow> (int \<times> 'a kobj_scheme) run" where
  "vfs_create dir dentry mode excl s =
     bindr (get_inode dir s) (\<lambda>di.
     bindr (get_dentry (i_dentry di) s) (\<lambda>_.
     bindr (hlist_find (\<lambda>pos. bindr (dentry_name pos s) (\<lambda>a. bindr (dentry_name dentry s) (\<lambda>b. Ok (a = b))))
              (i_dentry di) (d_links s)) (\<lambda>child.
       if child \<noteq> 0 then Ok (- E_EXIST, s)
       else
         bindr (kmalloc SIZEOF_INODE (Inode (new_inode di mode 0 0 dentry 0)) s) (\<lambda>(ni, s).
           if ni = 0 then Ok (- E_NOMEM, s)
           else
             bindr (current_ids s) (\<lambda>(uid, gid).
               let s = put ni (Inode (new_inode di mode uid gid dentry (junk s (ni + 24)))) s;
                   s = s\<lparr>d_links := INIT_HLIST_NODE dentry (INIT_HLIST_HEAD dentry (d_links s))\<rparr>
               in bindr (upd_dentry dentry (\<lambda>d. d\<lparr>d_inode := ni\<rparr>) s) (\<lambda>s.
                    Ok (0, s\<lparr>d_links := hlist_add_head dentry (i_dentry di) (d_links s)\<rparr>)))))))"

definition vfs_mkdir :: "u64 \<Rightarrow> u64 \<Rightarrow> u16 \<Rightarrow> 'a kobj_scheme \<Rightarrow> (int \<times> 'a kobj_scheme) run" where
  "vfs_mkdir dir dentry mode s = vfs_create dir dentry (S_IFDIR OR (mode AND NOT S_IFMT)) False s"

definition unlink_sib :: "u64 \<Rightarrow> 'a kobj_scheme \<Rightarrow> 'a kobj_scheme run" where
  "unlink_sib target s = bindr (hlist_del target (d_links s)) (\<lambda>l. Ok (s\<lparr>d_links := l\<rparr>))"

definition vfs_rmdir :: "u64 \<Rightarrow> u64 \<Rightarrow> 'a kobj_scheme \<Rightarrow> (int \<times> 'a kobj_scheme) run" where
  "vfs_rmdir dir dentry s =
     (if dir = 0 \<or> dentry = 0 then Ok (- E_INVAL, s)
      else
        bindr (dentry_name dentry s) (\<lambda>n.
        bindr (vfs_lookup dir n s) (\<lambda>target.
          if target = 0 then Ok (- E_NOENT, s)
          else
            bindr (get_dentry target s) (\<lambda>t.
            bindr (get_inode (d_inode t) s) (\<lambda>ti.
              if \<not> S_ISDIR (i_mode ti) then Ok (- E_NOTDIR, s)
              else if hfirst (d_links s) target = 0 then Ok (- E_NOTEMPTY, s)
              else
                bindr (unlink_sib target s) (\<lambda>s.
                bindr (kfree (d_inode t) s) (\<lambda>s.
                bindr (kfree (d_name t) s) (\<lambda>s.
                bindr (kfree target s) (\<lambda>s. Ok (0, s))))))))))"

text \<open>\<open>--inode->i_count <= 0\<close>, and the inode is freed when it holds.\<close>

definition drop_inode :: "u64 \<Rightarrow> 'a kobj_scheme \<Rightarrow> 'a kobj_scheme run" where
  "drop_inode ip s =
     bindr (get_inode ip s) (\<lambda>i.
       let c = i_count i - 1; s = put ip (Inode (i\<lparr>i_count := c\<rparr>)) s
       in if sint c \<le> 0 then kfree ip s else Ok s)"

definition vfs_unlink :: "u64 \<Rightarrow> u64 \<Rightarrow> 'a kobj_scheme \<Rightarrow> (int \<times> 'a kobj_scheme) run" where
  "vfs_unlink dir dentry s =
     (if dir = 0 \<or> dentry = 0 then Ok (- E_INVAL, s)
      else
        bindr (dentry_name dentry s) (\<lambda>n.
        bindr (vfs_lookup dir n s) (\<lambda>target.
          if target = 0 then Ok (- E_NOENT, s)
          else
            bindr (get_dentry target s) (\<lambda>t.
            bindr (get_inode (d_inode t) s) (\<lambda>ti.
              if S_ISDIR (i_mode ti) then Ok (- E_ISDIR, s)
              else
                bindr (unlink_sib target s) (\<lambda>s.
                bindr (drop_inode (d_inode t) s) (\<lambda>s.
                bindr (kfree (d_name t) s) (\<lambda>s.
                bindr (kfree target s) (\<lambda>s. Ok (0, s))))))))))"

definition vfs_inv_func :: int where
  "vfs_inv_func = - E_INVAL"

section \<open>Directory listing\<close>

definition DT_DIR :: u8 where "DT_DIR = 4"
definition DT_REG :: u8 where "DT_REG = 8"

definition DIRENT64_ALIGN :: "nat \<Rightarrow> nat" where
  "DIRENT64_ALIGN x = (x + 7) div 8 * 8"

text \<open>The header of a record is 19 bytes: inode number, offset, record length and type.\<close>

definition reclen :: "string \<Rightarrow> nat" where
  "reclen name = DIRENT64_ALIGN (19 + length name + 1)"

definition write16 :: "mem \<Rightarrow> u64 \<Rightarrow> u16 \<Rightarrow> mem" where
  "write16 m a v = m(a := ucast v, a + 1 := ucast (drop_bit 8 v))"

definition write_bytes :: "mem \<Rightarrow> u64 \<Rightarrow> u8 list \<Rightarrow> mem" where
  "write_bytes m a bs = fold (\<lambda>i m. m(a + of_nat i := bs ! i)) [0..<length bs] m"

definition str_bytes :: "string \<Rightarrow> u8 list" where
  "str_bytes n = map of_char n @ [0]"

definition write_dirent :: "u64 \<Rightarrow> u64 \<Rightarrow> u64 \<Rightarrow> u8 \<Rightarrow> string \<Rightarrow> mem \<Rightarrow> mem" where
  "write_dirent a ino off typ name m =
     (let m = write64 m a ino;
          m = write64 m (a + 8) off;
          m = write16 m (a + 16) (of_nat (reclen name));
          m = m(a + 18 := typ)
      in write_bytes m (a + 19) (str_bytes name))"

text \<open>
  The loop over the children: \<open>idx\<close> counts entries, \<open>bpos\<close> is the fill of the buffer.
  The result is the error, or the final \<open>idx\<close>, \<open>bpos\<close> and memory.
\<close>

fun getdents_children :: "u64 list \<Rightarrow> u64 \<Rightarrow> nat \<Rightarrow> int \<Rightarrow> int \<Rightarrow> nat \<Rightarrow> 'a kobj_scheme \<Rightarrow>
    (int + (int \<times> nat \<times> 'a kobj_scheme)) run" where
  "getdents_children [] buf count target idx bpos s = Ok (Inr (idx, bpos, s))"
| "getdents_children (c # cs) buf count target idx bpos s =
     (if idx < target then getdents_children cs buf count target (idx + 1) bpos s
      else
        bindr (get_dentry c s) (\<lambda>child.
        bindr (get_str (d_name child) s) (\<lambda>name.
          if bpos + reclen name > count then (if bpos = 0 then Ok (Inl (- E_INVAL)) else Ok (Inr (idx, bpos, s)))
          else
            bindr (if d_inode child = 0 then Ok DT_REG
                   else bindr (get_inode (d_inode child) s) (\<lambda>i. Ok (if S_ISDIR (i_mode i) then DT_DIR else DT_REG))) (\<lambda>typ.
              getdents_children cs buf count target (idx + 1) (bpos + reclen name)
                (s\<lparr>kmem := write_dirent (buf + of_nat bpos) (d_inode child) (of_int (idx + 1)) typ name (kmem s)\<rparr>)))))"

text \<open>The two entries every directory starts with.\<close>

fun getdents_dots :: "(u64 \<times> string) list \<Rightarrow> u64 \<Rightarrow> nat \<Rightarrow> int \<Rightarrow> int \<Rightarrow> nat \<Rightarrow> 'a kobj_scheme \<Rightarrow>
    (int + (bool \<times> int \<times> nat \<times> 'a kobj_scheme)) run" where
  "getdents_dots [] buf count target idx bpos s = Ok (Inr (False, idx, bpos, s))"
| "getdents_dots ((d, name) # ds) buf count target idx bpos s =
     (if idx < target then getdents_dots ds buf count target (idx + 1) bpos s
      else if bpos + reclen name > count
      then (if bpos = 0 then Ok (Inl (- E_INVAL)) else Ok (Inr (True, idx, bpos, s)))
      else
        bindr (get_dentry d s) (\<lambda>dd.
          getdents_dots ds buf count target (idx + 1) (bpos + reclen name)
            (s\<lparr>kmem := write_dirent (buf + of_nat bpos) (d_inode dd) (of_int (idx + 1)) DT_DIR name (kmem s)\<rparr>)))"

definition vfs_getdents64 :: "file_t \<Rightarrow> u64 \<Rightarrow> nat \<Rightarrow> 'a kobj_scheme \<Rightarrow> (int \<times> file_t \<times> 'a kobj_scheme) run" where
  "vfs_getdents64 file buf count s =
     (if f_inode file = 0 \<or> buf = 0 then Ok (- E_INVAL, file, s)
      else
        bindr (get_inode (f_inode file) s) (\<lambda>fi.
          if \<not> S_ISDIR (i_mode fi) then Ok (- E_NOTDIR, file, s)
          else if i_dentry fi = 0 then Ok (- E_INVAL, file, s)
          else
            (let dir = i_dentry fi; target = sint (f_pos file)
             in bindr (get_dentry dir s) (\<lambda>dd.
                bindr (getdents_dots [(dir, ''.''), (if d_parent dd \<noteq> 0 then d_parent dd else dir, ''..'')]
                         buf count target 0 0 s) (\<lambda>r.
                case r of Inl e \<Rightarrow> Ok (e, file, s)
                | Inr (full, idx, bpos, s) \<Rightarrow>
                    if full then Ok (int bpos, file\<lparr>f_pos := of_int idx\<rparr>, s)
                    else
                      bindr (hlist_nodes dir (d_links s)) (\<lambda>cs.
                      bindr (getdents_children cs buf count target idx bpos s) (\<lambda>r.
                      case r of Inl e \<Rightarrow> Ok (e, file, s)
                      | Inr (idx, bpos, s) \<Rightarrow> Ok (int bpos, file\<lparr>f_pos := of_int idx\<rparr>, s))))))))"

section \<open>Seeking\<close>

text \<open>\<open>vfs_seek\<close> has no case for another origin; the value it then returns is undefined.\<close>

definition vfs_seek :: "file_t \<Rightarrow> u64 \<Rightarrow> int \<Rightarrow> 'a kobj_scheme \<Rightarrow> (u64 \<times> file_t) option run" where
  "vfs_seek fil offset origin s =
     (if origin = 0 then Ok (Some (offset, fil\<lparr>f_pos := offset\<rparr>))
      else if origin = 1 then (let p = f_pos fil + offset in Ok (Some (p, fil\<lparr>f_pos := p\<rparr>)))
      else if origin = 2 then
        bindr (get_inode (f_inode fil) s) (\<lambda>i.
          let p = i_size i + offset in Ok (Some (p, fil\<lparr>f_pos := p\<rparr>)))
      else Ok None)"

end
