(* ===== verification/Fs.thy ===== *)
theory Fs
  imports Vfs
begin

text \<open>
  The path layer \<open>kernel/src/vfs/fs.c\<close> and the file operations of \<open>kernel/src/vfs/ramfile.c\<close>.
  A pathname is the string the C code reads; it is a value, so it is never NULL. The
  copies the C code makes of it are blocks of the object store that are allocated and
  freed as in the source. Calls through \<open>i_op\<close> go to the operation the table holds; a NULL
  table or a NULL entry is a \<open>BadPointer\<close>. The token loops run over \<open>tokens\<close>, the list
  \<open>strtok_r\<close> delivers (\<open>strtok_all_tokens\<close>), and a pathname is cut with \<open>split_last\<close>, the place
  \<open>strrchr\<close> finds (\<open>strrchr_split_last\<close>).
\<close>

definition path_tokens :: "string \<Rightarrow> string list" where
  "path_tokens p = tokens (\<lambda>c. c = CHR ''/'') p"

section \<open>Ram files\<close>

definition SIZEOF_RAMFILE_INFO :: u64 where "SIZEOF_RAMFILE_INFO = 24"

definition ramfile_open :: "u64 \<Rightarrow> file_t \<Rightarrow> 'a kobj_scheme \<Rightarrow> (int \<times> file_t) run" where
  "ramfile_open ip file s =
     (if ip = 0 then Ok (- E_INVAL, file)
      else
        bindr (get_inode ip s) (\<lambda>i.
          Ok (0, file\<lparr>f_inode := ip, f_pos := 0, f_ops := ram_file_fops, private_data := i_private i\<rparr>)))"

text \<open>The offset pointer is passed as its value and returned updated.\<close>

definition ramfile_read :: "file_t \<Rightarrow> u64 \<Rightarrow> u64 \<Rightarrow> u64 \<Rightarrow> 'a kobj_scheme \<Rightarrow> (int \<times> u64 \<times> 'a kobj_scheme) run" where
  "ramfile_read file buf count offset s =
     bindr (get_inode (f_inode file) s) (\<lambda>i.
     bindr (get_ram (i_private i) s) (\<lambda>info.
       if ri_start info = 0 then Ok (- E_INVAL, offset, s)
       else if ri_size info = 0 then Ok (0, offset, s)
       else
         (let bytes_left = ri_size info - offset;
              bytes_to_read = (if count < bytes_left then count else bytes_left)
          in Ok (sint bytes_to_read, offset + bytes_to_read,
                 s\<lparr>kmem := memcpy (kmem s) buf (ri_start info + offset) (unat bytes_to_read)\<rparr>))))"

definition ramfile_write :: "file_t \<Rightarrow> u64 \<Rightarrow> u64 \<Rightarrow> u64 \<Rightarrow> 'a kobj_scheme \<Rightarrow> (int \<times> u64 \<times> 'a kobj_scheme) run" where
  "ramfile_write file buf count offset s =
     (if buf = 0 then Ok (- E_INVAL, offset, s)
      else
        bindr (get_inode (f_inode file) s) (\<lambda>i.
          if i_private i = 0 then Ok (- E_INVAL, offset, s)
          else
            bindr (get_ram (i_private i) s) (\<lambda>info.
              let pos = offset
              in if ri_fixed_size info then
                   (if ri_start info = 0 then Ok (- E_INVAL, offset, s)
                    else if pos > ri_size info then Ok (- E_INVAL, offset, s)
                    else
                      (let available = ri_size info - pos;
                           to_write = (if count < available then count else available)
                       in Ok (sint to_write, offset + to_write,
                              s\<lparr>kmem := memcpy (kmem s) (ri_start info + pos) buf (unat to_write)\<rparr>)))
                 else if count = 0 then Ok (0, offset, s)
                 else if pos + count < pos then Ok (- E_INVAL, offset, s)
                 else
                   (let new_end = pos + count
                    in if new_end \<le> ri_size info then
                         Ok (sint count, offset + count,
                             s\<lparr>kmem := memcpy (kmem s) (ri_start info + pos) buf (unat count)\<rparr>)
                       else
                         bindr (krealloc (ri_start info) new_end s) (\<lambda>(new_mem, s).
                           if new_mem = 0 then Ok (- E_NOMEM, offset, s)
                           else
                             bindr (upd_ram (i_private i) (\<lambda>r. r\<lparr>ri_start := new_mem\<rparr>) s) (\<lambda>s.
                               let m = (if pos > ri_size info
                                        then memset (kmem s) (new_mem + ri_size info) 0 (unat (pos - ri_size info))
                                        else kmem s);
                                   s = s\<lparr>kmem := memcpy m (new_mem + pos) buf (unat count)\<rparr>
                               in bindr (upd_ram (i_private i) (\<lambda>r. r\<lparr>ri_size := new_end\<rparr>) s) (\<lambda>s.
                                  bindr (upd_inode (f_inode file) (\<lambda>i. i\<lparr>i_size := new_end\<rparr>) s) (\<lambda>s.
                                    Ok (sint count, offset + count, s)))))))))"

definition ramfile_lseek :: "file_t \<Rightarrow> u64 \<Rightarrow> int \<Rightarrow> 'a kobj_scheme \<Rightarrow> (int \<times> file_t) run" where
  "ramfile_lseek fil offset origin s =
     (if origin = 0 then Ok (sint offset, fil\<lparr>f_pos := offset\<rparr>)
      else if origin = 1 then (let p = f_pos fil + offset in Ok (sint p, fil\<lparr>f_pos := p\<rparr>))
      else if origin = 2 then
        bindr (get_inode (f_inode fil) s) (\<lambda>i.
          let p = i_size i + offset in Ok (sint p, fil\<lparr>f_pos := p\<rparr>))
      else Ok (- E_INVAL, fil))"

definition ramfile_release :: "u64 \<Rightarrow> file_t \<Rightarrow> int \<times> file_t" where
  "ramfile_release ip file = (0, file\<lparr>private_data := 0, f_ops := NoFops\<rparr>)"

section \<open>Ram directories\<close>

definition ramfile_inode_create :: "u64 \<Rightarrow> u64 \<Rightarrow> u16 \<Rightarrow> bool \<Rightarrow> 'a kobj_scheme \<Rightarrow> (int \<times> 'a kobj_scheme) run" where
  "ramfile_inode_create dir dentry mode excl s =
     (if dir = 0 \<or> dentry = 0 then Ok (- E_INVAL, s)
      else
        bindr (get_dentry dentry s) (\<lambda>d.
          if excl \<and> d_inode d \<noteq> 0 then Ok (- E_EXIST, s)
          else
            bindr (vfs_create dir dentry (S_IFREG OR (mode AND NOT S_IFMT)) excl s) (\<lambda>(res, s).
              if res < 0 then Ok (res, s)
              else
                bindr (kmalloc SIZEOF_RAMFILE_INFO (RamInfo \<lparr>ri_start = 0, ri_size = 0, ri_fixed_size = False\<rparr>) s) (\<lambda>(info, s).
                bindr (get_dentry dentry s) (\<lambda>d.
                  if info = 0 then
                    bindr (kfree (d_inode d) s) (\<lambda>s.
                    bindr (upd_dentry dentry (\<lambda>d. d\<lparr>d_inode := 0\<rparr>) s) (\<lambda>s. Ok (- E_NOMEM, s)))
                  else
                    bindr (upd_inode (d_inode d)
                             (\<lambda>i. i\<lparr>i_private := info, i_fop := ram_file_fops, i_op := ram_dir_iops\<rparr>) s) (\<lambda>s.
                      Ok (0, s)))))))"

definition ramfile_inode_mkdir :: "u64 \<Rightarrow> u64 \<Rightarrow> u16 \<Rightarrow> 'a kobj_scheme \<Rightarrow> (int \<times> 'a kobj_scheme) run" where
  "ramfile_inode_mkdir dir dentry mode s =
     (if dir = 0 \<or> dentry = 0 then Ok (- E_INVAL, s)
      else
        bindr (vfs_create dir dentry (S_IFDIR OR (mode AND NOT S_IFMT)) False s) (\<lambda>(res, s).
          if res < 0 then Ok (res, s)
          else
            bindr (get_dentry dentry s) (\<lambda>d.
            bindr (upd_inode (d_inode d) (\<lambda>i. i\<lparr>i_op := ram_dir_iops, i_fop := NoFops, i_private := 0\<rparr>) s) (\<lambda>s.
              Ok (0, s)))))"

definition ramfile_inode_rmdir :: "u64 \<Rightarrow> u64 \<Rightarrow> 'a kobj_scheme \<Rightarrow> (int \<times> 'a kobj_scheme) run" where
  "ramfile_inode_rmdir dir dentry s =
     (if dir = 0 \<or> dentry = 0 then Ok (- E_INVAL, s)
      else
        bindr (dentry_name dentry s) (\<lambda>n.
        bindr (vfs_lookup dir n s) (\<lambda>target.
          if target = 0 then Ok (- E_NOENT, s)
          else
            bindr (get_dentry target s) (\<lambda>t.
            bindr (get_inode (d_inode t) s) (\<lambda>ti.
              if \<not> S_ISDIR (i_mode ti) then Ok (- E_NOTDIR, s)
              else if hfirst (d_links s) target \<noteq> 0 then Ok (- E_NOTEMPTY, s)
              else
                bindr (unlink_sib target s) (\<lambda>s.
                bindr (kfree (i_private ti) s) (\<lambda>s.
                bindr (kfree (d_inode t) s) (\<lambda>s.
                bindr (kfree (d_name t) s) (\<lambda>s.
                bindr (kfree target s) (\<lambda>s. Ok (0, s)))))))))))"

definition ramfile_inode_unlink :: "u64 \<Rightarrow> u64 \<Rightarrow> 'a kobj_scheme \<Rightarrow> (int \<times> 'a kobj_scheme) run" where
  "ramfile_inode_unlink dir dentry s =
     (if dir = 0 \<or> dentry = 0 then Ok (- E_INVAL, s)
      else
        bindr (dentry_name dentry s) (\<lambda>n.
        bindr (vfs_lookup dir n s) (\<lambda>target.
          if target = 0 then Ok (- E_NOENT, s)
          else
            bindr (get_dentry target s) (\<lambda>t.
            bindr (get_inode (d_inode t) s) (\<lambda>ti.
              if S_ISDIR (i_mode ti) then Ok (- E_ISDIR, s)
              else
                bindr (unlink_sib target s) (\<lambda>s.
                bindr (if i_private ti = 0 then Ok s
                       else
                         bindr (get_ram (i_private ti) s) (\<lambda>info.
                         bindr (if \<not> ri_fixed_size info \<and> ri_start info \<noteq> 0 then kfree (ri_start info) s else Ok s) (\<lambda>s.
                           kfree (i_private ti) s))) (\<lambda>s.
                bindr (drop_inode (d_inode t) s) (\<lambda>s.
                bindr (kfree (d_name t) s) (\<lambda>s.
                bindr (kfree target s) (\<lambda>s. Ok (0, s)))))))))))"

section \<open>Calls through the operation tables\<close>

primrec call_lookup :: "iops \<Rightarrow> u64 \<Rightarrow> string \<Rightarrow> 'a kobj_scheme \<Rightarrow> u64 run" where
  "call_lookup NoIops dir n s = Stop BadPointer"
| "call_lookup def_vfs_i_ops dir n s = vfs_lookup dir n s"
| "call_lookup ram_dir_iops dir n s = vfs_lookup dir n s"

primrec call_create :: "iops \<Rightarrow> u64 \<Rightarrow> u64 \<Rightarrow> u16 \<Rightarrow> bool \<Rightarrow> 'a kobj_scheme \<Rightarrow> (int \<times> 'a kobj_scheme) run" where
  "call_create NoIops dir dentry mode excl s = Stop BadPointer"
| "call_create def_vfs_i_ops dir dentry mode excl s = vfs_create dir dentry mode excl s"
| "call_create ram_dir_iops dir dentry mode excl s = ramfile_inode_create dir dentry mode excl s"

primrec call_mkdir :: "iops \<Rightarrow> u64 \<Rightarrow> u64 \<Rightarrow> u16 \<Rightarrow> 'a kobj_scheme \<Rightarrow> (int \<times> 'a kobj_scheme) run" where
  "call_mkdir NoIops dir dentry mode s = Stop BadPointer"
| "call_mkdir def_vfs_i_ops dir dentry mode s = vfs_mkdir dir dentry mode s"
| "call_mkdir ram_dir_iops dir dentry mode s = ramfile_inode_mkdir dir dentry mode s"

primrec call_rmdir :: "iops \<Rightarrow> u64 \<Rightarrow> u64 \<Rightarrow> 'a kobj_scheme \<Rightarrow> (int \<times> 'a kobj_scheme) run" where
  "call_rmdir NoIops dir dentry s = Stop BadPointer"
| "call_rmdir def_vfs_i_ops dir dentry s = Stop BadPointer"
| "call_rmdir ram_dir_iops dir dentry s = ramfile_inode_rmdir dir dentry s"

primrec call_unlink :: "iops \<Rightarrow> u64 \<Rightarrow> u64 \<Rightarrow> 'a kobj_scheme \<Rightarrow> (int \<times> 'a kobj_scheme) run" where
  "call_unlink NoIops dir dentry s = Stop BadPointer"
| "call_unlink def_vfs_i_ops dir dentry s = Stop BadPointer"
| "call_unlink ram_dir_iops dir dentry s = ramfile_inode_unlink dir dentry s"

section \<open>Walking a path\<close>

fun path_walk :: "string list \<Rightarrow> u64 \<Rightarrow> 'a kobj_scheme \<Rightarrow> u64 run" where
  "path_walk [] cur s = Ok cur"
| "path_walk (token # ts) cur s =
     (if token = ''.'' then path_walk ts cur s
      else
        bindr (get_dentry cur s) (\<lambda>d.
          if token = ''..'' then path_walk ts (if d_parent d \<noteq> 0 then d_parent d else cur) s
          else
            bindr (get_inode (d_inode d) s) (\<lambda>i.
            bindr (call_lookup (i_op i) (d_inode d) token s) (\<lambda>result.
              if result = 0 then Ok 0 else path_walk ts result s))))"

definition inode_get :: "u64 \<Rightarrow> 'a kobj_scheme \<Rightarrow> 'a kobj_scheme run" where
  "inode_get ip s = upd_inode ip (\<lambda>i. i\<lparr>i_count := i_count i + 1\<rparr>) s"

definition kpath_lookup :: "u64 \<Rightarrow> string \<Rightarrow> 'a kobj_scheme \<Rightarrow> (u64 \<times> 'a kobj_scheme) run" where
  "kpath_lookup start pathname s =
     (if start = 0 then Ok (0, s)
      else
        bindr (kstrdup pathname s) (\<lambda>(path_copy, s).
          if path_copy = 0 then Ok (0, s)
          else
            bindr (get_inode start s) (\<lambda>si.
            bindr (path_walk (path_tokens pathname) (i_dentry si) s) (\<lambda>cur.
              if cur = 0 then bindr (kfree path_copy s) (\<lambda>s. Ok (0, s))
              else
                bindr (kfree path_copy s) (\<lambda>s.
                bindr (get_dentry cur s) (\<lambda>d.
                bindr (inode_get (d_inode d) s) (\<lambda>s. Ok (cur, s))))))))"

text \<open>The parent path and the last component, as \<open>kpath_create\<close>, \<open>kpath_mkdir\<close> and \<open>split_path\<close> cut them.\<close>

definition cut_path :: "string \<Rightarrow> string \<times> string" where
  "cut_path pathname =
     (case split_last (CHR ''/'') pathname of None \<Rightarrow> (''.'', pathname)
      | Some (a, b) \<Rightarrow> (if a = [] then ''/'' else a, b))"

definition zero_dentry :: dentry where
  "zero_dentry = \<lparr>d_name = 0, d_parent = 0, d_inode = 0, d_count = 0\<rparr>"

text \<open>A dentry block with all its members cleared by \<open>memset\<close>.\<close>

definition alloc_dentry :: "'a kobj_scheme \<Rightarrow> (u64 \<times> 'a kobj_scheme) run" where
  "alloc_dentry s =
     bindr (kmalloc SIZEOF_DENTRY (Dentry zero_dentry) s) (\<lambda>(d, s).
       if d = 0 then Ok (0, s)
       else Ok (d, s\<lparr>d_links := INIT_HLIST_NODE d (INIT_HLIST_HEAD d (d_links s))\<rparr>))"

definition make_node :: "(iops \<Rightarrow> u64 \<Rightarrow> u64 \<Rightarrow> 'a kobj_scheme \<Rightarrow> (int \<times> 'a kobj_scheme) run) \<Rightarrow>
    u64 \<Rightarrow> string \<Rightarrow> u64 \<Rightarrow> 'a kobj_scheme \<Rightarrow> (int \<times> u64 \<times> 'a kobj_scheme) run" where
  "make_node op dir name copy s =
     bindr (alloc_dentry s) (\<lambda>(newnode, s).
       if newnode = 0 then bindr (kfree copy s) (\<lambda>s. Ok (- E_NOMEM, 0, s))
       else
         bindr (kstrdup name s) (\<lambda>(np, s).
         bindr (upd_dentry newnode (\<lambda>d. d\<lparr>d_name := np, d_parent := dir\<rparr>) s) (\<lambda>s.
           if np = 0 then
             bindr (kfree newnode s) (\<lambda>s. bindr (kfree copy s) (\<lambda>s. Ok (- E_NOMEM, 0, s)))
           else
             bindr (get_dentry dir s) (\<lambda>dd.
             bindr (get_inode (d_inode dd) s) (\<lambda>di.
             bindr (op (i_op di) (d_inode dd) newnode s) (\<lambda>(ret, s).
               if ret < 0 then
                 bindr (get_dentry newnode s) (\<lambda>nn.
                 bindr (kfree (d_name nn) s) (\<lambda>s.
                 bindr (kfree newnode s) (\<lambda>s.
                 bindr (kfree copy s) (\<lambda>s. Ok (ret, 0, s)))))
               else Ok (ret, newnode, s)))))))"

definition kpath_make :: "(iops \<Rightarrow> u64 \<Rightarrow> u64 \<Rightarrow> 'a kobj_scheme \<Rightarrow> (int \<times> 'a kobj_scheme) run) \<Rightarrow>
    u64 \<Rightarrow> string \<Rightarrow> 'a kobj_scheme \<Rightarrow> (int \<times> 'a kobj_scheme) run" where
  "kpath_make op start pathname s =
     (if start = 0 then Ok (- E_INVAL, s)
      else
        bindr (kstrdup pathname s) (\<lambda>(copy, s).
          if copy = 0 then Ok (- E_NOMEM, s)
          else
            (let (parent_path, name) = cut_path pathname
             in bindr (kpath_lookup start parent_path s) (\<lambda>(dir, s).
                  if dir = 0 then bindr (kfree copy s) (\<lambda>s. Ok (- E_NOENT, s))
                  else
                    bindr (make_node op dir name copy s) (\<lambda>(ret, newnode, s).
                      if newnode = 0 then Ok (ret, s)
                      else bindr (kfree copy s) (\<lambda>s. Ok (ret, s)))))))"

definition kpath_create :: "u64 \<Rightarrow> string \<Rightarrow> u16 \<Rightarrow> bool \<Rightarrow> 'a kobj_scheme \<Rightarrow> (int \<times> 'a kobj_scheme) run" where
  "kpath_create start pathname mode excl s =
     kpath_make (\<lambda>op dir dentry. call_create op dir dentry mode excl) start pathname s"

definition kpath_mkdir :: "u64 \<Rightarrow> string \<Rightarrow> u16 \<Rightarrow> 'a kobj_scheme \<Rightarrow> (int \<times> 'a kobj_scheme) run" where
  "kpath_mkdir start pathname mode s = kpath_make (\<lambda>op dir dentry. call_mkdir op dir dentry mode) start pathname s"

text \<open>
  \<open>kpath_create_force\<close>: every missing component is made, directories on the way and the
  requested node last. On an error the blocks are released as in \<open>kpath_create\<close>.
\<close>

fun create_force_loop :: "u16 \<Rightarrow> bool \<Rightarrow> u64 \<Rightarrow> string list \<Rightarrow> u64 \<Rightarrow> 'a kobj_scheme \<Rightarrow> (int \<times> 'a kobj_scheme) run" where
  "create_force_loop mode excl copy [] cur s = bindr (kfree copy s) (\<lambda>s. Ok (0, s))"
| "create_force_loop mode excl copy (token # ts) cur s =
     (if token = ''.'' then create_force_loop mode excl copy ts cur s
      else
        bindr (get_dentry cur s) (\<lambda>d.
          if token = ''..'' then
            create_force_loop mode excl copy ts (if d_parent d \<noteq> 0 then d_parent d else cur) s
          else
            bindr (get_inode (d_inode d) s) (\<lambda>i.
            bindr (call_lookup (i_op i) (d_inode d) token s) (\<lambda>nx.
              if nx \<noteq> 0 then create_force_loop mode excl copy ts nx s
              else
                bindr (make_node
                         (\<lambda>op dir dentry. if ts = [] then call_create op dir dentry mode excl
                                          else call_mkdir op dir dentry (S_IFDIR OR 0x1ED))
                         cur token copy s) (\<lambda>(ret, newnode, s).
                  if newnode = 0 then Ok (ret, s)
                  else create_force_loop mode excl copy ts newnode s)))))"

definition kpath_create_force :: "u64 \<Rightarrow> string \<Rightarrow> u16 \<Rightarrow> bool \<Rightarrow> 'a kobj_scheme \<Rightarrow> (int \<times> 'a kobj_scheme) run" where
  "kpath_create_force start pathname mode excl s =
     (if start = 0 then Ok (- E_INVAL, s)
      else
        bindr (if pathname \<noteq> [] \<and> hd pathname = CHR ''/'' then Ok (root_dentry s)
               else bindr (get_inode start s) (\<lambda>i. Ok (i_dentry i))) (\<lambda>cur.
        bindr (kstrdup pathname s) (\<lambda>(copy, s).
          if copy = 0 then Ok (- E_NOMEM, s)
          else create_force_loop mode excl copy (path_tokens pathname) cur s)))"

definition kpath_mkdir_force :: "u64 \<Rightarrow> string \<Rightarrow> u16 \<Rightarrow> 'a kobj_scheme \<Rightarrow> (int \<times> 'a kobj_scheme) run" where
  "kpath_mkdir_force start pathname mode s =
     bindr (kpath_create_force start pathname (S_IFDIR OR mode) True s) (\<lambda>(res, s). Ok (0, s))"

text \<open>The dentry \<open>kpath_rmdir\<close> and \<open>path_unlink\<close> fill in has two members set and the rest left as it was.\<close>

definition junk_dentry :: "u64 \<Rightarrow> u64 \<Rightarrow> u64 \<Rightarrow> 'a kobj_scheme \<Rightarrow> dentry" where
  "junk_dentry p name dir s =
     \<lparr>d_name = name, d_parent = dir, d_inode = junk s (p + 16), d_count = ucast (junk s (p + 48))\<rparr>"

definition kpath_rmdir :: "u64 \<Rightarrow> string \<Rightarrow> u64 \<Rightarrow> 'a kobj_scheme \<Rightarrow> (int \<times> 'a kobj_scheme) run" where
  "kpath_rmdir start pathname name s =
     bindr (kpath_lookup start pathname s) (\<lambda>(dir, s).
       if dir = 0 then Ok (- E_NOENT, s)
       else
         bindr (kmalloc SIZEOF_DENTRY (Dentry zero_dentry) s) (\<lambda>(target, s).
           if target = 0 then Ok (- E_NOMEM, s)
           else
             (let s = put target (Dentry (junk_dentry target name dir s)) s
              in bindr (get_dentry dir s) (\<lambda>dd.
                 bindr (get_inode (d_inode dd) s) (\<lambda>di.
                 bindr (call_rmdir (i_op di) (d_inode dd) target s) (\<lambda>(ret, s).
                 bindr (kfree target s) (\<lambda>s. Ok (ret, s))))))))"

definition path_unlink :: "u64 \<Rightarrow> string \<Rightarrow> u64 \<Rightarrow> 'a kobj_scheme \<Rightarrow> (int \<times> 'a kobj_scheme) run" where
  "path_unlink start pathname name s =
     bindr (kpath_lookup start pathname s) (\<lambda>(dir, s).
       if dir = 0 then Ok (- E_NOENT, s)
       else
         bindr (kmalloc SIZEOF_DENTRY (Dentry zero_dentry) s) (\<lambda>(target, s).
           if target = 0 then Ok (- E_NOMEM, s)
           else
             (let s = put target (Dentry (junk_dentry target name dir s)) s
              in bindr (get_dentry dir s) (\<lambda>dd.
                 bindr (get_inode (d_inode dd) s) (\<lambda>di.
                   call_unlink (i_op di) (d_inode dd) target s)))))"

definition path_resolve_start :: "string \<Rightarrow> 'a kobj_scheme \<Rightarrow> u64 run" where
  "path_resolve_start pathname s =
     (if pathname \<noteq> [] \<and> hd pathname = CHR ''/'' then bindr (get_dentry (root_dentry s) s) (\<lambda>d. Ok (d_inode d))
      else bindr (get_pcb (current_process s) s) (\<lambda>p. Ok (cwd_i p)))"

text \<open>\<open>split_path\<close> returns an error, or two new strings.\<close>

definition split_path :: "string \<Rightarrow> 'a kobj_scheme \<Rightarrow> (int \<times> u64 \<times> u64 \<times> 'a kobj_scheme) run" where
  "split_path pathname s =
     bindr (kstrdup pathname s) (\<lambda>(copy, s).
       if copy = 0 then Ok (- E_NOMEM, 0, 0, s)
       else
         (let (parent, name_src) = cut_path pathname
          in bindr (kstrdup parent s) (\<lambda>(parent_path, s).
               if parent_path = 0 then bindr (kfree copy s) (\<lambda>s. Ok (- E_NOMEM, 0, 0, s))
               else if name_src = [] then
                 bindr (kfree copy s) (\<lambda>s. bindr (kfree parent_path s) (\<lambda>s. Ok (- E_INVAL, 0, 0, s)))
               else
                 bindr (kstrdup name_src s) (\<lambda>(name, s).
                 bindr (kfree copy s) (\<lambda>s.
                   if name = 0 then bindr (kfree parent_path s) (\<lambda>s. Ok (- E_NOMEM, 0, 0, s))
                   else Ok (0, parent_path, name, s))))))"

section \<open>The path of a directory entry\<close>

text \<open>
  The two loops of \<open>kpath_reverse\<close> climb to the root; the second writes the components
  into the buffer from its end, which prepends them. \<open>None\<close> is a loop that never ends.
\<close>

partial_function (option) reverse_loop :: "u64 \<Rightarrow> string \<Rightarrow> 'a kobj_scheme \<Rightarrow> string run option" where
  "reverse_loop cur acc s =
     (if cur = 0 then Some (Ok acc)
      else case get_dentry cur s of Stop c \<Rightarrow> Some (Stop c)
        | Ok d \<Rightarrow>
            if d_parent d = 0 then Some (Ok acc)
            else case get_str (d_name d) s of Stop c \<Rightarrow> Some (Stop c)
              | Ok n \<Rightarrow> reverse_loop (d_parent d) (CHR ''/'' # n @ acc) s)"

definition kpath_reverse :: "u64 \<Rightarrow> 'a kobj_scheme \<Rightarrow> (u64 \<times> 'a kobj_scheme) run" where
  "kpath_reverse d s =
     (if d = 0 then Ok (0, s)
      else
        bindr (get_dentry d s) (\<lambda>dd.
          if d_parent dd = 0 then kmalloc 2 (Str ''/'') s
          else case reverse_loop d [] s of None \<Rightarrow> Stop Hang
            | Some r \<Rightarrow> bindr r (\<lambda>pathname. kmalloc (of_nat (length pathname) + 1) (Str pathname) s)))"

section \<open>Ram files by path\<close>

definition k_ramfile_create :: "string \<Rightarrow> u64 \<Rightarrow> u64 \<Rightarrow> u16 \<Rightarrow> bool \<Rightarrow> bool \<Rightarrow> 'a kobj_scheme \<Rightarrow> (int \<times> 'a kobj_scheme) run" where
  "k_ramfile_create pathname start sz mode fixed_size excl s =
     bindr (get_dentry (root_dentry s) s) (\<lambda>rd.
     bindr (kpath_create (d_inode rd) pathname mode excl s) (\<lambda>(res, s).
       if res < 0 then Ok (res, s)
       else
         bindr (kpath_lookup (d_inode rd) pathname s) (\<lambda>(dentry, s).
           if dentry = 0 then Ok (- E_NOENT, s)
           else
             bindr (get_dentry dentry s) (\<lambda>d.
               if d_inode d = 0 then Ok (- E_NOENT, s)
               else
                 bindr (kmalloc SIZEOF_RAMFILE_INFO
                          (RamInfo \<lparr>ri_start = start, ri_size = sz, ri_fixed_size = fixed_size\<rparr>) s) (\<lambda>(info, s).
                   if info = 0 then Ok (- E_NOMEM, s)
                   else
                     bindr (upd_inode (d_inode d) (\<lambda>i. i\<lparr>i_size := sz, i_private := info,
                              i_fop := ram_file_fops, i_op := ram_dir_iops\<rparr>) s) (\<lambda>s. Ok (0, s)))))))"

definition k_ramfile_mkdir :: "string \<Rightarrow> u16 \<Rightarrow> 'a kobj_scheme \<Rightarrow> (int \<times> 'a kobj_scheme) run" where
  "k_ramfile_mkdir pathname mode s =
     bindr (get_dentry (root_dentry s) s) (\<lambda>rd.
     bindr (kpath_mkdir (d_inode rd) pathname mode s) (\<lambda>(res, s).
       if res < 0 then Ok (res, s)
       else
         bindr (kpath_lookup (d_inode rd) pathname s) (\<lambda>(dentry, s).
           if dentry = 0 then Ok (- E_NOENT, s)
           else
             bindr (get_dentry dentry s) (\<lambda>d.
               if d_inode d = 0 then Ok (- E_NOENT, s)
               else
                 bindr (upd_inode (d_inode d) (\<lambda>i. i\<lparr>i_fop := ram_file_fops, i_op := ram_dir_iops\<rparr>) s) (\<lambda>s.
                   Ok (0, s))))))"

end
