(* ===== verification/Fs_Facts.thy ===== *)
theory Fs_Facts
  imports Fs
begin

text \<open>
  The directory tree the object store holds: \<open>dir_tree s D L\<close> says that the entries \<open>D\<close>
  are live dentries with their own inode and name, that their children are the lists
  \<open>L\<close>, and that no directory has two children of the same name. Lookup, path walks,
  creation and removal are described over the tree.
\<close>

lemma find_SomeD: "find P xs = Some x \<Longrightarrow> x \<in> set xs \<and> P x"
  by (induction xs) (auto split: if_splits)

section \<open>The tree\<close>

definition dent :: "'a kobj_scheme \<Rightarrow> u64 \<Rightarrow> dentry" where
  "dent s d = (case get_dentry d s of Ok x \<Rightarrow> x | Stop c \<Rightarrow> zero_dentry)"

definition name_of :: "'a kobj_scheme \<Rightarrow> u64 \<Rightarrow> string" where
  "name_of s d = (case get_str (d_name (dent s d)) s of Ok n \<Rightarrow> n | Stop c \<Rightarrow> [])"

definition inode_of :: "'a kobj_scheme \<Rightarrow> u64 \<Rightarrow> inode" where
  "inode_of s d = (case get_inode (d_inode (dent s d)) s of Ok i \<Rightarrow> i
     | Stop c \<Rightarrow> new_inode \<lparr>i_dentry = 0, i_mode = 0, i_uid = 0, i_gid = 0, i_size = 0, i_count = 0,
                   i_op = NoIops, i_fop = NoFops, i_private = 0\<rparr> 0 0 0 0 0)"

definition entry_ok :: "'a kobj_scheme \<Rightarrow> u64 \<Rightarrow> bool" where
  "entry_ok s d \<longleftrightarrow> d \<noteq> 0 \<and> get_dentry d s = Ok (dent s d) \<and>
     get_inode (d_inode (dent s d)) s = Ok (inode_of s d) \<and> d_inode (dent s d) \<noteq> 0 \<and>
     get_str (d_name (dent s d)) s = Ok (name_of s d) \<and> i_dentry (inode_of s d) = d"

definition dir_tree :: "'a kobj_scheme \<Rightarrow> u64 set \<Rightarrow> (u64 \<Rightarrow> u64 list) \<Rightarrow> bool" where
  "dir_tree s D L \<longleftrightarrow>
     root_dentry s \<in> D \<and> hl_abs D (d_links s) L \<and>
     (\<forall>d \<in> D. entry_ok s d \<and> set (L d) \<subseteq> D \<and> distinct (map (name_of s) (L d)) \<and>
        (\<forall>c \<in> set (L d). d_parent (dent s c) = d) \<and>
        (d_parent (dent s d) \<noteq> 0 \<longrightarrow> d_parent (dent s d) \<in> D))"

lemma dir_tree_entry: "dir_tree s D L \<Longrightarrow> d \<in> D \<Longrightarrow> entry_ok s d"
  unfolding dir_tree_def by blast

lemma dir_tree_links: "dir_tree s D L \<Longrightarrow> hl_abs D (d_links s) L"
  unfolding dir_tree_def by blast

lemma dir_tree_child: "dir_tree s D L \<Longrightarrow> d \<in> D \<Longrightarrow> c \<in> set (L d) \<Longrightarrow> c \<in> D"
  unfolding dir_tree_def by blast

lemma dir_tree_parent:
  "dir_tree s D L \<Longrightarrow> d \<in> D \<Longrightarrow> d_parent (dent s d) \<noteq> 0 \<Longrightarrow> d_parent (dent s d) \<in> D"
  unfolding dir_tree_def by blast

lemma dir_tree_parent_of: "dir_tree s D L \<Longrightarrow> d \<in> D \<Longrightarrow> c \<in> set (L d) \<Longrightarrow> d_parent (dent s c) = d"
  unfolding dir_tree_def by blast

lemma entry_name: "entry_ok s d \<Longrightarrow> dentry_name d s = Ok (name_of s d)"
  by (simp add: entry_ok_def dentry_name_def)

text \<open>Two entries have different inodes.\<close>

lemma entry_inode_inj:
  "entry_ok s d \<Longrightarrow> entry_ok s e \<Longrightarrow> d_inode (dent s d) = d_inode (dent s e) \<Longrightarrow> d = e"
  unfolding entry_ok_def by (metis run.inject(2))

text \<open>The tree depends on the objects of its entries only.\<close>

lemma entry_keep:
  assumes "entry_ok s d" "objs t d = objs s d" "objs t (d_inode (dent s d)) = objs s (d_inode (dent s d))"
    and "objs t (d_name (dent s d)) = objs s (d_name (dent s d))"
  shows "entry_ok t d" "dent t d = dent s d" "name_of t d = name_of s d" "inode_of t d = inode_of s d"
proof -
  have 1: "get_dentry d t = Ok (dent s d)" using assms by (auto simp: entry_ok_def get_dentry_Ok)
  then show d: "dent t d = dent s d" by (simp add: dent_def)
  have 2: "get_str (d_name (dent s d)) t = Ok (name_of s d)" using assms by (auto simp: entry_ok_def get_str_Ok)
  then show n: "name_of t d = name_of s d" by (simp add: name_of_def d)
  have 3: "get_inode (d_inode (dent s d)) t = Ok (inode_of s d)" using assms by (auto simp: entry_ok_def get_inode_Ok)
  then show i: "inode_of t d = inode_of s d" by (simp add: inode_of_def d)
  show "entry_ok t d" using assms(1) 1 2 3 by (simp add: entry_ok_def d i n)
qed

lemma entry_objs:
  assumes "entry_ok s d"
  obtains k k' k'' where "objs s d = Some (k, Dentry (dent s d))"
    "objs s (d_inode (dent s d)) = Some (k', Inode (inode_of s d))"
    "objs s (d_name (dent s d)) = Some (k'', Str (name_of s d))"
  using assms by (auto simp: entry_ok_def get_dentry_Ok get_inode_Ok get_str_Ok)

lemma entry_mono:
  assumes "objs s \<subseteq>\<^sub>m objs t" "entry_ok s d"
  shows "entry_ok t d" "dent t d = dent s d" "name_of t d = name_of s d" "inode_of t d = inode_of s d"
proof -
  have "objs s p = Some x \<Longrightarrow> objs t p = Some x" for p x using assms(1) by (metis domI map_le_def)
  then have "objs t d = objs s d" "objs t (d_inode (dent s d)) = objs s (d_inode (dent s d))"
      "objs t (d_name (dent s d)) = objs s (d_name (dent s d))"
    using entry_objs [OF assms(2)] by metis+
  from entry_keep [OF assms(2) this] show "entry_ok t d" "dent t d = dent s d" "name_of t d = name_of s d"
    "inode_of t d = inode_of s d" by blast+
qed

definition entry_addrs :: "'a kobj_scheme \<Rightarrow> u64 \<Rightarrow> u64 set" where
  "entry_addrs s d = {d, d_inode (dent s d), d_name (dent s d)}"

lemma entry_addrs_live: "entry_ok s d \<Longrightarrow> p \<in> entry_addrs s d \<Longrightarrow> objs s p \<noteq> None"
  by (erule entry_objs) (auto simp: entry_addrs_def)

lemma dir_tree_keep:
  assumes "dir_tree s D L" "\<And>e p. e \<in> D \<Longrightarrow> p \<in> entry_addrs s e \<Longrightarrow> objs t p = objs s p"
    and "d_links t = d_links s" "root_dentry t = root_dentry s"
  shows "dir_tree t D L"
    and "\<And>e. e \<in> D \<Longrightarrow> dent t e = dent s e \<and> name_of t e = name_of s e \<and> inode_of t e = inode_of s e"
proof -
  have e: "entry_ok t d \<and> dent t d = dent s d \<and> name_of t d = name_of s d \<and> inode_of t d = inode_of s d" if "d \<in> D" for d
    using entry_keep [OF dir_tree_entry [OF assms(1) that], of t] assms(2) [OF that] by (simp add: entry_addrs_def)
  then show "dent t e = dent s e \<and> name_of t e = name_of s e \<and> inode_of t e = inode_of s e" if "e \<in> D" for e
    using that by blast
  have "distinct (map (name_of t) (L d))" if "d \<in> D" for d
  proof -
    have "map (name_of t) (L d) = map (name_of s) (L d)"
      using that e dir_tree_child [OF assms(1)] by simp
    then show ?thesis using assms(1) that unfolding dir_tree_def by (simp del: map_eq_conv)
  qed
  moreover have "d_parent (dent t c) = d" if "d \<in> D" "c \<in> set (L d)" for c d
    using assms(1) that e [OF dir_tree_child [OF assms(1) that]] unfolding dir_tree_def by simp
  ultimately show "dir_tree t D L"
    using assms(1,3,4) e unfolding dir_tree_def by simp
qed

lemma dir_tree_mono:
  assumes "dir_tree s D L" "objs s \<subseteq>\<^sub>m objs t" "d_links t = d_links s" "root_dentry t = root_dentry s"
  shows "dir_tree t D L"
proof (rule dir_tree_keep [OF assms(1) _ assms(3,4)])
  fix e p assume "e \<in> D" "p \<in> entry_addrs s e"
  then have "objs s p \<noteq> None" using entry_addrs_live dir_tree_entry [OF assms(1)] by blast
  then show "objs t p = objs s p" using assms(2) by (metis domIff map_le_def)
qed

section \<open>Lookup\<close>

definition child :: "'a kobj_scheme \<Rightarrow> (u64 \<Rightarrow> u64 list) \<Rightarrow> u64 \<Rightarrow> string \<Rightarrow> u64" where
  "child s L d n = (case find (\<lambda>c. n = name_of s c) (L d) of None \<Rightarrow> 0 | Some c \<Rightarrow> c)"

lemma vfs_lookup_tree:
  assumes "dir_tree s D L" "d \<in> D"
  shows "vfs_lookup (d_inode (dent s d)) n s = Ok (child s L d n)"
proof -
  have d: "get_inode (d_inode (dent s d)) s = Ok (inode_of s d)" "i_dentry (inode_of s d) = d"
      "get_dentry d s = Ok (dent s d)"
    using dir_tree_entry [OF assms] by (auto simp: entry_ok_def)
  have "hlist_find (\<lambda>pos. bindr (dentry_name pos s) (\<lambda>m. Ok (n = m))) d (d_links s) =
      Ok (case find (\<lambda>c. n = name_of s c) (L d) of None \<Rightarrow> 0 | Some c \<Rightarrow> c)"
  proof (rule hlist_find_abs [OF dir_tree_links [OF assms(1)] assms(2)])
    fix c assume "c \<in> set (L d)"
    then have "entry_ok s c" using dir_tree_child [OF assms] dir_tree_entry [OF assms(1)] by blast
    then show "bindr (dentry_name c s) (\<lambda>m. Ok (n = m)) = Ok (n = name_of s c)" by (simp add: entry_name)
  qed
  then show ?thesis using d by (simp add: vfs_lookup_def child_def)
qed

lemma child_in:
  assumes "child s L d n \<noteq> 0"
  shows "child s L d n \<in> set (L d)" "name_of s (child s L d n) = n"
  using assms unfolding child_def by (auto dest: find_SomeD split: option.splits)

lemma child_zero:
  assumes "dir_tree s D L" "d \<in> D"
  shows "child s L d n = 0 \<longleftrightarrow> n \<notin> name_of s ` set (L d)"
proof
  assume "child s L d n = 0"
  show "n \<notin> name_of s ` set (L d)"
  proof
    assume "n \<in> name_of s ` set (L d)"
    then have "find (\<lambda>c. n = name_of s c) (L d) \<noteq> None" by (auto simp: find_None_iff)
    then obtain c where c: "find (\<lambda>c. n = name_of s c) (L d) = Some c" by blast
    then have "c = 0" "c \<in> set (L d)"
      using \<open>child s L d n = 0\<close> find_SomeD [OF c] unfolding child_def by simp_all
    then show False using hl_abs_nonzero [OF dir_tree_links [OF assms(1)] assms(2)] by blast
  qed
next
  assume "n \<notin> name_of s ` set (L d)"
  then have "find (\<lambda>c. n = name_of s c) (L d) = None" by (auto simp: find_None_iff)
  then show "child s L d n = 0" by (simp add: child_def)
qed

lemma child_D: "dir_tree s D L \<Longrightarrow> d \<in> D \<Longrightarrow> child s L d n \<noteq> 0 \<Longrightarrow> child s L d n \<in> D"
  using dir_tree_child [of s D L d "child s L d n"] child_in(1) [of s L d n] by blast

text \<open>Names are unique, so the lookup finds every child.\<close>

lemma child_unique:
  assumes "dir_tree s D L" "d \<in> D" "c \<in> set (L d)"
  shows "child s L d (name_of s c) = c"
proof -
  let ?x = "child s L d (name_of s c)"
  have "?x \<noteq> 0" using child_zero [OF assms(1,2)] assms(3) by blast
  then have "?x \<in> set (L d)" "name_of s ?x = name_of s c" by (rule child_in)+
  moreover have "inj_on (name_of s) (set (L d))"
    using assms(1,2) unfolding dir_tree_def by (simp add: distinct_map)
  ultimately show ?thesis using assms(3) by (metis inj_onD)
qed

section \<open>Walks\<close>

text \<open>
  A path resolved on the tree: \<open>Ok 0\<close> when a component is missing, \<open>BadPointer\<close> when a
  component is looked up in an entry without inode operations.
\<close>

fun tree_walk :: "'a kobj_scheme \<Rightarrow> (u64 \<Rightarrow> u64 list) \<Rightarrow> string list \<Rightarrow> u64 \<Rightarrow> u64 run" where
  "tree_walk s L [] d = Ok d"
| "tree_walk s L (t # ts) d =
     (if t = ''.'' then tree_walk s L ts d
      else if t = ''..'' then tree_walk s L ts (if d_parent (dent s d) \<noteq> 0 then d_parent (dent s d) else d)
      else if i_op (inode_of s d) = NoIops then Stop BadPointer
      else if child s L d t = 0 then Ok 0 else tree_walk s L ts (child s L d t))"

lemma walk_tree:
  assumes "dir_tree s D L" "d \<in> D"
  shows "path_walk ts d s = tree_walk s L ts d"
  using assms(2)
proof (induction ts arbitrary: d)
  case (Cons t ts)
  have e: "get_dentry d s = Ok (dent s d)" "get_inode (d_inode (dent s d)) s = Ok (inode_of s d)"
    using dir_tree_entry [OF assms(1) Cons.prems] by (auto simp: entry_ok_def)
  have up: "(if d_parent (dent s d) \<noteq> 0 then d_parent (dent s d) else d) \<in> D"
    using dir_tree_parent [OF assms(1) Cons.prems] Cons.prems by simp
  have down: "child s L d t \<noteq> 0 \<Longrightarrow> child s L d t \<in> D"
    by (rule child_D [OF assms(1) Cons.prems])
  have look: "call_lookup (i_op (inode_of s d)) (d_inode (dent s d)) t s =
      (if i_op (inode_of s d) = NoIops then Stop BadPointer else Ok (child s L d t))"
    by (cases "i_op (inode_of s d)") (simp_all add: vfs_lookup_tree [OF assms(1) Cons.prems])
  show ?case using Cons.IH [OF Cons.prems] Cons.IH [OF up] Cons.IH [OF down] e look by auto
qed simp

lemma tree_walk_in:
  assumes "dir_tree s D L" "d \<in> D" "tree_walk s L ts d = Ok e" "e \<noteq> 0"
  shows "e \<in> D"
  using assms(2,3)
proof (induction ts arbitrary: d)
  case (Cons t ts)
  have up: "(if d_parent (dent s d) \<noteq> 0 then d_parent (dent s d) else d) \<in> D"
    using dir_tree_parent [OF assms(1) Cons.prems(1)] Cons.prems by simp
  have down: "child s L d t \<noteq> 0 \<Longrightarrow> child s L d t \<in> D"
    by (rule child_D [OF assms(1) Cons.prems(1)])
  show ?case using Cons.prems(2) assms(4) Cons.IH [OF Cons.prems(1)] Cons.IH [OF up] Cons.IH [OF down]
    by (auto split: if_splits)
qed simp

lemma tree_walk_append:
  assumes "tree_walk s L ts d = Ok e" "e \<noteq> 0" "0 \<notin> D" "dir_tree s D L" "d \<in> D"
  shows "tree_walk s L (ts @ us) d = tree_walk s L us e"
  using assms(1,5)
proof (induction ts arbitrary: d)
  case (Cons t ts)
  have up: "(if d_parent (dent s d) \<noteq> 0 then d_parent (dent s d) else d) \<in> D"
    using dir_tree_parent [OF assms(4) Cons.prems(2)] Cons.prems by simp
  have down: "child s L d t \<noteq> 0 \<Longrightarrow> child s L d t \<in> D"
    by (rule child_D [OF assms(4) Cons.prems(2)])
  show ?case using Cons.prems(1) assms(2) Cons.IH [OF _ Cons.prems(2)] Cons.IH [OF _ up] Cons.IH [OF _ down]
    by (auto split: if_splits)
qed simp

text \<open>Walks in two states with the same entries are the same.\<close>

definition same_entries :: "u64 set \<Rightarrow> 'a kobj_scheme \<Rightarrow> 'a kobj_scheme \<Rightarrow> bool" where
  "same_entries D s t \<longleftrightarrow> (\<forall>d \<in> D. dent t d = dent s d \<and> name_of t d = name_of s d \<and>
     i_op (inode_of t d) = i_op (inode_of s d))"

lemma child_same:
  assumes "dir_tree s D L" "d \<in> D" "same_entries D s t"
  shows "child t L d n = child s L d n"
proof -
  have "find (\<lambda>c. n = name_of t c) (L d) = find (\<lambda>c. n = name_of s c) (L d)"
    by (rule find_cong) (use assms dir_tree_child [OF assms(1,2)] in \<open>auto simp: same_entries_def\<close>)
  then show ?thesis by (simp add: child_def)
qed

lemma tree_walk_same:
  assumes "dir_tree s D L" "d \<in> D" "same_entries D s t"
  shows "tree_walk t L ts d = tree_walk s L ts d"
  using assms(2)
proof (induction ts arbitrary: d)
  case (Cons x ts)
  have up: "(if d_parent (dent s d) \<noteq> 0 then d_parent (dent s d) else d) \<in> D"
    using dir_tree_parent [OF assms(1) Cons.prems] Cons.prems by simp
  have down: "child s L d x \<noteq> 0 \<Longrightarrow> child s L d x \<in> D" by (rule child_D [OF assms(1) Cons.prems])
  have "dent t d = dent s d" "i_op (inode_of t d) = i_op (inode_of s d)"
    using assms(3) Cons.prems by (auto simp: same_entries_def)
  then show ?case
    using Cons.IH [OF Cons.prems] Cons.IH [OF up] Cons.IH [OF down] child_same [OF assms(1) Cons.prems assms(3), of x]
    by auto
qed simp

lemma same_entries_mono:
  assumes "dir_tree s D L" "objs s \<subseteq>\<^sub>m objs t"
  shows "same_entries D s t"
  unfolding same_entries_def using entry_mono [OF assms(2) dir_tree_entry [OF assms(1)]] by simp

section \<open>Reference counts\<close>

text \<open>Replacing the inode of an entry by one with the same owner.\<close>

definition set_inode :: "u64 \<Rightarrow> inode \<Rightarrow> 'a kobj_scheme \<Rightarrow> 'a kobj_scheme" where
  "set_inode d i s = put (d_inode (dent s d)) (Inode i) s"

lemma entry_set_inode:
  assumes "entry_ok s d" "entry_ok s e" "i_dentry i = d"
  shows "entry_ok (set_inode d i s) e" "dent (set_inode d i s) e = dent s e"
    "name_of (set_inode d i s) e = name_of s e" "inode_of (set_inode d i s) e = (if e = d then i else inode_of s e)"
proof -
  let ?t = "set_inode d i s"
  obtain k where ip: "objs s (d_inode (dent s d)) = Some (k, Inode (inode_of s d))"
    using assms(1) by (auto simp: entry_ok_def get_inode_Ok)
  have t: "objs ?t = (objs s)(d_inode (dent s d) \<mapsto> (k, Inode i))"
    using ip by (simp add: set_inode_def put_def)
  have 1: "get_dentry e ?t = Ok (dent s e)" using assms(2) ip t by (auto simp: entry_ok_def get_dentry_Ok)
  then show d: "dent ?t e = dent s e" by (simp add: dent_def)
  have 2: "get_str (d_name (dent s e)) ?t = Ok (name_of s e)"
    using assms(2) ip t by (auto simp: entry_ok_def get_str_Ok)
  then show n: "name_of ?t e = name_of s e" by (simp add: name_of_def d)
  have 3: "get_inode (d_inode (dent s e)) ?t = Ok (if e = d then i else inode_of s e)"
    using assms(2) t entry_inode_inj [OF assms(2,1)] by (auto simp: entry_ok_def get_inode_Ok)
  then show i: "inode_of ?t e = (if e = d then i else inode_of s e)" by (simp add: inode_of_def d)
  show "entry_ok ?t e" using assms 1 2 3 by (simp add: entry_ok_def d i n)
qed

lemma dir_tree_set_inode:
  assumes "dir_tree s D L" "d \<in> D" "i_dentry i = d"
  shows "dir_tree (set_inode d i s) D L"
proof -
  let ?t = "set_inode d i s"
  have e: "entry_ok ?t e" "dent ?t e = dent s e" "name_of ?t e = name_of s e" if "e \<in> D" for e
    using entry_set_inode [OF dir_tree_entry [OF assms(1,2)] dir_tree_entry [OF assms(1) that] assms(3)] by blast+
  have "distinct (map (name_of ?t) (L e))" if "e \<in> D" for e
  proof -
    have "map (name_of ?t) (L e) = map (name_of s) (L e)"
      using that e(3) dir_tree_child [OF assms(1)] by simp
    then show ?thesis using assms(1) that unfolding dir_tree_def by (simp del: map_eq_conv)
  qed
  moreover have "d_parent (dent ?t c) = e" if "e \<in> D" "c \<in> set (L e)" for c e
    using assms(1) that e(2) [OF dir_tree_child [OF assms(1) that]] unfolding dir_tree_def by simp
  moreover have "d_links ?t = d_links s" "root_dentry ?t = root_dentry s"
    by (simp_all add: set_inode_def put_def)
  ultimately show ?thesis using assms(1) e(1,2) unfolding dir_tree_def by simp
qed

definition ref_up :: "u64 \<Rightarrow> 'a kobj_scheme \<Rightarrow> 'a kobj_scheme" where
  "ref_up d s = set_inode d (inode_of s d\<lparr>i_count := i_count (inode_of s d) + 1\<rparr>) s"

lemma dir_tree_ref_up: "dir_tree s D L \<Longrightarrow> d \<in> D \<Longrightarrow> dir_tree (ref_up d s) D L"
  unfolding ref_up_def using dir_tree_entry [of s D L d]
  by (intro dir_tree_set_inode) (auto simp: entry_ok_def)

lemma same_entries_ref_up:
  assumes "dir_tree s D L" "d \<in> D"
  shows "same_entries D s (ref_up d s)"
proof -
  have "i_dentry (inode_of s d\<lparr>i_count := i_count (inode_of s d) + 1\<rparr>) = d"
    using dir_tree_entry [OF assms] by (simp add: entry_ok_def)
  then show ?thesis unfolding same_entries_def ref_up_def
    using entry_set_inode [OF dir_tree_entry [OF assms] dir_tree_entry [OF assms(1)]] by simp
qed

lemma inode_get_entry:
  "entry_ok s d \<Longrightarrow> inode_get (d_inode (dent s d)) s = Ok (ref_up d s)"
  by (simp add: inode_get_def upd_inode_def ref_up_def set_inode_def entry_ok_def)

section \<open>Path lookup\<close>

definition str_fits :: "string \<Rightarrow> bool" where
  "str_fits n \<longleftrightarrow> length n < 2 ^ 64 - 1"

lemma str_fits_size: "str_fits n \<Longrightarrow> of_nat (length n) + 1 \<noteq> (0 :: u64)"
proof
  assume "str_fits n" "of_nat (length n) + 1 = (0 :: u64)"
  then have "of_nat (Suc (length n)) = (0 :: u64)" by (simp add: add.commute)
  then have "unat (of_nat (Suc (length n)) :: u64) = 0" by simp
  then show False using \<open>str_fits n\<close> by (simp add: str_fits_def unat_of_nat_u64 del: of_nat_Suc)
qed

lemma kstrdup_granted:
  "granted s a as \<Longrightarrow> str_fits n \<Longrightarrow> kstrdup n s = Ok (a, s\<lparr>answers := as, objs := (objs s)(a \<mapsto> (Block, Str n))\<rparr>)"
  unfolding kstrdup_def by (rule kalloc_granted) (use str_fits_size in auto)

lemma kpath_lookup_tree:
  assumes "dir_tree s D L" "d \<in> D" "granted s a as" "str_fits p"
  shows "kpath_lookup (d_inode (dent s d)) p s =
    (case tree_walk s L (path_tokens p) d of Stop c \<Rightarrow> Stop c
     | Ok e \<Rightarrow> if e = 0 then Ok (0, s\<lparr>answers := as\<rparr>) else Ok (e, ref_up e (s\<lparr>answers := as\<rparr>)))"
proof -
  define s1 where "s1 = s\<lparr>answers := as, objs := (objs s)(a \<mapsto> (Block, Str p))\<rparr>"
  define s2 where "s2 = s\<lparr>answers := as\<rparr>"
  have a: "objs s a = None" "a \<noteq> 0" "heap_lock s = 0" using assms(3) by (auto simp: granted_def)
  have le: "objs s \<subseteq>\<^sub>m objs s1" using a by (auto simp: s1_def map_le_def)
  have tree1: "dir_tree s1 D L" by (rule dir_tree_mono [OF assms(1) le]) (simp_all add: s1_def)
  have tree2: "dir_tree s2 D L" by (rule dir_tree_mono [OF assms(1)]) (simp_all add: s2_def)
  have same1: "same_entries D s s1" by (rule same_entries_mono [OF assms(1) le])
  have same2: "same_entries D s s2" by (rule same_entries_mono [OF assms(1)]) (simp add: s2_def)
  have walk: "path_walk (path_tokens p) d s1 = tree_walk s L (path_tokens p) d"
    by (simp add: walk_tree [OF tree1 assms(2)] tree_walk_same [OF assms(1,2) same1])
  have dup: "kstrdup p s = Ok (a, s1)" unfolding s1_def by (rule kstrdup_granted [OF assms(3,4)])
  have start: "d_inode (dent s d) \<noteq> 0" "get_inode (d_inode (dent s d)) s1 = Ok (inode_of s1 d)" "i_dentry (inode_of s1 d) = d"
    using dir_tree_entry [OF tree1 assms(2)] same1 assms(2) by (auto simp: entry_ok_def same_entries_def)
  have free: "kfree a s1 = Ok s2"
    using a kfree_block [of s1 a "Str p"] by (simp add: s1_def s2_def fun_upd_idem)
  show ?thesis
  proof (cases "tree_walk s L (path_tokens p) d")
    case (Stop c)
    then show ?thesis using start dup walk a by (simp add: kpath_lookup_def)
  next
    case (Ok e)
    show ?thesis
    proof (cases "e = 0")
      case True
      then show ?thesis using Ok start dup walk free a by (simp add: kpath_lookup_def s2_def)
    next
      case False
      have "e \<in> D" by (rule tree_walk_in [OF assms(1,2) Ok False])
      then have e: "entry_ok s2 e" by (rule dir_tree_entry [OF tree2])
      then have "get_dentry e s2 = Ok (dent s2 e)" by (simp add: entry_ok_def)
      then show ?thesis using Ok False start dup walk free a inode_get_entry [OF e]
        by (simp add: kpath_lookup_def s2_def)
    qed
  qed
qed

section \<open>Creation\<close>

text \<open>The state after \<open>vfs_create\<close> has filled in the inode at \<open>a\<close> and linked the entry \<open>x\<close> below \<open>d\<close>.\<close>

definition attach :: "u64 \<Rightarrow> u64 \<Rightarrow> origin \<Rightarrow> dentry \<Rightarrow> u64 \<Rightarrow> inode \<Rightarrow> 'a kobj_scheme \<Rightarrow> 'a kobj_scheme" where
  "attach d x k xd a i s =
     s\<lparr>objs := (objs s)(a \<mapsto> (Block, Inode i), x \<mapsto> (k, Dentry (xd\<lparr>d_inode := a\<rparr>))),
       d_links := hlist_add_head x d (INIT_HLIST_NODE x (INIT_HLIST_HEAD x (d_links s)))\<rparr>"

lemma attach_entries:
  assumes "dir_tree s D L" "x \<notin> D" "objs s x = Some (k, Dentry xd)" "objs s a = None" "e \<in> D"
  shows "entry_ok (attach d x k xd a i s) e" "dent (attach d x k xd a i s) e = dent s e"
    "name_of (attach d x k xd a i s) e = name_of s e" "inode_of (attach d x k xd a i s) e = inode_of s e"
proof -
  let ?t = "attach d x k xd a i s"
  have e: "entry_ok s e" by (rule dir_tree_entry [OF assms(1,5)])
  from e obtain k1 k2 k3 where ob: "objs s e = Some (k1, Dentry (dent s e))"
      "objs s (d_inode (dent s e)) = Some (k2, Inode (inode_of s e))"
      "objs s (d_name (dent s e)) = Some (k3, Str (name_of s e))"
    by (rule entry_objs)
  have "objs ?t e = objs s e" "objs ?t (d_inode (dent s e)) = objs s (d_inode (dent s e))"
      "objs ?t (d_name (dent s e)) = objs s (d_name (dent s e))"
    using ob assms(2,3,4,5) by (auto simp: attach_def)
  from entry_keep [OF e this] show "entry_ok ?t e" "dent ?t e = dent s e" "name_of ?t e = name_of s e"
    "inode_of ?t e = inode_of s e" by blast+
qed

lemma attach_new:
  assumes "objs s x = Some (k, Dentry xd)" "objs s (d_name xd) = Some (k', Str n)" "objs s a = None"
    and "x \<noteq> 0" "a \<noteq> 0" "i_dentry i = x"
  shows "entry_ok (attach d x k xd a i s) x" "dent (attach d x k xd a i s) x = xd\<lparr>d_inode := a\<rparr>"
    "name_of (attach d x k xd a i s) x = n" "inode_of (attach d x k xd a i s) x = i"
proof -
  let ?t = "attach d x k xd a i s"
  have ax: "a \<noteq> x" "d_name xd \<noteq> x" "d_name xd \<noteq> a" using assms by auto
  have 1: "get_dentry x ?t = Ok (xd\<lparr>d_inode := a\<rparr>)" by (simp add: attach_def get_dentry_def)
  then show d: "dent ?t x = xd\<lparr>d_inode := a\<rparr>" by (simp add: dent_def)
  have 2: "get_str (d_name xd) ?t = Ok n" using ax assms by (simp add: attach_def get_str_def)
  then show n: "name_of ?t x = n" by (simp add: name_of_def d)
  have 3: "get_inode a ?t = Ok i" using ax by (simp add: attach_def get_inode_def)
  then show i: "inode_of ?t x = i" by (simp add: inode_of_def d)
  show "entry_ok ?t x" using 1 2 3 assms by (simp add: entry_ok_def d i n)
qed

lemma dir_tree_attach:
  assumes "dir_tree s D L" "d \<in> D" "x \<notin> D" "x \<noteq> 0" "a \<noteq> 0" "objs s a = None" "i_dentry i = x"
    and "objs s x = Some (k, Dentry xd)" "objs s (d_name xd) = Some (k', Str n)" "d_parent xd = d"
    and "n \<notin> name_of s ` set (L d)"
  shows "dir_tree (attach d x k xd a i s) (insert x D) (L(x := [], d := x # L d))"
proof -
  let ?t = "attach d x k xd a i s" and ?L = "L(x := [], d := x # L d)"
  note old = attach_entries [OF assms(1,3,8,6), where d = d and i = i]
  note new = attach_new [OF assms(8,9,6,4,5,7), where d = d]
  have dx: "d \<noteq> x" using assms(2,3) by blast
  have sub: "set (L e) \<subseteq> D" if "e \<in> D" for e using assms(1) that unfolding dir_tree_def by blast
  have "hl_abs (insert x D) (INIT_HLIST_HEAD x (d_links s)) (L(x := []))"
    by (rule hl_abs_init_head [OF dir_tree_links [OF assms(1)] assms(3)])
  then have "hl_abs (insert x D) (INIT_HLIST_NODE x (INIT_HLIST_HEAD x (d_links s))) (L(x := []))"
    by (rule hl_abs_init_node) (use sub assms(3) in auto)
  then have "hl_abs (insert x D) (hlist_add_head x d (INIT_HLIST_NODE x (INIT_HLIST_HEAD x (d_links s))))
      ((L(x := []))(d := x # (L(x := [])) d))"
    by (rule hl_abs_add) (use sub assms(2,3,4) in auto)
  then have links: "hl_abs (insert x D) (d_links ?t) ?L" using dx by (simp add: attach_def)
  have names: "distinct (map (name_of ?t) (?L e))" if "e \<in> insert x D" for e
  proof (cases "e = x")
    case True
    then show ?thesis using dx by simp
  next
    case False
    then have e: "e \<in> D" using that by simp
    have eq: "map (name_of ?t) (L e) = map (name_of s) (L e)" using sub [OF e] old(3) by auto
    moreover from this have "name_of ?t ` set (L e) = name_of s ` set (L e)" by (metis list.set_map)
    moreover have "distinct (map (name_of s) (L e))" using assms(1) e unfolding dir_tree_def by blast
    ultimately show ?thesis using False assms(11) new(3) by (cases "e = d") (simp_all del: map_eq_conv)
  qed
  have par: "d_parent (dent ?t c) = e" if "e \<in> insert x D" "c \<in> set (?L e)" for c e
  proof (cases "c = x")
    case True
    then show ?thesis using that new(2) assms(3,10) sub by (auto split: if_splits)
  next
    case False
    then have ce: "e \<in> D" "c \<in> set (L e)" using that dx by (auto split: if_splits)
    then show ?thesis
      using dir_tree_parent_of [OF assms(1) ce] old(2) [OF subsetD [OF sub [OF ce(1)] ce(2)]] by simp
  qed
  have up: "d_parent (dent ?t e) \<in> insert x D" if "e \<in> insert x D" "d_parent (dent ?t e) \<noteq> 0" for e
    using that new(2) old(2) assms(2,10) dir_tree_parent [OF assms(1)] by (cases "e = x") auto
  have "root_dentry ?t \<in> insert x D" using assms(1) unfolding dir_tree_def attach_def by simp
  moreover have "set (?L e) \<subseteq> insert x D" if "e \<in> insert x D" for e using that sub assms(2) by auto
  moreover have "entry_ok ?t e" if "e \<in> insert x D" for e using that old(1) new(1) by auto
  ultimately show ?thesis unfolding dir_tree_def using links names par up by simp
qed

lemma vfs_create_fresh:
  assumes "dir_tree s D L" "d \<in> D" "granted s a as" "x \<noteq> a" "current_ids s = Ok (uid, gid)"
    and "objs s x = Some (k, Dentry xd)" "objs s (d_name xd) = Some (k', Str n)" "n \<notin> name_of s ` set (L d)"
  shows "vfs_create (d_inode (dent s d)) x mode excl s =
    Ok (0, attach d x k xd a (new_inode (inode_of s d) mode uid gid x (junk s (a + 24))) (s\<lparr>answers := as\<rparr>))"
proof -
  have d: "get_inode (d_inode (dent s d)) s = Ok (inode_of s d)" "i_dentry (inode_of s d) = d"
      "get_dentry d s = Ok (dent s d)"
    using dir_tree_entry [OF assms(1,2)] by (auto simp: entry_ok_def)
  have nm: "dentry_name x s = Ok n" using assms(6,7) by (simp add: dentry_name_def get_dentry_def get_str_def)
  have none: "hlist_find (\<lambda>pos. bindr (dentry_name pos s) (\<lambda>a. bindr (dentry_name x s) (\<lambda>b. Ok (a = b)))) d (d_links s) =
      Ok (case find (\<lambda>c. name_of s c = n) (L d) of None \<Rightarrow> 0 | Some c \<Rightarrow> c)"
  proof (rule hlist_find_abs [OF dir_tree_links [OF assms(1)] assms(2)])
    fix c assume "c \<in> set (L d)"
    then have "entry_ok s c" using dir_tree_child [OF assms(1,2)] dir_tree_entry [OF assms(1)] by blast
    then show "bindr (dentry_name c s) (\<lambda>a. bindr (dentry_name x s) (\<lambda>b. Ok (a = b))) = Ok (name_of s c = n)"
      by (simp add: entry_name nm)
  qed
  have "find (\<lambda>c. name_of s c = n) (L d) = None" using assms(8) by (auto simp: find_None_iff)
  with none have none: "hlist_find (\<lambda>pos. bindr (dentry_name pos s) (\<lambda>a. bindr (dentry_name x s) (\<lambda>b. Ok (a = b)))) d (d_links s) = Ok 0"
    by simp
  have a: "objs s a = None" "a \<noteq> 0" using assms(3) by (auto simp: granted_def)
  have ids: "current_ids (s\<lparr>answers := as, objs := (objs s)(a \<mapsto> ob)\<rparr>) = Ok (uid, gid)" for ob
    using assms(5) a by (auto simp: current_ids_def get_pcb_Ok run_simps split: if_splits)
  show ?thesis
    using d none kalloc_granted [OF assms(3), of SIZEOF_INODE] a assms(4,6)
    by (simp add: vfs_create_def SIZEOF_INODE_def ids Let_def put_def upd_dentry_def get_dentry_def attach_def fun_upd_twist)
qed

section \<open>Creation by path\<close>

text \<open>The next \<open>n\<close> requests are granted, each with an address of its own.\<close>

definition plenty :: "nat \<Rightarrow> 'a kobj_scheme \<Rightarrow> bool" where
  "plenty n s \<longleftrightarrow> heap_lock s = 0 \<and> n \<le> length (answers s) \<and> distinct (take n (answers s)) \<and>
     (\<forall>a \<in> set (take n (answers s)). a \<noteq> 0 \<and> objs s a = None)"

lemma plenty_Suc:
  fixes s :: "'a kobj_scheme"
  assumes "plenty (Suc n) s"
  obtains a as where "granted s a as" "a \<notin> set (take n as)"
    "\<forall>t :: 'a kobj_scheme. heap_lock t = 0 \<and> answers t = as \<and> (\<forall>p. p \<noteq> a \<and> objs s p = None \<longrightarrow> objs t p = None) \<longrightarrow> plenty n t"
proof -
  from assms obtain a as where ans: "answers s = a # as" by (cases "answers s") (auto simp: plenty_def)
  show thesis
  proof (rule that [of a as])
    show g: "granted s a as" and out: "a \<notin> set (take n as)" using assms ans by (auto simp: plenty_def granted_def)
    have old: "distinct (take n as)" "n \<le> length as" "\<And>b. b \<in> set (take n as) \<Longrightarrow> b \<noteq> 0 \<and> objs s b = None"
      using assms ans by (auto simp: plenty_def)
    show "\<forall>t :: 'a kobj_scheme. heap_lock t = 0 \<and> answers t = as \<and>
        (\<forall>p. p \<noteq> a \<and> objs s p = None \<longrightarrow> objs t p = None) \<longrightarrow> plenty n t"
    proof (intro allI impI, elim conjE)
      fix t :: "'a kobj_scheme"
      assume t: "heap_lock t = 0" "answers t = as" "\<forall>p. p \<noteq> a \<and> objs s p = None \<longrightarrow> objs t p = None"
      have "objs t b = None" if "b \<in> set (take n as)" for b
        using t(3) that out old(3) by (metis (full_types))
      then show "plenty n t" using t(1,2) old by (simp add: plenty_def)
    qed
  qed
qed

lemma cut_path_fits:
  assumes "cut_path p = (pp, n)" "str_fits p"
  shows "str_fits pp" "str_fits n"
proof -
  have "length pp \<le> max 1 (length p) \<and> length n \<le> length p"
  proof (cases "split_last (CHR ''/'') p")
    case None
    then show ?thesis using assms(1) by (auto simp: cut_path_def)
  next
    case (Some ab)
    then obtain a b where ab: "split_last (CHR ''/'') p = Some (a, b)" by (cases ab) auto
    then have "p = a @ CHR ''/'' # b" by (rule split_last_Some)
    then show ?thesis using assms(1) ab by (auto simp: cut_path_def split: if_splits)
  qed
  then show "str_fits pp" "str_fits n" using assms(2) by (auto simp: str_fits_def)
qed

text \<open>
  A new entry \<open>n\<close> below \<open>d\<close>, with the calls of the operation table already resolved to
  \<open>vfs_create\<close>: the path copies are released, the tree has one more leaf, and every other
  entry keeps its name, its place and its operations.
\<close>

lemma alloc_dentry_granted:
  assumes "granted s a as"
  shows "alloc_dentry s = Ok (a, s\<lparr>answers := as, objs := (objs s)(a \<mapsto> (Block, Dentry zero_dentry)),
    d_links := INIT_HLIST_NODE a (INIT_HLIST_HEAD a (d_links s))\<rparr>)"
  using kalloc_granted [OF assms, of SIZEOF_DENTRY] assms
  by (simp add: alloc_dentry_def SIZEOF_DENTRY_def granted_def)

lemma same_entries_trans: "same_entries D s t \<Longrightarrow> same_entries D t u \<Longrightarrow> same_entries D s u"
  by (simp add: same_entries_def)

lemma dir_tree_links_outside:
  assumes "dir_tree s D L" "x \<notin> D"
  shows "dir_tree (s\<lparr>d_links := INIT_HLIST_NODE x (INIT_HLIST_HEAD x (d_links s))\<rparr>) D L"
    (is "dir_tree ?t D L")
proof -
  have sub: "set (L e) \<subseteq> D" if "e \<in> D" for e using assms(1) that unfolding dir_tree_def by blast
  have "hl_abs (insert x D) (INIT_HLIST_HEAD x (d_links s)) (L(x := []))"
    by (rule hl_abs_init_head [OF dir_tree_links [OF assms(1)] assms(2)])
  then have "hl_abs (insert x D) (INIT_HLIST_NODE x (INIT_HLIST_HEAD x (d_links s))) (L(x := []))"
    by (rule hl_abs_init_node) (use sub assms(2) in auto)
  then have "hl_abs D (INIT_HLIST_NODE x (INIT_HLIST_HEAD x (d_links s))) (L(x := []))"
    by (rule hl_abs_subset) blast
  moreover have "hl_abs D m (L(x := [])) \<longleftrightarrow> hl_abs D m L" for m
    by (rule hl_abs_cong) (use assms(2) in auto)
  ultimately have links: "hl_abs D (d_links ?t) L" by simp
  have "dent ?t e = dent s e" "name_of ?t e = name_of s e" "entry_ok ?t e = entry_ok s e" for e
    by (simp_all add: dent_def name_of_def inode_of_def entry_ok_def get_dentry_def get_str_def get_inode_def)
  then have "dent ?t = dent s" "name_of ?t = name_of s" "entry_ok ?t = entry_ok s" by (simp_all add: fun_eq_iff)
  then show ?thesis using assms(1) links unfolding dir_tree_def by simp
qed

lemma current_ids_mono:
  assumes "current_ids s = Ok r" "objs s \<subseteq>\<^sub>m objs t" "current_process t = current_process s"
  shows "current_ids t = Ok r"
proof -
  have "objs s p = Some x \<Longrightarrow> objs t p = Some x" for p x using assms(2) by (metis domI map_le_def)
  then show ?thesis using assms(1,3) by (fastforce simp: current_ids_def get_pcb_Ok bindr_eq_Ok split: if_splits)
qed

lemma make_node_new:
  fixes s :: "'a kobj_scheme"
  assumes tree: "dir_tree s D L" "d \<in> D" and room: "plenty 3 s" "str_fits n"
    and op: "i_op (inode_of s d) = io" "\<And>ip x t. op io ip x t = vfs_create ip x mode excl (t :: 'a kobj_scheme)"
    and new: "n \<notin> name_of s ` set (L d)" and ids: "current_ids s = Ok (uid, gid)"
  obtains x t sz where "make_node op d n copy s = Ok (0, x, t)" "x \<notin> D" "x \<noteq> 0"
    "dir_tree t (insert x D) (L(x := [], d := x # L d))" "objs s \<subseteq>\<^sub>m objs t" "heap_lock t = 0"
    "name_of t x = n" "d_parent (dent t x) = d" "inode_of t x = new_inode (inode_of s d) mode uid gid x sz"
    "root_dentry t = root_dentry s" "current_process t = current_process s"
    "\<forall>p \<in> entry_addrs t x. objs s p = None" "dom (objs t) = dom (objs s) \<union> entry_addrs t x"
proof -
  have "plenty (Suc 2) s" using room(1) by (simp add: eval_nat_numeral)
  then obtain x as1 where x: "granted s x as1" "x \<notin> set (take 2 as1)"
    and p1: "\<forall>t :: 'a kobj_scheme. heap_lock t = 0 \<and> answers t = as1 \<and>
      (\<forall>p. p \<noteq> x \<and> objs s p = None \<longrightarrow> objs t p = None) \<longrightarrow> plenty 2 t"
    by (rule plenty_Suc)
  have gx: "objs s x = None" "x \<noteq> 0" "heap_lock s = 0" using x(1) by (auto simp: granted_def)
  define s1 where "s1 = s\<lparr>answers := as1, objs := (objs s)(x \<mapsto> (Block, Dentry zero_dentry)),
    d_links := INIT_HLIST_NODE x (INIT_HLIST_HEAD x (d_links s))\<rparr>"
  have run1: "alloc_dentry s = Ok (x, s1)" unfolding s1_def by (rule alloc_dentry_granted [OF x(1)])
  have xD: "x \<notin> D" using gx(1) dir_tree_entry [OF tree(1)] entry_addrs_live by (metis entry_addrs_def insertI1)
  have "plenty (Suc 1) s1" using p1 [THEN spec, of s1] gx by (simp add: s1_def eval_nat_numeral)
  then obtain np as2 where np: "granted s1 np as2" "np \<notin> set (take 1 as2)"
    and p2: "\<forall>t :: 'a kobj_scheme. heap_lock t = 0 \<and> answers t = as2 \<and>
      (\<forall>p. p \<noteq> np \<and> objs s1 p = None \<longrightarrow> objs t p = None) \<longrightarrow> plenty 1 t"
    by (rule plenty_Suc)
  have gn: "objs s np = None" "np \<noteq> 0" "np \<noteq> x" using np(1) by (auto simp: granted_def s1_def split: if_splits)
  define xd where "xd = zero_dentry\<lparr>d_name := np, d_parent := d\<rparr>"
  define s2 where "s2 = s\<lparr>answers := as2, objs := (objs s)(x \<mapsto> (Block, Dentry xd), np \<mapsto> (Block, Str n)),
    d_links := INIT_HLIST_NODE x (INIT_HLIST_HEAD x (d_links s))\<rparr>"
  have run2: "kstrdup n s1 = Ok (np, s1\<lparr>answers := as2, objs := (objs s1)(np \<mapsto> (Block, Str n))\<rparr>)"
    by (rule kstrdup_granted [OF np(1) room(2)])
  have run3: "upd_dentry x (\<lambda>e. e\<lparr>d_name := np, d_parent := d\<rparr>)
      (s1\<lparr>answers := as2, objs := (objs s1)(np \<mapsto> (Block, Str n))\<rparr>) = Ok s2"
    using gn(3) by (simp add: upd_dentry_def get_dentry_def put_def s1_def s2_def xd_def fun_upd_twist)
  have le: "objs s \<subseteq>\<^sub>m objs s2" using gx gn by (auto simp: s2_def map_le_def)
  have tree2: "dir_tree s2 D L"
    by (rule dir_tree_mono [OF dir_tree_links_outside [OF tree(1) xD]]) (use le in \<open>simp_all add: s2_def\<close>)
  have same: "dent s2 e = dent s e" "name_of s2 e = name_of s e" "inode_of s2 e = inode_of s e" if "e \<in> D" for e
    using entry_mono [OF le dir_tree_entry [OF tree(1) that]] by blast+
  have "plenty (Suc 0) s2" using p2 [THEN spec, of s2] gx gn by (auto simp: s2_def s1_def)
  then obtain a as3 where a: "granted s2 a as3" by (rule plenty_Suc)
  have ga: "objs s a = None" "a \<noteq> 0" "a \<noteq> x" "a \<noteq> np" "objs s2 a = None"
    using a by (auto simp: granted_def s2_def split: if_splits)
  define i where "i = new_inode (inode_of s d) mode uid gid x (junk s2 (a + 24))"
  define t where "t = attach d x Block xd a i (s2\<lparr>answers := as3\<rparr>)"
  have obx: "objs s2 x = Some (Block, Dentry xd)" "objs s2 (d_name xd) = Some (Block, Str n)"
    using gn(3) by (simp_all add: s2_def xd_def)
  have names: "name_of s2 ` set (L d) = name_of s ` set (L d)"
    using same(2) dir_tree_child [OF tree] by (auto simp: image_iff)
  have run4: "vfs_create (d_inode (dent s d)) x mode excl s2 = Ok (0, t)"
    using vfs_create_fresh [OF tree2 tree(2) a _ current_ids_mono [OF ids le] obx, of mode excl] ga new names same [OF tree(2)]
    by (simp add: t_def i_def s2_def)
  have get: "get_dentry d s2 = Ok (dent s d)" "get_inode (d_inode (dent s d)) s2 = Ok (inode_of s d)"
    using dir_tree_entry [OF tree2 tree(2)] same [OF tree(2)] by (auto simp: entry_ok_def)
  have run: "make_node op d n copy s = Ok (0, x, t)"
    using run1 run2 run3 run4 get gx gn op by (simp add: make_node_def)
  have tree3: "dir_tree (s2\<lparr>answers := as3\<rparr>) D L" by (rule dir_tree_mono [OF tree2]) simp_all
  note at = attach_new [of "s2\<lparr>answers := as3\<rparr>" x Block xd Block n a i d, folded t_def]
  have nm: "name_of (s2\<lparr>answers := as3\<rparr>) = name_of s2"
    by (simp add: fun_eq_iff name_of_def dent_def get_dentry_def get_str_def)
  have tree4: "dir_tree t (insert x D) (L(x := [], d := x # L d))"
    unfolding t_def
    by (rule dir_tree_attach [OF tree3 tree(2) xD gx(2) ga(2)])
      (use obx ga new names in \<open>simp_all add: i_def new_inode_def xd_def nm\<close>)
  have ent: "dent t x = xd\<lparr>d_inode := a\<rparr>" "name_of t x = n" "inode_of t x = i"
    using at obx ga gx by (simp_all add: i_def new_inode_def)
  then have addr: "entry_addrs t x = {x, a, np}" by (simp add: entry_addrs_def xd_def)
  have obt: "objs t = (objs s)(x \<mapsto> (Block, Dentry (xd\<lparr>d_inode := a\<rparr>)), np \<mapsto> (Block, Str n), a \<mapsto> (Block, Inode i))"
    using ga gn by (simp add: t_def attach_def s2_def fun_upd_twist)
  show thesis
  proof (rule that [OF run xD gx(2) tree4])
    show "objs s \<subseteq>\<^sub>m objs t" unfolding obt using gx gn ga by (auto simp: map_le_def)
    show "d_parent (dent t x) = d" by (simp add: ent xd_def)
    show "inode_of t x = new_inode (inode_of s d) mode uid gid x (junk s2 (a + 24))" by (simp add: ent i_def)
    show "dom (objs t) = dom (objs s) \<union> entry_addrs t x" unfolding obt addr by auto
    show "\<forall>p \<in> entry_addrs t x. objs s p = None" using addr gx gn ga by auto
  qed (use gx ent in \<open>simp_all add: t_def attach_def s2_def\<close>)
qed

end
