(* ===== verification/Fs_Path.thy ===== *)
theory Fs_Path
  imports Fs_Facts
begin

text \<open>
  The path operations on the directory tree: a lookup that finds its entry, the
  creation of a new entry, a path that runs into an existing name, and the path a
  directory entry is printed as.
\<close>

section \<open>Lookup that succeeds\<close>

lemma kpath_lookup_found:
  fixes s :: "'a kobj_scheme"
  assumes tree: "dir_tree s D L" "d0 \<in> D" and room: "plenty (Suc n) s" "str_fits p"
    and walk: "tree_walk s L (path_tokens p) d0 = Ok d" "d \<noteq> 0"
  obtains t k where "kpath_lookup (d_inode (dent s d0)) p s = Ok (d, t)" "dir_tree t D L" "same_entries D s t"
    "plenty n t" "objs s (d_inode (dent s d)) = Some (k, Inode (inode_of s d))"
    "objs t = (objs s)(d_inode (dent s d) \<mapsto> (k, Inode (inode_of s d\<lparr>i_count := i_count (inode_of s d) + 1\<rparr>)))"
    "d_links t = d_links s" "root_dentry t = root_dentry s" "current_process t = current_process s" "heap_lock t = 0"
proof -
  have dD: "d \<in> D" by (rule tree_walk_in [OF tree walk])
  from room(1) obtain a as where a: "granted s a as"
    and pl: "\<forall>t :: 'a kobj_scheme. heap_lock t = 0 \<and> answers t = as \<and>
      (\<forall>p. p \<noteq> a \<and> objs s p = None \<longrightarrow> objs t p = None) \<longrightarrow> plenty n t"
    by (rule plenty_Suc)
  define s1 where "s1 = s\<lparr>answers := as\<rparr>"
  define t where "t = ref_up d s1"
  have tree1: "dir_tree s1 D L" by (rule dir_tree_mono [OF tree(1)]) (simp_all add: s1_def)
  have eq: "dent s1 d = dent s d" "inode_of s1 d = inode_of s d" "objs s1 = objs s"
    by (simp_all add: s1_def dent_def inode_of_def get_dentry_def get_inode_def)
  from dir_tree_entry [OF tree(1) dD] obtain k where k: "objs s (d_inode (dent s d)) = Some (k, Inode (inode_of s d))"
    by (rule entry_objs)
  have obt: "objs t = (objs s)(d_inode (dent s d) \<mapsto> (k, Inode (inode_of s d\<lparr>i_count := i_count (inode_of s d) + 1\<rparr>)))"
    unfolding t_def ref_up_def set_inode_def put_def by (simp add: eq k)
  have rest: "d_links t = d_links s" "root_dentry t = root_dentry s" "current_process t = current_process s"
      "heap_lock t = 0" "answers t = as"
    using a by (simp_all add: t_def ref_up_def set_inode_def put_def s1_def granted_def)
  have "plenty n t" using pl [THEN spec, of t] rest obt k by auto
  moreover have "kpath_lookup (d_inode (dent s d0)) p s = Ok (d, t)"
    using kpath_lookup_tree [OF tree a room(2)] walk by (simp add: t_def s1_def)
  moreover have "dir_tree t D L" unfolding t_def by (rule dir_tree_ref_up [OF tree1 dD])
  moreover have "same_entries D s t"
    using same_entries_trans [OF same_entries_mono [OF tree(1), of s1] same_entries_ref_up [OF tree1 dD]]
    by (simp add: t_def eq)
  ultimately show thesis using k obt rest by (intro that [of t k])
qed

section \<open>Creation that succeeds\<close>

lemma kpath_make_new:
  fixes s :: "'a kobj_scheme"
  assumes tree: "dir_tree s D L" "d0 \<in> D" and room: "plenty 5 s" "str_fits p" and cut: "cut_path p = (pp, n)"
    and walk: "tree_walk s L (path_tokens pp) d0 = Ok d" "d \<noteq> 0"
    and op: "i_op (inode_of s d) = io" "\<And>ip x t. op io ip x t = vfs_create ip x mode excl (t :: 'a kobj_scheme)"
    and new: "n \<notin> name_of s ` set (L d)" and ids: "current_ids s = Ok (uid, gid)"
  obtains x t where "kpath_make op (d_inode (dent s d0)) p s = Ok (0, t)" "x \<notin> D" "x \<noteq> 0"
    "dir_tree t (insert x D) (L(x := [], d := x # L d))" "same_entries D s t" "heap_lock t = 0"
    "name_of t x = n" "d_parent (dent t x) = d" "i_mode (inode_of t x) = mode" "i_uid (inode_of t x) = uid"
    "i_gid (inode_of t x) = gid" "i_op (inode_of t x) = io" "dom (objs t) = dom (objs s) \<union> entry_addrs t x"
proof -
  have dD: "d \<in> D" by (rule tree_walk_in [OF tree walk])
  note fits = cut_path_fits [OF cut room(2)]
  have "plenty (Suc 4) s" using room(1) by simp
  then obtain a as where a: "granted s a as"
    and pl: "\<forall>t :: 'a kobj_scheme. heap_lock t = 0 \<and> answers t = as \<and>
      (\<forall>p. p \<noteq> a \<and> objs s p = None \<longrightarrow> objs t p = None) \<longrightarrow> plenty 4 t"
    by (rule plenty_Suc)
  define s1 where "s1 = s\<lparr>answers := as, objs := (objs s)(a \<mapsto> (Block, Str p))\<rparr>"
  have g: "objs s a = None" "a \<noteq> 0" "heap_lock s = 0" using a by (auto simp: granted_def)
  have run1: "kstrdup p s = Ok (a, s1)" unfolding s1_def by (rule kstrdup_granted [OF a room(2)])
  have le1: "objs s \<subseteq>\<^sub>m objs s1" using g by (auto simp: s1_def map_le_def)
  have tree1: "dir_tree s1 D L" by (rule dir_tree_mono [OF tree(1) le1]) (simp_all add: s1_def)
  have e1: "dent s1 e = dent s e" "name_of s1 e = name_of s e" "inode_of s1 e = inode_of s e" if "e \<in> D" for e
    using entry_mono [OF le1 dir_tree_entry [OF tree(1) that]] by blast+
  have same1: "same_entries D s s1" by (rule same_entries_mono [OF tree(1) le1])
  have pl3: "plenty (Suc 3) s1" using pl [THEN spec, of s1] g by (simp add: s1_def)
  have w3: "tree_walk s1 L (path_tokens pp) d0 = Ok d" using tree_walk_same [OF tree same1] walk by simp
  obtain s2 k where s2: "kpath_lookup (d_inode (dent s1 d0)) pp s1 = Ok (d, s2)" "dir_tree s2 D L"
      "same_entries D s1 s2" "plenty 3 s2" "objs s1 (d_inode (dent s1 d)) = Some (k, Inode (inode_of s1 d))"
      "objs s2 = (objs s1)(d_inode (dent s1 d) \<mapsto> (k, Inode (inode_of s1 d\<lparr>i_count := i_count (inode_of s1 d) + 1\<rparr>)))"
      "root_dentry s2 = root_dentry s1" "current_process s2 = current_process s1" "heap_lock s2 = 0"
    by (rule kpath_lookup_found [OF tree1 tree(2) pl3 fits(1) w3 walk(2)])
  have ids2: "current_ids s2 = Ok (uid, gid)"
    using current_ids_mono [OF ids le1] s2(5,6,8)
    by (auto simp: s1_def current_ids_def get_pcb_Ok bindr_eq_Ok split: if_splits)
  have op2: "i_op (inode_of s2 d) = io" using op(1) s2(3) e1(3) dD by (simp add: same_entries_def)
  have new2: "n \<notin> name_of s2 ` set (L d)"
    using new s2(3) e1(2) dir_tree_child [OF tree(1) dD] by (auto simp: same_entries_def image_iff)
  obtain x t1 sz where t1: "make_node op d n a s2 = Ok (0, x, t1)" "x \<notin> D" "x \<noteq> 0"
    "dir_tree t1 (insert x D) (L(x := [], d := x # L d))" "objs s2 \<subseteq>\<^sub>m objs t1" "heap_lock t1 = 0"
    "name_of t1 x = n" "d_parent (dent t1 x) = d" "inode_of t1 x = new_inode (inode_of s2 d) mode uid gid x sz"
    "\<forall>p \<in> entry_addrs t1 x. objs s2 p = None" "dom (objs t1) = dom (objs s2) \<union> entry_addrs t1 x"
    by (rule make_node_new [where op = op and mode = mode and excl = excl, OF s2(2) dD s2(4) fits(2) op2 op(2) new2 ids2])
  define t where "t = t1\<lparr>objs := (objs t1)(a := None)\<rparr>"
  have a2: "objs s2 a = Some (Block, Str p)" using s2(5,6) by (auto simp: s1_def)
  then have a1: "objs t1 a = Some (Block, Str p)" using t1(5) by (metis domI map_le_def)
  have run: "kpath_make op (d_inode (dent s d0)) p s = Ok (0, t)"
    using dir_tree_entry [OF tree] run1 cut s2(1) e1(1) [OF tree(2)] walk(2) t1(1,3) kfree_block [OF t1(6) g(2) a1] g(2)
    by (simp add: kpath_make_def entry_ok_def t_def)
  have e2: "dent t1 e = dent s2 e" "name_of t1 e = name_of s2 e" "inode_of t1 e = inode_of s2 e" if "e \<in> D" for e
    using entry_mono [OF t1(5) dir_tree_entry [OF s2(2) that]] by blast+
  have unused: "a \<notin> entry_addrs t1 e" if e: "e \<in> insert x D" for e
  proof (cases "e = x")
    case True
    then show ?thesis using t1(10) a2 by auto
  next
    case False
    then have "e \<in> D" using e by simp
    then have "entry_addrs t1 e = entry_addrs s e"
      using e1(1) e2(1) s2(3) by (simp add: entry_addrs_def same_entries_def)
    then show ?thesis using entry_addrs_live [OF dir_tree_entry [OF tree(1) \<open>e \<in> D\<close>]] g(1) by metis
  qed
  have keep: "dir_tree t (insert x D) (L(x := [], d := x # L d))"
      "\<And>e. e \<in> insert x D \<Longrightarrow> dent t e = dent t1 e \<and> name_of t e = name_of t1 e \<and> inode_of t e = inode_of t1 e"
    using unused by (intro dir_tree_keep [OF t1(4), of t]; auto simp: t_def)+
  have "same_entries D s t"
    using same1 s2(3) e2 keep(2) by (auto simp: same_entries_def)
  moreover have "dom (objs t) = dom (objs s) \<union> entry_addrs t x"
  proof -
    have "entry_addrs t x = entry_addrs t1 x" using keep(2) by (simp add: entry_addrs_def)
    moreover have "dom (objs s2) = insert a (dom (objs s))" using s2(5,6) by (auto simp: s1_def split: if_splits)
    ultimately show ?thesis using t1(11) unused [of x] g(1) by (auto simp: t_def)
  qed
  ultimately show thesis
    using run t1 keep op2 by (intro that [of t x]) (simp_all add: t_def new_inode_def)
qed

section \<open>Paths and their components\<close>

lemma takeWhile_stop: "\<not> P c \<Longrightarrow> takeWhile P (a @ c # b) = takeWhile P a"
  by (induction a) auto

lemma dropWhile_stop: "\<not> P c \<Longrightarrow> dropWhile P (a @ c # b) = dropWhile P a @ c # b"
  by (induction a) auto

lemma tokens_append_delim: "D c \<Longrightarrow> tokens D (a @ c # b) = tokens D a @ tokens D b"
proof (induction "length a" arbitrary: a rule: less_induct)
  case less
  show ?case
  proof (cases a)
    case (Cons x a')
    show ?thesis
    proof (cases "D x")
      case True
      then show ?thesis using less Cons by simp
    next
      case False
      have "takeWhile (\<lambda>x. \<not> D x) (a' @ c # b) = takeWhile (\<lambda>x. \<not> D x) a'"
        using less.prems by (simp add: takeWhile_stop)
      moreover have "dropWhile (\<lambda>x. \<not> D x) (a' @ c # b) = dropWhile (\<lambda>x. \<not> D x) a' @ c # b"
        using less.prems by (simp add: dropWhile_stop)
      moreover have "tokens D (dropWhile (\<lambda>x. \<not> D x) a' @ c # b) = tokens D (dropWhile (\<lambda>x. \<not> D x) a') @ tokens D b"
        using Cons by (intro less.hyps less.prems) (simp add: le_imp_less_Suc length_dropWhile_le)
      ultimately show ?thesis using Cons False by simp
    qed
  qed (use less in simp)
qed

lemma tokens_single: "n \<noteq> [] \<Longrightarrow> (\<forall>x \<in> set n. \<not> D x) \<Longrightarrow> tokens D n = [n]"
  by (cases n) (auto simp: takeWhile_eq_all_conv [THEN iffD2] dropWhile_eq_Nil_conv [THEN iffD2])

definition component :: "string \<Rightarrow> bool" where
  "component n \<longleftrightarrow> n \<noteq> [] \<and> CHR ''/'' \<notin> set n \<and> n \<noteq> ''.'' \<and> n \<noteq> ''..''"

lemma tree_walk_cut:
  assumes "cut_path p = (pp, n)" "n \<noteq> []"
  shows "tree_walk s L (path_tokens p) d = tree_walk s L (path_tokens pp @ [n]) d"
proof (cases "split_last (CHR ''/'') p")
  case None
  then have "p = n" "pp = ''.''" using assms(1) by (simp_all add: cut_path_def)
  moreover have "CHR ''/'' \<notin> set p" using None by (simp add: split_last_None)
  moreover from calculation have "path_tokens p = [n]"
    unfolding path_tokens_def using assms(2) tokens_single [of n "\<lambda>c. c = CHR ''/''"] by auto
  ultimately show ?thesis by (simp add: path_tokens_def)
next
  case (Some ab)
  then obtain a b where ab: "split_last (CHR ''/'') p = Some (a, b)" by (cases ab) auto
  note p = split_last_Some [OF ab]
  have "path_tokens p = path_tokens a @ path_tokens b"
    unfolding path_tokens_def p(1) by (rule tokens_append_delim) simp
  moreover have "n = b" "path_tokens pp = path_tokens a"
    using assms(1) ab by (auto simp: cut_path_def path_tokens_def split: if_splits)
  moreover have "path_tokens b = [b]"
    unfolding path_tokens_def using assms(2) \<open>n = b\<close> p(2) tokens_single [of b "\<lambda>c. c = CHR ''/''"] by auto
  ultimately show ?thesis by simp
qed

section \<open>Walks in a tree with a new leaf\<close>

lemma tree_walk_extend:
  assumes tree: "dir_tree s D L" "e \<in> D" and ext: "same_entries D s t" "x \<notin> D" "x \<noteq> 0" "d \<in> D"
    and new: "name_of t x \<notin> name_of s ` set (L d)"
    and walk: "tree_walk s L ts e = Ok f" "f \<noteq> 0"
  shows "tree_walk t (L(x := [], d := x # L d)) ts e = Ok f"
proof -
  define L' where "L' = L(x := [], d := x # L d)"
  have "tree_walk t L' ts e = Ok f"
    using tree(2) walk(1)
  proof (induction ts arbitrary: e)
    case (Cons m ts)
    have eq: "dent t e = dent s e" "i_op (inode_of t e) = i_op (inode_of s e)"
      using ext(1) Cons.prems(1) by (auto simp: same_entries_def)
    have up: "(if d_parent (dent s e) \<noteq> 0 then d_parent (dent s e) else e) \<in> D"
      using dir_tree_parent [OF tree(1) Cons.prems(1)] Cons.prems by simp
    have ch: "child t L' e m = child s L e m" if "child s L e m \<noteq> 0"
    proof (cases "e = d")
      case True
      have "m \<in> name_of s ` set (L d)" using child_in [OF that] True by force
      then have "m \<noteq> name_of t x" using new by blast
      then have "child t L' e m = child t L e m" using True by (simp add: child_def L'_def)
      then show ?thesis using child_same [OF tree(1) Cons.prems(1) ext(1)] by simp
    next
      case False
      then have "child t L' e m = child t L e m" using Cons.prems(1) ext(2) by (auto simp: child_def L'_def)
      then show ?thesis using child_same [OF tree(1) Cons.prems(1) ext(1)] by simp
    qed
    have down: "child s L e m \<noteq> 0 \<Longrightarrow> child s L e m \<in> D" by (rule child_D [OF tree(1) Cons.prems(1)])
    show ?case
      using Cons.prems(2) walk(2) eq ch Cons.IH [OF Cons.prems(1)] Cons.IH [OF up] Cons.IH [OF down]
      by (auto split: if_splits)
  qed simp
  then show ?thesis by (simp only: L'_def)
qed

lemma tree_walk_new_leaf:
  assumes tree: "dir_tree s D L" "d0 \<in> D" and ext: "same_entries D s t" "x \<notin> D" "x \<noteq> 0"
    and new: "name_of t x = n" "n \<notin> name_of s ` set (L d)"
    and cut: "cut_path p = (pp, n)" "component n"
    and walk: "tree_walk s L (path_tokens pp) d0 = Ok d" "d \<noteq> 0" "i_op (inode_of s d) \<noteq> NoIops"
    and tree': "dir_tree t (insert x D) (L(x := [], d := x # L d))"
  shows "tree_walk t (L(x := [], d := x # L d)) (path_tokens p) d0 = Ok x"
proof -
  let ?L = "L(x := [], d := x # L d)"
  have dD: "d \<in> D" by (rule tree_walk_in [OF tree walk(1,2)])
  have "tree_walk t ?L (path_tokens pp) d0 = Ok d"
    by (rule tree_walk_extend [OF tree ext dD _ walk(1,2)]) (use new in simp)
  then have "tree_walk t ?L (path_tokens pp @ [n]) d0 = tree_walk t ?L [n] d"
    by (rule tree_walk_append [OF _ walk(2) _ tree'])
      (use tree(2) dir_tree_entry [OF tree'] in \<open>auto simp: entry_ok_def\<close>)
  moreover have "child t ?L d n = x" using new(1) ext(2) dD by (simp add: child_def)
  moreover have "i_op (inode_of t d) \<noteq> NoIops" using ext(1) dD walk(3) by (simp add: same_entries_def)
  ultimately show ?thesis using tree_walk_cut [OF cut(1), of t ?L d0] cut(2) ext(3) by (simp add: component_def)
qed

section \<open>The path of an entry\<close>

text \<open>\<open>trail L d xs e\<close>: from \<open>d\<close> one reaches \<open>e\<close> through the children \<open>xs\<close>.\<close>

primrec trail :: "(u64 \<Rightarrow> u64 list) \<Rightarrow> u64 \<Rightarrow> u64 list \<Rightarrow> u64 \<Rightarrow> bool" where
  "trail L d [] e \<longleftrightarrow> e = d"
| "trail L d (x # xs) e \<longleftrightarrow> x \<in> set (L d) \<and> trail L x xs e"

definition path_string :: "'a kobj_scheme \<Rightarrow> u64 list \<Rightarrow> string" where
  "path_string s xs = concat (map (\<lambda>x. CHR ''/'' # name_of s x) xs)"

lemma trail_snoc: "trail L d (xs @ [x]) e \<longleftrightarrow> (\<exists>m. trail L d xs m \<and> x \<in> set (L m) \<and> e = x)"
  by (induction xs arbitrary: d) auto

lemma trail_in: "dir_tree s D L \<Longrightarrow> d \<in> D \<Longrightarrow> trail L d xs e \<Longrightarrow> e \<in> D \<and> set xs \<subseteq> D"
  by (induction xs arbitrary: d) (auto dest: dir_tree_child)

lemma reverse_loop_trail:
  assumes "dir_tree s D L" "d \<in> D" "d_parent (dent s d) = 0" "trail L d xs e"
  shows "reverse_loop e acc s = Some (Ok (path_string s xs @ acc))"
  using assms(4)
proof (induction xs arbitrary: e acc rule: rev_induct)
  case Nil
  have "get_dentry d s = Ok (dent s d)" using dir_tree_entry [OF assms(1,2)] by (simp add: entry_ok_def)
  then show ?case using Nil assms(3) by (subst reverse_loop.simps) (simp add: path_string_def)
next
  case (snoc x xs)
  then obtain m where m: "trail L d xs m" "x \<in> set (L m)" "e = x" by (auto simp: trail_snoc)
  have mD: "m \<in> D" "x \<in> D" using trail_in [OF assms(1,2) m(1)] dir_tree_child [OF assms(1) _ m(2)] by blast+
  have x: "x \<noteq> 0" "get_dentry x s = Ok (dent s x)" "get_str (d_name (dent s x)) s = Ok (name_of s x)"
    using dir_tree_entry [OF assms(1) mD(2)] by (auto simp: entry_ok_def)
  have "d_parent (dent s x) = m" "m \<noteq> 0"
    using dir_tree_parent_of [OF assms(1) mD(1) m(2)] dir_tree_entry [OF assms(1) mD(1)] by (auto simp: entry_ok_def)
  then show ?case using x m(3) snoc.IH [OF m(1)] by (subst reverse_loop.simps) (simp add: path_string_def)
qed

lemma path_string_tokens:
  "(\<forall>x \<in> set xs. component (name_of s x)) \<Longrightarrow> path_tokens (path_string s xs) = map (name_of s) xs"
proof (induction xs)
  case (Cons x xs)
  have "path_tokens (name_of s x @ path_string s xs) = name_of s x # map (name_of s) xs"
  proof (cases xs)
    case Nil
    then show ?thesis using Cons.prems tokens_single [of "name_of s x" "\<lambda>c. c = CHR ''/''"]
      by (auto simp: path_string_def path_tokens_def component_def)
  next
    case (Cons y ys)
    have "path_tokens (name_of s x @ path_string s xs) = path_tokens (name_of s x) @ path_tokens (tl (path_string s xs))"
      unfolding path_tokens_def Cons path_string_def by (simp add: tokens_append_delim)
    moreover have "path_tokens (tl (path_string s xs)) = path_tokens (path_string s xs)"
      by (simp add: Cons path_string_def path_tokens_def)
    moreover have "path_tokens (name_of s x) = [name_of s x]"
      unfolding path_tokens_def using Cons.prems by (intro tokens_single) (auto simp: component_def)
    ultimately show ?thesis using Cons.IH Cons.prems by simp
  qed
  then show ?case by (simp add: path_string_def path_tokens_def)
qed (simp add: path_string_def path_tokens_def)

lemma tree_walk_trail:
  assumes "dir_tree s D L" "d \<in> D" "trail L d xs e" "\<forall>x \<in> set xs. component (name_of s x)"
    and "\<forall>x \<in> D. i_op (inode_of s x) \<noteq> NoIops"
  shows "tree_walk s L (map (name_of s) xs) d = Ok e"
  using assms(2,3,4)
proof (induction xs arbitrary: d)
  case (Cons x xs)
  then have x: "x \<in> set (L d)" "x \<in> D" using dir_tree_child [OF assms(1)] by auto
  have "child s L d (name_of s x) = x" by (rule child_unique [OF assms(1) Cons.prems(1) x(1)])
  moreover have "x \<noteq> 0" using dir_tree_entry [OF assms(1) x(2)] by (simp add: entry_ok_def)
  ultimately show ?case using Cons x assms(5) by (simp add: component_def)
qed simp

end
