(* ===== verification/Fs_Spec.thy ===== *)
theory Fs_Spec
  imports Fs_Path Heap_Spec
begin

text \<open>
  The properties of the file system: paths name the entries of the directory tree, a
  created entry is found again, an existing name is refused, the printed path of an
  entry leads back to it, a removed ram file leaves the rest of the tree alone, and ram
  files give back the bytes written to them.
\<close>

section \<open>An existing name\<close>

lemma vfs_create_exists:
  assumes "dir_tree s D L" "d \<in> D" "n \<in> name_of s ` set (L d)" "dentry_name x s = Ok n"
  shows "vfs_create (d_inode (dent s d)) x mode excl s = Ok (- E_EXIST, s)"
proof -
  have d: "get_inode (d_inode (dent s d)) s = Ok (inode_of s d)" "i_dentry (inode_of s d) = d"
      "get_dentry d s = Ok (dent s d)"
    using dir_tree_entry [OF assms(1,2)] by (auto simp: entry_ok_def)
  have "hlist_find (\<lambda>pos. bindr (dentry_name pos s) (\<lambda>a. bindr (dentry_name x s) (\<lambda>b. Ok (a = b)))) d (d_links s) =
      Ok (case find (\<lambda>c. name_of s c = n) (L d) of None \<Rightarrow> 0 | Some c \<Rightarrow> c)"
  proof (rule hlist_find_abs [OF dir_tree_links [OF assms(1)] assms(2)])
    fix c assume "c \<in> set (L d)"
    then have "entry_ok s c" using dir_tree_child [OF assms(1,2)] dir_tree_entry [OF assms(1)] by blast
    then show "bindr (dentry_name c s) (\<lambda>a. bindr (dentry_name x s) (\<lambda>b. Ok (a = b))) = Ok (name_of s c = n)"
      by (simp add: entry_name assms(4))
  qed
  moreover obtain c where "find (\<lambda>c. name_of s c = n) (L d) = Some c"
    using assms(3) by (cases "find (\<lambda>c. name_of s c = n) (L d)") (auto simp: find_None_iff)
  moreover from this have "c \<noteq> 0"
    using find_SomeD [of _ "L d" c] hl_abs_nonzero [OF dir_tree_links [OF assms(1)] assms(2)] by blast
  ultimately show ?thesis using d by (simp add: vfs_create_def)
qed

lemma make_node_exists:
  fixes s :: "'a kobj_scheme"
  assumes tree: "dir_tree s D L" "d \<in> D" and room: "plenty 2 s" "str_fits n"
    and op: "i_op (inode_of s d) = io" "\<And>ip x t. op io ip x t = vfs_create ip x mode excl (t :: 'a kobj_scheme)"
    and old: "n \<in> name_of s ` set (L d)" and copy: "copy \<noteq> 0" "objs s copy = Some (Block, Str p)"
  obtains t where "make_node op d n copy s = Ok (- E_EXIST, 0, t)" "objs t = (objs s)(copy := None)"
    "root_dentry t = root_dentry s" "current_process t = current_process s" "heap_lock t = 0" "dir_tree (t\<lparr>objs := objs s\<rparr>) D L"
proof -
  have "plenty (Suc 1) s" using room(1) by (simp add: numeral_2_eq_2)
  then obtain x as where x: "granted s x as"
    and pl: "\<forall>t :: 'a kobj_scheme. heap_lock t = 0 \<and> answers t = as \<and>
      (\<forall>p. p \<noteq> x \<and> objs s p = None \<longrightarrow> objs t p = None) \<longrightarrow> plenty 1 t"
    by (rule plenty_Suc)
  have gx: "objs s x = None" "x \<noteq> 0" "heap_lock s = 0" using x by (auto simp: granted_def)
  have xD: "x \<notin> D" using gx(1) entry_addrs_live [OF dir_tree_entry [OF tree(1)], of x x] by (auto simp: entry_addrs_def)
  define s1 where "s1 = s\<lparr>answers := as, objs := (objs s)(x \<mapsto> (Block, Dentry zero_dentry)),
    d_links := INIT_HLIST_NODE x (INIT_HLIST_HEAD x (d_links s))\<rparr>"
  have run1: "alloc_dentry s = Ok (x, s1)" unfolding s1_def by (rule alloc_dentry_granted [OF x])
  have "plenty (Suc 0) s1" using pl [THEN spec, of s1] gx by (simp add: s1_def)
  then obtain np as' where np: "granted s1 np as'" by (rule plenty_Suc)
  have gn: "objs s np = None" "np \<noteq> x" "np \<noteq> 0" using np by (auto simp: granted_def s1_def split: if_splits)
  define xd where "xd = zero_dentry\<lparr>d_name := np, d_parent := d\<rparr>"
  define s2 where "s2 = s1\<lparr>answers := as', objs := (objs s1)(np \<mapsto> (Block, Str n), x \<mapsto> (Block, Dentry xd))\<rparr>"
  have run2: "kstrdup n s1 = Ok (np, s1\<lparr>answers := as', objs := (objs s1)(np \<mapsto> (Block, Str n))\<rparr>)"
    by (rule kstrdup_granted [OF np room(2)])
  have run3: "upd_dentry x (\<lambda>d'. d'\<lparr>d_name := np, d_parent := d\<rparr>) (s1\<lparr>answers := as', objs := (objs s1)(np \<mapsto> (Block, Str n))\<rparr>) = Ok s2"
    using gn by (simp add: upd_dentry_def get_dentry_def s1_def s2_def put_def xd_def)
  have le: "objs s \<subseteq>\<^sub>m objs s2" using gx gn by (auto simp: s1_def s2_def map_le_def)
  have t2: "dir_tree s2 D L"
    using dir_tree_mono [OF dir_tree_links_outside [OF tree(1) xD], of s2] le by (simp add: s1_def s2_def)
  have e2: "dent s2 e = dent s e" "name_of s2 e = name_of s e" "inode_of s2 e = inode_of s e" if "e \<in> D" for e
    using entry_mono [OF le dir_tree_entry [OF tree(1) that]] by blast+
  have d2: "get_dentry d s2 = Ok (dent s d)" "get_inode (d_inode (dent s d)) s2 = Ok (inode_of s d)"
    using dir_tree_entry [OF t2 tree(2)] e2(1,3) [OF tree(2)] by (auto simp: entry_ok_def)
  have "dentry_name x s2 = Ok n" using gn by (simp add: dentry_name_def get_dentry_def get_str_def s2_def xd_def)
  moreover have "n \<in> name_of s2 ` set (L d)"
    using old e2(2) dir_tree_child [OF tree] by (auto simp: image_iff)
  ultimately have run4: "vfs_create (d_inode (dent s d)) x mode excl s2 = Ok (- E_EXIST, s2)"
    using vfs_create_exists [OF t2 tree(2)] e2(1) [OF tree(2)] by simp
  define t where "t = s2\<lparr>objs := (objs s)(copy := None)\<rparr>"
  have c2: "copy \<noteq> x" "copy \<noteq> np" using copy(2) gx gn by auto
  have "(objs s2)(np := None, x := None, copy := None) = (objs s)(copy := None)"
    using gx gn by (auto simp: s1_def s2_def fun_eq_iff)
  then have frees: "bindr (kfree np s2) (\<lambda>s. bindr (kfree x s) (\<lambda>s. bindr (kfree copy s) (\<lambda>s. Ok (- E_EXIST, 0, s)))) =
      Ok (- E_EXIST, 0, t)"
    using gx gn copy c2 by (simp add: kfree_def krelease_def s1_def s2_def t_def)
  have "get_dentry x s2 = Ok xd" by (simp add: get_dentry_def s2_def)
  then have "make_node op d n copy s = Ok (- E_EXIST, 0, t)"
    using run1 run2 run3 run4 op d2 gx(2) gn(3) frees by (simp add: make_node_def xd_def)
  moreover have "dir_tree (t\<lparr>objs := objs s\<rparr>) D L"
    using dir_tree_mono [OF dir_tree_links_outside [OF tree(1) xD], of "t\<lparr>objs := objs s\<rparr>"]
    by (simp add: t_def s1_def s2_def)
  ultimately show thesis using gx by (intro that [of t]) (simp_all add: t_def s1_def s2_def)
qed

lemma kpath_make_exists:
  fixes s :: "'a kobj_scheme"
  assumes tree: "dir_tree s D L" "d0 \<in> D" and room: "plenty 4 s" "str_fits p" and cut: "cut_path p = (pp, n)"
    and walk: "tree_walk s L (path_tokens pp) d0 = Ok d" "d \<noteq> 0"
    and op: "i_op (inode_of s d) = io" "\<And>ip x t. op io ip x t = vfs_create ip x mode excl (t :: 'a kobj_scheme)"
    and old: "n \<in> name_of s ` set (L d)"
  obtains t where "kpath_make op (d_inode (dent s d0)) p s = Ok (- E_EXIST, t)" "dir_tree t D L" "same_entries D s t"
    "dom (objs t) = dom (objs s)"
proof -
  have dD: "d \<in> D" by (rule tree_walk_in [OF tree walk])
  note fits = cut_path_fits [OF cut room(2)]
  have "plenty (Suc 3) s" using room(1) by simp
  then obtain a as where a: "granted s a as"
    and pl: "\<forall>t :: 'a kobj_scheme. heap_lock t = 0 \<and> answers t = as \<and>
      (\<forall>p. p \<noteq> a \<and> objs s p = None \<longrightarrow> objs t p = None) \<longrightarrow> plenty 3 t"
    by (rule plenty_Suc)
  define s1 where "s1 = s\<lparr>answers := as, objs := (objs s)(a \<mapsto> (Block, Str p))\<rparr>"
  have g: "objs s a = None" "a \<noteq> 0" "heap_lock s = 0" using a by (auto simp: granted_def)
  have run1: "kstrdup p s = Ok (a, s1)" unfolding s1_def by (rule kstrdup_granted [OF a room(2)])
  have le1: "objs s \<subseteq>\<^sub>m objs s1" using g by (auto simp: s1_def map_le_def)
  have tree1: "dir_tree s1 D L" by (rule dir_tree_mono [OF tree(1) le1]) (simp_all add: s1_def)
  have e1: "dent s1 e = dent s e" "name_of s1 e = name_of s e" "inode_of s1 e = inode_of s e" if "e \<in> D" for e
    using entry_mono [OF le1 dir_tree_entry [OF tree(1) that]] by blast+
  have same1: "same_entries D s s1" by (rule same_entries_mono [OF tree(1) le1])
  have pl2: "plenty (Suc 2) s1" using pl [THEN spec, of s1] g by (simp add: s1_def)
  have w3: "tree_walk s1 L (path_tokens pp) d0 = Ok d" using tree_walk_same [OF tree same1] walk by simp
  obtain s2 k where s2: "kpath_lookup (d_inode (dent s1 d0)) pp s1 = Ok (d, s2)" "dir_tree s2 D L"
      "same_entries D s1 s2" "plenty 2 s2" "objs s1 (d_inode (dent s1 d)) = Some (k, Inode (inode_of s1 d))"
      "objs s2 = (objs s1)(d_inode (dent s1 d) \<mapsto> (k, Inode (inode_of s1 d\<lparr>i_count := i_count (inode_of s1 d) + 1\<rparr>)))"
      "d_links s2 = d_links s1" "root_dentry s2 = root_dentry s1"
    by (rule kpath_lookup_found [OF tree1 tree(2) pl2 fits(1) w3 walk(2)])
  have same2: "same_entries D s s2" by (rule same_entries_trans [OF same1 s2(3)])
  have op2: "i_op (inode_of s2 d) = io" using op(1) same2 dD by (simp add: same_entries_def)
  have old2: "n \<in> name_of s2 ` set (L d)"
    using old same2 dir_tree_child [OF tree(1) dD] by (auto simp: same_entries_def image_iff)
  have a2: "objs s2 a = Some (Block, Str p)" using s2(5,6) by (auto simp: s1_def)
  obtain t where t: "make_node op d n a s2 = Ok (- E_EXIST, 0, t)" "objs t = (objs s2)(a := None)"
      "dir_tree (t\<lparr>objs := objs s2\<rparr>) D L"
    by (rule make_node_exists [where op = op and mode = mode and excl = excl,
          OF s2(2) dD s2(4) fits(2) op2 op(2) old2 g(2) a2])
  define u where "u = t\<lparr>objs := objs s2\<rparr>"
  have eu: "dent u e = dent s2 e" "name_of u e = name_of s2 e" "inode_of u e = inode_of s2 e" "objs u = objs s2" for e
    by (simp_all add: u_def dent_def name_of_def inode_of_def get_dentry_def get_str_def get_inode_def)
  have unused: "a \<notin> entry_addrs u e" if e: "e \<in> D" for e
  proof -
    have "entry_addrs u e = entry_addrs s e"
      using same2 e by (simp add: entry_addrs_def same_entries_def eu)
    then show ?thesis using entry_addrs_live [OF dir_tree_entry [OF tree(1) e]] g(1) by metis
  qed
  have tu: "dir_tree u D L" using t(3) by (simp add: u_def)
  have ou: "objs t p = objs u p" if "e \<in> D" "p \<in> entry_addrs u e" for e p
    using unused that t(2) eu(4) by (metis fun_upd_other)
  have lu: "d_links t = d_links u" "root_dentry t = root_dentry u" by (simp_all add: u_def)
  have keep: "dir_tree t D L" "\<And>e. e \<in> D \<Longrightarrow> dent t e = dent s2 e \<and> name_of t e = name_of s2 e \<and> inode_of t e = inode_of s2 e"
    using dir_tree_keep [OF tu ou lu] by (simp_all add: eu)
  have "same_entries D s t" using same2 keep(2) by (simp add: same_entries_def)
  moreover have "dom (objs t) = dom (objs s)" using t(2) s2(5,6) g(1) by (auto simp: s1_def split: if_splits)
  moreover have "kpath_make op (d_inode (dent s d0)) p s = Ok (- E_EXIST, t)"
    using dir_tree_entry [OF tree] run1 cut s2(1) e1(1) [OF tree(2)] walk(2) t(1) g(2)
    by (simp add: kpath_make_def entry_ok_def)
  ultimately show thesis using keep(1) by (intro that [of t])
qed

section \<open>Removal\<close>

lemma dir_tree_detach:
  assumes tree: "dir_tree s D L" "d \<in> D" "c \<in> set (L d)" "L c = []" "c \<noteq> root_dentry s" "\<forall>e \<in> D. d_parent (dent s e) \<noteq> c"
    and t: "\<forall>e \<in> D - {c}. \<forall>p \<in> entry_addrs s e. objs t p = objs s p" "root_dentry t = root_dentry s"
      "hl_abs D (d_links t) (L(d := remove1 c (L d)))"
  shows "dir_tree t (D - {c}) (L(d := remove1 c (L d)))" "same_entries (D - {c}) s t"
proof -
  let ?L = "L(d := remove1 c (L d))"
  have dis: "distinct (L d)" using dir_tree_links [OF tree(1)] tree(2) by (simp add: hl_abs_def)
  have cd: "c \<noteq> d" using tree(3,4) by auto
  have e: "entry_ok t e \<and> dent t e = dent s e \<and> name_of t e = name_of s e \<and> inode_of t e = inode_of s e" if "e \<in> D - {c}" for e
    using entry_keep [OF dir_tree_entry [OF tree(1)], of e t] t(1) that by (simp add: entry_addrs_def)
  have sub: "set (?L e) \<subseteq> D - {c}" if "e \<in> D - {c}" for e
  proof -
    have "c \<notin> set (L e)" if "e \<noteq> d" using hl_abs_apart [OF dir_tree_links [OF tree(1)] tree(2) _ _ tree(3)] \<open>e \<in> D - {c}\<close> that by blast
    then show ?thesis using that dis dir_tree_child [OF tree(1)] tree(2) by (auto simp: set_remove1_eq)
  qed
  have nm: "distinct (map (name_of t) (?L e))" if "e \<in> D - {c}" for e
  proof -
    have eq: "map (name_of t) (?L e) = map (name_of s) (?L e)" using sub [OF that] e by (intro map_cong) auto
    have "inj_on (name_of s) (set (L e))" "distinct (L e)"
      using tree(1) that unfolding dir_tree_def by (auto simp: distinct_map)
    moreover from this have "inj_on (name_of s) (set (?L e))"
      by (rule_tac inj_on_subset) (auto dest: notin_set_remove1 set_remove1_subset [THEN subsetD])
    ultimately have "distinct (map (name_of s) (?L e))" using dis by (auto simp: distinct_map)
    then show ?thesis by (simp only: eq)
  qed
  have par: "d_parent (dent t x) = e" if "e \<in> D - {c}" "x \<in> set (?L e)" for e x
  proof -
    have "x \<in> set (L e)" using that set_remove1_subset [of c "L d"] by (auto split: if_splits)
    then have "d_parent (dent s x) = e" using dir_tree_parent_of [OF tree(1)] that(1) by blast
    moreover have "x \<in> D - {c}" using sub [OF that(1)] that(2) by (rule subsetD)
    ultimately show ?thesis using e by simp
  qed
  have up: "d_parent (dent t e) \<in> D - {c}" if "e \<in> D - {c}" "d_parent (dent t e) \<noteq> 0" for e
    using that e dir_tree_parent [OF tree(1)] tree(6) by auto
  show "dir_tree t (D - {c}) ?L"
    unfolding dir_tree_def using tree t(2) hl_abs_subset [OF t(3), of "D - {c}"] e sub nm par up
    by (auto simp: dir_tree_def)
  show "same_entries (D - {c}) s t" using e by (simp add: same_entries_def)
qed

text \<open>
  A ram file that can be removed: its dentry, inode, name and description are blocks of
  the allocator that no other entry uses, one reference is left, and the data are either
  fixed, absent, or a block of their own.
\<close>

definition ram_leaf :: "'a kobj_scheme \<Rightarrow> u64 set \<Rightarrow> (u64 \<Rightarrow> u64 list) \<Rightarrow> u64 \<Rightarrow> ramfile_info \<Rightarrow> bool" where
  "ram_leaf s D L c info \<longleftrightarrow>
     (let ip = d_inode (dent s c); np = d_name (dent s c); rp = i_private (inode_of s c)
      in objs s c = Some (Block, Dentry (dent s c)) \<and> objs s ip = Some (Block, Inode (inode_of s c)) \<and>
         objs s np = Some (Block, Str (name_of s c)) \<and> np \<noteq> 0 \<and> rp \<noteq> 0 \<and> objs s rp = Some (Block, RamInfo info) \<and>
         \<not> S_ISDIR (i_mode (inode_of s c)) \<and> i_count (inode_of s c) = 1 \<and>
         (ri_fixed_size info \<or> ri_start info = 0 \<or> (\<exists>n. objs s (ri_start info) = Some (Block, Buf n))) \<and>
         (\<forall>e \<in> D. d_parent (dent s e) \<noteq> c \<and> (e \<noteq> c \<longrightarrow> d_name (dent s e) \<noteq> np)) \<and> L c = [] \<and> c \<noteq> root_dentry s)"

definition ram_data :: "ramfile_info \<Rightarrow> u64 set" where
  "ram_data info = (if ri_fixed_size info \<or> ri_start info = 0 then {} else {ri_start info})"

lemma ramfile_unlink_leaf:
  assumes tree: "dir_tree s D L" "d \<in> D" "c \<in> set (L d)" and leaf: "ram_leaf s D L c info"
    and x: "x \<noteq> 0" "dentry_name x s = Ok (name_of s c)" and lock: "heap_lock s = 0"
  obtains t where "ramfile_inode_unlink (d_inode (dent s d)) x s = Ok (0, t)"
    "dir_tree t (D - {c}) (L(d := remove1 c (L d)))" "same_entries (D - {c}) s t"
    "dom (objs t) = dom (objs s) - entry_addrs s c - {i_private (inode_of s c)} - ram_data info"
proof -
  define ip where "ip = d_inode (dent s c)"
  define np where "np = d_name (dent s c)"
  define rp where "rp = i_private (inode_of s c)"
  define F where "F = {c, ip, np, rp} \<union> ram_data info"
  have cD: "c \<in> D" by (rule dir_tree_child [OF tree])
  have c: "c \<noteq> 0" "ip \<noteq> 0" "i_dentry (inode_of s c) = c" using dir_tree_entry [OF tree(1) cD] by (auto simp: entry_ok_def ip_def)
  have ob: "objs s c = Some (Block, Dentry (dent s c))" "objs s ip = Some (Block, Inode (inode_of s c))"
      "objs s np = Some (Block, Str (name_of s c))" "np \<noteq> 0" "rp \<noteq> 0" "objs s rp = Some (Block, RamInfo info)"
      "\<not> S_ISDIR (i_mode (inode_of s c))" "i_count (inode_of s c) = 1" "L c = []" "c \<noteq> root_dentry s"
      "\<forall>e \<in> D. d_parent (dent s e) \<noteq> c" "\<forall>e \<in> D. e \<noteq> c \<longrightarrow> d_name (dent s e) \<noteq> np"
    using leaf by (auto simp: ram_leaf_def Let_def ip_def np_def rp_def)
  have st: "\<exists>n. objs s (ri_start info) = Some (Block, Buf n)" if "ram_data info \<noteq> {}"
    using leaf that by (auto simp: ram_leaf_def Let_def ram_data_def split: if_splits)
  have neq: "c \<noteq> ip" "c \<noteq> np" "c \<noteq> rp" "ip \<noteq> np" "ip \<noteq> rp" "np \<noteq> rp" using ob by auto
  have sneq: "ri_start info \<notin> {c, ip, np, rp}" if "ram_data info \<noteq> {}" using st [OF that] ob by auto
  obtain l where l: "hlist_del c (d_links s) = Ok l" "hl_abs D l (L(d := remove1 c (L d)))"
    by (rule hl_abs_del [OF dir_tree_links [OF tree(1)] tree(2,3)])
  define w where "w A = s\<lparr>d_links := l, objs := (\<lambda>p. if p \<in> A then None else objs s p)\<rparr>" for A
  define t where "t = w F"
  have free: "kfree p (w A) = Ok (w (insert p A))" if "p \<notin> A" "p \<noteq> 0" "objs s p = Some (Block, ob)" for p A ob
    using that lock by (auto simp: kfree_def krelease_def w_def fun_eq_iff)
  have drop: "drop_inode ip (w A) = Ok (w (insert ip A))" if "ip \<notin> A" for A
    using that lock c ob(2,8) by (auto simp: drop_inode_def get_inode_def kfree_def krelease_def w_def put_def fun_eq_iff Let_def)
  have look: "vfs_lookup (d_inode (dent s d)) (name_of s c) s = Ok c"
    using vfs_lookup_tree [OF tree(1,2)] child_unique [OF tree] by simp
  have d0: "d_inode (dent s d) \<noteq> 0" using dir_tree_entry [OF tree(1,2)] by (simp add: entry_ok_def)
  have unl: "unlink_sib c s = Ok (w {})" using l(1) by (simp add: unlink_sib_def w_def)
  have data: "bindr (get_ram rp (w {})) (\<lambda>info.
      bindr (if \<not> ri_fixed_size info \<and> ri_start info \<noteq> 0 then kfree (ri_start info) (w {}) else Ok (w {})) (\<lambda>s. kfree rp s)) =
      Ok (w (insert rp (ram_data info)))"
    using st sneq ob(5,6) free [of "ri_start info" "{}"] free [of rp "ram_data info"]
    by (auto simp: get_ram_def w_def [of "{}"] ram_data_def)
  have "c \<notin> F - {c}" "ip \<notin> insert rp (ram_data info)" "np \<notin> {ip, rp} \<union> ram_data info" "c \<notin> {np, ip, rp} \<union> ram_data info"
    using neq sneq by (auto simp: ram_data_def split: if_splits)
  moreover have "F = insert c (insert np (insert ip (insert rp (ram_data info))))" by (auto simp: F_def)
  ultimately have run: "ramfile_inode_unlink (d_inode (dent s d)) x s = Ok (0, t)"
    using x look d0 c(1) ob(1-7) unl data drop [of "insert rp (ram_data info)"]
      free [OF _ ob(4,3), of "insert ip (insert rp (ram_data info))"]
      free [OF _ c(1) ob(1), of "insert np (insert ip (insert rp (ram_data info)))"]
    by (simp add: ramfile_inode_unlink_def get_dentry_def get_inode_def ip_def [symmetric] np_def [symmetric] rp_def [symmetric] t_def)
  have keep: "\<forall>e \<in> D - {c}. \<forall>p \<in> entry_addrs s e. objs t p = objs s p"
  proof (intro ballI)
    fix e p assume e: "e \<in> D - {c}" and p: "p \<in> entry_addrs s e"
    from dir_tree_entry [OF tree(1), of e] e obtain k1 k2 k3 where oe: "objs s e = Some (k1, Dentry (dent s e))"
        "objs s (d_inode (dent s e)) = Some (k2, Inode (inode_of s e))" "objs s (d_name (dent s e)) = Some (k3, Str (name_of s e))"
      by (auto elim!: entry_objs)
    have "d_inode (dent s e) \<noteq> ip"
      using entry_inode_inj [OF dir_tree_entry [OF tree(1), of e] dir_tree_entry [OF tree(1) cD]] e by (auto simp: ip_def)
    moreover have "d_name (dent s e) \<noteq> np" using ob(12) e by blast
    ultimately have "p \<notin> {c, ip, np, rp}" using p e oe ob by (auto simp: entry_addrs_def)
    moreover have "p \<notin> ram_data info"
    proof
      assume "p \<in> ram_data info"
      then have "p = ri_start info" "ram_data info \<noteq> {}" by (auto simp: ram_data_def split: if_splits)
      then show False using st p oe by (auto simp: entry_addrs_def)
    qed
    ultimately show "objs t p = objs s p" by (simp add: t_def w_def F_def)
  qed
  have "dom (objs t) = dom (objs s) - entry_addrs s c - {i_private (inode_of s c)} - ram_data info"
    by (auto simp: t_def w_def F_def entry_addrs_def ip_def np_def rp_def split: if_splits)
  moreover have "root_dentry t = root_dentry s" "d_links t = l" by (simp_all add: t_def w_def)
  ultimately show thesis
    using run dir_tree_detach [OF tree ob(9-11) keep] l(2) by (intro that [of t]) auto
qed

section \<open>Data\<close>

lemma ram_bytes_fit:
  fixes off n sz :: u64
  assumes "unat off + unat n \<le> unat sz"
  shows "\<not> off > sz" "(if n < sz - off then n else sz - off) = n" "off + n \<le> sz" "\<not> off + n < off"
proof -
  have nw: "unat (off + n) = unat off + unat n"
    using assms unat_less_u64 [of sz] by (intro unat_add_lem [THEN iffD1]) simp
  show "\<not> off > sz" using assms by (simp add: word_less_nat_alt)
  then have "unat (sz - off) = unat sz - unat off" by (intro unat_sub) simp
  then show "(if n < sz - off then n else sz - off) = n"
    using assms by (auto simp: word_less_nat_alt word_unat_eq_iff)
  show "off + n \<le> sz" "\<not> off + n < off" using assms nw by (simp_all add: word_le_nat_alt word_less_nat_alt)
qed

lemma mem_copy_at: "i < n \<Longrightarrow> n \<le> 2 ^ 64 \<Longrightarrow> mem_copy m d s n (d + of_nat i) = m (s + of_nat i)"
  by (simp add: mem_copy_def of_nat_diff_lt unat_of_nat_u64)

lemma unat_u64_le: "unat (n :: u64) \<le> 2 ^ 64"
  using unat_less_u64 [of n] by simp

lemma ramfile_write_in_place:
  assumes "buf \<noteq> 0" "get_inode (f_inode file) s = Ok i" "i_private i \<noteq> 0" "get_ram (i_private i) s = Ok info"
    and "ri_start info \<noteq> 0" "n \<noteq> 0" "unat off + unat n \<le> unat (ri_size info)"
    and "region (ri_start info + off) (unat n) \<inter> region buf (unat n) = {}"
  shows "ramfile_write file buf n off s =
    Ok (sint n, off + n, s\<lparr>kmem := mem_copy (kmem s) (ri_start info + off) buf (unat n)\<rparr>)"
  using assms ram_bytes_fit [OF assms(7)] memcpy_disjoint [OF unat_u64_le assms(8), of "kmem s"]
  by (simp add: ramfile_write_def Let_def)

lemma ramfile_read_in_place:
  assumes "get_inode (f_inode file) s = Ok i" "get_ram (i_private i) s = Ok info"
    and "ri_start info \<noteq> 0" "n \<noteq> 0" "unat off + unat n \<le> unat (ri_size info)"
    and "region buf (unat n) \<inter> region (ri_start info + off) (unat n) = {}"
  shows "ramfile_read file buf n off s =
    Ok (sint n, off + n, s\<lparr>kmem := mem_copy (kmem s) buf (ri_start info + off) (unat n)\<rparr>)"
proof -
  have "ri_size info \<noteq> 0" using assms(4,5) by (auto simp: word_unat_eq_iff)
  then show ?thesis
    using assms(1-3) ram_bytes_fit(2) [OF assms(5)] memcpy_disjoint [OF unat_u64_le assms(6), of "kmem s"]
    by (simp add: ramfile_read_def Let_def)
qed

section \<open>An example file system\<close>

text \<open>A root directory with a directory \<open>dev\<close> and a ram file \<open>f\<close> of sixteen bytes.\<close>

definition demo_inode :: "u64 \<Rightarrow> u16 \<Rightarrow> iops \<Rightarrow> fops \<Rightarrow> u64 \<Rightarrow> inode" where
  "demo_inode d mode io fo priv = \<lparr>i_dentry = d, i_mode = mode, i_uid = 0, i_gid = 0, i_size = 0, i_count = 1,
     i_op = io, i_fop = fo, i_private = priv\<rparr>"

definition demo_dentry :: "u64 \<Rightarrow> u64 \<Rightarrow> dentry" where
  "demo_dentry d parent = \<lparr>d_name = d + 0x200, d_parent = parent, d_inode = d + 0x100, d_count = 0\<rparr>"

definition demo_objs :: "u64 \<rightharpoonup> origin \<times> obj" where
  "demo_objs = [0x1000 \<mapsto> (Static, Dentry (demo_dentry 0x1000 0)),
     0x1100 \<mapsto> (Static, Inode (demo_inode 0x1000 0x41ED def_vfs_i_ops NoFops 0)), 0x1200 \<mapsto> (Static, Str ''/''),
     0x2000 \<mapsto> (Block, Dentry (demo_dentry 0x2000 0x1000)),
     0x2100 \<mapsto> (Block, Inode (demo_inode 0x2000 0x41ED def_vfs_i_ops NoFops 0)), 0x2200 \<mapsto> (Block, Str ''dev''),
     0x3000 \<mapsto> (Block, Dentry (demo_dentry 0x3000 0x1000)),
     0x3100 \<mapsto> (Block, Inode (demo_inode 0x3000 0x81A4 ram_dir_iops ram_file_fops 0x3300)), 0x3200 \<mapsto> (Block, Str ''f''),
     0x3300 \<mapsto> (Block, RamInfo \<lparr>ri_start = 0x8000, ri_size = 16, ri_fixed_size = False\<rparr>), 0x8000 \<mapsto> (Block, Buf 16),
     0x4000 \<mapsto> (Block, Dentry (demo_dentry 0x4000 0x1000)), 0x4200 \<mapsto> (Block, Str ''f'')]"

definition demo_links :: hlists where
  "demo_links = \<lparr>hnext = (\<lambda>_. 0)(0x2000 := 0x3000),
     hpprev = [0x2000 \<mapsto> First 0x1000, 0x3000 \<mapsto> Next 0x2000], hfirst = (\<lambda>_. 0)(0x1000 := 0x2000)\<rparr>"

definition demo_fs :: kobj where
  "demo_fs = heap.extend demo_heap (kobj.fields demo_objs [0x9000, 0x9100, 0x9200, 0x9300, 0x9400, 0x9500] (\<lambda>_. 0)
     demo_links 0x1000 0)"

definition demo_children :: "u64 \<Rightarrow> u64 list" where
  "demo_children = (\<lambda>_. [])(0x1000 := [0x2000, 0x3000])"

abbreviation demo_entries :: "u64 set" where
  "demo_entries \<equiv> {0x1000, 0x2000, 0x3000}"

lemma demo_fs_sel [simp]:
  "objs demo_fs = demo_objs" "d_links demo_fs = demo_links" "root_dentry demo_fs = 0x1000" "current_process demo_fs = 0"
  "answers demo_fs = [0x9000, 0x9100, 0x9200, 0x9300, 0x9400, 0x9500]" "heap_lock demo_fs = 0"
  by (simp_all add: demo_fs_def heap.defs kobj.defs demo_heap_def)

lemma demo_dent:
  "dent demo_fs 0x1000 = demo_dentry 0x1000 0" "dent demo_fs 0x2000 = demo_dentry 0x2000 0x1000"
  "dent demo_fs 0x3000 = demo_dentry 0x3000 0x1000"
  by (simp_all add: dent_def get_dentry_def demo_objs_def)

lemma demo_names:
  "name_of demo_fs 0x1000 = ''/''" "name_of demo_fs 0x2000 = ''dev''" "name_of demo_fs 0x3000 = ''f''"
  by (simp_all add: name_of_def demo_dent demo_dentry_def get_str_def demo_objs_def)

lemma demo_inodes:
  "inode_of demo_fs 0x1000 = demo_inode 0x1000 0x41ED def_vfs_i_ops NoFops 0"
  "inode_of demo_fs 0x2000 = demo_inode 0x2000 0x41ED def_vfs_i_ops NoFops 0"
  "inode_of demo_fs 0x3000 = demo_inode 0x3000 0x81A4 ram_dir_iops ram_file_fops 0x3300"
  by (simp_all add: inode_of_def demo_dent demo_dentry_def get_inode_def demo_objs_def)

lemma demo_entry:
  "entry_ok demo_fs 0x1000" "entry_ok demo_fs 0x2000" "entry_ok demo_fs 0x3000"
  by (simp_all add: entry_ok_def demo_dent demo_names demo_inodes demo_dentry_def demo_inode_def
      get_dentry_def get_inode_def get_str_def demo_objs_def)

lemma demo_tree: "dir_tree demo_fs demo_entries demo_children"
proof -
  have "hl_abs demo_entries demo_links demo_children"
    by (simp add: hl_abs_def demo_links_def demo_children_def)
  then show ?thesis
    by (simp add: dir_tree_def demo_entry demo_children_def demo_names demo_dent demo_dentry_def) blast
qed

lemma demo_plenty: "plenty 5 demo_fs" "plenty 4 demo_fs" "plenty 2 demo_fs"
  by (simp_all add: plenty_def demo_objs_def)

lemma demo_granted: "granted demo_fs 0x9000 [0x9100, 0x9200, 0x9300, 0x9400, 0x9500]"
  by (simp add: granted_def demo_objs_def)

lemma demo_facts:
  "0x1000 \<in> demo_entries" "d_inode (dent demo_fs 0x1000) = 0x1100" "current_ids demo_fs = Ok (0, 0)"
  "i_op (inode_of demo_fs 0x1000) = def_vfs_i_ops" "i_op (inode_of demo_fs 0x2000) = def_vfs_i_ops"
  "cut_path ''/dev/null'' = (''/dev'', ''null'')" "component ''null''" "(0x2000 :: u64) \<noteq> 0" "(0x1000 :: u64) \<noteq> 0"
  "''null'' \<notin> name_of demo_fs ` set (demo_children 0x2000)"
  "cut_path ''/dev'' = (''/'', ''dev'')" "''dev'' \<in> name_of demo_fs ` set (demo_children 0x1000)"
  by (simp_all add: demo_dent demo_dentry_def current_ids_def demo_inodes demo_inode_def cut_path_def split_last_def
      component_def demo_children_def demo_names)

lemma demo_fits: "str_fits ''/dev/null''" "str_fits ''/dev''" "str_fits ''/''" "str_fits ''/dev/../f''"
  by (simp_all add: str_fits_def)

lemma demo_walks:
  "tree_walk demo_fs demo_children (path_tokens ''/dev'') 0x1000 = Ok 0x2000"
  "tree_walk demo_fs demo_children (path_tokens ''/'') 0x1000 = Ok 0x1000"
  "tree_walk demo_fs demo_children (path_tokens ''/dev/../f'') 0x1000 = Ok 0x3000"
  by (simp_all add: path_tokens_def demo_inodes demo_inode_def child_def demo_children_def demo_names demo_dent demo_dentry_def)

section \<open>Properties\<close>

text \<open>
  C8. Looking up a path walks the directory tree component by component, with \<open>.\<close> and \<open>..\<close>
  resolved on the way and the search stopping at the first missing name; the only effect
  is one more reference on the inode of the entry found, and the copy of the path is
  released again.
\<close>

theorem kpath_lookup_walks:
  assumes "dir_tree s D L" "d \<in> D" "granted s a as" "str_fits p"
  shows "kpath_lookup (d_inode (dent s d)) p s =
    (case tree_walk s L (path_tokens p) d of Stop c \<Rightarrow> Stop c
     | Ok e \<Rightarrow> if e = 0 then Ok (0, s\<lparr>answers := as\<rparr>) else Ok (e, ref_up e (s\<lparr>answers := as\<rparr>)))"
  using assms by (rule kpath_lookup_tree)

theorem kpath_lookup_walks_witness:
  "\<exists>u. kpath_lookup 0x1100 ''/dev/../f'' demo_fs = Ok (0x3000, u)"
  using kpath_lookup_walks [OF demo_tree demo_facts(1) demo_granted demo_fits(4)] by (simp add: demo_walks demo_facts)

text \<open>
  C7. Creating a path whose last component is new in an existing directory succeeds: the
  tree gains exactly that leaf, with the requested mode and the identity of the caller,
  every other entry is as before, the path copies are released, and the same path then
  leads to the new entry.
\<close>

theorem kpath_create_then_lookup:
  fixes s :: "'a kobj_scheme"
  assumes "dir_tree s D L" "d0 \<in> D" "plenty 5 s" "str_fits p" "cut_path p = (pp, n)" "component n"
    and "tree_walk s L (path_tokens pp) d0 = Ok d" "d \<noteq> 0" "i_op (inode_of s d) = def_vfs_i_ops"
    and "n \<notin> name_of s ` set (L d)" "current_ids s = Ok (uid, gid)"
  shows "\<exists>x t. kpath_create (d_inode (dent s d0)) p mode excl s = Ok (0, t) \<and> x \<notin> D \<and>
    dir_tree t (insert x D) (L(x := [], d := x # L d)) \<and> same_entries D s t \<and>
    dom (objs t) = dom (objs s) \<union> entry_addrs t x \<and> i_mode (inode_of t x) = mode \<and>
    i_uid (inode_of t x) = uid \<and> i_gid (inode_of t x) = gid \<and>
    (\<forall>a as. granted t a as \<longrightarrow> (\<exists>u. kpath_lookup (d_inode (dent t d0)) p t = Ok (x, u)))"
proof -
  obtain x t where t: "kpath_make (\<lambda>op dir dentry. call_create op dir dentry mode excl) (d_inode (dent s d0)) p s = Ok (0, t)"
    "x \<notin> D" "x \<noteq> 0" "dir_tree t (insert x D) (L(x := [], d := x # L d))" "same_entries D s t" "heap_lock t = 0"
    "name_of t x = n" "d_parent (dent t x) = d" "i_mode (inode_of t x) = mode" "i_uid (inode_of t x) = uid"
    "i_gid (inode_of t x) = gid" "i_op (inode_of t x) = def_vfs_i_ops" "dom (objs t) = dom (objs s) \<union> entry_addrs t x"
    by (rule kpath_make_new [OF assms(1-5,7,8,9) _ assms(10,11), where op = "\<lambda>op dir dentry. call_create op dir dentry mode excl"
          and mode = mode and excl = excl]) simp_all
  have "tree_walk t (L(x := [], d := x # L d)) (path_tokens p) d0 = Ok x"
    by (rule tree_walk_new_leaf [OF assms(1,2) t(5,2,3,7) assms(10,5,6,7,8) _ t(4)]) (simp add: assms(9))
  then have "\<exists>u. kpath_lookup (d_inode (dent t d0)) p t = Ok (x, u)" if "granted t a as" for a as
    using kpath_lookup_tree [OF t(4) _ that assms(4), of d0] assms(2) t(3) by simp
  then show ?thesis using t unfolding kpath_create_def by blast
qed

theorem kpath_create_then_lookup_witness:
  "\<exists>x t. kpath_create 0x1100 ''/dev/null'' 0x21B6 True demo_fs = Ok (0, t) \<and> x \<notin> demo_entries \<and>
     dir_tree t (insert x demo_entries) (demo_children(x := [], 0x2000 := x # demo_children 0x2000))"
  using kpath_create_then_lookup [OF demo_tree demo_facts(1) demo_plenty(1) demo_fits(1) demo_facts(6,7) demo_walks(1)
      demo_facts(8,5,10,3), of "0x21B6" True] unfolding demo_facts(2) by blast

text \<open>
  Creating a path whose last component is already a name in the directory is refused
  with \<open>EEXIST\<close>; the tree is unchanged and every block taken on the way is freed.
\<close>

theorem kpath_create_existing:
  fixes s :: "'a kobj_scheme"
  assumes "dir_tree s D L" "d0 \<in> D" "plenty 4 s" "str_fits p" "cut_path p = (pp, n)"
    and "tree_walk s L (path_tokens pp) d0 = Ok d" "d \<noteq> 0" "i_op (inode_of s d) = def_vfs_i_ops"
    and "n \<in> name_of s ` set (L d)"
  shows "\<exists>t. kpath_create (d_inode (dent s d0)) p mode excl s = Ok (- E_EXIST, t) \<and> dir_tree t D L \<and>
    same_entries D s t \<and> dom (objs t) = dom (objs s)"
proof -
  obtain t where "kpath_make (\<lambda>op dir dentry. call_create op dir dentry mode excl) (d_inode (dent s d0)) p s = Ok (- E_EXIST, t)"
    "dir_tree t D L" "same_entries D s t" "dom (objs t) = dom (objs s)"
    by (rule kpath_make_exists [OF assms(1-8) _ assms(9), where op = "\<lambda>op dir dentry. call_create op dir dentry mode excl"
          and mode = mode and excl = excl]) simp_all
  then show ?thesis unfolding kpath_create_def by blast
qed

theorem kpath_create_existing_witness:
  "\<exists>t. kpath_create 0x1100 ''/dev'' 0x81A4 True demo_fs = Ok (- E_EXIST, t) \<and> dom (objs t) = dom (objs demo_fs)"
  using kpath_create_existing [OF demo_tree demo_facts(1) demo_plenty(2) demo_fits(2) demo_facts(11) demo_walks(2)
      demo_facts(9,4,12), of "0x81A4" True] unfolding demo_facts(2) by blast

text \<open>
  C22. The path \<open>kpath_reverse\<close> prints for an entry below the root is the chain of names that
  leads to it, and looking that path up from the root finds the entry again.
\<close>

theorem kpath_reverse_roundtrip:
  assumes "dir_tree s D L" "d_parent (dent s (root_dentry s)) = 0" "trail L (root_dentry s) xs e" "xs \<noteq> []"
    and "\<forall>x \<in> set xs. component (name_of s x)" "\<forall>x \<in> D. i_op (inode_of s x) \<noteq> NoIops"
    and "granted s a as" "str_fits (path_string s xs)"
  shows "\<exists>q t. kpath_reverse e s = Ok (q, t) \<and> get_str q t = Ok (path_string s xs) \<and>
    (\<exists>u. kpath_lookup (d_inode (dent s (root_dentry s))) (path_string s xs) s = Ok (e, u))"
proof -
  have root: "root_dentry s \<in> D" using assms(1) by (simp add: dir_tree_def)
  have eD: "e \<in> D" using trail_in [OF assms(1) root assms(3)] by blast
  then have e: "e \<noteq> 0" "get_dentry e s = Ok (dent s e)" using dir_tree_entry [OF assms(1)] by (auto simp: entry_ok_def)
  have par: "d_parent (dent s e) \<noteq> 0"
  proof -
    obtain ys y where "xs = ys @ [y]" using assms(4) by (cases xs rule: rev_cases) auto
    then obtain m where m: "trail L (root_dentry s) ys m" "e \<in> set (L m)" using assms(3) by (auto simp: trail_snoc)
    then have "m \<in> D" using trail_in [OF assms(1) root] by blast
    then show ?thesis using dir_tree_parent_of [OF assms(1) _ m(2)] dir_tree_entry [OF assms(1)] by (auto simp: entry_ok_def)
  qed
  have "reverse_loop e [] s = Some (Ok (path_string s xs))"
    using reverse_loop_trail [OF assms(1) root assms(2,3), of "[]"] by simp
  then have "kpath_reverse e s = Ok (a, s\<lparr>answers := as, objs := (objs s)(a \<mapsto> (Block, Str (path_string s xs)))\<rparr>)"
    using e par kalloc_granted [OF assms(7) str_fits_size [OF assms(8)]] by (simp add: kpath_reverse_def)
  moreover have "tree_walk s L (path_tokens (path_string s xs)) (root_dentry s) = Ok e"
    unfolding path_string_tokens [OF assms(5)] by (rule tree_walk_trail [OF assms(1) root assms(3,5,6)])
  then have "\<exists>u. kpath_lookup (d_inode (dent s (root_dentry s))) (path_string s xs) s = Ok (e, u)"
    using kpath_lookup_tree [OF assms(1) root assms(7,8)] e by simp
  ultimately show ?thesis by (simp add: get_str_def)
qed

theorem kpath_reverse_roundtrip_witness:
  "\<exists>q t. kpath_reverse 0x2000 demo_fs = Ok (q, t) \<and> get_str q t = Ok ''/dev''"
proof -
  have "path_string demo_fs [0x2000] = ''/dev''" by (simp add: path_string_def demo_names)
  moreover have "d_parent (dent demo_fs (root_dentry demo_fs)) = 0" "trail demo_children (root_dentry demo_fs) [0x2000] 0x2000"
      "\<forall>x \<in> set [0x2000]. component (name_of demo_fs x)" "\<forall>x \<in> demo_entries. i_op (inode_of demo_fs x) \<noteq> NoIops"
    by (simp_all add: demo_dent demo_dentry_def demo_children_def component_def demo_names demo_inodes demo_inode_def)
  ultimately show ?thesis
    using kpath_reverse_roundtrip [OF demo_tree _ _ _ _ _ demo_granted, of "[0x2000]" "0x2000"] demo_fits(2) by auto
qed

text \<open>
  The operation table of ordinary directories has no \<open>rmdir\<close> and no \<open>unlink\<close> entry:
  removing anything from such a directory calls a NULL pointer.
\<close>

theorem default_dir_cannot_remove:
  fixes s :: "'a kobj_scheme"
  assumes "dir_tree s D L" "d0 \<in> D" "plenty 2 s" "str_fits p"
    and "tree_walk s L (path_tokens p) d0 = Ok d" "d \<noteq> 0" "i_op (inode_of s d) = def_vfs_i_ops"
  shows "kpath_rmdir (d_inode (dent s d0)) p name s = Stop BadPointer \<and>
    path_unlink (d_inode (dent s d0)) p name s = Stop BadPointer"
proof -
  have dD: "d \<in> D" by (rule tree_walk_in [OF assms(1,2,5,6)])
  have "plenty (Suc 1) s" using assms(3) by (simp add: numeral_2_eq_2)
  then obtain t k where t: "kpath_lookup (d_inode (dent s d0)) p s = Ok (d, t)" "dir_tree t D L" "same_entries D s t"
      "plenty 1 t" "objs s (d_inode (dent s d)) = Some (k, Inode (inode_of s d))"
    by (rule kpath_lookup_found [OF assms(1,2) _ assms(4,5,6)])
  have "plenty (Suc 0) t" using t(4) by simp
  then obtain a as where a: "granted t a as" by (rule plenty_Suc)
  let ?u = "t\<lparr>answers := as, objs := (objs t)(a \<mapsto> (Block, Dentry zero_dentry))\<rparr>"
  define v where "v = put a (Dentry (junk_dentry a name d ?u)) ?u"
  have le: "objs t \<subseteq>\<^sub>m objs v" using a by (auto simp: v_def put_def granted_def map_le_def)
  have d: "entry_ok v d" "i_op (inode_of v d) = def_vfs_i_ops"
    using entry_mono [OF le dir_tree_entry [OF t(2) dD]] t(3) dD assms(7) by (auto simp: same_entries_def)
  show ?thesis
    using t(1) assms(6) kalloc_granted [OF a, of SIZEOF_DENTRY Block "Dentry zero_dentry"] a d
    by (simp add: kpath_rmdir_def path_unlink_def SIZEOF_DENTRY_def granted_def Let_def v_def [symmetric] entry_ok_def)
qed

theorem default_dir_cannot_remove_witness:
  "kpath_rmdir 0x1100 ''/'' 0x2200 demo_fs = Stop BadPointer \<and> path_unlink 0x1100 ''/'' 0x2200 demo_fs = Stop BadPointer"
  using default_dir_cannot_remove [OF demo_tree demo_facts(1) demo_plenty(3) demo_fits(3) demo_walks(2)
      demo_facts(9,4), of "0x2200"] unfolding demo_facts(2) .

text \<open>
  C23. Unlinking a ram file that nothing else refers to removes its entry from the
  directory, keeps the rest of the tree as it was, and frees exactly its dentry, its
  inode, its name, its description and its data.
\<close>

theorem ramfile_unlink_removes:
  assumes "dir_tree s D L" "d \<in> D" "c \<in> set (L d)" "ram_leaf s D L c info"
    and "x \<noteq> 0" "dentry_name x s = Ok (name_of s c)" "heap_lock s = 0"
  shows "\<exists>t. ramfile_inode_unlink (d_inode (dent s d)) x s = Ok (0, t) \<and>
    dir_tree t (D - {c}) (L(d := remove1 c (L d))) \<and> same_entries (D - {c}) s t \<and>
    dom (objs t) = dom (objs s) - entry_addrs s c - {i_private (inode_of s c)} - ram_data info"
  by (rule ramfile_unlink_leaf [OF assms]) blast

theorem ramfile_unlink_removes_witness:
  "\<exists>t. ramfile_inode_unlink 0x1100 0x4000 demo_fs = Ok (0, t) \<and>
     dir_tree t (demo_entries - {0x3000}) (demo_children(0x1000 := remove1 0x3000 (demo_children 0x1000)))"
proof -
  let ?info = "\<lparr>ri_start = 0x8000, ri_size = 16, ri_fixed_size = False\<rparr>"
  have "ram_leaf demo_fs demo_entries demo_children 0x3000 ?info" "0x3000 \<in> set (demo_children 0x1000)"
      "dentry_name 0x4000 demo_fs = Ok (name_of demo_fs 0x3000)"
    by (simp_all add: ram_leaf_def demo_dent demo_dentry_def demo_inodes demo_inode_def demo_names demo_children_def
      demo_objs_def dentry_name_def get_dentry_def get_str_def S_ISDIR_def S_IFMT_def S_IFDIR_def)
  then show ?thesis
    using ramfile_unlink_removes [OF demo_tree demo_facts(1), of "0x3000" ?info "0x4000"] unfolding demo_facts(2) by auto
qed

text \<open>
  C24. Bytes written to a ram file inside its size are read back unchanged from the same
  offset, and both calls return the full count and advance the offset by it.
\<close>

theorem ramfile_write_read:
  assumes "buf \<noteq> 0" "get_inode (f_inode file) s = Ok i" "i_private i \<noteq> 0" "get_ram (i_private i) s = Ok info"
    and "ri_start info \<noteq> 0" "n \<noteq> 0" "unat off + unat n \<le> unat (ri_size info)"
    and "region (ri_start info + off) (unat n) \<inter> region buf (unat n) = {}"
    and "region dst (unat n) \<inter> region (ri_start info + off) (unat n) = {}"
  shows "\<exists>t u. ramfile_write file buf n off s = Ok (sint n, off + n, t) \<and>
    ramfile_read file dst n off t = Ok (sint n, off + n, u) \<and>
    (\<forall>k < unat n. kmem u (dst + of_nat k) = kmem s (buf + of_nat k))"
proof -
  let ?t = "s\<lparr>kmem := mem_copy (kmem s) (ri_start info + off) buf (unat n)\<rparr>"
  have "get_inode (f_inode file) ?t = Ok i" "get_ram (i_private i) ?t = Ok info"
    using assms(2,4) by (simp_all add: get_inode_def get_ram_def)
  from ramfile_read_in_place [OF this assms(5,6,7,9)] ramfile_write_in_place [OF assms(1-8)]
  show ?thesis by (simp add: mem_copy_at [OF _ unat_u64_le])
qed

theorem ramfile_write_read_witness:
  "\<exists>t u. ramfile_write (empty_file\<lparr>f_inode := 0x3100\<rparr>) 0x7000 4 8 demo_fs = Ok (4, 12, t) \<and>
     ramfile_read (empty_file\<lparr>f_inode := 0x3100\<rparr>) 0x7100 4 8 t = Ok (4, 12, u)"
proof -
  have "region (0x8008 :: u64) 4 \<inter> region 0x7000 4 = {}" "region (0x7100 :: u64) 4 \<inter> region 0x8008 4 = {}"
    by (auto simp: region_def unat_arith_simps)
  then show ?thesis
    using ramfile_write_read [of "0x7000" "empty_file\<lparr>f_inode := 0x3100\<rparr>" demo_fs
        "demo_inode 0x3000 0x81A4 ram_dir_iops ram_file_fops 0x3300"
        "\<lparr>ri_start = 0x8000, ri_size = 16, ri_fixed_size = False\<rparr>" 4 8 "0x7100"]
    by (simp add: get_inode_def get_ram_def demo_objs_def demo_inode_def) blast
qed

text \<open>
  A write that would extend a ram file never returns: it calls \<open>krealloc\<close>, which takes
  the heap lock and then waits for it.
\<close>

theorem ramfile_growth_deadlocks:
  assumes "buf \<noteq> 0" "get_inode (f_inode file) s = Ok i" "i_private i \<noteq> 0" "get_ram (i_private i) s = Ok info"
    and "\<not> ri_fixed_size info" "n \<noteq> 0" "unat off + unat n < 2 ^ 64"
    and "unat (ri_size info) < unat off + unat n"
  shows "ramfile_write file buf n off s = Stop Deadlock"
proof -
  have nw: "unat (off + n) = unat off + unat n" using assms(7) by (intro unat_add_lem [THEN iffD1]) simp
  then have "\<not> off + n < off" "\<not> off + n \<le> ri_size info"
    using assms(8) by (simp_all add: word_le_nat_alt word_less_nat_alt)
  moreover have "off + n \<noteq> 0" using nw assms(6) by (auto simp: word_unat_eq_iff)
  ultimately show ?thesis using assms(1-6) by (simp add: ramfile_write_def Let_def krealloc_deadlock)
qed

theorem ramfile_growth_deadlocks_witness:
  "ramfile_write (empty_file\<lparr>f_inode := 0x3100\<rparr>) 0x7000 4 16 demo_fs = Stop Deadlock"
  by (rule ramfile_growth_deadlocks [where i = "demo_inode 0x3000 0x81A4 ram_dir_iops ram_file_fops 0x3300"
        and info = "\<lparr>ri_start = 0x8000, ri_size = 16, ri_fixed_size = False\<rparr>"])
    (simp_all add: get_inode_def get_ram_def demo_objs_def demo_inode_def)

end
