(* ===== verification/Helpers.thy ===== *)
theory Helpers
  imports Prelude
begin

text \<open>
  The bitmaps of \<open>kernel/src/defines/helpers.h\<close> and \<open>helpers.c\<close>, where a set bit is a free
  number: setting and clearing a bit, and the search for the lowest set bit by bytes
  and by 64-bit words. The bitmap is a list of bytes; the word variant reads eight of
  them in little-endian order. Both searches return the lowest free number and take it.
\<close>

definition SIZE_T_NONE :: u64 where
  "SIZE_T_NONE = - 1"

definition helpers_bitmap_set :: "u8 list \<Rightarrow> u64 \<Rightarrow> bool \<Rightarrow> u8 list run" where
  "helpers_bitmap_set bitmap idx state =
     (let byte = unat (idx div 8); b = unat (idx mod 8)
      in if byte < length bitmap
         then Ok (bitmap[byte := (if state then bitmap ! byte OR 2 ^ b else bitmap ! byte AND NOT (2 ^ b))])
         else Stop OutOfBounds)"

text \<open>\<open>__builtin_ctz\<close> on a nonzero argument: the number of zero bits below the lowest one.\<close>

definition ctz :: "'a::len word \<Rightarrow> nat" where
  "ctz w = length (takeWhile (\<lambda>i. \<not> bit w i) [0..<LENGTH('a)])"

fun bitmap_alloc_from :: "u8 list \<Rightarrow> nat \<Rightarrow> nat \<Rightarrow> (u64 \<times> u8 list) run" where
  "bitmap_alloc_from bitmap i 0 = Ok (SIZE_T_NONE, bitmap)"
| "bitmap_alloc_from bitmap i (Suc k) =
     (if i < length bitmap
      then (let byte = bitmap ! i
            in if byte = 0 then bitmap_alloc_from bitmap (Suc i) k
               else (let idx = of_nat i * 8 + of_nat (ctz byte)
                     in bindr (helpers_bitmap_set bitmap idx False) (\<lambda>bitmap. Ok (idx, bitmap))))
      else Stop OutOfBounds)"

definition bitmap_alloc_1_first :: "u8 list \<Rightarrow> nat \<Rightarrow> (u64 \<times> u8 list) run" where
  "bitmap_alloc_1_first bitmap nbytes = bitmap_alloc_from bitmap 0 nbytes"

primrec le_word :: "u8 list \<Rightarrow> u64" where
  "le_word [] = 0"
| "le_word (b # bs) = ucast b OR push_bit 8 (le_word bs)"

fun wbitmap_alloc_from :: "u8 list \<Rightarrow> nat \<Rightarrow> nat \<Rightarrow> (u64 \<times> u8 list) run" where
  "wbitmap_alloc_from bitmap i 0 = Ok (SIZE_T_NONE, bitmap)"
| "wbitmap_alloc_from bitmap i (Suc k) =
     (if 8 * i + 8 \<le> length bitmap
      then (let w = le_word (take 8 (drop (8 * i) bitmap))
            in if w = 0 then wbitmap_alloc_from bitmap (Suc i) k
               else (let idx = of_nat i * 64 + of_nat (ctz w)
                     in bindr (helpers_bitmap_set bitmap idx False) (\<lambda>bitmap. Ok (idx, bitmap))))
      else Stop OutOfBounds)"

definition wbitmap_alloc_1_first :: "u8 list \<Rightarrow> nat \<Rightarrow> (u64 \<times> u8 list) run" where
  "wbitmap_alloc_1_first bitmap nbytes = wbitmap_alloc_from bitmap 0 (nbytes div 8)"

section \<open>The free numbers of a bitmap\<close>

definition free_num :: "u8 list \<Rightarrow> nat \<Rightarrow> bool" where
  "free_num bm n \<longleftrightarrow> n < 8 * length bm \<and> bit (bm ! (n div 8)) (n mod 8)"

lemma ctz_nonzero:
  fixes w :: "'a::len word"
  assumes "w \<noteq> 0"
  shows "ctz w < LENGTH('a)" "bit w (ctz w)" "\<And>i. i < ctz w \<Longrightarrow> \<not> bit w i"
proof -
  let ?xs = "[0..<LENGTH('a)]"
  let ?t = "takeWhile (\<lambda>i. \<not> bit w i) ?xs"
  have "\<exists>i<LENGTH('a). bit w i"
  proof (rule ccontr)
    assume "\<not> (\<exists>i<LENGTH('a). bit w i)"
    then have "w = 0" by (intro bit_word_eqI) simp
    then show False using assms by simp
  qed
  then have "\<not> (\<forall>x \<in> set ?xs. \<not> bit w x)" by auto
  then have "length ?t \<noteq> length ?xs" using length_takeWhile_all [of "\<lambda>i. \<not> bit w i" ?xs] by blast
  then have lt: "length ?t < length ?xs"
    using length_takeWhile_le [of "\<lambda>i. \<not> bit w i" ?xs] by linarith
  show c: "ctz w < LENGTH('a)" using lt by (simp add: ctz_def)
  show "bit w (ctz w)" using nth_length_takeWhile [of "\<lambda>i. \<not> bit w i" ?xs] lt
    by (simp add: ctz_def)
  show "\<not> bit w i" if "i < ctz w" for i
    using that c takeWhile_nth [of i "\<lambda>i. \<not> bit w i" ?xs] nth_mem [of i ?t] set_takeWhileD [of _ "\<lambda>i. \<not> bit w i" ?xs]
    by (fastforce simp: ctz_def)
qed

lemma free_num_set:
  assumes "n < 8 * length bm" "n < 2 ^ 64"
  obtains bm' where "helpers_bitmap_set bm (of_nat n) v = Ok bm'" "length bm' = length bm"
    "\<And>k. free_num bm' k \<longleftrightarrow> (if k = n then v else free_num bm k)"
proof -
  define w where "w = (if v then bm ! (n div 8) OR 2 ^ (n mod 8) else bm ! (n div 8) AND NOT (2 ^ (n mod 8)))"
  have un: "unat ((of_nat n :: u64) div 8) = n div 8" "unat ((of_nat n :: u64) mod 8) = n mod 8"
    using assms(2) by (simp_all add: unat_div unat_mod unat_of_nat_u64)
  have len: "n div 8 < length bm" using assms(1) by (simp add: less_mult_imp_div_less mult.commute)
  have "helpers_bitmap_set bm (of_nat n) v = Ok (bm[n div 8 := w])"
    using len un by (simp add: helpers_bitmap_set_def w_def Let_def)
  moreover have "free_num (bm[n div 8 := w]) k \<longleftrightarrow> (if k = n then v else free_num bm k)" for k
  proof (cases "k div 8 = n div 8")
    case True
    then have "k = n \<longleftrightarrow> k mod 8 = n mod 8" by (metis mod_mult_div_eq)
    moreover have "bit w (k mod 8) \<longleftrightarrow> (if k mod 8 = n mod 8 then v else bit (bm ! (n div 8)) (k mod 8))"
      by (auto simp: w_def bit_simps)
    ultimately show ?thesis using True assms(1) len by (auto simp: free_num_def)
  qed (auto simp: free_num_def)
  ultimately show thesis by (intro that [of "bm[n div 8 := w]"]) auto
qed

lemma free_num_clear:
  assumes "n < 8 * length bm" "n < 2 ^ 64"
  obtains bm' where "helpers_bitmap_set bm (of_nat n) False = Ok bm'" "length bm' = length bm"
    "\<And>k. free_num bm' k \<longleftrightarrow> free_num bm k \<and> k \<noteq> n"
  by (rule free_num_set [OF assms, of False]) (auto intro: that)

text \<open>The lowest free number and the bitmap without it, or \<open>-1\<close> when nothing is free.\<close>

definition takes_lowest :: "u8 list \<Rightarrow> (u64 \<times> u8 list) run \<Rightarrow> bool" where
  "takes_lowest bm r \<longleftrightarrow>
     (\<exists>n bm'. r = Ok (of_nat n, bm') \<and> free_num bm n \<and> (\<forall>j<n. \<not> free_num bm j) \<and>
        helpers_bitmap_set bm (of_nat n) False = Ok bm') \<or>
     (\<forall>n. \<not> free_num bm n) \<and> r = Ok (SIZE_T_NONE, bm)"

lemma takes_lowest_unique:
  assumes "takes_lowest bm r" "takes_lowest bm r'"
  shows "r = r'"
proof (cases "\<exists>n. free_num bm n")
  case True
  then obtain n bm' n' bm'' where
      n: "r = Ok (of_nat n, bm')" "free_num bm n" "\<forall>j<n. \<not> free_num bm j" "helpers_bitmap_set bm (of_nat n) False = Ok bm'"
    and n': "r' = Ok (of_nat n', bm'')" "free_num bm n'" "\<forall>j<n'. \<not> free_num bm j" "helpers_bitmap_set bm (of_nat n') False = Ok bm''"
    using assms unfolding takes_lowest_def by blast
  have "n = n'" using n(2,3) n'(2,3) by (metis linorder_neqE_nat)
  then show ?thesis using n n' by simp
next
  case False
  then show ?thesis using assms unfolding takes_lowest_def by blast
qed

text \<open>One step of either search: the unit \<open>i\<close> of \<open>d\<close> bits is empty, or holds the lowest number.\<close>

lemma unit_empty:
  assumes "\<And>n. n < d * i \<Longrightarrow> \<not> free_num bm n" "\<And>n. n div d = i \<Longrightarrow> \<not> free_num bm n" "n < d * Suc i"
  shows "\<not> free_num bm n"
proof (cases "n < d * i")
  case False
  then have "n div d = i" using assms(3) by (intro div_nat_eqI) (auto simp: mult.commute)
  then show ?thesis by (rule assms(2))
qed (rule assms(1))

lemma unit_lowest:
  assumes "c < d" "free_num bm (i * d + c)" "\<And>n. n < d * i \<Longrightarrow> \<not> free_num bm n"
    and "\<And>k. k < c \<Longrightarrow> \<not> free_num bm (i * d + k)" "8 * length bm < 2 ^ 64"
  shows "takes_lowest bm
    (bindr (helpers_bitmap_set bm (of_nat (i * d + c)) False) (\<lambda>bm. Ok (of_nat (i * d + c), bm)))"
proof -
  have "i * d + c < 2 ^ 64" using assms(2,5) by (simp add: free_num_def)
  then obtain bm' where bm': "helpers_bitmap_set bm (of_nat (i * d + c)) False = Ok bm'"
    using free_num_clear [of "i * d + c" bm] assms(2) by (metis free_num_def)
  have "\<not> free_num bm j" if "j < i * d + c" for j
  proof (cases "j < d * i")
    case False
    then have "\<not> free_num bm (i * d + (j - i * d))" using that by (intro assms(4)) (simp add: mult.commute)
    then show ?thesis using False by (simp add: mult.commute)
  qed (rule assms(3))
  then have "\<exists>n bm''. bindr (helpers_bitmap_set bm (of_nat (i * d + c)) False) (\<lambda>bm. Ok (of_nat (i * d + c), bm)) =
      Ok (of_nat n, bm'') \<and> free_num bm n \<and> (\<forall>j<n. \<not> free_num bm j) \<and> helpers_bitmap_set bm (of_nat n) False = Ok bm''"
    using assms(2) bm' by (intro exI [of _ "i * d + c"] exI [of _ bm']) simp
  then show ?thesis unfolding takes_lowest_def by blast
qed

lemma bitmap_alloc_from_lowest:
  assumes "i + k = length bm" "8 * length bm < 2 ^ 64" "\<And>n. n < 8 * i \<Longrightarrow> \<not> free_num bm n"
  shows "takes_lowest bm (bitmap_alloc_from bm i k)"
  using assms
proof (induction k arbitrary: i)
  case 0
  then show ?case by (auto simp: free_num_def takes_lowest_def)
next
  case (Suc k)
  have i: "i < length bm" using Suc.prems by simp
  show ?case
  proof (cases "bm ! i = 0")
    case True
    then have "\<not> free_num bm n" if "n < 8 * Suc i" for n
      using unit_empty [OF Suc.prems(3) _ that] by (simp add: free_num_def)
    then show ?thesis using Suc.IH [of "Suc i"] Suc.prems True i by simp
  next
    case False
    let ?c = "ctz (bm ! i)"
    have c: "?c < 8" "bit (bm ! i) ?c" "\<And>j. j < ?c \<Longrightarrow> \<not> bit (bm ! i) j" using ctz_nonzero [OF False] by auto
    have "takes_lowest bm
      (bindr (helpers_bitmap_set bm (of_nat (i * 8 + ?c)) False) (\<lambda>bm. Ok (of_nat (i * 8 + ?c), bm)))"
      by (rule unit_lowest) (use c i Suc.prems in \<open>auto simp: free_num_def\<close>)
    then show ?thesis using i False by (simp add: Let_def)
  qed
qed

lemma bit_le_word:
  "bit (le_word bs) k \<longleftrightarrow> k < 64 \<and> k < 8 * length bs \<and> bit (bs ! (k div 8)) (k mod 8)"
proof (induction bs arbitrary: k)
  case (Cons b bs)
  show ?case
  proof (cases "k < 8")
    case True
    then show ?thesis by (auto simp: bit_or_iff bit_push_bit_iff bit_ucast_iff)
  next
    case False
    have "\<not> bit b k" using False bit_imp_le_length [of b k] by auto
    then show ?thesis using False Cons [of "k - 8"]
      by (auto simp: bit_or_iff bit_push_bit_iff bit_ucast_iff nth_Cons' le_div_geq le_mod_geq)
  qed
qed simp

lemma word_unit:
  assumes "8 * i + 8 \<le> length bm" "k < 64"
  shows "bit (le_word (take 8 (drop (8 * i) bm))) k \<longleftrightarrow> free_num bm (i * 64 + k)"
proof -
  have e: "i * 64 + k = k + 8 * i * 8" by simp
  have "(i * 64 + k) div 8 = 8 * i + k div 8" "(i * 64 + k) mod 8 = k mod 8"
    unfolding e by (simp_all only: div_mult_self1 mod_mult_self1)
  moreover have "i * 64 + k < 8 * length bm" using assms by linarith
  moreover have "k div 8 < 8" using assms(2) by linarith
  ultimately show ?thesis using assms by (simp add: bit_le_word free_num_def)
qed

lemma wbitmap_alloc_from_lowest:
  assumes "8 * (i + k) = length bm" "8 * length bm < 2 ^ 64" "\<And>n. n < 64 * i \<Longrightarrow> \<not> free_num bm n"
  shows "takes_lowest bm (wbitmap_alloc_from bm i k)"
  using assms
proof (induction k arbitrary: i)
  case 0
  then show ?case by (auto simp: free_num_def takes_lowest_def)
next
  case (Suc k)
  define w where "w = le_word (take 8 (drop (8 * i) bm))"
  have i: "8 * i + 8 \<le> length bm" using Suc.prems by simp
  have w: "bit w j \<longleftrightarrow> free_num bm (i * 64 + j)" if "j < 64" for j unfolding w_def by (rule word_unit [OF i that])
  show ?case
  proof (cases "w = 0")
    case True
    have "\<not> free_num bm n" if "n < 64 * Suc i" for n
    proof (rule unit_empty [OF Suc.prems(3) _ that])
      fix n assume "n div 64 = i"
      then have "n = i * 64 + n mod 64" by (metis div_mult_mod_eq)
      then show "\<not> free_num bm n" using w [of "n mod 64"] True by simp
    qed
    then show ?thesis using Suc.IH [of "Suc i"] Suc.prems True i by (simp add: w_def)
  next
    case False
    have c: "ctz w < 64" "bit w (ctz w)" "\<And>j. j < ctz w \<Longrightarrow> \<not> bit w j" using ctz_nonzero [OF False] by auto
    have "takes_lowest bm
      (bindr (helpers_bitmap_set bm (of_nat (i * 64 + ctz w)) False) (\<lambda>bm. Ok (of_nat (i * 64 + ctz w), bm)))"
      by (rule unit_lowest) (use c w Suc.prems in auto)
    then show ?thesis using i False by (simp add: Let_def w_def)
  qed
qed

text \<open>The search by words is the search by bytes, and both take the lowest free number.\<close>

lemma bitmap_alloc_lowest: "8 * length bm < 2 ^ 64 \<Longrightarrow> takes_lowest bm (bitmap_alloc_1_first bm (length bm))"
  using bitmap_alloc_from_lowest [of 0 "length bm" bm] by (simp add: bitmap_alloc_1_first_def)

lemma wbitmap_alloc_eq:
  assumes "8 dvd length bm" "8 * length bm < 2 ^ 64"
  shows "wbitmap_alloc_1_first bm (length bm) = bitmap_alloc_1_first bm (length bm)"
proof (rule takes_lowest_unique)
  show "takes_lowest bm (wbitmap_alloc_1_first bm (length bm))"
    using assms wbitmap_alloc_from_lowest [of 0 "length bm div 8" bm] by (simp add: wbitmap_alloc_1_first_def)
qed (rule bitmap_alloc_lowest [OF assms(2)])

end
