(* ===== verification/Hw.thy ===== *)
theory Hw
  imports Kobj Helpers
begin

text \<open>
  The processor and board interface: port input and output, model specific registers
  and the time stamp counter (\<open>asm/asm.h\<close>, \<open>drivers/pit/pit.c\<close>), the descriptor tables
  (\<open>arch/x86_64/cpu/gdt.c\<close>, \<open>idt.c\<close>) and the interrupt controllers (\<open>interrupts/pic.c\<close>,
  \<open>ioapic.c\<close> and the local APIC timer of \<open>apic.c\<close>). What a device answers is a parameter
  of the state: \<open>hw_port n p\<close> is the answer of port \<open>p\<close> to the \<open>n\<close>-th read the machine makes,
  and \<open>hw_tsc n\<close> the counter at that moment. Bytes sent to ports are recorded in order.
\<close>

section \<open>State\<close>

record gdt_entry64 =
  limit_low :: u16
  base_low :: u16
  base_mid :: u8
  gdt_access :: u8
  flags_limit :: u8
  base_high :: u8

record idt_entry =
  offset_0_15 :: u16
  idt_selector :: u16
  ist :: u8
  type_attr :: u8
  offset_16_31 :: u16
  offset_32_63 :: u32
  idt_reserved :: u32

datatype eoi = pic_eoi | lapic_eoi

record hw = kobj +
  hw_time :: nat
  hw_tsc :: "nat \<Rightarrow> u64"
  hw_port :: "nat \<Rightarrow> u16 \<Rightarrow> u32"
  port_log :: "(u16 \<times> u32) list"
  msrs :: "u32 \<Rightarrow> u64"
  gdt :: "gdt_entry64 list"
  tss_rsp0 :: u64
  tss_iomap_base :: u16
  idt :: "idt_entry list"
  idt_vectors_bitmap :: "u8 list"
  current_eoi :: eoi
  ioapic_regs :: "u8 \<Rightarrow> u32"
  lapic_regs :: "u32 \<Rightarrow> u32"

section \<open>Ports and registers\<close>

definition outb :: "u16 \<Rightarrow> u8 \<Rightarrow> 'a hw_scheme \<Rightarrow> 'a hw_scheme" where
  "outb port v s = s\<lparr>port_log := port_log s @ [(port, ucast v)]\<rparr>"

definition outw :: "u16 \<Rightarrow> u16 \<Rightarrow> 'a hw_scheme \<Rightarrow> 'a hw_scheme" where
  "outw port v s = s\<lparr>port_log := port_log s @ [(port, ucast v)]\<rparr>"

definition outl :: "u16 \<Rightarrow> u32 \<Rightarrow> 'a hw_scheme \<Rightarrow> 'a hw_scheme" where
  "outl port v s = s\<lparr>port_log := port_log s @ [(port, v)]\<rparr>"

definition inl :: "u16 \<Rightarrow> 'a hw_scheme \<Rightarrow> u32 \<times> 'a hw_scheme" where
  "inl port s = (hw_port s (hw_time s) port, s\<lparr>hw_time := Suc (hw_time s)\<rparr>)"

definition inw :: "u16 \<Rightarrow> 'a hw_scheme \<Rightarrow> u16 \<times> 'a hw_scheme" where
  "inw port s = (ucast (hw_port s (hw_time s) port), s\<lparr>hw_time := Suc (hw_time s)\<rparr>)"

definition inb :: "u16 \<Rightarrow> 'a hw_scheme \<Rightarrow> u8 \<times> 'a hw_scheme" where
  "inb port s = (ucast (hw_port s (hw_time s) port), s\<lparr>hw_time := Suc (hw_time s)\<rparr>)"

definition rdtsc :: "'a hw_scheme \<Rightarrow> u64 \<times> 'a hw_scheme" where
  "rdtsc s = (hw_tsc s (hw_time s), s\<lparr>hw_time := Suc (hw_time s)\<rparr>)"

definition rdmsr :: "u32 \<Rightarrow> 'a hw_scheme \<Rightarrow> u64" where
  "rdmsr r s = msrs s r"

definition wrmsr :: "u32 \<Rightarrow> u64 \<Rightarrow> 'a hw_scheme \<Rightarrow> 'a hw_scheme" where
  "wrmsr r v s = s\<lparr>msrs := (msrs s)(r := v)\<rparr>"

section \<open>Segment descriptors\<close>

definition gate_entry :: "u32 \<Rightarrow> u32 \<Rightarrow> u8 \<Rightarrow> u8 \<Rightarrow> gdt_entry64" where
  "gate_entry base limit access flags =
     \<lparr>limit_low = ucast (limit AND 0xFFFF), base_low = ucast (base AND 0xFFFF),
      base_mid = ucast (drop_bit 16 base AND 0xFF), gdt_access = access,
      flags_limit = ucast ((drop_bit 16 limit AND 0x0F) OR ucast (flags AND 0xF0)),
      base_high = ucast (drop_bit 24 base AND 0xFF)\<rparr>"

definition set_gate :: "nat \<Rightarrow> u32 \<Rightarrow> u32 \<Rightarrow> u8 \<Rightarrow> u8 \<Rightarrow> 'a hw_scheme \<Rightarrow> 'a hw_scheme" where
  "set_gate idx base limit access flags s = s\<lparr>gdt := (gdt s)[idx := gate_entry base limit access flags]\<rparr>"

text \<open>The task state descriptor covers two entries; the upper one holds bits 32 to 63 of the base.\<close>

definition set_tss_gate :: "nat \<Rightarrow> u64 \<Rightarrow> u32 \<Rightarrow> 'a hw_scheme \<Rightarrow> 'a hw_scheme" where
  "set_tss_gate idx base limit s =
     (let e = \<lparr>limit_low = ucast (limit AND 0xFFFF), base_low = ucast (base AND 0xFFFF),
               base_mid = ucast (drop_bit 16 base AND 0xFF), gdt_access = 0x89,
               flags_limit = ucast (drop_bit 16 limit AND 0x0F), base_high = ucast (drop_bit 24 base AND 0xFF)\<rparr>;
          hi = (ucast (drop_bit 32 base) :: u32);
          e' = \<lparr>limit_low = ucast hi, base_low = ucast (drop_bit 16 hi), base_mid = 0, gdt_access = 0,
                flags_limit = 0, base_high = 0\<rparr>
      in s\<lparr>gdt := (gdt s)[idx := e, Suc idx := e']\<rparr>)"

definition SIZEOF_TSS :: u32 where "SIZEOF_TSS = 104"

definition init_gdt :: "u64 \<Rightarrow> 'a hw_scheme \<Rightarrow> 'a hw_scheme" where
  "init_gdt tss_addr s =
     set_tss_gate 5 tss_addr (SIZEOF_TSS - 1)
       (set_gate 4 0 0xFFFFF 0xFA 0xA0
       (set_gate 3 0 0xFFFFF 0xF2 0xC0
       (set_gate 2 0 0xFFFFF 0x92 0xC0
       (set_gate 1 0 0xFFFFF 0x9A 0xA0
       (set_gate 0 0 0 0 0 s)))))"

definition init_tss :: "u64 \<Rightarrow> 'a hw_scheme \<Rightarrow> 'a hw_scheme" where
  "init_tss rsp0 s = s\<lparr>tss_rsp0 := rsp0, tss_iomap_base := ucast SIZEOF_TSS\<rparr>"

definition set_tss_sp :: "u64 \<Rightarrow> 'a hw_scheme \<Rightarrow> 'a hw_scheme" where
  "set_tss_sp rsp0 s = s\<lparr>tss_rsp0 := rsp0\<rparr>"

text \<open>How the processor puts the fields together again.\<close>

definition seg_base :: "gdt_entry64 \<Rightarrow> u32" where
  "seg_base e = ucast (base_low e) OR push_bit 16 (ucast (base_mid e)) OR push_bit 24 (ucast (base_high e))"

definition seg_limit :: "gdt_entry64 \<Rightarrow> u32" where
  "seg_limit e = ucast (limit_low e) OR push_bit 16 (ucast (flags_limit e AND 0x0F))"

lemma and_mask_low: "w AND 0xFFFF = take_bit 16 w" "w AND 0xFF = take_bit 8 w" "w AND 0x0F = take_bit 4 w"
  for w :: "'a::len word"
  by (simp_all add: take_bit_eq_mask mask_eq_exp_minus_1)

lemma seg_base_gate: "seg_base (gate_entry base limit access flags) = base"
proof (rule bit_word_eqI)
  fix n assume "n < LENGTH(32)"
  then have "n < 16 \<or> n \<ge> 16 \<and> n < 24 \<or> n \<ge> 24 \<and> n < 32" by auto
  then show "bit (seg_base (gate_entry base limit access flags)) n = bit base n"
    unfolding seg_base_def gate_entry_def by (auto simp: and_mask_low bit_simps)
qed

lemma high_nibble: "n < 4 \<Longrightarrow> \<not> bit (w AND 0xF0 :: u8) n"
proof -
  assume "n < 4"
  then have "n = 0 \<or> n = 1 \<or> n = 2 \<or> n = 3" by auto
  then show ?thesis by (auto simp: bit_simps)
qed

lemma bit_below: "w < 2 ^ k \<Longrightarrow> k \<le> n \<Longrightarrow> \<not> bit w n" for w :: "'a::len word"
proof -
  assume "w < 2 ^ k" "k \<le> n"
  then show ?thesis
  proof (cases "k < LENGTH('a)")
    case True
    then have "take_bit k w = w" using less_mask_eq [OF \<open>w < 2 ^ k\<close>] by (simp add: take_bit_eq_mask)
    then show ?thesis using \<open>k \<le> n\<close> by (metis bit_take_bit_iff not_le)
  next
    case False
    then show ?thesis using \<open>k \<le> n\<close> bit_imp_le_length [of w n] by auto
  qed
qed

lemma seg_limit_gate: "limit < 2 ^ 20 \<Longrightarrow> seg_limit (gate_entry base limit access flags) = limit"
proof (rule bit_word_eqI)
  fix n assume small: "limit < 2 ^ 20" and "n < LENGTH(32)"
  then have "n < 16 \<or> n \<ge> 16 \<and> n < 20 \<or> n \<ge> 20 \<and> n < 32" by auto
  moreover have "\<not> bit limit n" if "20 \<le> n" using bit_below [OF small that] .
  moreover have "\<not> bit (flags AND 0xF0) (n - 16)" if "16 \<le> n" "n < 20" using that by (intro high_nibble) auto
  ultimately show "bit (seg_limit (gate_entry base limit access flags)) n = bit limit n"
    unfolding seg_limit_def gate_entry_def by (auto simp: and_mask_low bit_simps)
qed

section \<open>Interrupt descriptors and vectors\<close>

definition idt_gate :: "u64 \<Rightarrow> u16 \<Rightarrow> u8 \<Rightarrow> idt_entry" where
  "idt_gate base sel flags =
     \<lparr>offset_0_15 = ucast (base AND 0xFFFF), idt_selector = sel, ist = 0, type_attr = flags,
      offset_16_31 = ucast (drop_bit 16 base AND 0xFFFF), offset_32_63 = ucast (drop_bit 32 base), idt_reserved = 0\<rparr>"

definition idt_set_gate :: "u8 \<Rightarrow> u64 \<Rightarrow> u16 \<Rightarrow> u8 \<Rightarrow> 'a hw_scheme \<Rightarrow> 'a hw_scheme" where
  "idt_set_gate num base sel flags s = s\<lparr>idt := (idt s)[unat num := idt_gate base sel flags]\<rparr>"

text \<open>The address the processor jumps to.\<close>

definition gate_offset :: "idt_entry \<Rightarrow> u64" where
  "gate_offset e = ucast (offset_0_15 e) OR push_bit 16 (ucast (offset_16_31 e)) OR push_bit 32 (ucast (offset_32_63 e))"

lemma gate_offset_gate: "gate_offset (idt_gate base sel flags) = base"
proof (rule bit_word_eqI)
  fix n assume "n < LENGTH(64)"
  then have "n < 16 \<or> n \<ge> 16 \<and> n < 32 \<or> n \<ge> 32 \<and> n < 64" by auto
  then show "bit (gate_offset (idt_gate base sel flags)) n = bit base n"
    unfolding gate_offset_def idt_gate_def by (auto simp: and_mask_low bit_simps)
qed

definition idt_set_allocated :: "u8 \<Rightarrow> 'a hw_scheme \<Rightarrow> 'a hw_scheme run" where
  "idt_set_allocated idx s =
     bindr (helpers_bitmap_set (idt_vectors_bitmap s) (ucast idx) False) (\<lambda>b. Ok (s\<lparr>idt_vectors_bitmap := b\<rparr>))"

text \<open>The result is cast to \<open>short\<close>: no free vector gives \<open>-1\<close>.\<close>

definition allocate_interrupt_vector :: "'a hw_scheme \<Rightarrow> (u16 \<times> 'a hw_scheme) run" where
  "allocate_interrupt_vector s =
     bindr (bitmap_alloc_1_first (idt_vectors_bitmap s) 32) (\<lambda>(v, b). Ok (ucast v, s\<lparr>idt_vectors_bitmap := b\<rparr>))"

definition free_interrupt_vector :: "u16 \<Rightarrow> 'a hw_scheme \<Rightarrow> 'a hw_scheme run" where
  "free_interrupt_vector idx s =
     (let s = idt_set_gate (ucast idx) 0 0 0 s
      in bindr (helpers_bitmap_set (idt_vectors_bitmap s) (ucast idx) True) (\<lambda>b. Ok (s\<lparr>idt_vectors_bitmap := b\<rparr>)))"

definition IDT_ENTRIES :: nat where "IDT_ENTRIES = 256"

definition zero_gate :: idt_entry where
  "zero_gate = \<lparr>offset_0_15 = 0, idt_selector = 0, ist = 0, type_attr = 0, offset_16_31 = 0, offset_32_63 = 0, idt_reserved = 0\<rparr>"

definition idt_init :: "(nat \<Rightarrow> u64) \<Rightarrow> 'a hw_scheme \<Rightarrow> 'a hw_scheme" where
  "idt_init irq_stub_table s =
     fold (\<lambda>i. idt_set_gate (of_nat i) (irq_stub_table i) 0x08 0x8E) [0..<IDT_ENTRIES]
       (s\<lparr>idt := replicate IDT_ENTRIES zero_gate\<rparr>)"

definition IRQ_FLAG_USER :: u32 where "IRQ_FLAG_USER = 2"
definition IRQ_FLAG_TRAP :: u32 where "IRQ_FLAG_TRAP = 4"

definition setup_interrupt_vector :: "u16 \<Rightarrow> u64 \<Rightarrow> u32 \<Rightarrow> 'a hw_scheme \<Rightarrow> int \<times> 'a hw_scheme" where
  "setup_interrupt_vector vec handler flags s =
     (let attr = (0x8E :: u8);
          attr = (if flags AND IRQ_FLAG_USER \<noteq> 0 then attr AND NOT 0x60 OR 0x60 else attr);
          attr = (if flags AND IRQ_FLAG_TRAP \<noteq> 0 then attr AND NOT 0x0F OR 0x0F else attr)
      in (0, idt_set_gate (ucast vec) handler 0x08 attr s))"

text \<open>The exception vectors and the two fixed interrupts are taken out of the pool.\<close>

definition register_cpu_exceptions :: "(nat \<Rightarrow> u64) \<Rightarrow> 'a hw_scheme \<Rightarrow> 'a hw_scheme run" where
  "register_cpu_exceptions isr s =
     bindr (foreach (\<lambda>i s. idt_set_allocated (of_nat i) (idt_set_gate (of_nat i) (isr i) 0x08 0x8E s)) [0..<32] s) (\<lambda>s.
     bindr (idt_set_allocated 32 s) (\<lambda>s. idt_set_allocated 33 s))"

section \<open>Legacy interrupt controller\<close>

definition pic_remap :: "'a hw_scheme \<Rightarrow> 'a hw_scheme" where
  "pic_remap s = fold (\<lambda>(p, v). outb p v)
     [(0x20, 0x11), (0xA0, 0x11), (0x21, 0x20), (0xA1, 0x28), (0x21, 0x04), (0xA1, 0x02), (0x21, 0x01), (0xA1, 0x01),
      (0x21, 0), (0xA1, 0)] s"

definition block_pic :: "'a hw_scheme \<Rightarrow> 'a hw_scheme" where
  "block_pic s = outb 0xA1 0xFF (outb 0x21 0xFF s)"

definition pic_send_eoi :: "u8 \<Rightarrow> 'a hw_scheme \<Rightarrow> 'a hw_scheme" where
  "pic_send_eoi vector s = outb 0x20 0x20 (if vector \<ge> 0x28 then outb 0xA0 0x20 s else s)"

section \<open>I/O APIC\<close>

definition IOAPIC_REG_VER :: u8 where "IOAPIC_REG_VER = 1"
definition IOAPIC_REG_REDTBL :: u8 where "IOAPIC_REG_REDTBL = 0x10"

definition ioapic_read :: "u8 \<Rightarrow> 'a hw_scheme \<Rightarrow> u32" where
  "ioapic_read reg s = ioapic_regs s reg"

definition ioapic_write :: "u8 \<Rightarrow> u32 \<Rightarrow> 'a hw_scheme \<Rightarrow> 'a hw_scheme" where
  "ioapic_write reg v s = s\<lparr>ioapic_regs := (ioapic_regs s)(reg := v)\<rparr>"

text \<open>
  The loop counter has eight bits: with 256 entries the bound is never passed and the
  loop does not end.
\<close>

definition ioapic_mask_entry :: "u8 \<Rightarrow> 'a hw_scheme \<Rightarrow> 'a hw_scheme" where
  "ioapic_mask_entry i s =
     ioapic_write (IOAPIC_REG_REDTBL + i * 2) (ioapic_read (IOAPIC_REG_REDTBL + i * 2) s OR 0x10000) s"

definition ioapic_init :: "'a hw_scheme \<Rightarrow> 'a hw_scheme run" where
  "ioapic_init s =
     (let max_entries = (ucast (drop_bit 16 (ioapic_read IOAPIC_REG_VER s) AND 0xFF) :: u8)
      in if max_entries = 255 then Stop Hang
         else Ok (fold (\<lambda>i. ioapic_mask_entry (of_nat i)) [0..<Suc (unat max_entries)] s))"

definition ioapic_set_irq :: "u8 \<Rightarrow> u8 \<Rightarrow> u8 \<Rightarrow> bool \<Rightarrow> 'a hw_scheme \<Rightarrow> 'a hw_scheme" where
  "ioapic_set_irq irq vector lapic_id masked s =
     (let low = (if masked then ucast vector OR 0x10000 else ucast vector); high = push_bit 24 (ucast lapic_id)
      in ioapic_write (IOAPIC_REG_REDTBL + irq * 2) low (ioapic_write (IOAPIC_REG_REDTBL + irq * 2 + 1) high s))"

section \<open>Local APIC\<close>

definition LAPIC_REG_EOI :: u32 where "LAPIC_REG_EOI = 0xB0"
definition LAPIC_REG_SIVR :: u32 where "LAPIC_REG_SIVR = 0xF0"
definition LAPIC_REG_LVT_TIMER :: u32 where "LAPIC_REG_LVT_TIMER = 0x320"
definition LAPIC_REG_INIT_CNT :: u32 where "LAPIC_REG_INIT_CNT = 0x380"
definition LAPIC_REG_DIV :: u32 where "LAPIC_REG_DIV = 0x3E0"

definition lapic_mmio_read :: "u32 \<Rightarrow> 'a hw_scheme \<Rightarrow> u32" where
  "lapic_mmio_read offset s = lapic_regs s offset"

definition lapic_mmio_write :: "u32 \<Rightarrow> u32 \<Rightarrow> 'a hw_scheme \<Rightarrow> 'a hw_scheme" where
  "lapic_mmio_write offset v s = s\<lparr>lapic_regs := (lapic_regs s)(offset := v)\<rparr>"

definition lapic_send_eoi :: "u8 \<Rightarrow> 'a hw_scheme \<Rightarrow> 'a hw_scheme" where
  "lapic_send_eoi vector s = lapic_mmio_write LAPIC_REG_EOI 0 s"

definition send_eoi :: "u8 \<Rightarrow> 'a hw_scheme \<Rightarrow> 'a hw_scheme" where
  "send_eoi vector s = (case current_eoi s of pic_eoi \<Rightarrow> pic_send_eoi vector s | lapic_eoi \<Rightarrow> lapic_send_eoi vector s)"

definition lapic_divider :: "u32 \<Rightarrow> u32" where
  "lapic_divider divide_config =
     (if divide_config = 2 then 0 else if divide_config = 4 then 1 else if divide_config = 8 then 2
      else if divide_config = 16 then 3 else if divide_config = 1 then 0xB else 3)"

text \<open>An interrupt that no driver claimed is acknowledged.\<close>

definition irq_dummy_common :: "u64 \<Rightarrow> 'a hw_scheme \<Rightarrow> 'a hw_scheme" where
  "irq_dummy_common vec s = send_eoi (ucast vec) s"

section \<open>Facts\<close>

lemma idt_length [simp]: "length (idt (idt_set_gate num base sel flags s)) = length (idt s)"
  by (simp add: idt_set_gate_def)

lemma idt_init_length: "length (idt (idt_init f s)) = IDT_ENTRIES" for s :: "'a hw_scheme"
proof -
  have "length (idt (fold (\<lambda>i. idt_set_gate (of_nat i) (f i) 0x08 0x8E) ks s)) = length (idt s)" for ks and s :: "'a hw_scheme"
    by (induction ks arbitrary: s) simp_all
  then show ?thesis by (simp add: idt_init_def)
qed

lemma idt_set_gate_get:
  "length (idt s) = IDT_ENTRIES \<Longrightarrow>
     idt (idt_set_gate num base sel flags s) ! unat k = (if k = num then idt_gate base sel flags else idt s ! unat k)"
proof -
  assume len: "length (idt s) = IDT_ENTRIES"
  have "unat num < 2 ^ LENGTH(8)" by (rule unsigned_less)
  then show ?thesis using len by (auto simp: idt_set_gate_def IDT_ENTRIES_def nth_list_update word_unat_eq_iff)
qed

text \<open>After start-up every vector has a gate that leads to its own stub.\<close>

lemma idt_init_stubs:
  assumes "i < IDT_ENTRIES"
  shows "gate_offset (idt (idt_init f s) ! i) = f i"
proof -
  define s0 where "s0 = s\<lparr>idt := replicate IDT_ENTRIES zero_gate\<rparr>"
  let ?run = "\<lambda>n. fold (\<lambda>i. idt_set_gate (of_nat i) (f i) 0x08 0x8E) [0..<n] s0"
  have "length (idt (?run n)) = IDT_ENTRIES \<and> (\<forall>i < n. idt (?run n) ! i = idt_gate (f i) 0x08 0x8E)" if "n \<le> IDT_ENTRIES" for n
    using that
  proof (induction n)
    case 0
    then show ?case by (simp add: s0_def)
  next
    case (Suc n)
    then have "unat (of_nat n :: u8) = n" by (simp add: IDT_ENTRIES_def unat_of_nat)
    then show ?case using Suc by (auto simp: idt_set_gate_def nth_list_update less_Suc_eq)
  qed
  from this [of IDT_ENTRIES] show ?thesis using assms by (simp add: idt_init_def s0_def gate_offset_gate)
qed

end
