(* ===== verification/Timer.thy ===== *)
theory Timer
  imports Hw
begin

text \<open>
  Time: the timer registry of \<open>kernel/src/timer/timers.c\<close>, the clock reads and sleeps
  of \<open>timer/time.c\<close>, the interval timer (\<open>drivers/pit/pit.c\<close>), the time stamp counter
  (\<open>arch/x86_64/cpu/tsc_clk/tsc_clk.c\<close>), the local APIC timer (\<open>interrupts/apic.c\<close>) and
  the real-time clock (\<open>arch/x86_64/rtc/rtc.c\<close>). Timer devices are objects at their
  addresses. No device of the sources has an \<open>enable\<close> or \<open>settime\<close> function, so these
  members are always NULL. The step a scheduling tick takes is the argument \<open>yield_core\<close>.
\<close>

section \<open>State\<close>

datatype gettime_fn = no_gettime | pit_gettime_fn | tsc_gettime_fn

datatype reset_fn = no_reset | pit_reset_fn | lapic_reset_fn

record timer_dev =
  td_name :: string
  td_freq :: u64
  td_type :: u8
  td_vector :: u8
  td_gettime_us :: gettime_fn
  td_reset_interrupt :: reset_fn

record timer_slot =
  ts_dev :: u64
  ts_priority :: int

record timers = hw +
  timer_devs :: "u64 \<rightharpoonup> timer_dev"
  slot_system_time :: timer_slot
  slot_sleep :: timer_slot
  slot_sched :: timer_slot
  devices_by_type :: "u64 list list"
  ticks_ms :: u64
  ticks_us :: u64
  pit_timer_ticks_ms :: u64
  pit_timer_device_id :: int
  lapic_timer_id :: int
  lapic_interrupt_vector :: u8
  tsc_freq :: u64
  boot_unix_time :: u64
  task_switching_flag :: bool

definition get_timer :: "u64 \<Rightarrow> 'a timers_scheme \<Rightarrow> timer_dev run" where
  "get_timer p s = (case timer_devs s p of Some d \<Rightarrow> Ok d | None \<Rightarrow> Stop BadPointer)"

section \<open>The registry\<close>

definition try_promote :: "timer_slot \<Rightarrow> u64 \<Rightarrow> int \<Rightarrow> timer_slot" where
  "try_promote slot dev priority = (if priority > ts_priority slot then \<lparr>ts_dev = dev, ts_priority = priority\<rparr> else slot)"

definition TIMER_ROLE_SYSTEM_TIME :: u32 where "TIMER_ROLE_SYSTEM_TIME = 1"
definition TIMER_ROLE_SLEEP :: u32 where "TIMER_ROLE_SLEEP = 2"
definition TIMER_ROLE_SCHED :: u32 where "TIMER_ROLE_SCHED = 4"

text \<open>
  \<open>devices_by_type\<close> is the used prefix of each of the four rows, so the count is its
  length. The identifier packs the row and the column into a signed byte.
\<close>

definition timer_register :: "u64 \<Rightarrow> u32 \<Rightarrow> int \<Rightarrow> 'a timers_scheme \<Rightarrow> (int \<times> 'a timers_scheme) run" where
  "timer_register dev roles priority s =
     (if dev = 0 then Ok (- E_INVAL, s)
      else
        bindr (get_timer dev s) (\<lambda>d.
          let type = unat (td_type d AND 3); row = devices_by_type s ! type
          in if length row \<ge> 32 then Ok (- E_NOSPC, s)
             else
               (let idx = length row;
                    s = s\<lparr>devices_by_type := (devices_by_type s)[type := row @ [dev]]\<rparr>;
                    s = (if roles AND TIMER_ROLE_SYSTEM_TIME \<noteq> 0
                         then s\<lparr>slot_system_time := try_promote (slot_system_time s) dev priority\<rparr> else s);
                    s = (if roles AND TIMER_ROLE_SLEEP \<noteq> 0
                         then s\<lparr>slot_sleep := try_promote (slot_sleep s) dev priority\<rparr> else s);
                    s = (if roles AND TIMER_ROLE_SCHED \<noteq> 0
                         then s\<lparr>slot_sched := try_promote (slot_sched s) dev priority\<rparr> else s);
                    encoded = (push_bit 5 (of_nat type AND 3) OR (of_nat idx AND 0x1F) :: u8)
                in Ok (sint encoded, s))))"

definition timer_get_system_time_dev :: "'a timers_scheme \<Rightarrow> u64" where
  "timer_get_system_time_dev s = ts_dev (slot_system_time s)"

section \<open>Reading the clock\<close>

definition pit_gettime :: "'a timers_scheme \<Rightarrow> u64" where
  "pit_gettime s = pit_timer_ticks_ms s"

text \<open>The product is formed in 128 bits; the quotient is cut to 64.\<close>

definition tsc_gettime_us :: "'a timers_scheme \<Rightarrow> (u64 \<times> 'a timers_scheme) run" where
  "tsc_gettime_us s =
     (case rdtsc s of (t, s) \<Rightarrow>
        if tsc_freq s = 0 then Stop DivideError
        else Ok (of_nat (unat t * 1000000 div unat (tsc_freq s)), s))"

definition call_gettime :: "gettime_fn \<Rightarrow> 'a timers_scheme \<Rightarrow> (u64 \<times> 'a timers_scheme) run" where
  "call_gettime f s = (case f of no_gettime \<Rightarrow> Stop BadPointer
     | pit_gettime_fn \<Rightarrow> Ok (pit_gettime s, s) | tsc_gettime_fn \<Rightarrow> tsc_gettime_us s)"

definition timer_get_us :: "'a timers_scheme \<Rightarrow> (u64 \<times> 'a timers_scheme) run" where
  "timer_get_us s =
     (let sys = timer_get_system_time_dev s
      in if sys \<noteq> 0 then bindr (get_timer sys s) (\<lambda>d. call_gettime (td_gettime_us d) s) else Ok (ticks_us s, s))"

definition timer_get_ms :: "'a timers_scheme \<Rightarrow> (u64 \<times> 'a timers_scheme) run" where
  "timer_get_ms s =
     (let sys = timer_get_system_time_dev s
      in if sys \<noteq> 0
         then bindr (get_timer sys s) (\<lambda>d. bindr (call_gettime (td_gettime_us d) s) (\<lambda>(t, s). Ok (t div 1000, s)))
         else Ok (ticks_ms s, s))"

text \<open>\<open>yield\<close> is what happens on the processor while the sleeper is not running.\<close>

partial_function (option) sleep_loop ::
  "('a timers_scheme \<Rightarrow> (u64 \<times> 'a timers_scheme) run) \<Rightarrow> ('a timers_scheme \<Rightarrow> 'a timers_scheme) \<Rightarrow> u64 \<Rightarrow>
   'a timers_scheme \<Rightarrow> 'a timers_scheme run option" where
  "sleep_loop clock yield target s =
     (case clock s of Stop c \<Rightarrow> Some (Stop c)
      | Ok (t, s) \<Rightarrow> if t < target then sleep_loop clock yield target (yield s) else Some (Ok s))"

definition sleep_ms :: "('a timers_scheme \<Rightarrow> 'a timers_scheme) \<Rightarrow> u64 \<Rightarrow> 'a timers_scheme \<Rightarrow> 'a timers_scheme run" where
  "sleep_ms yield ms s =
     bindr (timer_get_ms s) (\<lambda>(t, s).
       case sleep_loop timer_get_ms yield (t + ms) s of None \<Rightarrow> Stop Hang | Some r \<Rightarrow> r)"

definition sleep_us :: "('a timers_scheme \<Rightarrow> 'a timers_scheme) \<Rightarrow> u64 \<Rightarrow> 'a timers_scheme \<Rightarrow> 'a timers_scheme run" where
  "sleep_us yield us s =
     bindr (timer_get_us s) (\<lambda>(t, s).
       case sleep_loop timer_get_us yield (t + us) s of None \<Rightarrow> Stop Hang | Some r \<Rightarrow> r)"

section \<open>Interrupts\<close>

definition pit_reset_int :: "'a timers_scheme \<Rightarrow> 'a timers_scheme" where
  "pit_reset_int s = send_eoi 32 s"

definition lapic_timer_reset_interrupt :: "'a timers_scheme \<Rightarrow> 'a timers_scheme" where
  "lapic_timer_reset_interrupt s = lapic_mmio_write LAPIC_REG_EOI 0 s"

definition call_reset :: "reset_fn \<Rightarrow> 'a timers_scheme \<Rightarrow> 'a timers_scheme" where
  "call_reset f s = (case f of no_reset \<Rightarrow> s | pit_reset_fn \<Rightarrow> pit_reset_int s
     | lapic_reset_fn \<Rightarrow> lapic_timer_reset_interrupt s)"

text \<open>The row and column of an identifier.\<close>

definition timer_id_type :: "int \<Rightarrow> nat" where
  "timer_id_type i = unat (drop_bit 5 (of_int i :: u8) AND 3)"

definition timer_id_idx :: "int \<Rightarrow> nat" where
  "timer_id_idx i = unat ((of_int i :: u8) AND 0x1F)"

definition common_timer_dispatcher ::
  "('a timers_scheme \<Rightarrow> 'a timers_scheme run) \<Rightarrow> int \<Rightarrow> 'a timers_scheme \<Rightarrow> (bool \<times> 'a timers_scheme) run" where
  "common_timer_dispatcher yield_core timer s =
     (if timer < 0 then Ok (False, s)
      else
        (let type = timer_id_type timer; idx = timer_id_idx timer
         in if idx \<ge> length (devices_by_type s ! type) then Ok (False, s)
            else
              (let firing = devices_by_type s ! type ! idx
               in if firing = 0 then Ok (False, s)
                  else
                    bindr (get_timer firing s) (\<lambda>d.
                      let s = call_reset (td_reset_interrupt d) s;
                          s = (if firing = ts_dev (slot_sleep s) \<and> td_freq d \<noteq> 0
                               then (let us = ticks_us s + 1000000 div td_freq d
                                     in s\<lparr>ticks_us := us, ticks_ms := us div 1000\<rparr>)
                               else s)
                      in if firing = ts_dev (slot_sched s) \<and> task_switching_flag s
                         then bindr (yield_core s) (\<lambda>s. Ok (True, s)) else Ok (True, s)))))"

section \<open>Devices\<close>

definition SIZEOF_TIMER_DEV :: u64 where "SIZEOF_TIMER_DEV = 64"

definition pit_init :: "u64 \<Rightarrow> 'a timers_scheme \<Rightarrow> (int \<times> 'a timers_scheme) run" where
  "pit_init pit_isr_entry s =
     (let s = s\<lparr>pit_timer_ticks_ms := 0\<rparr>
      in bindr (kmalloc SIZEOF_TIMER_DEV (Buf SIZEOF_TIMER_DEV) s) (\<lambda>(dev, s).
           if dev = 0 then Ok (- E_NOMEM, s)
           else
             (let s = s\<lparr>timer_devs := (timer_devs s)(dev \<mapsto>
                        \<lparr>td_name = ''PIT'', td_freq = 1000, td_type = 1, td_vector = 32,
                         td_gettime_us = pit_gettime_fn, td_reset_interrupt = pit_reset_fn\<rparr>)\<rparr>
              in bindr (idt_set_allocated 32 s) (\<lambda>s.
                   let (irq_ret, s) = setup_interrupt_vector 32 pit_isr_entry 0 s
                   in if irq_ret < 0 then Ok (irq_ret, s)
                      else
                        (let divisor32 = (1193180 div 1000 :: u32)
                         in if divisor32 = 0 \<or> divisor32 > 0xFFFF then Ok (- E_INVAL, s)
                            else
                              (let divisor = (ucast divisor32 :: u16);
                                   s = outb 0x43 0x36 s;
                                   s = outb 0x40 (ucast (divisor AND 0xFF)) s;
                                   s = outb 0x40 (ucast (drop_bit 8 divisor AND 0xFF)) s
                               in bindr (timer_register dev (TIMER_ROLE_SCHED OR TIMER_ROLE_SLEEP) 1 s) (\<lambda>(tr, s).
                                    let s = s\<lparr>pit_timer_device_id := tr\<rparr>
                                    in if tr < 0 then Ok (tr, s) else Ok (0, s))))))))"

text \<open>The answers of \<open>cpuid\<close> are arguments: bit 8 of leaf 0x80000007, and the registers of leaf 0x15.\<close>

definition get_tsc_freq :: "u32 \<Rightarrow> u32 \<Rightarrow> u32 \<Rightarrow> u64" where
  "get_tsc_freq eax ebx ecx = (if eax = 0 \<or> ebx = 0 \<or> ecx = 0 then 0 else ucast ecx * ucast ebx div ucast eax)"

definition tsc_clk_init :: "u64 \<Rightarrow> u32 \<Rightarrow> u32 \<times> u32 \<times> u32 \<Rightarrow> 'a timers_scheme \<Rightarrow> (int \<times> 'a timers_scheme) run" where
  "tsc_clk_init tsc_tim_dev edx7 leaf15 s =
     (if edx7 AND 0x100 = 0 then Ok (- 1, s)
      else
        (let (eax, ebx, ecx) = leaf15; s = s\<lparr>tsc_freq := get_tsc_freq eax ebx ecx\<rparr>
         in if tsc_freq s = 0 then Ok (- 1, s)
            else
              (let s = s\<lparr>timer_devs := (timer_devs s)(tsc_tim_dev \<mapsto>
                         \<lparr>td_name = ''tsc clock'', td_freq = tsc_freq s, td_type = 2, td_vector = 0,
                          td_gettime_us = tsc_gettime_fn, td_reset_interrupt = no_reset\<rparr>)\<rparr>
               in bindr (timer_register tsc_tim_dev TIMER_ROLE_SYSTEM_TIME 0x7FFFFFFF s) (\<lambda>(tr, s). Ok (0, s)))))"

definition lapic_timer_init ::
  "u64 \<Rightarrow> u64 \<Rightarrow> u8 \<Rightarrow> u32 \<Rightarrow> u32 \<Rightarrow> 'a timers_scheme \<Rightarrow> (u8 \<times> 'a timers_scheme) run" where
  "lapic_timer_init lapic_timer_dev handler mode initial_count divide_config s =
     bindr (allocate_interrupt_vector s) (\<lambda>(vector, s).
       if vector > 0xFF then Ok (0, s)
       else
         (let s = s\<lparr>lapic_interrupt_vector := ucast vector\<rparr>;
              s = snd (setup_interrupt_vector (vector AND 0xFF) handler 0 s);
              lvt = (0x10000 :: u32);
              lvt = (if mode = 1 then lvt OR 0x20000 else lvt);
              lvt = lvt OR ucast (vector AND 0xFF);
              s = lapic_mmio_write LAPIC_REG_LVT_TIMER lvt s;
              s = lapic_mmio_write LAPIC_REG_DIV (lapic_divider divide_config) s;
              s = lapic_mmio_write LAPIC_REG_INIT_CNT initial_count s
          in bindr (timer_register lapic_timer_dev TIMER_ROLE_SCHED 1000 s) (\<lambda>(tr, s).
               let s = s\<lparr>lapic_timer_id := tr\<rparr>;
                   s = lapic_mmio_write LAPIC_REG_SIVR 0x1FF s;
                   s = lapic_mmio_write LAPIC_REG_LVT_TIMER (lvt AND NOT 0x10000) s
               in Ok (lapic_interrupt_vector s, s))))"

definition c_apic_timer_interrupt_handler ::
  "('a timers_scheme \<Rightarrow> 'a timers_scheme run) \<Rightarrow> 'a timers_scheme \<Rightarrow> 'a timers_scheme run" where
  "c_apic_timer_interrupt_handler yield_core s =
     bindr (common_timer_dispatcher yield_core (lapic_timer_id s) s) (\<lambda>(r, s).
       Ok (lapic_send_eoi (lapic_interrupt_vector s) s))"

section \<open>Facts\<close>

text \<open>The identifier a device gets at registration leads the dispatcher back to it.\<close>

definition timers_ok :: "'a timers_scheme \<Rightarrow> bool" where
  "timers_ok s \<longleftrightarrow> length (devices_by_type s) = 4 \<and> (\<forall>row \<in> set (devices_by_type s). length row \<le> 32 \<and> 0 \<notin> set row)"

lemma timer_id_range:
  assumes "t < 4" "i < 32"
  shows "timer_id_type (sint (push_bit 5 (of_nat t AND 3) OR (of_nat i AND 0x1F) :: u8)) = t"
    and "timer_id_idx (sint (push_bit 5 (of_nat t AND 3) OR (of_nat i AND 0x1F) :: u8)) = i"
    and "sint (push_bit 5 (of_nat t AND 3) OR (of_nat i AND 0x1F) :: u8) \<ge> 0"
proof -
  have "\<forall>t \<in> {0..<4}. \<forall>i \<in> {0..<32}. timer_id_type (sint (push_bit 5 (of_nat t AND 3) OR (of_nat i AND 0x1F) :: u8)) = t \<and>
      timer_id_idx (sint (push_bit 5 (of_nat t AND 3) OR (of_nat i AND 0x1F) :: u8)) = i \<and>
      sint (push_bit 5 (of_nat t AND 3) OR (of_nat i AND 0x1F) :: u8) \<ge> 0"
    by code_simp
  then show "timer_id_type (sint (push_bit 5 (of_nat t AND 3) OR (of_nat i AND 0x1F) :: u8)) = t"
    and "timer_id_idx (sint (push_bit 5 (of_nat t AND 3) OR (of_nat i AND 0x1F) :: u8)) = i"
    and "sint (push_bit 5 (of_nat t AND 3) OR (of_nat i AND 0x1F) :: u8) \<ge> 0"
    using assms by simp_all
qed

lemma timer_type_less: "unat (b AND 3 :: u8) < 4"
proof -
  have "unat (b AND 3) \<le> unat (3 :: u8)" by (rule word_and_le1 [THEN word_le_nat_alt [THEN iffD1]])
  then show ?thesis by simp
qed

lemma timer_register_dispatch:
  assumes "timers_ok s" "dev \<noteq> 0" "timer_devs s dev = Some d" "timer_register dev roles priority s = Ok (tr, t)" "tr \<ge> 0"
  shows "timers_ok t" "devices_by_type t ! timer_id_type tr ! timer_id_idx tr = dev"
    "timer_id_idx tr < length (devices_by_type t ! timer_id_type tr)"
proof -
  define ty where "ty = unat (td_type d AND 3)"
  define row where "row = devices_by_type s ! ty"
  have ty: "ty < 4" by (simp add: ty_def timer_type_less)
  have len: "length row < 32"
    using assms by (auto simp: timer_register_def get_timer_def Let_def row_def ty_def split: if_splits)
  have res: "tr = sint (push_bit 5 (of_nat ty AND 3) OR (of_nat (length row) AND 0x1F) :: u8)"
    using assms len by (auto simp: timer_register_def get_timer_def Let_def row_def ty_def)
  have tab: "devices_by_type t = (devices_by_type s)[ty := row @ [dev]]"
    using assms len by (auto simp: timer_register_def get_timer_def Let_def row_def ty_def)
  have four: "length (devices_by_type s) = 4" using assms(1) by (simp add: timers_ok_def)
  note range = timer_id_range [OF ty len, folded res]
  show "devices_by_type t ! timer_id_type tr ! timer_id_idx tr = dev"
    "timer_id_idx tr < length (devices_by_type t ! timer_id_type tr)"
    using range ty four by (simp_all add: tab)
  have "row \<in> set (devices_by_type s)" using ty four by (simp add: row_def)
  then show "timers_ok t"
    using assms(1,2) len four set_update_subset_insert [of "devices_by_type s" ty "row @ [dev]"]
    by (auto simp: timers_ok_def tab dest!: subsetD)
qed

end
