(* ===== verification/Rtc.thy ===== *)
theory Rtc
  imports Timer
begin

text \<open>
  The real-time clock \<open>kernel/src/arch/x86_64/rtc/rtc.c\<close>: reading the CMOS registers,
  the date arithmetic of \<open>rtc_init\<close>, and the wall clock derived from it. The day count is
  compared with a calendar that adds up the lengths of years and months.
\<close>

record rtc_time_t =
  second :: u8
  minute :: u8
  hour :: u8
  day :: u8
  month :: u8
  year :: u16

definition bcd_to_bin :: "u8 \<Rightarrow> u8" where
  "bcd_to_bin bcd = (bcd AND 0x0F) + drop_bit 4 bcd * 10"

definition read_rtc_register :: "u8 \<Rightarrow> 'a hw_scheme \<Rightarrow> u8 \<times> 'a hw_scheme" where
  "read_rtc_register reg s = inb 0x71 (outb 0x70 reg s)"

text \<open>The wait for the update flag to clear; \<open>None\<close> when it never does.\<close>

partial_function (option) rtc_wait :: "'a hw_scheme \<Rightarrow> 'a hw_scheme option" where
  "rtc_wait s = (case inb 0x71 s of (v, s) \<Rightarrow> if v AND 0x80 \<noteq> 0 then rtc_wait s else Some s)"

definition rtc_read_time :: "'a hw_scheme \<Rightarrow> (rtc_time_t \<times> 'a hw_scheme) run" where
  "rtc_read_time s =
     (case rtc_wait (outb 0x70 0x0A s) of None \<Rightarrow> Stop Hang
      | Some s \<Rightarrow>
          (let (sec, s) = read_rtc_register 0x00 s;
               (mi, s) = read_rtc_register 0x02 s;
               (ho, s) = read_rtc_register 0x04 s;
               (da, s) = read_rtc_register 0x07 s;
               (mon, s) = read_rtc_register 0x08 s;
               (ye, s) = read_rtc_register 0x09 s;
               (reg_b, s) = read_rtc_register 0x0B s;
               f = (if reg_b AND 0x04 = 0 then bcd_to_bin else (\<lambda>x. x))
           in Ok (\<lparr>second = f sec, minute = f mi, hour = f ho, day = f da, month = f mon, year = 2000 + ucast (f ye)\<rparr>, s)))"

definition is_leap_year :: "nat \<Rightarrow> bool" where
  "is_leap_year y \<longleftrightarrow> y mod 4 = 0 \<and> y mod 100 \<noteq> 0 \<or> y mod 400 = 0"

text \<open>The table has bytes, so the last three entries lose 256.\<close>

definition days_before_month :: "u8 list" where
  "days_before_month = [0, 31, 59, 90, 120, 151, 181, 212, 243, 273, 304, 334]"

primrec year_days :: "nat \<Rightarrow> u64" where
  "year_days 0 = 0"
| "year_days (Suc n) = year_days n + (if is_leap_year (1970 + n) then 366 else 365)"

definition rtc_days :: "rtc_time_t \<Rightarrow> u64 run" where
  "rtc_days time =
     (let days = year_days (unat (year time) - 1970)
      in if month time = 0 \<or> month time > 12 then Stop OutOfBounds
         else
           (let days = days + ucast (days_before_month ! (unat (month time) - 1));
                days = (if month time > 2 \<and> is_leap_year (unat (year time)) then days + 1 else days)
            in Ok (days + (ucast (day time) - 1))))"

definition rtc_seconds :: "rtc_time_t \<Rightarrow> u64 \<Rightarrow> u64" where
  "rtc_seconds time days = days * 86400 + ucast (hour time) * 3600 + ucast (minute time) * 60 + ucast (second time)"

definition rtc_init :: "'a timers_scheme \<Rightarrow> 'a timers_scheme run" where
  "rtc_init s =
     bindr (rtc_read_time s) (\<lambda>(time, s).
     bindr (rtc_days time) (\<lambda>days.
     bindr (timer_get_us s) (\<lambda>(us, s).
       Ok (s\<lparr>boot_unix_time := rtc_seconds time days - us div 1000000\<rparr>))))"

definition get_unixtime :: "'a timers_scheme \<Rightarrow> (u64 \<times> 'a timers_scheme) run" where
  "get_unixtime s = bindr (timer_get_us s) (\<lambda>(us, s). Ok (boot_unix_time s + us div 1000000, s))"

section \<open>The calendar\<close>

text \<open>
  The Gregorian rule: every fourth year has a leap day, of the centuries only every fourth.
\<close>

definition gregorian_leap :: "nat \<Rightarrow> bool" where
  "gregorian_leap y \<longleftrightarrow> (if 100 dvd y then 4 dvd y div 100 else 4 dvd y)"

lemma leap_year_rule: "gregorian_leap y = is_leap_year y"
proof (cases "100 dvd y")
  case True
  then obtain k where y: "y = 100 * k" by blast
  have "400 dvd 100 * k \<longleftrightarrow> 4 dvd k" using nat_mult_dvd_cancel_disj [of 100 4 k] by simp
  then show ?thesis by (simp add: gregorian_leap_def is_leap_year_def y mod_eq_0_iff_dvd)
next
  case False
  then have "\<not> 400 dvd y" using dvd_trans [of 100 400 y] by auto
  then show ?thesis using False by (auto simp: gregorian_leap_def is_leap_year_def mod_eq_0_iff_dvd)
qed

definition month_length :: "nat \<Rightarrow> nat \<Rightarrow> nat" where
  "month_length y m =
     (if m = 2 then (if gregorian_leap y then 29 else 28) else if m \<in> {4, 6, 9, 11} then 30 else 31)"

definition year_length :: "nat \<Rightarrow> nat" where
  "year_length y = sum_list (map (month_length y) [1..<13])"

text \<open>Days since the first of January 1970.\<close>

definition civil_days :: "nat \<Rightarrow> nat \<Rightarrow> nat \<Rightarrow> nat" where
  "civil_days y m d = sum_list (map year_length [1970..<y]) + sum_list (map (month_length y) [1..<m]) + (d - 1)"

definition valid_date :: "rtc_time_t \<Rightarrow> bool" where
  "valid_date t \<longleftrightarrow> 1970 \<le> unat (year t) \<and> 1 \<le> unat (month t) \<and> unat (month t) \<le> 12 \<and> 1 \<le> unat (day t)"

lemma year_length_leap: "year_length y = (if is_leap_year y then 366 else 365)"
  by (simp add: year_length_def month_length_def leap_year_rule upt_rec)

lemma year_days_sum: "year_days n = of_nat (sum_list (map year_length [1970..<1970 + n]))"
proof (induction n)
  case (Suc n)
  have "[1970..<1970 + Suc n] = [1970..<1970 + n] @ [1970 + n]" unfolding add_Suc_right by (rule upt_Suc_append) simp
  then have "sum_list (map year_length [1970..<1970 + Suc n]) = sum_list (map year_length [1970..<1970 + n]) + year_length (1970 + n)"
    by (simp only: map_append sum_list_append list.map sum_list.Cons sum_list.Nil add_0_right)
  then show ?case using Suc year_length_leap [of "1970 + n"] by simp
qed simp

lemma month_cases:
  "1 \<le> m \<Longrightarrow> m \<le> 12 \<Longrightarrow> m = 1 \<or> m = 2 \<or> m = 3 \<or> m = 4 \<or> m = 5 \<or> m = 6 \<or> m = 7 \<or> m = 8 \<or> m = 9 \<or> m = 10 \<or> m = 11 \<or> m = 12" for m :: nat
  by presburger

lemma months_before:
  assumes "1 \<le> m" "m \<le> 12"
  shows "sum_list (map (month_length y) [1..<m]) =
    [0, 31, 59, 90, 120, 151, 181, 212, 243, 273, 304, 334] ! (m - 1) + (if m > 2 \<and> is_leap_year y then 1 else 0)"
using month_cases [OF assms] by (elim disjE) (simp_all add: month_length_def leap_year_rule upt_rec)

lemma table_byte:
  assumes "1 \<le> m" "m \<le> 12"
  shows "unat (days_before_month ! (m - 1)) + (if m \<ge> 10 then 256 else 0) =
    [0, 31, 59, 90, 120, 151, 181, 212, 243, 273, 304, 334] ! (m - 1)"
using month_cases [OF assms] by (elim disjE) (simp_all add: days_before_month_def)

lemma rtc_days_civil:
  assumes "valid_date t"
  shows "rtc_days t = Ok (of_nat (civil_days (unat (year t)) (unat (month t)) (unat (day t))) -
    (if unat (month t) \<ge> 10 then 256 else 0))"
proof -
  let ?y = "unat (year t)" and ?m = "unat (month t)" and ?d = "unat (day t)"
  have v: "1970 \<le> ?y" "1 \<le> ?m" "?m \<le> 12" "1 \<le> ?d" using assms by (auto simp: valid_date_def)
  define tab where "tab = unat (days_before_month ! (?m - 1))"
  have m: "\<not> (month t = 0 \<or> month t > 12)" "month t > 2 \<longleftrightarrow> ?m > 2"
    using v by (auto simp: word_less_nat_alt word_unat_eq_iff)
  have yd: "year_days (?y - 1970) = of_nat (sum_list (map year_length [1970..<?y]))"
    using v(1) by (simp add: year_days_sum)
  have uc: "(ucast (days_before_month ! (?m - 1)) :: u64) = of_nat tab"
    by (simp add: tab_def)
  define Y where "Y = sum_list (map year_length [1970..<?y])"
  define leap where "leap = (?m > 2 \<and> is_leap_year ?y)"
  define late where "late = (?m \<ge> 10)"
  have civil: "civil_days ?y ?m ?d = Y + (tab + (if late then 256 else 0) + (if leap then 1 else 0)) + (?d - 1)"
    unfolding civil_days_def months_before [OF v(2,3)] table_byte [OF v(2,3), symmetric] tab_def Y_def late_def leap_def by simp
  have "rtc_days t = Ok (of_nat Y + of_nat tab + (if leap then 1 else 0) + (ucast (day t) - 1))"
    using m uc by (simp add: rtc_days_def Let_def yd Y_def leap_def)
  also have "of_nat Y + of_nat tab + (if leap then 1 else 0) + (ucast (day t) - 1) =
      (of_nat (Y + (tab + (if late then 256 else 0) + (if leap then 1 else 0)) + (?d - 1)) - (if late then 256 else 0) :: u64)"
    using v(4) by (cases late; cases leap) (simp_all add: of_nat_diff)
  finally show ?thesis by (simp only: civil late_def)
qed

end
