(* ===== verification/Pci.thy ===== *)
theory Pci
  imports Hw
begin

text \<open>
  The PCI bus: configuration space access through ports 0xCF8 and 0xCFC
  (\<open>kernel/src/arch/x86_64/pci/pci_config_io.c\<close>), the table of known devices and the scan of
  all buses (\<open>drivers/PCI/pci.c\<close>). The drivers are the entries of a linker section; they are
  an argument of the scan, each with the numbers it serves and its \<open>init\<close> function.
\<close>

section \<open>Configuration space\<close>

definition pci_address :: "u8 \<Rightarrow> u8 \<Rightarrow> u8 \<Rightarrow> u8 \<Rightarrow> u32" where
  "pci_address bus slot func offset =
     push_bit 16 (ucast bus) OR push_bit 11 (ucast slot) OR push_bit 8 (ucast func) OR ucast (offset AND 0xFC) OR 0x80000000"

definition pci_config_read8 :: "u8 \<Rightarrow> u8 \<Rightarrow> u8 \<Rightarrow> u8 \<Rightarrow> 'a hw_scheme \<Rightarrow> u8 \<times> 'a hw_scheme" where
  "pci_config_read8 bus slot func offset s =
     (case inl 0xCFC (outl 0xCF8 (pci_address bus slot func offset) s) of (v, s) \<Rightarrow>
        (ucast (drop_bit (unat (offset AND 3) * 8) v AND 0xFF), s))"

definition pci_config_read16 :: "u8 \<Rightarrow> u8 \<Rightarrow> u8 \<Rightarrow> u8 \<Rightarrow> 'a hw_scheme \<Rightarrow> u16 \<times> 'a hw_scheme" where
  "pci_config_read16 bus slot func offset s =
     (case inl 0xCFC (outl 0xCF8 (pci_address bus slot func offset) s) of (v, s) \<Rightarrow>
        (ucast (drop_bit (unat (offset AND 2) * 8) v AND 0xFFFF), s))"

definition pci_config_read32 :: "u8 \<Rightarrow> u8 \<Rightarrow> u8 \<Rightarrow> u8 \<Rightarrow> 'a hw_scheme \<Rightarrow> u32 \<times> 'a hw_scheme" where
  "pci_config_read32 bus slot func offset s = inl 0xCFC (outl 0xCF8 (pci_address bus slot func offset) s)"

definition pci_config_write8 :: "u8 \<Rightarrow> u8 \<Rightarrow> u8 \<Rightarrow> u8 \<Rightarrow> u8 \<Rightarrow> 'a hw_scheme \<Rightarrow> 'a hw_scheme" where
  "pci_config_write8 bus slot func offset v s =
     (case inl 0xCFC (outl 0xCF8 (pci_address bus slot func offset) s) of (w, s) \<Rightarrow>
        (let sh = unat (offset AND 3) * 8
         in outl 0xCFC (w AND NOT (push_bit sh 0xFF) OR push_bit sh (ucast v)) s))"

definition pci_config_write16 :: "u8 \<Rightarrow> u8 \<Rightarrow> u8 \<Rightarrow> u8 \<Rightarrow> u16 \<Rightarrow> 'a hw_scheme \<Rightarrow> 'a hw_scheme" where
  "pci_config_write16 bus slot func offset v s =
     (case inl 0xCFC (outl 0xCF8 (pci_address bus slot func offset) s) of (w, s) \<Rightarrow>
        (let sh = unat (offset AND 2) * 8
         in outl 0xCFC (w AND NOT (push_bit sh 0xFFFF) OR push_bit sh (ucast v)) s))"

definition pci_config_write32 :: "u8 \<Rightarrow> u8 \<Rightarrow> u8 \<Rightarrow> u8 \<Rightarrow> u32 \<Rightarrow> 'a hw_scheme \<Rightarrow> 'a hw_scheme" where
  "pci_config_write32 bus slot func offset v s = outl 0xCFC v (outl 0xCF8 (pci_address bus slot func offset) s)"

section \<open>Known devices\<close>

type_synonym pci_mapping = "u16 \<times> u16 \<times> string \<times> string"

definition pci_device_mappings_list :: "pci_mapping list" where
  "pci_device_mappings_list =
     [(0x1AF4, 0x1000, ''Red Hat'', ''VirtIO Network''),
      (0x1AF4, 0x1001, ''Red Hat'', ''VirtIO Block''),
      (0x1AF4, 0x1002, ''Red Hat'', ''VirtIO Balloon''),
      (0x1AF4, 0x1003, ''Red Hat'', ''VirtIO Console''),
      (0x1AF4, 0x1004, ''Red Hat'', ''VirtIO SCSI''),
      (0x1AF4, 0x1005, ''Red Hat'', ''VirtIO RNG''),
      (0x1AF4, 0x1009, ''Red Hat'', ''VirtIO 9P (filesystem)''),
      (0x1AF4, 0x1010, ''Red Hat'', ''VirtIO GPU''),
      (0x1AF4, 0x1011, ''Red Hat'', ''VirtIO Input''),
      (0x1AF4, 0x1012, ''Red Hat'', ''VirtIO Socket (vsock)''),
      (0x1AF4, 0x1014, ''Red Hat'', ''VirtIO Crypto''),
      (0x1AF4, 0x1041, ''Red Hat'', ''VirtIO Network (modern)''),
      (0x1AF4, 0x1042, ''Red Hat'', ''VirtIO Block (modern)''),
      (0x1AF4, 0x1043, ''Red Hat'', ''VirtIO Console (modern)''),
      (0x1AF4, 0x1044, ''Red Hat'', ''VirtIO RNG (modern)''),
      (0x1AF4, 0x1045, ''Red Hat'', ''VirtIO Balloon (modern)''),
      (0x1AF4, 0x1048, ''Red Hat'', ''VirtIO SCSI (modern)''),
      (0x1AF4, 0x1049, ''Red Hat'', ''VirtIO 9P (modern)''),
      (0x1AF4, 0x1050, ''Red Hat'', ''VirtIO GPU (modern)''),
      (0x1AF4, 0x1052, ''Red Hat'', ''VirtIO Input (modern)''),
      (0x1AF4, 0x1053, ''Red Hat'', ''VirtIO Socket (modern)''),
      (0x1B36, 0x0001, ''QEMU'', ''PCI-PCI Bridge''),
      (0x1B36, 0x0002, ''QEMU'', ''PCI Serial''),
      (0x1B36, 0x0003, ''QEMU'', ''PCI Serial (2x)''),
      (0x1B36, 0x0004, ''QEMU'', ''PCI Serial (4x)''),
      (0x1B36, 0x0005, ''QEMU'', ''PCI Test''),
      (0x1B36, 0x0006, ''QEMU'', ''PCI Rocker Switch''),
      (0x1B36, 0x0007, ''QEMU'', ''PCI xHCI USB 3.0''),
      (0x1B36, 0x0008, ''QEMU'', ''PCIe Host''),
      (0x1B36, 0x0009, ''QEMU'', ''PCIe-PCI Bridge''),
      (0x1B36, 0x000A, ''QEMU'', ''PCIe Graphics''),
      (0x1B36, 0x000B, ''QEMU'', ''PCIe Root Port''),
      (0x1B36, 0x000D, ''QEMU'', ''PCI IVSHMEM''),
      (0x1B36, 0x000E, ''QEMU'', ''NVMe''),
      (0x1B36, 0x000F, ''QEMU'', ''PVPANIC''),
      (0x1B36, 0x0010, ''QEMU'', ''PCIe GPEx Root Port''),
      (0x8086, 0x1237, ''Intel'', ''440FX PCI-Host (PIIX)''),
      (0x8086, 0x7000, ''Intel'', ''PIIX3 ISA Bridge''),
      (0x8086, 0x7010, ''Intel'', ''PIIX3 IDE''),
      (0x8086, 0x7020, ''Intel'', ''PIIX3 USB 1.1 (UHCI)''),
      (0x8086, 0x7113, ''Intel'', ''PIIX4 ACPI / Power Mgmt''),
      (0x8086, 0x29C0, ''Intel'', ''Q35 Host Bridge (MCH)''),
      (0x8086, 0x2918, ''Intel'', ''ICH9 LPC Bridge''),
      (0x8086, 0x2922, ''Intel'', ''ICH9 AHCI SATA''),
      (0x8086, 0x2930, ''Intel'', ''ICH9 SMBus''),
      (0x8086, 0x2934, ''Intel'', ''ICH9 EHCI USB 2.0 (port 1)''),
      (0x8086, 0x293A, ''Intel'', ''ICH9 EHCI USB 2.0 (port 2)''),
      (0x8086, 0x293E, ''Intel'', ''ICH9 HD Audio''),
      (0x8086, 0x2415, ''Intel'', ''ICH AC97 Audio''),
      (0x8086, 0x100E, ''Intel'', ''82540EM Gigabit NIC (e1000)''),
      (0x8086, 0x10D3, ''Intel'', ''82574L Gigabit NIC (e1000e)''),
      (0x8086, 0x282A, ''Intel'', ''SATA RST RAID Ctrl''),
      (0x8086, 0x3482, ''Intel'', ''LP LPC Ctrl''),
      (0x8086, 0x34A3, ''Intel'', ''LP SMBus Ctrl''),
      (0x8086, 0x34A4, ''Intel'', ''LP SPI Ctrl''),
      (0x8086, 0x34B4, ''Intel'', ''LP PCIe Port #13''),
      (0x8086, 0x34BD, ''Intel'', ''LP PCIe Port #6''),
      (0x8086, 0x34C8, ''Intel'', ''LP SmartSound Audio''),
      (0x8086, 0x34E0, ''Intel'', ''LP Management Engine''),
      (0x8086, 0x34E8, ''Intel'', ''LP Serial IO I2C #0''),
      (0x8086, 0x34E9, ''Intel'', ''LP Serial IO I2C #1''),
      (0x8086, 0x34ED, ''Intel'', ''LP USB3 xHCI Ctrl''),
      (0x8086, 0x34EF, ''Intel'', ''LP DRAM Ctrl''),
      (0x8086, 0x34F0, ''Intel'', ''LP CNVi WiFi''),
      (0x8086, 0x34FC, ''Intel'', ''LP Sensor Hub''),
      (0x8086, 0x8A03, ''Intel'', ''Pwr/Thermal Ctrl''),
      (0x8086, 0x8A12, ''Intel'', ''IceLake Host Bridge''),
      (0x8086, 0x8A13, ''Intel'', ''Thunderbolt USB Ctrl''),
      (0x8086, 0x8A17, ''Intel'', ''Thunderbolt NHI''),
      (0x8086, 0x8A1D, ''Intel'', ''Thunderbolt Root Port #0''),
      (0x8086, 0x8A1F, ''Intel'', ''Thunderbolt Root Port #1''),
      (0x8086, 0x8A52, ''Intel'', ''Iris Plus G7 GPU''),
      (0x10EC, 0x525A, ''Realtek'', ''RTS525A Card Reader''),
      (0x144D, 0xA808, ''Samsung'', ''NVMe SM981/PM981/PM983''),
      (0x1234, 0x1111, ''Technical Corp'', ''QEMU Standard VGA''),
      (0x15AD, 0x0405, ''VMware'', ''SVGA II (Display)''),
      (0x15AD, 0x0740, ''VMware'', ''VMCI''),
      (0x15AD, 0x0770, ''VMware'', ''USB 2.0 EHCI''),
      (0x15AD, 0x0774, ''VMware'', ''USB 3.0 xHCI''),
      (0x15AD, 0x07A0, ''VMware'', ''PCIe Root Port''),
      (0x15AD, 0x07B0, ''VMware'', ''VMXNET3 NIC''),
      (0x15AD, 0x07C0, ''VMware'', ''PVSCSI''),
      (0x15AD, 0x07E0, ''VMware'', ''SATA AHCI''),
      (0x15AD, 0x0801, ''VMware'', ''VM Interface (backdoor)''),
      (0x15AD, 0x1977, ''VMware'', ''HD Audio''),
      (0x80EE, 0xBEEF, ''VirtualBox'', ''VGA''),
      (0x80EE, 0xCAFE, ''VirtualBox'', ''VMMDev (Guest Service)''),
      (0x1414, 0x5353, ''Microsoft'', ''Hyper-V VMBus''),
      (0x1414, 0x0001, ''Microsoft'', ''Hyper-V Virtual IDE''),
      (0x1414, 0x0002, ''Microsoft'', ''Hyper-V Synthetic SCSI''),
      (0x1414, 0x0003, ''Microsoft'', ''Hyper-V Synthetic NIC''),
      (0x1414, 0x0004, ''Microsoft'', ''Hyper-V Video (Basic)''),
      (0x1414, 0x0006, ''Microsoft'', ''Hyper-V Keyboard''),
      (0x1414, 0x0009, ''Microsoft'', ''Hyper-V NVMe''),
      (0x0000, 0x0000, ''unknown'', ''unknown'')]"

text \<open>
  The search skips the last entry, \<open>unknown\<close>, and returns a pointer to the element after
  it when nothing matches; a pointer into the table is the index.
\<close>

fun pci_lookup_from :: "u16 \<Rightarrow> u16 \<Rightarrow> nat \<Rightarrow> pci_mapping list \<Rightarrow> nat option" where
  "pci_lookup_from vendor_id device_id i [] = None"
| "pci_lookup_from vendor_id device_id i ((v, d, vn, dn) # rest) =
     (if v = vendor_id \<and> d = device_id then Some i else pci_lookup_from vendor_id device_id (Suc i) rest)"

definition pci_device_lookup :: "u16 \<Rightarrow> u16 \<Rightarrow> nat" where
  "pci_device_lookup vendor_id device_id =
     (case pci_lookup_from vendor_id device_id 0 (butlast pci_device_mappings_list) of Some i \<Rightarrow> i
      | None \<Rightarrow> length pci_device_mappings_list)"

definition pci_mapping_at :: "nat \<Rightarrow> pci_mapping run" where
  "pci_mapping_at i = (if i < length pci_device_mappings_list then Ok (pci_device_mappings_list ! i) else Stop OutOfBounds)"

section \<open>The scan\<close>

record 'a pci_driver =
  drv_vendor_id :: u16
  drv_device_id :: u16
  drv_init :: "u8 \<Rightarrow> u8 \<Rightarrow> u8 \<Rightarrow> 'a \<Rightarrow> 'a run"

definition get_pci_driver :: "'s pci_driver list \<Rightarrow> u16 \<Rightarrow> u16 \<Rightarrow> 's pci_driver option" where
  "get_pci_driver drivers vendor_id device_id =
     find (\<lambda>d. drv_vendor_id d = vendor_id \<and> drv_device_id d = device_id) drivers"

definition get_vendor_id :: "u8 \<Rightarrow> u8 \<Rightarrow> u8 \<Rightarrow> 'a hw_scheme \<Rightarrow> u16 \<times> 'a hw_scheme" where
  "get_vendor_id bus device function s = pci_config_read16 bus device function 0x00 s"

definition get_device_id :: "u8 \<Rightarrow> u8 \<Rightarrow> u8 \<Rightarrow> 'a hw_scheme \<Rightarrow> u16 \<times> 'a hw_scheme" where
  "get_device_id bus device function s = pci_config_read16 bus device function 0x02 s"

definition get_header_type :: "u8 \<Rightarrow> u8 \<Rightarrow> u8 \<Rightarrow> 'a hw_scheme \<Rightarrow> u8 \<times> 'a hw_scheme" where
  "get_header_type bus device function s =
     (case pci_config_read16 bus device function 0x0E s of (v, s) \<Rightarrow> (ucast (v AND 0xFF), s))"

text \<open>Announcing a device reads its names from the table, then its driver is started.\<close>

definition pci_announce :: "('a hw_scheme) pci_driver list \<Rightarrow> u8 \<Rightarrow> u8 \<Rightarrow> u8 \<Rightarrow> u16 \<Rightarrow> u16 \<Rightarrow> 'a hw_scheme \<Rightarrow> 'a hw_scheme run" where
  "pci_announce drivers bus device function vendor_id device_id s =
     bindr (pci_mapping_at (pci_device_lookup vendor_id device_id)) (\<lambda>devinfo.
       case get_pci_driver drivers vendor_id device_id of None \<Rightarrow> Ok s
       | Some drv \<Rightarrow> drv_init drv bus device function s)"

definition check_function_n :: "('a hw_scheme) pci_driver list \<Rightarrow> u8 \<Rightarrow> u8 \<Rightarrow> u8 \<Rightarrow> 'a hw_scheme \<Rightarrow> 'a hw_scheme run" where
  "check_function_n drivers bus device function s =
     (let (v_id, s) = get_vendor_id bus device function s
      in if v_id = 0xFFFF then Ok s
         else (let (d_id, s) = get_device_id bus device function s
               in pci_announce drivers bus device function v_id d_id s))"

definition check_device :: "('a hw_scheme) pci_driver list \<Rightarrow> u8 \<Rightarrow> u8 \<Rightarrow> 'a hw_scheme \<Rightarrow> 'a hw_scheme run" where
  "check_device drivers bus device s =
     (let (vendor_id, s) = get_vendor_id bus device 0 s
      in if vendor_id = 0xFFFF then Ok s
         else
           (let (device_id, s) = get_device_id bus device 0 s
            in bindr (pci_announce drivers bus device 0 vendor_id device_id s) (\<lambda>s.
                 let (header_type, s) = get_header_type bus device 0 s
                 in if header_type AND 0x80 = 0 then Ok s
                    else foreach (\<lambda>f. check_function_n drivers bus device (of_nat f)) [1..<8] s)))"

definition check_all_buses :: "('a hw_scheme) pci_driver list \<Rightarrow> 'a hw_scheme \<Rightarrow> 'a hw_scheme run" where
  "check_all_buses drivers s =
     foreach (\<lambda>bus. foreach (\<lambda>device. check_device drivers (of_nat bus) (of_nat device)) [0..<32]) [0..<256] s"

section \<open>Facts\<close>

text \<open>Different functions and registers have different configuration addresses.\<close>

lemma bit_pci_address:
  "bit (pci_address bus slot func offset) n \<longleftrightarrow>
     n < 32 \<and> (n \<ge> 16 \<and> bit bus (n - 16) \<or> n \<ge> 11 \<and> bit slot (n - 11) \<or> n \<ge> 8 \<and> bit func (n - 8) \<or>
       bit (offset AND 0xFC) n \<or> n = 31)"
proof -
  have "(0x80000000 :: u32) = 2 ^ 31" by simp
  then have top: "bit (0x80000000 :: u32) n \<longleftrightarrow> n = 31" by (simp only: bit_exp_iff) auto
  have low: "bit w k \<Longrightarrow> k < 8" for w :: u8 and k using bit_imp_le_length [of w k] by simp
  show ?thesis unfolding pci_address_def bit_or_iff bit_push_bit_iff bit_ucast_iff top
    by (auto dest: low)
qed

lemma pci_address_fields:
  assumes "slot < 2 ^ 5" "func < 2 ^ 3"
  shows "take_bit 8 (drop_bit 16 (pci_address bus slot func offset)) = ucast bus"
    and "take_bit 5 (drop_bit 11 (pci_address bus slot func offset)) = ucast slot"
    and "take_bit 3 (drop_bit 8 (pci_address bus slot func offset)) = ucast func"
    and "take_bit 8 (pci_address bus slot func offset) = ucast (offset AND 0xFC)"
proof -
  have s: "\<not> bit slot n" if "5 \<le> n" for n using bit_below [OF assms(1) that] .
  have f: "\<not> bit func n" if "3 \<le> n" for n using bit_below [OF assms(2) that] .
  have l: "\<not> bit w n" if "8 \<le> n" for w :: u8 and n using that bit_imp_le_length [of w n] by auto
  have s5: "n < 5" if "bit slot n" for n using s [of n] that by (cases "5 \<le> n") auto
  have f3: "n < 3" if "bit func n" for n using f [of n] that by (cases "3 \<le> n") auto
  have b: "bit w n \<Longrightarrow> n < 8" for w :: u8 and n using bit_imp_le_length [of w n] by simp
  show "take_bit 8 (drop_bit 16 (pci_address bus slot func offset)) = ucast bus"
    by (rule bit_word_eqI) (auto simp: bit_take_bit_iff bit_drop_bit_eq bit_pci_address bit_ucast_iff s f l dest: b)
  show "take_bit 5 (drop_bit 11 (pci_address bus slot func offset)) = ucast slot"
    by (rule bit_word_eqI) (auto simp: bit_take_bit_iff bit_drop_bit_eq bit_pci_address bit_ucast_iff s f l not_less dest: b s5 f3)
  show "take_bit 3 (drop_bit 8 (pci_address bus slot func offset)) = ucast func"
    by (rule bit_word_eqI) (auto simp: bit_take_bit_iff bit_drop_bit_eq bit_pci_address bit_ucast_iff s f l not_less dest: b s5 f3)
  show "take_bit 8 (pci_address bus slot func offset) = ucast (offset AND 0xFC)"
    by (rule bit_word_eqI) (auto simp: bit_take_bit_iff bit_pci_address bit_ucast_iff s f l not_less dest: b s5 f3)
qed

text \<open>A device the table does not know makes the scan read beyond the table.\<close>

lemma pci_lookup_from_None:
  "pci_lookup_from v d i xs = None \<longleftrightarrow> (v, d) \<notin> (\<lambda>(v, d, vn, dn). (v, d)) ` set xs"
  by (induction v d i xs rule: pci_lookup_from.induct) auto

lemma pci_lookup_from_Some:
  "pci_lookup_from v d i xs = Some k \<Longrightarrow> i \<le> k \<and> k < i + length xs \<and> fst (xs ! (k - i)) = v \<and> fst (snd (xs ! (k - i))) = d"
proof (induction v d i xs rule: pci_lookup_from.induct)
  case (2 v d i v' d' vn dn rest)
  then show ?case by (auto simp: nth_Cons' Suc_diff_Suc split: if_splits)
qed simp

lemma pci_unknown_device:
  "(v, d) \<notin> (\<lambda>(v, d, vn, dn). (v, d)) ` set (butlast pci_device_mappings_list) \<Longrightarrow>
     pci_mapping_at (pci_device_lookup v d) = Stop OutOfBounds"
  unfolding pci_device_lookup_def pci_lookup_from_None [symmetric, where i = 0] by (simp add: pci_mapping_at_def)

lemma pci_known_device:
  assumes "(v, d) \<in> (\<lambda>(v, d, vn, dn). (v, d)) ` set (butlast pci_device_mappings_list)"
  shows "\<exists>vn dn. pci_mapping_at (pci_device_lookup v d) = Ok (v, d, vn, dn)"
proof -
  obtain k where k: "pci_lookup_from v d 0 (butlast pci_device_mappings_list) = Some k"
    using assms pci_lookup_from_None [where i = 0] by blast
  then have "k < length (butlast pci_device_mappings_list)" "fst (butlast pci_device_mappings_list ! k) = v"
      "fst (snd (butlast pci_device_mappings_list ! k)) = d"
    using pci_lookup_from_Some [OF k] by simp_all
  then have "k < length pci_device_mappings_list" "fst (pci_device_mappings_list ! k) = v" "fst (snd (pci_device_mappings_list ! k)) = d"
    by (simp_all add: nth_butlast)
  then show ?thesis using k by (cases "pci_device_mappings_list ! k") (simp add: pci_device_lookup_def pci_mapping_at_def)
qed

end
