(* ===== verification/Format.thy ===== *)
theory Format
  imports Prelude
begin

text \<open>
  The number formats the kernel prints (\<open>%u\<close>, \<open>%d\<close>, \<open>%03u\<close>) and
  \<open>byte_nb_simplify\<close> of \<open>kernel/src/string/format.c\<close>, which spells a byte count in
  binary units.
\<close>

section \<open>Decimal numbers\<close>

definition digit :: "nat \<Rightarrow> char" where
  "digit d = char_of (48 + d)"

fun dec :: "nat \<Rightarrow> string" where
  "dec n = (if n < 10 then [digit n] else dec (n div 10) @ [digit (n mod 10)])"

declare dec.simps [simp del]

definition dec_int :: "int \<Rightarrow> string" where
  "dec_int i = (if i < 0 then CHR ''-'' # dec (nat (- i)) else dec (nat i))"

text \<open>\<open>%03u\<close>: at least three digits, filled up with zeros.\<close>

definition dec03 :: "nat \<Rightarrow> string" where
  "dec03 n = replicate (3 - length (dec n)) (CHR ''0'') @ dec n"

definition undec :: "string \<Rightarrow> nat" where
  "undec cs = fold (\<lambda>c n. 10 * n + (of_char c - 48)) cs 0"

lemma of_char_digit [simp]: "d < 10 \<Longrightarrow> of_char (digit d) = 48 + d"
  by (simp add: digit_def of_char_of)

lemma digit_0: "digit 0 = CHR ''0''"
  unfolding digit_def by code_simp

lemma undec_dec: "undec (dec n) = n"
proof (induction n rule: dec.induct)
  case (1 n)
  show ?case
  proof (cases "n < 10")
    case True
    then show ?thesis by (simp add: dec.simps [of n] undec_def)
  next
    case False
    have "undec (dec n) = 10 * undec (dec (n div 10)) + (of_char (digit (n mod 10)) - 48)"
      using False by (simp add: dec.simps [of n] undec_def)
    then show ?thesis using 1 False by simp
  qed
qed

lemma dec_digits: "c \<in> set (dec n) \<Longrightarrow> 48 \<le> (of_char c :: nat) \<and> of_char c < (58 :: nat)"
proof (induction n rule: dec.induct)
  case (1 n)
  then show ?case by (cases "n < 10") (auto simp: dec.simps [of n])
qed

lemma dec_nonempty [simp]: "dec n \<noteq> []"
  by (simp add: dec.simps [of n])

lemma dec_inject: "dec m = dec n \<longleftrightarrow> m = n"
  using undec_dec by metis

section \<open>Byte counts\<close>

definition GIB :: u32 where "GIB = 1024 * 1024 * 1024"
definition MIB :: u32 where "MIB = 1024 * 1024"
definition KIB :: u32 where "KIB = 1024"

text \<open>
  One of the three unit blocks: the text so far, the rest, the depth, and whether the
  routine has already returned.
\<close>

definition size_unit :: "u32 \<Rightarrow> string \<Rightarrow> string \<times> u32 \<times> int \<times> bool \<Rightarrow> string \<times> u32 \<times> int \<times> bool" where
  "size_unit u label = (\<lambda>(p, size_bytes, depth, finished).
     if finished \<or> \<not> size_bytes \<ge> u then (p, size_bytes, depth, finished)
     else
       (let v = size_bytes div u;
            p = p @ dec (unat v) @ label;
            size_bytes = size_bytes mod u;
            depth = depth - 1
        in if depth < 0 \<or> size_bytes = 0 then
             (if size_bytes = 0 then (p, size_bytes, depth, True) else (p @ '' '', size_bytes, depth, False))
           else (p @ '' '', size_bytes, depth, False)))"

definition byte_nb_simplify :: "u32 \<Rightarrow> int \<Rightarrow> string" where
  "byte_nb_simplify size_bytes depth =
     (case size_unit KIB ''KIB'' (size_unit MIB ''MIB'' (size_unit GIB ''GIB'' ([], size_bytes, depth, False))) of
        (p, size_bytes, depth, finished) \<Rightarrow> if finished then p else p @ dec (unat size_bytes) @ ''B'')"

text \<open>What the text should say: the nonzero parts, largest unit first, or a plain zero.\<close>

definition size_parts :: "nat \<Rightarrow> (nat \<times> string) list" where
  "size_parts n = filter (\<lambda>(v, u). v \<noteq> 0)
     [(n div 2 ^ 30, ''GIB''), (n div 2 ^ 20 mod 1024, ''MIB''), (n div 2 ^ 10 mod 1024, ''KIB''), (n mod 1024, ''B'')]"

primrec unit_size :: "(string \<times> nat) list \<Rightarrow> string \<Rightarrow> nat" where
  "unit_size [] u = 0"
| "unit_size (x # xs) u = (if fst x = u then snd x else unit_size xs u)"

definition part_value :: "nat \<times> string \<Rightarrow> nat" where
  "part_value = (\<lambda>(v, u). v * unit_size [(''GIB'', 2 ^ 30), (''MIB'', 2 ^ 20), (''KIB'', 2 ^ 10), (''B'', 1)] u)"

primrec spaced :: "string list \<Rightarrow> string" where
  "spaced [] = []"
| "spaced (x # xs) = (if xs = [] then x else x @ '' '' @ spaced xs)"

lemma parts_sum:
  "sum_list (map part_value (filter (\<lambda>(v, u). v \<noteq> 0) [(a, ''GIB''), (b, ''MIB''), (c, ''KIB''), (d, ''B'')])) =
     a * 2 ^ 30 + b * 2 ^ 20 + c * 2 ^ 10 + d"
  by (auto simp: part_value_def)

lemma radix_1024:
  "n = 1024 * p + b \<Longrightarrow> p = 1024 * q + k \<Longrightarrow> q = 1024 * r + m \<Longrightarrow> r * 2 ^ 30 + m * 2 ^ 20 + k * 2 ^ 10 + b = (n :: nat)"
  by simp

lemma size_parts_sum: "sum_list (map part_value (size_parts n)) = n"
proof -
  have k: "n div 2 ^ 10 = 1024 * (n div 2 ^ 20) + n div 2 ^ 10 mod 1024" using div_mult2_eq [of n "2 ^ 10" 1024] by simp
  have m: "n div 2 ^ 20 = 1024 * (n div 2 ^ 30) + n div 2 ^ 20 mod 1024" using div_mult2_eq [of n "2 ^ 20" 1024] by simp
  have b: "n = 1024 * (n div 2 ^ 10) + n mod 1024" by simp
  show ?thesis unfolding size_parts_def parts_sum by (rule radix_1024 [OF b k m])
qed

lemma size_unit_False:
  "size_unit u label (p, x, d, False) =
     (if x < u then (p, x, d, False)
      else (p @ dec (unat (x div u)) @ label @ (if x mod u = 0 then [] else '' ''), x mod u, d - 1, x mod u = 0))"
  by (auto simp: size_unit_def Let_def)

lemma size_unit_True: "size_unit u label (p, x, d, True) = (p, x, d, True)"
  by (simp add: size_unit_def)

lemma mod_div_nat: "(n mod (a * b)) div a = n div a mod b" for n a b :: nat
  by (cases "a = 0") (simp_all add: mod_mult2_eq)

lemma byte_nb_simplify_parts:
  "byte_nb_simplify n depth =
     (if n = 0 then ''0B'' else spaced (map (\<lambda>(v, u). dec v @ u) (size_parts (unat n))))"
proof -
  let ?n = "unat n"
  have u: "unat GIB = 2 ^ 30" "unat MIB = 2 ^ 20" "unat KIB = 2 ^ 10" by (simp_all add: GIB_def MIB_def KIB_def)
  define g where "g = n mod GIB"
  define m where "m = g mod MIB"
  define k where "k = m mod KIB"
  have ug: "unat g = ?n mod 2 ^ 30" by (simp add: g_def unat_mod u)
  have um: "unat m = ?n mod 2 ^ 20"
    by (simp add: m_def unat_mod u ug mod_mod_cancel)
  have uk: "unat k = ?n mod 2 ^ 10"
    by (simp add: k_def unat_mod u um mod_mod_cancel)
  have vg: "unat (n div GIB) = ?n div 2 ^ 30" by (simp add: unat_div u)
  have vm: "unat (g div MIB) = ?n div 2 ^ 20 mod 1024"
    using mod_div_nat [of ?n "2 ^ 20" 1024] by (simp add: unat_div u ug)
  have vk: "unat (m div KIB) = ?n div 2 ^ 10 mod 1024"
    using mod_div_nat [of ?n "2 ^ 10" 1024] by (simp add: unat_div u um)
  have small: "n < GIB \<longleftrightarrow> ?n div 2 ^ 30 = 0" "g < MIB \<longleftrightarrow> ?n div 2 ^ 20 mod 1024 = 0" "m < KIB \<longleftrightarrow> ?n div 2 ^ 10 mod 1024 = 0"
    unfolding vg [symmetric] vm [symmetric] vk [symmetric]
    by (simp_all add: word_less_nat_alt unat_div u div_eq_0_iff)
  have low: "n < GIB \<Longrightarrow> n = g" "g < MIB \<Longrightarrow> g = m" "m < KIB \<Longrightarrow> m = k"
    by (simp_all add: g_def m_def k_def word_less_nat_alt word_unat_eq_iff unat_mod)
  define G M K B where "G = ?n div 2 ^ 30" and "M = ?n div 2 ^ 20 mod 1024" and "K = ?n div 2 ^ 10 mod 1024" and "B = ?n mod 1024"
  have parts: "size_parts ?n = filter (\<lambda>(v, u). v \<noteq> 0) [(G, ''GIB''), (M, ''MIB''), (K, ''KIB''), (B, ''B'')]"
    by (simp only: size_parts_def G_def M_def K_def B_def)
  have zk: "k = 0 \<longleftrightarrow> B = 0" by (simp add: word_unat_eq_iff uk B_def)
  have zm: "m = 0 \<longleftrightarrow> K = 0 \<and> B = 0"
    using low(3) small(3) zk vk by (auto simp: K_def k_def word_unat_eq_iff unat_div unat_mod)
  have zg: "g = 0 \<longleftrightarrow> M = 0 \<and> K = 0 \<and> B = 0"
    using low(2) small(2) zm vm by (auto simp: M_def m_def word_unat_eq_iff unat_div unat_mod)
  have zn: "n = 0 \<longleftrightarrow> G = 0 \<and> M = 0 \<and> K = 0 \<and> B = 0"
    using low(1) small(1) zg vg by (auto simp: G_def g_def word_unat_eq_iff unat_div unat_mod)
  have s1: "size_unit GIB ''GIB'' (p, n, d, False) =
      (if G = 0 then (p, g, d, False) else (p @ dec G @ ''GIB'' @ (if g = 0 then [] else '' ''), g, d - 1, g = 0))" for p d
    using small(1) low(1) by (simp add: size_unit_False vg G_def g_def [symmetric])
  have s2: "size_unit MIB ''MIB'' (p, g, d, False) =
      (if M = 0 then (p, m, d, False) else (p @ dec M @ ''MIB'' @ (if m = 0 then [] else '' ''), m, d - 1, m = 0))" for p d
    using small(2) low(2) by (simp add: size_unit_False vm M_def m_def [symmetric])
  have s3: "size_unit KIB ''KIB'' (p, m, d, False) =
      (if K = 0 then (p, k, d, False) else (p @ dec K @ ''KIB'' @ (if k = 0 then [] else '' ''), k, d - 1, k = 0))" for p d
    using small(3) low(3) by (simp add: size_unit_False vk K_def k_def [symmetric])
  have ukB: "unat k = B" by (simp add: uk B_def)
  have d0: "dec 0 = ''0''" by (simp add: dec.simps [of 0] digit_0)
  have "byte_nb_simplify n depth =
      (if n = 0 then ''0B'' else spaced (map (\<lambda>(v, u). dec v @ u)
         (filter (\<lambda>(v, u). v \<noteq> 0) [(G, ''GIB''), (M, ''MIB''), (K, ''KIB''), (B, ''B'')])))"
    unfolding byte_nb_simplify_def zn
    by (cases "G = 0"; cases "M = 0"; cases "K = 0"; cases "B = 0") (simp_all add: s1 s2 s3 zg zm zk ukB d0 size_unit_True)
  then show ?thesis by (simp only: parts)
qed

end
