(* ===== verification/Id_Pool.thy ===== *)
theory Id_Pool
  imports Prelude
begin

text \<open>
  The interface of a pool of numbers: \<open>acquire\<close> takes the smallest free number, or answers
  \<open>-1\<close>, and \<open>release\<close> gives a number back. Interrupt vectors and thread numbers provide it.
\<close>

text \<open>Several numbers in a row.\<close>

fun acquires :: "('s \<Rightarrow> (int \<times> 's) run) \<Rightarrow> nat \<Rightarrow> 's \<Rightarrow> (int list \<times> 's) run" where
  "acquires get 0 s = Ok ([], s)"
| "acquires get (Suc n) s = bindr (get s) (\<lambda>(x, s). bindr (acquires get n s) (\<lambda>(xs, s). Ok (x # xs, s)))"

locale id_pool =
  fixes ok :: "'s \<Rightarrow> bool" and valid :: "nat set" and ids :: "'s \<Rightarrow> nat set"
    and acquire :: "'s \<Rightarrow> (int \<times> 's) run" and release :: "nat \<Rightarrow> 's \<Rightarrow> 's run"
  assumes acquire_some: "ok s \<Longrightarrow> n \<in> ids s \<Longrightarrow>
      \<exists>t. acquire s = Ok (int (LEAST k. k \<in> ids s), t) \<and> ok t \<and> ids t = ids s - {LEAST k. k \<in> ids s}"
    and acquire_none: "ok s \<Longrightarrow> ids s = {} \<Longrightarrow> \<exists>t. acquire s = Ok (- 1, t) \<and> ok t \<and> ids t = {}"
    and release_law: "ok s \<Longrightarrow> n \<in> valid \<Longrightarrow> \<exists>t. release n s = Ok t \<and> ok t \<and> ids t = insert n (ids s)"
    and ids_valid: "ok s \<Longrightarrow> ids s \<subseteq> valid"
begin

text \<open>As many numbers as are free can be taken; they are different and come in ascending order.\<close>

lemma acquires_fresh:
  assumes "ok s" "finite (ids s)" "n \<le> card (ids s)"
  shows "\<exists>xs t. acquires acquire n s = Ok (map int xs, t) \<and> ok t \<and> length xs = n \<and> sorted_wrt (<) xs \<and>
    set xs \<subseteq> ids s \<and> ids t = ids s - set xs \<and> (\<forall>x \<in> set xs. \<forall>y \<in> ids t. x < y)"
  using assms
proof (induction n arbitrary: s)
  case (Suc n)
  let ?x = "LEAST k. k \<in> ids s"
  obtain m where m: "m \<in> ids s" using Suc.prems(3) by fastforce
  obtain u where u: "acquire s = Ok (int ?x, u)" "ok u" "ids u = ids s - {?x}"
    using acquire_some [OF Suc.prems(1) m] by blast
  have x: "?x \<in> ids s" using m by (rule LeastI)
  have low: "?x < y" if "y \<in> ids u" for y
    using that u(3) Least_le [of "\<lambda>k. k \<in> ids s" y] by (auto simp: order_less_le)
  obtain xs t where t: "acquires acquire n u = Ok (map int xs, t)" "ok t" "length xs = n" "sorted_wrt (<) xs" "set xs \<subseteq> ids u"
    "ids t = ids u - set xs" "\<forall>x \<in> set xs. \<forall>y \<in> ids t. x < y"
    using Suc.IH [of u] Suc.prems x u(2,3) by fastforce
  have "acquires acquire (Suc n) s = Ok (map int (?x # xs), t)" using u(1) t(1) by simp
  moreover have "ids t = ids s - set (?x # xs)" using t(6) u(3) by auto
  moreover have "sorted_wrt (<) (?x # xs)" using t(4,5) low by auto
  moreover have "\<forall>x \<in> set (?x # xs). \<forall>y \<in> ids t. x < y" using t(6,7) low by auto
  moreover have "set (?x # xs) \<subseteq> ids s" using x t(5) u(3) by auto
  ultimately show ?case using t(2,3) by (metis length_Cons)
qed simp

lemma acquire_release:
  assumes "ok s" "n \<in> ids s"
  shows "\<exists>k t u. acquire s = Ok (int k, t) \<and> release k t = Ok u \<and> ok u \<and> ids u = ids s"
proof -
  obtain t where t: "acquire s = Ok (int (LEAST k. k \<in> ids s), t)" "ok t" "ids t = ids s - {LEAST k. k \<in> ids s}"
    using acquire_some [OF assms] by blast
  have x: "(LEAST k. k \<in> ids s) \<in> ids s" using assms(2) by (rule LeastI)
  then obtain u where "release (LEAST k. k \<in> ids s) t = Ok u" "ok u" "ids u = ids s"
    using release_law [OF t(2)] ids_valid [OF assms(1)] t(3) by (metis insert_Diff subsetD)
  then show ?thesis using t(1) by blast
qed

end

end
