(* ===== verification/Hw_Spec.thy ===== *)
theory Hw_Spec
  imports Rtc Pci Format Fs_Spec Id_Pool
begin

text \<open>
  What the drivers of the machine promise: gates lead to the handlers that were
  registered, timer identifiers to the device they were given for, the day count of the
  clock to the calendar, a table entry to its driver, and a printed size to its value.
\<close>

section \<open>Interrupt vectors\<close>

definition free_vectors :: "'a hw_scheme \<Rightarrow> nat set" where
  "free_vectors s = {n. free_num (idt_vectors_bitmap s) n}"

definition vectors_ok :: "'a hw_scheme \<Rightarrow> bool" where
  "vectors_ok s \<longleftrightarrow> length (idt_vectors_bitmap s) = 32"

lemma sint_u16: "n < 2 ^ 15 \<Longrightarrow> sint (of_nat n :: u16) = int n"
  by (simp add: signed_of_nat signed_take_bit_int_eq_self)

lemma ucast_none: "(ucast (- 1 :: u64) :: u16) = - 1"
  by (intro bit_word_eqI) (auto simp: bit_simps)

interpretation vectors: id_pool "vectors_ok :: 'a hw_scheme \<Rightarrow> bool" "{..<256}" free_vectors
  "\<lambda>s. bindr (allocate_interrupt_vector s) (\<lambda>(v, t). Ok (sint v, t))" "\<lambda>n. free_interrupt_vector (of_nat n)"
proof
  fix s :: "'a hw_scheme" and n
  assume ok: "vectors_ok s"
  have low: "takes_lowest (idt_vectors_bitmap s) (bitmap_alloc_1_first (idt_vectors_bitmap s) 32)"
    using bitmap_alloc_lowest [of "idt_vectors_bitmap s"] ok by (simp add: vectors_ok_def)
  let ?acquire = "\<lambda>s :: 'a hw_scheme. bindr (allocate_interrupt_vector s) (\<lambda>(v, t). Ok (sint v, t))"
  show valid: "free_vectors s \<subseteq> {..<256}" using ok by (auto simp: free_vectors_def free_num_def vectors_ok_def)
  show "\<exists>t. ?acquire s = Ok (int (LEAST k. k \<in> free_vectors s), t) \<and> vectors_ok t \<and>
      free_vectors t = free_vectors s - {LEAST k. k \<in> free_vectors s}" if some: "n \<in> free_vectors s"
  proof -
    obtain k b where k: "bitmap_alloc_1_first (idt_vectors_bitmap s) 32 = Ok (of_nat k, b)" "k \<in> free_vectors s"
        "\<And>j. j < k \<Longrightarrow> j \<notin> free_vectors s" "helpers_bitmap_set (idt_vectors_bitmap s) (of_nat k) False = Ok b"
      using low some by (auto simp: takes_lowest_def free_vectors_def)
    have small: "k < 256" using k(2) valid by auto
    then have v: "sint (ucast (of_nat k :: u64) :: u16) = int k" using sint_u16 [of k] by (simp add: unsigned_of_nat take_bit_nat_eq_self)
    have "k < 8 * length (idt_vectors_bitmap s)" "k < 2 ^ 64" using small ok by (simp_all add: vectors_ok_def)
    then obtain b' where "helpers_bitmap_set (idt_vectors_bitmap s) (of_nat k) False = Ok b'" "length b' = length (idt_vectors_bitmap s)"
        "\<And>j. free_num b' j \<longleftrightarrow> free_num (idt_vectors_bitmap s) j \<and> j \<noteq> k" by (rule free_num_clear) blast
    moreover have "(LEAST k. k \<in> free_vectors s) = k" using k(2,3) by (intro Least_equality) (auto simp: not_less [symmetric])
    ultimately show ?thesis using k(1,4) v ok
      by (auto simp: allocate_interrupt_vector_def vectors_ok_def free_vectors_def)
  qed
  show "\<exists>t. ?acquire s = Ok (- 1, t) \<and> vectors_ok t \<and> free_vectors t = {}" if "free_vectors s = {}"
    using low that ok by (auto simp: takes_lowest_def free_vectors_def allocate_interrupt_vector_def SIZE_T_NONE_def ucast_none)
  show "\<exists>t. free_interrupt_vector (of_nat n) s = Ok t \<and> vectors_ok t \<and> free_vectors t = insert n (free_vectors s)"
    if range: "n \<in> {..<256}"
  proof -
    have "(ucast (of_nat n :: u16) :: u64) = of_nat n" using range by (simp add: unsigned_of_nat take_bit_nat_eq_self)
    moreover obtain b where b: "helpers_bitmap_set (idt_vectors_bitmap s) (of_nat n) True = Ok b"
        "length b = length (idt_vectors_bitmap s)" "\<And>k. free_num b k \<longleftrightarrow> (if k = n then True else free_num (idt_vectors_bitmap s) k)"
      by (rule free_num_set [of n "idt_vectors_bitmap s" True]) (use range ok in \<open>auto simp: vectors_ok_def\<close>)
    ultimately have "free_interrupt_vector (of_nat n) s = Ok ((idt_set_gate (ucast (of_nat n :: u16)) 0 0 0 s)\<lparr>idt_vectors_bitmap := b\<rparr>)"
      by (simp add: free_interrupt_vector_def idt_set_gate_def Let_def)
    moreover have "free_vectors (t\<lparr>idt_vectors_bitmap := b\<rparr>) = insert n (free_vectors s)" for t :: "'a hw_scheme"
      by (auto simp: free_vectors_def b(3))
    moreover have "vectors_ok (t\<lparr>idt_vectors_bitmap := b\<rparr>)" for t :: "'a hw_scheme" using b(2) ok by (simp add: vectors_ok_def)
    ultimately show ?thesis by blast
  qed
qed

section \<open>Interrupt gates\<close>

text \<open>
  After initialisation every vector leads to its own stub; installing a handler
  changes the target of that vector only, whatever the flags.
\<close>

theorem interrupt_handlers_installed:
  assumes "i < IDT_ENTRIES"
  shows "gate_offset (idt (snd (setup_interrupt_vector vec handler flags (idt_init irq_stub_table s))) ! i) =
    (if i = unat (ucast vec :: u8) then handler else irq_stub_table i)"
proof -
  have len: "length (idt (idt_init irq_stub_table s)) = IDT_ENTRIES" by (rule idt_init_length)
  have i: "unat (of_nat i :: u8) = i" using assms by (simp add: IDT_ENTRIES_def unat_of_nat)
  then have "i = unat (ucast vec :: u8) \<longleftrightarrow> of_nat i = (ucast vec :: u8)" by (metis word_unat_eq_iff)
  then show ?thesis
    using idt_set_gate_get [OF len, where k = "of_nat i"]
    by (simp add: setup_interrupt_vector_def Let_def i gate_offset_gate idt_init_stubs [OF assms])
qed

definition demo_hw :: hw where
  "demo_hw = kobj.extend demo_fs (hw.fields 0 (\<lambda>_. 0) (\<lambda>_ _. 0x20) [] (\<lambda>_. 0) [] 0 0 [] [] pic_eoi (\<lambda>_. 0) (\<lambda>_. 0))"

theorem interrupt_handlers_installed_witness:
  "(33 :: nat) < IDT_ENTRIES \<and>
   gate_offset (idt (snd (setup_interrupt_vector 33 0x5000 0 (idt_init (\<lambda>i. of_nat i) demo_hw))) ! 33) = 0x5000"
proof -
  have "(33 :: nat) < IDT_ENTRIES" by (simp add: IDT_ENTRIES_def)
  from this interrupt_handlers_installed [OF this, where vec = 33 and handler = "0x5000" and flags = 0
      and irq_stub_table = "\<lambda>i. of_nat i" and s = demo_hw]
  show ?thesis by simp
qed

section \<open>Timers\<close>

text \<open>What a tick of a device does.\<close>

definition timer_fire ::
  "('a timers_scheme \<Rightarrow> 'a timers_scheme run) \<Rightarrow> u64 \<Rightarrow> timer_dev \<Rightarrow> 'a timers_scheme \<Rightarrow> (bool \<times> 'a timers_scheme) run" where
  "timer_fire yield_core dev d s =
     (let s = call_reset (td_reset_interrupt d) s;
          s = (if dev = ts_dev (slot_sleep s) \<and> td_freq d \<noteq> 0
               then (let us = ticks_us s + 1000000 div td_freq d in s\<lparr>ticks_us := us, ticks_ms := us div 1000\<rparr>)
               else s)
      in if dev = ts_dev (slot_sched s) \<and> task_switching_flag s
         then bindr (yield_core s) (\<lambda>s. Ok (True, s)) else Ok (True, s))"

lemma timer_register_table:
  assumes "timer_register dev roles priority s = Ok (tr, t)"
  shows "timer_devs t = timer_devs s"
    and "\<exists>ty more. devices_by_type t = (devices_by_type s)[ty := devices_by_type s ! ty @ more]"
proof -
  have "timer_devs t = timer_devs s \<and> (\<exists>ty more. devices_by_type t = (devices_by_type s)[ty := devices_by_type s ! ty @ more])"
  proof (cases "dev = 0 \<or> timer_devs s dev = None")
    case True
    then have "t = s" using assms by (cases "dev = 0") (auto simp: timer_register_def get_timer_def)
    then show ?thesis by (metis append_Nil2 list_update_id)
  next
    case False
    then obtain d where d: "dev \<noteq> 0" "timer_devs s dev = Some d" by auto
    let ?ty = "unat (td_type d AND 3)"
    show ?thesis
    proof (cases "length (devices_by_type s ! ?ty) \<ge> 32")
      case True
      then have "t = s" using assms d by (simp add: timer_register_def get_timer_def)
      then show ?thesis by (metis append_Nil2 list_update_id)
    next
      case False
      then have "timer_devs t = timer_devs s" "devices_by_type t = (devices_by_type s)[?ty := devices_by_type s ! ?ty @ [dev]]"
        using assms d by (auto simp: timer_register_def get_timer_def Let_def)
      then show ?thesis by blast
    qed
  qed
  then show "timer_devs t = timer_devs s"
    "\<exists>ty more. devices_by_type t = (devices_by_type s)[ty := devices_by_type s ! ty @ more]" by simp_all
qed

lemma timer_register_keeps:
  assumes "timers_ok s" "timer_register dev roles priority s = Ok (tr, t)" "ty < 4" "i < length (devices_by_type s ! ty)"
  shows "devices_by_type t ! ty ! i = devices_by_type s ! ty ! i" "i < length (devices_by_type t ! ty)"
proof -
  obtain ty' more where "devices_by_type t = (devices_by_type s)[ty' := devices_by_type s ! ty' @ more]"
    using timer_register_table(2) [OF assms(2)] by blast
  then show "devices_by_type t ! ty ! i = devices_by_type s ! ty ! i" "i < length (devices_by_type t ! ty)"
    using assms(1,3,4) by (cases "ty = ty'"; simp add: timers_ok_def nth_append)+
qed

lemma timer_type_range: "timer_id_type tr < 4"
proof -
  have "drop_bit 5 (of_int tr :: u8) AND 3 = take_bit 2 (drop_bit 5 (of_int tr :: u8))"
    by (simp add: take_bit_eq_mask mask_eq_exp_minus_1)
  then show ?thesis
    using take_bit_nat_less_exp [of 2] by (simp add: timer_id_type_def unsigned_take_bit_eq)
qed

text \<open>
  The identifier a device gets at registration leads the dispatcher to that device,
  also after another device was registered, and the two identifiers differ.
\<close>

theorem timer_ids_dispatch:
  assumes "timers_ok s" "dev \<noteq> 0" "timer_devs s dev = Some d"
    and "timer_register dev roles priority s = Ok (tr, t)" "tr \<ge> 0"
    and "timer_register dev' roles' priority' t = Ok (tr', u)"
  shows "common_timer_dispatcher y tr u = timer_fire y dev d u \<and> (tr' \<ge> 0 \<and> dev' \<noteq> dev \<longrightarrow> tr' \<noteq> tr)"
proof (intro conjI impI)
  note r = timer_register_dispatch [OF assms(1-5)]
  note k = timer_register_keeps [OF r(1) assms(6) timer_type_range r(3)]
  have dev: "devices_by_type u ! timer_id_type tr ! timer_id_idx tr = dev" using k(1) r(2) by simp
  have "timer_devs u dev = Some d"
    using timer_register_table(1) [OF assms(4)] timer_register_table(1) [OF assms(6)] assms(3) by simp
  then show "common_timer_dispatcher y tr u = timer_fire y dev d u"
    using k(2) dev assms(2,5) by (simp add: common_timer_dispatcher_def timer_fire_def get_timer_def)
  assume "tr' \<ge> 0 \<and> dev' \<noteq> dev"
  then have t': "tr' \<ge> 0" "dev' \<noteq> dev" by simp_all
  show "tr' \<noteq> tr"
  proof -
    have "dev' \<noteq> 0" "\<exists>d'. timer_devs t dev' = Some d'"
      using assms(6) t' by (auto simp: timer_register_def get_timer_def split: if_splits option.splits)
    then have "devices_by_type u ! timer_id_type tr' ! timer_id_idx tr' = dev'"
      using timer_register_dispatch(2) [OF r(1) _ _ assms(6) t'(1)] by blast
    then show ?thesis using dev t'(2) by blast
  qed
qed

definition demo_pit :: timer_dev where
  "demo_pit = \<lparr>td_name = ''PIT'', td_freq = 1000, td_type = 1, td_vector = 32, td_gettime_us = pit_gettime_fn,
     td_reset_interrupt = pit_reset_fn\<rparr>"

definition demo_timers :: timers where
  "demo_timers = hw.extend demo_hw (timers.fields [0x5000 \<mapsto> demo_pit, 0x6000 \<mapsto> demo_pit] \<lparr>ts_dev = 0, ts_priority = 0\<rparr>
     \<lparr>ts_dev = 0, ts_priority = 0\<rparr> \<lparr>ts_dev = 0, ts_priority = 0\<rparr> [[], [], [], []] 0 0 0 0 0 0 0 0 False)"

lemma demo_timers_sel [simp]:
  "timer_devs demo_timers = [0x5000 \<mapsto> demo_pit, 0x6000 \<mapsto> demo_pit]" "devices_by_type demo_timers = [[], [], [], []]"
  by (simp_all add: demo_timers_def hw.defs timers.defs)

lemma demo_timers_ok: "timers_ok demo_timers"
  by (simp add: timers_ok_def)

lemma demo_register_first:
  "timer_register 0x5000 0 1 demo_timers = Ok (32, demo_timers\<lparr>devices_by_type := [[], [0x5000], [], []]\<rparr>)"
  by (simp add: timer_register_def get_timer_def demo_pit_def)

lemma demo_register_second:
  "timer_register 0x6000 0 1 (demo_timers\<lparr>devices_by_type := [[], [0x5000], [], []]\<rparr>) =
     Ok (33, demo_timers\<lparr>devices_by_type := [[], [0x5000, 0x6000], [], []]\<rparr>)"
  by (simp add: timer_register_def get_timer_def demo_pit_def)

theorem timer_ids_dispatch_witness:
  "common_timer_dispatcher Ok 32 (demo_timers\<lparr>devices_by_type := [[], [0x5000, 0x6000], [], []]\<rparr>) =
     timer_fire Ok 0x5000 demo_pit (demo_timers\<lparr>devices_by_type := [[], [0x5000, 0x6000], [], []]\<rparr>) \<and> (33 :: int) \<noteq> 32"
  using timer_ids_dispatch [OF demo_timers_ok _ _ demo_register_first _ demo_register_second, where d = demo_pit and y = Ok]
  by simp

section \<open>The calendar\<close>

text \<open>
  C14. For every date from 1970 on, the number of days \<open>rtc_init\<close> computes is the number of
  days of the calendar, except from October to December: there the byte-wide table loses 256 days.
\<close>

theorem rtc_day_count:
  assumes "valid_date t"
  shows "rtc_days t = Ok (of_nat (civil_days (unat (year t)) (unat (month t)) (unat (day t))) -
    (if unat (month t) \<ge> 10 then 256 else 0))"
  using assms by (rule rtc_days_civil)

definition demo_date :: rtc_time_t where
  "demo_date = \<lparr>second = 0, minute = 30, hour = 12, day = 1, month = 3, year = 1972\<rparr>"

lemma demo_valid_date: "valid_date demo_date"
  by (simp add: valid_date_def demo_date_def)

theorem rtc_day_count_witness:
  "valid_date demo_date \<and> rtc_days demo_date = Ok (of_nat (civil_days 1972 3 1))"
  using demo_valid_date rtc_day_count [OF demo_valid_date] by (simp add: demo_date_def)

section \<open>Sizes\<close>

text \<open>
  \<open>byte_nb_simplify\<close> prints the parts of a number of bytes in units of 1024, largest first and
  none of them zero, and the parts add up to the number; the requested depth plays no role.
\<close>

theorem byte_nb_simplify_prints_value:
  "byte_nb_simplify n depth = (if n = 0 then ''0B'' else spaced (map (\<lambda>(v, u). dec v @ u) (size_parts (unat n)))) \<and>
   sum_list (map part_value (size_parts (unat n))) = unat n \<and> 0 \<notin> fst ` set (size_parts (unat n))"
  using byte_nb_simplify_parts [of n depth] size_parts_sum [of "unat n"] by (auto simp: size_parts_def)

section \<open>Devices on the bus\<close>

text \<open>
  Looking up a device of the table gives its own row; for any other device the result
  points behind the table and reading it is out of bounds.
\<close>

theorem pci_lookup_behaviour:
  "if (v, d) \<in> (\<lambda>(v, d, vn, dn). (v, d)) ` set (butlast pci_device_mappings_list)
   then \<exists>vn dn. pci_mapping_at (pci_device_lookup v d) = Ok (v, d, vn, dn)
   else pci_mapping_at (pci_device_lookup v d) = Stop OutOfBounds"
  using pci_known_device pci_unknown_device by presburger

end
