(* ===== verification/Logger.thy ===== *)
theory Logger
  imports Timer Format Vfs
begin

text \<open>
  The kernel log: the serial line and the message ring of
  \<open>kernel/src/arch/x86_64/debug/Logger.c\<close>, and the character sink of \<open>printf-impls/impl.c\<close>.
  Text is a list of bytes without the terminator. What the terminal emulator is given
  is recorded in \<open>term_log\<close>, what the serial line is given in the port log. A log call
  receives its message already formatted; the headers around it are formatted here.
\<close>

section \<open>State\<close>

record log_slot =
  ls_buf :: "u8 list"
  ls_ready :: bool

record logger = timers +
  last_char :: u8
  term_log :: "u8 list"
  klogger_is_threaded :: bool
  log_ring_queue :: "log_slot list"
  log_ring_queue_write_idx :: u32
  log_ring_queue_read_idx :: u32

definition LOG_BUFFER_SIZE :: nat where "LOG_BUFFER_SIZE = 512"

text \<open>A slot has 512 bytes of text and the four bytes of its flag; 64 pages hold 508 of them.\<close>

definition LOG_RING_QUEUE_SIZE :: nat where "LOG_RING_QUEUE_SIZE = 64 * 4096 div 516"

definition COM1_PORT :: u16 where "COM1_PORT = 0x3F8"

section \<open>Serial line and terminal\<close>

definition serial_init :: "'a hw_scheme \<Rightarrow> 'a hw_scheme" where
  "serial_init s = fold (\<lambda>(p, v). outb (COM1_PORT + p) v)
     [(1, 0x00), (3, 0x80), (0, 0x03), (1, 0x00), (3, 0x03), (2, 0xC7), (4, 0x0B)] s"

definition serial_is_transmit_ready :: "'a hw_scheme \<Rightarrow> bool \<times> 'a hw_scheme" where
  "serial_is_transmit_ready s = (case inb (COM1_PORT + 5) s of (v, s) \<Rightarrow> (v AND 0x20 \<noteq> 0, s))"

partial_function (option) serial_wait :: "'a hw_scheme \<Rightarrow> 'a hw_scheme option" where
  "serial_wait s = (case serial_is_transmit_ready s of (ready, s) \<Rightarrow> if ready then Some s else serial_wait s)"

definition serial_write_char :: "u8 \<Rightarrow> 'a hw_scheme \<Rightarrow> 'a hw_scheme run" where
  "serial_write_char c s = (case serial_wait s of None \<Rightarrow> Stop Hang | Some s \<Rightarrow> Ok (outb COM1_PORT c s))"

text \<open>A line feed is preceded by a carriage return.\<close>

definition serial_put :: "u8 \<Rightarrow> 'a hw_scheme \<Rightarrow> 'a hw_scheme run" where
  "serial_put c s =
     bindr (if c = 10 then serial_write_char 13 s else Ok s) (\<lambda>s. serial_write_char c s)"

definition serial_write_string :: "u8 list \<Rightarrow> 'a hw_scheme \<Rightarrow> 'a hw_scheme run" where
  "serial_write_string str s = foreach serial_put (takeWhile (\<lambda>c. c \<noteq> 0) str) s"

definition putchar :: "u8 \<Rightarrow> 'a logger_scheme \<Rightarrow> 'a logger_scheme" where
  "putchar c s =
     (let s = s\<lparr>term_log := term_log s @ (if c = 10 \<and> last_char s \<noteq> 13 then [13, 10] else [c])\<rparr>
      in s\<lparr>last_char := c\<rparr>)"

definition printf_s :: "u8 list \<Rightarrow> 'a logger_scheme \<Rightarrow> 'a logger_scheme" where
  "printf_s str s = fold putchar (takeWhile (\<lambda>c. c \<noteq> 0) str) s"

section \<open>The ring\<close>

definition log_queue_init :: "'a logger_scheme \<Rightarrow> 'a logger_scheme" where
  "log_queue_init s =
     s\<lparr>log_ring_queue := replicate LOG_RING_QUEUE_SIZE \<lparr>ls_buf = [], ls_ready = False\<rparr>,
       log_ring_queue_write_idx := 0, log_ring_queue_read_idx := 0\<rparr>"

text \<open>One turn of the logger thread's loop.\<close>

definition log_manager_step :: "'a logger_scheme \<Rightarrow> 'a logger_scheme run" where
  "log_manager_step s =
     (let i = unat (log_ring_queue_read_idx s); slot = log_ring_queue s ! i
      in if \<not> ls_ready slot then Ok s
         else
           bindr (serial_write_string (ls_buf slot) s) (\<lambda>s.
             let s = printf_s (ls_buf slot) s
             in Ok (s\<lparr>log_ring_queue := (log_ring_queue s)[i := slot\<lparr>ls_ready := False\<rparr>],
                      log_ring_queue_read_idx := of_nat (Suc i mod LOG_RING_QUEUE_SIZE)\<rparr>)))"

text \<open>Taking the next index; the counter has 32 bits.\<close>

definition claim_slot :: "'a logger_scheme \<Rightarrow> nat \<times> 'a logger_scheme" where
  "claim_slot s =
     (unat (log_ring_queue_write_idx s) mod LOG_RING_QUEUE_SIZE,
      s\<lparr>log_ring_queue_write_idx := log_ring_queue_write_idx s + 1\<rparr>)"

definition fill_slot :: "nat \<Rightarrow> u8 list \<Rightarrow> 'a logger_scheme \<Rightarrow> 'a logger_scheme" where
  "fill_slot idx text s = s\<lparr>log_ring_queue := (log_ring_queue s)[idx := \<lparr>ls_buf = text, ls_ready = True\<rparr>]\<rparr>"

text \<open>Waiting for a slot yields; the logger thread then makes a turn.\<close>

partial_function (option) log_wait :: "nat \<Rightarrow> 'a logger_scheme \<Rightarrow> 'a logger_scheme run option" where
  "log_wait idx s =
     (if ls_ready (log_ring_queue s ! idx)
      then (case log_manager_step s of Stop c \<Rightarrow> Some (Stop c) | Ok s \<Rightarrow> log_wait idx s)
      else Some (Ok s))"

section \<open>Log calls\<close>

definition bytes :: "string \<Rightarrow> u8 list" where
  "bytes cs = map of_char cs"

definition stamp :: "u64 \<Rightarrow> u8 list" where
  "stamp ms = bytes (''['' @ dec (unat (ms div 1000)) @ ''.'' @ dec03 (unat (ms mod 1000)) @ '']'')"

definition esc_reset :: "u8 list" where
  "esc_reset = 27 # bytes ''[0m''"

definition log_header :: "u64 \<Rightarrow> string option \<Rightarrow> string option \<Rightarrow> nat \<Rightarrow> u8 list" where
  "log_header ms file func line =
     (case (file, func) of
        (Some f, Some fn) \<Rightarrow>
          if line \<noteq> 0 then esc_reset @ stamp ms @ bytes ('' < '' @ f @ '':'' @ dec line @ ''('' @ fn @ '')> '')
          else if f \<noteq> [] then esc_reset @ stamp ms @ bytes ('' < '' @ f @ ''> '') else []
      | (Some f, None) \<Rightarrow> if f \<noteq> [] then esc_reset @ stamp ms @ bytes ('' < '' @ f @ ''> '') else []
      | (None, Some fn) \<Rightarrow>
          if line \<noteq> 0 then esc_reset @ stamp ms @ bytes ('' < '' @ ''(null)'' @ '':'' @ dec line @ ''('' @ fn @ '')> '') else []
      | (None, None) \<Rightarrow> [])"

definition sys_serial_vlogf :: "u8 list \<Rightarrow> string option \<Rightarrow> string option \<Rightarrow> nat \<Rightarrow> 'a logger_scheme \<Rightarrow> 'a logger_scheme run" where
  "sys_serial_vlogf formatted file func line s =
     bindr (timer_get_ms s) (\<lambda>(ms, s).
       if \<not> klogger_is_threaded s then
         (let msg = take (LOG_BUFFER_SIZE - 1) formatted
          in bindr (serial_write_string (take (LOG_BUFFER_SIZE - 1) (log_header ms file func line @ msg)) s) (\<lambda>s.
               Ok (printf_s (if func = None \<and> line = 0 then msg else stamp ms @ bytes '' '' @ msg) s)))
       else
         (let (idx, s) = claim_slot s
          in case log_wait idx s of None \<Rightarrow> Stop Hang
             | Some r \<Rightarrow>
                 bindr r (\<lambda>s.
                   let header = (if file = None \<and> func = None \<and> line = 0 then [] else esc_reset @ stamp ms @ bytes '' '');
                       n = length header;
                       text = (if 0 < n \<and> n < LOG_BUFFER_SIZE then header @ take (LOG_BUFFER_SIZE - n - 1) formatted
                               else take (LOG_BUFFER_SIZE - 1) formatted)
                   in Ok (fill_slot idx text s))))"

text \<open>
  \<open>ktty_write\<close> sends raw bytes in chunks of 511. With the logger thread running, a chunk
  whose slot is still occupied is dropped, but its index has been taken.
\<close>

definition ktty_chunk :: "u8 list \<Rightarrow> 'a logger_scheme \<Rightarrow> 'a logger_scheme run" where
  "ktty_chunk chunk s =
     (if \<not> klogger_is_threaded s then
        bindr (serial_write_string chunk s) (\<lambda>s. Ok (printf_s chunk s))
      else
        (let (idx, s) = claim_slot s
         in Ok (if ls_ready (log_ring_queue s ! idx) then s else fill_slot idx chunk s)))"

function ktty_loop :: "u8 list \<Rightarrow> 'a logger_scheme \<Rightarrow> 'a logger_scheme run" where
  "ktty_loop data s =
     (if data = [] then Ok s
      else bindr (ktty_chunk (take (LOG_BUFFER_SIZE - 1) data) s) (\<lambda>s. ktty_loop (drop (LOG_BUFFER_SIZE - 1) data) s))"
  by pat_completeness auto
termination
  by (relation "measure (\<lambda>(data, s). length data)") (auto simp: LOG_BUFFER_SIZE_def)

declare ktty_loop.simps [simp del]

definition mem_bytes :: "mem \<Rightarrow> u64 \<Rightarrow> nat \<Rightarrow> u8 list" where
  "mem_bytes m a n = map (\<lambda>i. m (a + of_nat i)) [0..<n]"

definition ktty_write :: "u64 \<Rightarrow> u64 \<Rightarrow> 'a logger_scheme \<Rightarrow> 'a logger_scheme run" where
  "ktty_write data len s = (if data = 0 \<or> len = 0 then Ok s else ktty_loop (mem_bytes (kmem s) data (unat len)) s)"

section \<open>Text that goes straight through\<close>

text \<open>A serial line that is always ready.\<close>

definition serial_ready :: "'a hw_scheme \<Rightarrow> bool" where
  "serial_ready s \<longleftrightarrow> (\<forall>t. bit (hw_port s t (COM1_PORT + 5)) 5)"

primrec crlf :: "u8 list \<Rightarrow> u8 list" where
  "crlf [] = []"
| "crlf (c # cs) = (if c = 10 then [13, 10] else [c]) @ crlf cs"

lemma and_0x20: "w AND 0x20 = 0 \<longleftrightarrow> \<not> bit w 5" for w :: u8
proof -
  have "(0x20 :: u8) = 2 ^ 5" by simp
  then show ?thesis by (simp only: and_exp_eq_0_iff_not_bit)
qed

lemma serial_write_char_ready:
  assumes "serial_ready s"
  shows "serial_write_char c s = Ok (s\<lparr>hw_time := Suc (hw_time s), port_log := port_log s @ [(COM1_PORT, ucast c)]\<rparr>)"
proof -
  have "bit (hw_port s (hw_time s) (COM1_PORT + 5)) 5" using assms by (simp add: serial_ready_def)
  then have "(ucast (hw_port s (hw_time s) (COM1_PORT + 5)) :: u8) AND 0x20 \<noteq> 0"
    by (simp add: and_0x20 bit_ucast_iff)
  then show ?thesis
    by (simp add: serial_write_char_def serial_wait.simps serial_is_transmit_ready_def inb_def outb_def)
qed

text \<open>What changes when text goes out on the serial line: its clock and its log.\<close>

definition sent :: "nat \<Rightarrow> u8 list \<Rightarrow> 'a hw_scheme \<Rightarrow> 'a hw_scheme" where
  "sent n cs s = s\<lparr>hw_time := hw_time s + n, port_log := port_log s @ map (\<lambda>c. (COM1_PORT, ucast c)) cs\<rparr>"

lemma sent_sent: "sent n ds (sent m cs s) = sent (m + n) (cs @ ds) s"
  by (simp add: sent_def add.assoc)

lemma sent_ready [simp]: "serial_ready (sent n cs s) = serial_ready s"
  by (simp add: serial_ready_def sent_def)

lemma serial_put_ready: "serial_ready s \<Longrightarrow> serial_put c s = Ok (sent (length (crlf [c])) (crlf [c]) s)"
  by (simp add: serial_put_def serial_write_char_ready serial_ready_def sent_def)

lemma crlf_append: "crlf (xs @ ys) = crlf xs @ crlf ys"
  by (induction xs) auto

lemma serial_write_string_ready:
  assumes "serial_ready s"
  shows "serial_write_string str s =
    Ok (sent (length (crlf (takeWhile (\<lambda>c. c \<noteq> 0) str))) (crlf (takeWhile (\<lambda>c. c \<noteq> 0) str)) s)"
proof -
  have "foreach serial_put cs s = Ok (sent (length (crlf cs)) (crlf cs) s)" for cs
    using assms
  proof (induction cs arbitrary: s)
    case Nil
    then show ?case by (simp add: sent_def)
  next
    case (Cons c cs)
    then have "foreach serial_put cs (sent (length (crlf [c])) (crlf [c]) s) =
        Ok (sent (length (crlf cs)) (crlf cs) (sent (length (crlf [c])) (crlf [c]) s))" by simp
    then show ?case using Cons.prems crlf_append [of "[c]" cs] by (simp only: foreach.simps serial_put_ready bindr.simps sent_sent)
        (simp add: add.commute)
  qed
  then show ?thesis by (simp add: serial_write_string_def)
qed

lemma printf_s_fields:
  "log_ring_queue (printf_s cs s) = log_ring_queue s" "log_ring_queue_write_idx (printf_s cs s) = log_ring_queue_write_idx s"
  "log_ring_queue_read_idx (printf_s cs s) = log_ring_queue_read_idx s" "klogger_is_threaded (printf_s cs s) = klogger_is_threaded s"
  "port_log (printf_s cs s) = port_log s" "hw_port (printf_s cs s) = hw_port s"
proof -
  have "log_ring_queue (fold putchar ds t) = log_ring_queue t \<and>
      log_ring_queue_write_idx (fold putchar ds t) = log_ring_queue_write_idx t \<and>
      log_ring_queue_read_idx (fold putchar ds t) = log_ring_queue_read_idx t \<and>
      klogger_is_threaded (fold putchar ds t) = klogger_is_threaded t \<and>
      port_log (fold putchar ds t) = port_log t \<and> hw_port (fold putchar ds t) = hw_port t" for ds and t :: "'a logger_scheme"
    by (induction ds arbitrary: t) (auto simp: putchar_def Let_def)
  then show "log_ring_queue (printf_s cs s) = log_ring_queue s" "log_ring_queue_write_idx (printf_s cs s) = log_ring_queue_write_idx s"
    "log_ring_queue_read_idx (printf_s cs s) = log_ring_queue_read_idx s" "klogger_is_threaded (printf_s cs s) = klogger_is_threaded s"
    "port_log (printf_s cs s) = port_log s" "hw_port (printf_s cs s) = hw_port s"
    by (simp_all add: printf_s_def)
qed

text \<open>A turn of the logger thread with a ready message.\<close>

lemma log_manager_step_ready:
  assumes "serial_ready s" "ls_ready (log_ring_queue s ! unat (log_ring_queue_read_idx s))"
  obtains t where "log_manager_step s = Ok t" "serial_ready t"
    "log_ring_queue t = (log_ring_queue s)[unat (log_ring_queue_read_idx s) :=
       (log_ring_queue s ! unat (log_ring_queue_read_idx s))\<lparr>ls_ready := False\<rparr>]"
    "log_ring_queue_read_idx t = of_nat (Suc (unat (log_ring_queue_read_idx s)) mod LOG_RING_QUEUE_SIZE)"
    "log_ring_queue_write_idx t = log_ring_queue_write_idx s" "klogger_is_threaded t = klogger_is_threaded s"
    "port_log t = port_log s @ map (\<lambda>c. (COM1_PORT, ucast c))
       (crlf (takeWhile (\<lambda>c. c \<noteq> 0) (ls_buf (log_ring_queue s ! unat (log_ring_queue_read_idx s)))))"
proof -
  let ?i = "unat (log_ring_queue_read_idx s)"
  let ?slot = "log_ring_queue s ! ?i"
  let ?txt = "crlf (takeWhile (\<lambda>c. c \<noteq> 0) (ls_buf ?slot))"
  define u where "u = printf_s (ls_buf ?slot) (sent (length ?txt) ?txt s)"
  define t where "t = u\<lparr>log_ring_queue := (log_ring_queue u)[?i := ?slot\<lparr>ls_ready := False\<rparr>],
    log_ring_queue_read_idx := of_nat (Suc ?i mod LOG_RING_QUEUE_SIZE)\<rparr>"
  have "log_manager_step s = Ok t"
    using assms by (simp add: log_manager_step_def Let_def serial_write_string_ready u_def t_def)
  moreover have "serial_ready t" using assms(1) by (simp add: serial_ready_def t_def u_def printf_s_fields sent_def)
  ultimately show thesis
    by (intro that [of t]) (simp_all add: t_def u_def printf_s_fields sent_def)
qed

section \<open>What logging leaves alone\<close>

text \<open>
  A part \<open>v\<close> of the state that does not contain the clock of the hardware, the logs of the
  ports and the terminal, or the ring, is not changed by any log call.
\<close>

locale log_frame =
  fixes v :: "'a logger_scheme \<Rightarrow> 'v"
  assumes hw_time_frame [simp]: "v (s\<lparr>hw_time := n\<rparr>) = v s"
    and port_log_frame [simp]: "v (s\<lparr>port_log := ps\<rparr>) = v s"
    and term_log_frame [simp]: "v (s\<lparr>term_log := bs\<rparr>) = v s"
    and last_char_frame [simp]: "v (s\<lparr>last_char := c\<rparr>) = v s"
    and ring_frame [simp]: "v (s\<lparr>log_ring_queue := q\<rparr>) = v s"
    and write_idx_frame [simp]: "v (s\<lparr>log_ring_queue_write_idx := i\<rparr>) = v s"
    and read_idx_frame [simp]: "v (s\<lparr>log_ring_queue_read_idx := i\<rparr>) = v s"
begin

lemma serial_wait_frame:
  assumes "serial_wait s = Some t"
  shows "v t = v s"
proof (rule serial_wait.raw_induct [where P = "\<lambda>s t. v t = v s", OF _ assms], goal_cases)
  case step: (1 f s t)
  show ?case
  proof (cases "fst (serial_is_transmit_ready s)")
    case True
    then show ?thesis using step(2) by (auto simp: serial_is_transmit_ready_def inb_def)
  next
    case False
    then have "f (s\<lparr>hw_time := Suc (hw_time s)\<rparr>) = Some t"
      using step(2) by (auto simp: serial_is_transmit_ready_def inb_def)
    from step(1) [OF this] show ?thesis by simp
  qed
qed

lemma serial_write_char_frame: "serial_write_char c s = Ok t \<Longrightarrow> v t = v s"
  by (auto simp: serial_write_char_def outb_def serial_wait_frame split: option.splits)

lemma serial_put_frame: "serial_put c s = Ok t \<Longrightarrow> v t = v s"
  by (auto simp: serial_put_def bindr_eq_Ok serial_write_char_frame split: if_splits dest!: serial_write_char_frame)

lemma serial_write_string_frame: "serial_write_string str s = Ok t \<Longrightarrow> v t = v s"
proof -
  have "foreach serial_put cs s = Ok t \<Longrightarrow> v t = v s" for cs s
    by (induction cs arbitrary: s) (auto simp: bindr_eq_Ok serial_put_frame)
  then show "serial_write_string str s = Ok t \<Longrightarrow> v t = v s" by (simp add: serial_write_string_def)
qed

lemma printf_s_frame [simp]: "v (printf_s str s) = v s"
proof -
  have "v (fold putchar cs s) = v s" for cs
    by (induction cs arbitrary: s) (simp_all add: putchar_def Let_def)
  then show ?thesis by (simp add: printf_s_def)
qed

lemma log_manager_step_frame: "log_manager_step s = Ok t \<Longrightarrow> v t = v s"
  by (auto simp: log_manager_step_def Let_def bindr_eq_Ok serial_write_string_frame split: if_splits)

lemma log_wait_frame:
  assumes "log_wait idx s = Some r"
  shows "r = Ok t \<Longrightarrow> v t = v s"
proof (rule log_wait.raw_induct [where P = "\<lambda>idx s r. \<forall>t. r = Ok t \<longrightarrow> v t = v s", OF _ assms, rule_format], goal_cases)
  case (1 f idx s r t)
  then show ?case by (auto dest!: log_manager_step_frame split: if_splits run.splits)
qed

lemma timer_get_ms_frame: "timer_get_ms s = Ok (x, t) \<Longrightarrow> v t = v s"
  by (auto simp: timer_get_ms_def bindr_eq_Ok get_timer_def call_gettime_def tsc_gettime_us_def rdtsc_def Let_def
      split: if_splits option.splits gettime_fn.splits)

lemma claim_slot_frame: "claim_slot s = (i, t) \<Longrightarrow> v t = v s"
  by (auto simp: claim_slot_def)

lemma fill_slot_frame [simp]: "v (fill_slot i str s) = v s"
  by (simp add: fill_slot_def)

lemma sys_serial_vlogf_frame:
  assumes "sys_serial_vlogf str file func line s = Ok t"
  shows "v t = v s"
proof -
  obtain ms u where u: "timer_get_ms s = Ok (ms, u)" using assms by (auto simp: sys_serial_vlogf_def bindr_eq_Ok)
  show ?thesis
  proof (cases "klogger_is_threaded u")
    case False
    then show ?thesis using assms u
      by (auto simp: sys_serial_vlogf_def bindr_eq_Ok Let_def dest!: serial_write_string_frame timer_get_ms_frame)
  next
    case True
    then show ?thesis using assms u
      by (auto simp: sys_serial_vlogf_def bindr_eq_Ok Let_def split: prod.splits option.splits
          dest!: claim_slot_frame timer_get_ms_frame log_wait_frame)
  qed
qed

lemma ktty_chunk_frame: "ktty_chunk chunk s = Ok t \<Longrightarrow> v t = v s"
  by (auto simp: ktty_chunk_def bindr_eq_Ok Let_def split: if_splits prod.splits
      dest!: claim_slot_frame serial_write_string_frame)

lemma ktty_loop_frame: "ktty_loop data s = Ok t \<Longrightarrow> v t = v s"
proof (induction data arbitrary: s rule: length_induct)
  case (1 data)
  show ?case
  proof (cases "data = []")
    case True
    then show ?thesis using 1(2) by (simp add: ktty_loop.simps)
  next
    case False
    then obtain u where u: "ktty_chunk (take (LOG_BUFFER_SIZE - 1) data) s = Ok u"
      "ktty_loop (drop (LOG_BUFFER_SIZE - 1) data) u = Ok t"
      using 1(2) by (subst (asm) ktty_loop.simps) (auto simp: bindr_eq_Ok)
    have "length (drop (LOG_BUFFER_SIZE - 1) data) < length data" using False by (simp add: LOG_BUFFER_SIZE_def)
    then show ?thesis using 1(1) u ktty_chunk_frame by metis
  qed
qed

end

end
