(* ===== verification/Logger_Spec.thy ===== *)
theory Logger_Spec
  imports Logger Hw_Spec
begin

text \<open>
  The message ring with many callers. A caller claims a slot, fills it when it is
  free, and may be interrupted between the two; the logger thread prints the ready
  slots in turn. The steps are those of \<open>sys_serial_vlogf\<close> and \<open>log_manager_step\<close>, in any order.
  Three history variables record the messages claimed, the ones still to be filled in,
  and the ones printed. As long as no more messages are under way than the ring has
  slots, the messages come out complete and in the order of the claims.
\<close>

section \<open>Interleavings\<close>

record 'a ring_conf =
  rc_state :: "'a logger_scheme"
  rc_pending :: "(nat \<times> nat) set"
  rc_claimed :: "u8 list list"
  rc_shown :: "u8 list list"

inductive ring_step :: "'a ring_conf \<Rightarrow> 'a ring_conf \<Rightarrow> bool" where
  claim: "claim_slot (rc_state c) = (idx, s) \<Longrightarrow>
    length (rc_claimed c) - length (rc_shown c) < LOG_RING_QUEUE_SIZE \<Longrightarrow> length (rc_claimed c) < 2 ^ 32 \<Longrightarrow>
    ring_step c (c\<lparr>rc_state := s, rc_pending := insert (length (rc_claimed c), idx) (rc_pending c),
                   rc_claimed := rc_claimed c @ [msg]\<rparr>)"
| fill: "(k, idx) \<in> rc_pending c \<Longrightarrow> \<not> ls_ready (log_ring_queue (rc_state c) ! idx) \<Longrightarrow>
    ring_step c (c\<lparr>rc_state := fill_slot idx (rc_claimed c ! k) (rc_state c), rc_pending := rc_pending c - {(k, idx)}\<rparr>)"
| print: "log_ring_queue (rc_state c) ! unat (log_ring_queue_read_idx (rc_state c)) = slot \<Longrightarrow> ls_ready slot \<Longrightarrow>
    log_manager_step (rc_state c) = Ok s \<Longrightarrow>
    ring_step c (c\<lparr>rc_state := s, rc_shown := rc_shown c @ [ls_buf slot]\<rparr>)"

definition ring_start :: "'a logger_scheme \<Rightarrow> 'a ring_conf" where
  "ring_start s = \<lparr>rc_state = log_queue_init s, rc_pending = {}, rc_claimed = [], rc_shown = []\<rparr>"

inductive ring_reach :: "'a ring_conf \<Rightarrow> 'a ring_conf \<Rightarrow> bool" for c where
  refl: "ring_reach c c"
| step: "ring_reach c d \<Longrightarrow> ring_step d e \<Longrightarrow> ring_reach c e"

section \<open>The invariant\<close>

text \<open>
  Message \<open>k\<close> lives in slot \<open>k mod 508\<close>. Between the printed and the claimed ones, each is
  either still to be filled in, and its slot is free, or ready in its slot.
\<close>

definition ring_counters :: "'a ring_conf \<Rightarrow> bool" where
  "ring_counters c \<longleftrightarrow>
     (let s = rc_state c; m = length (rc_claimed c); r = length (rc_shown c); N = LOG_RING_QUEUE_SIZE
      in serial_ready s \<and> length (log_ring_queue s) = N \<and> r \<le> m \<and> m \<le> r + N \<and> m \<le> 2 ^ 32 \<and>
         log_ring_queue_write_idx s = of_nat m \<and> log_ring_queue_read_idx s = of_nat (r mod N) \<and>
         rc_shown c = take r (rc_claimed c) \<and>
         (\<forall>k i. (k, i) \<in> rc_pending c \<longrightarrow> r \<le> k \<and> k < m \<and> i = k mod N))"

definition ring_slot :: "'a ring_conf \<Rightarrow> nat \<Rightarrow> bool" where
  "ring_slot c k \<longleftrightarrow>
     (let slot = log_ring_queue (rc_state c) ! (k mod LOG_RING_QUEUE_SIZE)
      in if k < length (rc_claimed c) \<and> (k, k mod LOG_RING_QUEUE_SIZE) \<notin> rc_pending c
         then slot = \<lparr>ls_buf = rc_claimed c ! k, ls_ready = True\<rparr>
         else \<not> ls_ready slot)"

definition ring_inv :: "'a ring_conf \<Rightarrow> bool" where
  "ring_inv c \<longleftrightarrow> ring_counters c \<and>
     (\<forall>k. length (rc_shown c) \<le> k \<and> k < length (rc_shown c) + LOG_RING_QUEUE_SIZE \<longrightarrow> ring_slot c k)"

lemma ring_size: "LOG_RING_QUEUE_SIZE = 508"
  by (simp add: LOG_RING_QUEUE_SIZE_def)

text \<open>Two different messages of one window have different slots.\<close>

lemma mod_window_le:
  assumes "k \<le> j" "j < k + N" "k mod N = j mod N"
  shows "k = (j :: nat)"
proof (rule ccontr)
  assume "k \<noteq> j"
  then have "0 < j - k" "j - k < N" using assms by simp_all
  moreover have "N dvd j - k" using assms by (metis mod_eq_dvd_iff_nat)
  ultimately show False by (simp add: nat_dvd_not_less)
qed

lemma mod_window:
  assumes "r \<le> k" "k < r + N" "r \<le> j" "j < r + N" "k mod N = j mod N"
  shows "k = (j :: nat)"
proof (cases "k \<le> j")
  case True
  then show ?thesis by (rule mod_window_le [OF _ _ assms(5)]) (use assms(1,4) in simp)
next
  case False
  then have "j = k" by (intro mod_window_le [OF _ _ assms(5) [symmetric]]) (use assms(2,3) in simp_all)
  then show ?thesis ..
qed

text \<open>A change of one slot is not seen by the other messages of the window.\<close>

lemma window_other:
  assumes "r \<le> k" "k < r + N" "r \<le> j" "j < r + N" "k \<noteq> j"
  shows "xs[k mod N := x] ! (j mod N) = xs ! (j mod (N :: nat))"
  using assms mod_window [of r k N j] by (metis nth_list_update_neq)

lemma ring_start_inv: "serial_ready s \<Longrightarrow> ring_inv (ring_start s)"
  by (simp add: ring_inv_def ring_counters_def ring_slot_def ring_start_def log_queue_init_def serial_ready_def ring_size)

lemma ring_claim_inv:
  assumes inv: "ring_inv c" and cl: "claim_slot (rc_state c) = (idx, s)"
    and room: "length (rc_claimed c) - length (rc_shown c) < LOG_RING_QUEUE_SIZE" "length (rc_claimed c) < 2 ^ 32"
  shows "ring_inv (c\<lparr>rc_state := s, rc_pending := insert (length (rc_claimed c), idx) (rc_pending c),
                     rc_claimed := rc_claimed c @ [msg]\<rparr>)" (is "ring_inv ?d")
proof -
  let ?m = "length (rc_claimed c)"
  have w: "log_ring_queue_write_idx (rc_state c) = of_nat ?m" and le: "length (rc_shown c) \<le> ?m"
    and pend: "\<And>k i. (k, i) \<in> rc_pending c \<Longrightarrow> k < ?m"
    using inv by (simp_all add: ring_inv_def ring_counters_def Let_def)
  have "unat (of_nat ?m :: u32) = ?m" using room(2) by (simp add: unat_of_nat)
  then have idx: "idx = ?m mod LOG_RING_QUEUE_SIZE"
    and s: "s = rc_state c\<lparr>log_ring_queue_write_idx := of_nat (Suc ?m)\<rparr>"
    using cl w by (simp_all add: claim_slot_def add.commute)
  have "ring_counters ?d"
    using inv room le unfolding ring_inv_def ring_counters_def Let_def s idx
    by (auto simp: serial_ready_def less_Suc_eq)
  moreover have "ring_slot ?d k" if "ring_slot c k" for k
    using that pend [of k "k mod LOG_RING_QUEUE_SIZE"]
    by (cases "k = ?m") (auto simp: ring_slot_def Let_def s idx nth_append split: if_splits)
  ultimately show ?thesis using inv by (simp add: ring_inv_def)
qed

lemma ring_fill_inv:
  assumes inv: "ring_inv c" and p: "(k, idx) \<in> rc_pending c"
  shows "ring_inv (c\<lparr>rc_state := fill_slot idx (rc_claimed c ! k) (rc_state c), rc_pending := rc_pending c - {(k, idx)}\<rparr>)"
    (is "ring_inv ?d")
proof -
  let ?r = "length (rc_shown c)" and ?N = "LOG_RING_QUEUE_SIZE"
  have k: "?r \<le> k" "k < length (rc_claimed c)" "k < ?r + ?N" "idx = k mod ?N"
    and len: "length (log_ring_queue (rc_state c)) = ?N"
    using inv p by (fastforce simp: ring_inv_def ring_counters_def Let_def)+
  have "ring_counters ?d"
    using inv unfolding ring_inv_def ring_counters_def Let_def by (auto simp: fill_slot_def serial_ready_def)
  moreover have "ring_slot ?d j" if "?r \<le> j" "j < ?r + ?N" "ring_slot c j" for j
  proof (cases "j = k")
    case True
    then show ?thesis using k len by (simp add: ring_slot_def fill_slot_def ring_size)
  next
    case False
    then show ?thesis using that(3)
      by (auto simp: ring_slot_def Let_def fill_slot_def k(4) window_other [OF k(1,3) that(1,2)] split: if_splits)
  qed
  ultimately show ?thesis using inv by (simp add: ring_inv_def)
qed

lemma ring_print_inv:
  assumes inv: "ring_inv c" and slot: "log_ring_queue (rc_state c) ! unat (log_ring_queue_read_idx (rc_state c)) = slot"
    "ls_ready slot" and mgr: "log_manager_step (rc_state c) = Ok s"
  shows "ring_inv (c\<lparr>rc_state := s, rc_shown := rc_shown c @ [ls_buf slot]\<rparr>)" (is "ring_inv ?d")
proof -
  let ?r = "length (rc_shown c)" and ?N = "LOG_RING_QUEUE_SIZE"
  have cnt: "ring_counters c" and slots: "\<And>k. ?r \<le> k \<Longrightarrow> k < ?r + ?N \<Longrightarrow> ring_slot c k"
    using inv by (simp_all add: ring_inv_def)
  have ser: "serial_ready (rc_state c)" and len: "length (log_ring_queue (rc_state c)) = ?N"
    and ridx: "log_ring_queue_read_idx (rc_state c) = of_nat (?r mod ?N)"
    using cnt by (simp_all add: ring_counters_def Let_def)
  have rd: "unat (log_ring_queue_read_idx (rc_state c)) = ?r mod ?N"
    by (simp add: ridx unat_of_nat ring_size)
  have first: "ring_slot c ?r" by (rule slots) (simp_all add: ring_size)
  have r: "?r < length (rc_claimed c)" "(?r, ?r mod ?N) \<notin> rc_pending c" "ls_buf slot = rc_claimed c ! ?r"
    using first slot by (auto simp: ring_slot_def Let_def rd split: if_splits)
  obtain s' where s': "log_manager_step (rc_state c) = Ok s'" "serial_ready s'"
    "log_ring_queue s' = (log_ring_queue (rc_state c))[?r mod ?N := slot\<lparr>ls_ready := False\<rparr>]"
    "log_ring_queue_read_idx s' = of_nat (Suc (?r mod ?N) mod ?N)"
    "log_ring_queue_write_idx s' = log_ring_queue_write_idx (rc_state c)"
    using log_manager_step_ready [of "rc_state c"] ser slot rd by metis
  with mgr have [simp]: "s' = s" by simp
  have "\<And>k i. (k, i) \<in> rc_pending c \<Longrightarrow> ?r \<le> k \<and> i = k mod ?N" using cnt by (simp add: ring_counters_def Let_def)
  then have pend: "\<And>k i. (k, i) \<in> rc_pending c \<Longrightarrow> Suc ?r \<le> k" using r(2) by (metis Suc_leI le_neq_implies_less)
  have "ring_counters ?d"
    using cnt r(1,3) s' pend by (auto simp: ring_counters_def Let_def mod_Suc_eq take_Suc_conv_app_nth)
  moreover have "ring_slot ?d j" if j: "Suc ?r \<le> j" "j < Suc ?r + ?N" for j
  proof (cases "j < ?r + ?N")
    case True
    then have "ring_slot c j" "log_ring_queue s ! (j mod ?N) = log_ring_queue (rc_state c) ! (j mod ?N)"
      using j slots [of j] s'(3) window_other [of ?r ?r ?N j "log_ring_queue (rc_state c)"] by (simp_all add: ring_size)
    then show ?thesis by (auto simp: ring_slot_def Let_def split: if_splits)
  next
    case False
    then have e: "j = ?r + ?N" using j by simp
    have "length (rc_claimed c) \<le> ?r + ?N" using cnt by (simp add: ring_counters_def Let_def)
    then show ?thesis using s'(3) len by (simp add: ring_slot_def Let_def e ring_size)
  qed
  ultimately show ?thesis by (simp add: ring_inv_def)
qed

lemma ring_step_inv: "ring_step c d \<Longrightarrow> ring_inv c \<Longrightarrow> ring_inv d"
  by (induction rule: ring_step.induct) (blast intro: ring_claim_inv ring_fill_inv ring_print_inv)+

lemma ring_reach_inv: "ring_reach c d \<Longrightarrow> ring_inv c \<Longrightarrow> ring_inv d"
  by (induction rule: ring_reach.induct) (auto intro: ring_step_inv)

text \<open>
  The logger thread never gets stuck on a message that has been filled in: with nothing
  pending and a message outstanding, it can print.
\<close>

lemma ring_can_print:
  assumes inv: "ring_inv c" and out: "length (rc_shown c) < length (rc_claimed c)" "rc_pending c = {}"
  shows "\<exists>d. ring_step c d \<and> rc_shown d = rc_shown c @ [rc_claimed c ! length (rc_shown c)]"
proof -
  let ?r = "length (rc_shown c)" and ?N = "LOG_RING_QUEUE_SIZE"
  have ser: "serial_ready (rc_state c)" and ridx: "log_ring_queue_read_idx (rc_state c) = of_nat (?r mod ?N)"
    and sl: "ring_slot c ?r"
    using inv by (simp_all add: ring_inv_def ring_counters_def Let_def ring_size)
  have rd: "unat (log_ring_queue_read_idx (rc_state c)) = ?r mod ?N"
    by (simp add: ridx unat_of_nat ring_size)
  have slot: "log_ring_queue (rc_state c) ! unat (log_ring_queue_read_idx (rc_state c))
      = \<lparr>ls_buf = rc_claimed c ! ?r, ls_ready = True\<rparr>"
    using sl out by (simp add: ring_slot_def rd)
  obtain s where "log_manager_step (rc_state c) = Ok s"
    using log_manager_step_ready [OF ser] slot by (metis log_slot.select_convs(2))
  from ring_step.print [OF slot _ this] show ?thesis by fastforce
qed

section \<open>The serial line\<close>

text \<open>The bytes a message puts on the line.\<close>

definition serial_text :: "u8 list \<Rightarrow> (u16 \<times> u32) list" where
  "serial_text t = map (\<lambda>c. (COM1_PORT, ucast c)) (crlf (takeWhile (\<lambda>c. c \<noteq> 0) t))"

lemma ring_step_port_log:
  assumes "ring_step c d" "ring_inv c"
  shows "\<exists>ts. rc_shown d = rc_shown c @ ts \<and> port_log (rc_state d) = port_log (rc_state c) @ concat (map serial_text ts)"
  using assms
proof cases
  case (print slot s)
  have "serial_ready (rc_state c)" using assms(2) by (simp add: ring_inv_def ring_counters_def Let_def)
  then obtain s' where "log_manager_step (rc_state c) = Ok s'" "port_log s' = port_log (rc_state c) @ serial_text (ls_buf slot)"
    using log_manager_step_ready [of "rc_state c"] print unfolding serial_text_def by metis
  then show ?thesis using print by simp
qed (auto simp: claim_slot_def fill_slot_def)

lemma ring_port_log:
  assumes "ring_reach (ring_start s) c" "serial_ready s"
  shows "port_log (rc_state c) = port_log s @ concat (map serial_text (rc_shown c))"
  using assms(1)
proof induction
  case refl
  then show ?case by (simp add: ring_start_def log_queue_init_def)
next
  case (step d e)
  then show ?case
    using ring_step_port_log [OF step(2)] ring_reach_inv [OF step(1) ring_start_inv [OF assms(2)]] by auto
qed


definition demo_logger :: logger where
  "demo_logger = timers.extend demo_timers (logger.fields 0 [] True [] 0 0)"

lemma demo_serial_ready: "serial_ready demo_logger"
proof -
  have "bit (0x20 :: u32) 5" by (simp add: bit_numeral_rec)
  then show ?thesis
    by (simp add: serial_ready_def demo_logger_def demo_timers_def demo_hw_def timers.defs logger.defs hw.defs timers.defs kobj.defs)
qed

definition demo_ring :: "unit ring_conf" where
  "demo_ring = (ring_start demo_logger)
     \<lparr>rc_state := fill_slot 0 [65] (snd (claim_slot (log_queue_init demo_logger))), rc_claimed := [[65]]\<rparr>"

lemma demo_ring_reach: "ring_reach (ring_start demo_logger) demo_ring"
proof -
  let ?c = "ring_start demo_logger"
  let ?d = "?c\<lparr>rc_state := snd (claim_slot (rc_state ?c)), rc_pending := {(0, 0)}, rc_claimed := [[65]]\<rparr>"
  have "claim_slot (rc_state ?c) = (0, snd (claim_slot (rc_state ?c)))"
    by (simp add: ring_start_def log_queue_init_def claim_slot_def)
  from ring_step.claim [OF this, where msg = "[65]"] have a: "ring_step ?c ?d"
    by (simp add: ring_start_def ring_size)
  have "ring_step ?d demo_ring"
    using ring_step.fill [of 0 0 ?d]
    by (simp add: ring_start_def demo_ring_def log_queue_init_def claim_slot_def ring_size)
  then show ?thesis using a by (meson ring_reach.intros)
qed


section \<open>Dropped chunks\<close>

definition log_manager_turns :: "nat \<Rightarrow> 'a logger_scheme \<Rightarrow> 'a logger_scheme run" where
  "log_manager_turns n s = foreach (\<lambda>_. log_manager_step) [0..<n] s"

text \<open>From a full ring, each turn of the logger thread frees the next slot.\<close>

lemma log_manager_drains:
  assumes "serial_ready s" "length (log_ring_queue s) = LOG_RING_QUEUE_SIZE" "\<forall>slot \<in> set (log_ring_queue s). ls_ready slot"
    and "log_ring_queue_read_idx s = of_nat r" "r < LOG_RING_QUEUE_SIZE" "n \<le> LOG_RING_QUEUE_SIZE"
  shows "\<exists>t. log_manager_turns n s = Ok t \<and> serial_ready t \<and> length (log_ring_queue t) = LOG_RING_QUEUE_SIZE \<and>
    log_ring_queue_read_idx t = of_nat ((r + n) mod LOG_RING_QUEUE_SIZE) \<and>
    log_ring_queue_write_idx t = log_ring_queue_write_idx s \<and> klogger_is_threaded t = klogger_is_threaded s \<and>
    (\<forall>k. r \<le> k \<and> k < r + LOG_RING_QUEUE_SIZE \<longrightarrow>
       ls_ready (log_ring_queue t ! (k mod LOG_RING_QUEUE_SIZE)) = (r + n \<le> k))"
  using assms(6)
proof (induction n)
  case 0
  then show ?case using assms by (simp add: log_manager_turns_def all_set_conv_all_nth ring_size)
next
  case (Suc n)
  let ?N = "LOG_RING_QUEUE_SIZE"
  obtain t where t: "log_manager_turns n s = Ok t" "serial_ready t" "length (log_ring_queue t) = ?N"
    "log_ring_queue_read_idx t = of_nat ((r + n) mod ?N)" "log_ring_queue_write_idx t = log_ring_queue_write_idx s"
    "klogger_is_threaded t = klogger_is_threaded s"
    and slots: "\<And>k. r \<le> k \<Longrightarrow> k < r + ?N \<Longrightarrow> ls_ready (log_ring_queue t ! (k mod ?N)) = (r + n \<le> k)"
    using Suc by auto
  have rd: "unat (log_ring_queue_read_idx t) = (r + n) mod ?N" by (simp add: t(4) unat_of_nat ring_size)
  have n: "n < ?N" using Suc(2) by simp
  then have "ls_ready (log_ring_queue t ! unat (log_ring_queue_read_idx t))" using slots [of "r + n"] by (simp add: rd)
  from log_manager_step_ready [OF t(2) this] obtain u where u: "log_manager_step t = Ok u" "serial_ready u"
    "log_ring_queue u = (log_ring_queue t)[(r + n) mod ?N := (log_ring_queue t ! ((r + n) mod ?N))\<lparr>ls_ready := False\<rparr>]"
    "log_ring_queue_read_idx u = of_nat (Suc ((r + n) mod ?N) mod ?N)"
    "log_ring_queue_write_idx u = log_ring_queue_write_idx t" "klogger_is_threaded u = klogger_is_threaded t"
    unfolding rd by blast
  have "ls_ready (log_ring_queue u ! (k mod ?N)) = (r + Suc n \<le> k)" if k: "r \<le> k" "k < r + ?N" for k
  proof (cases "k = r + n")
    case True
    then show ?thesis using u(3) t(3) by (simp add: ring_size)
  next
    case False
    then have "log_ring_queue u ! (k mod ?N) = log_ring_queue t ! (k mod ?N)"
      unfolding u(3) using k n by (intro window_other [of r]) simp_all
    then show ?thesis using slots [OF k] False by auto
  qed
  moreover have "log_manager_turns (Suc n) s = Ok u" using t(1) u(1) by (simp add: log_manager_turns_def foreach_append)
  ultimately show ?case using u t by (simp add: mod_Suc_eq)
qed

text \<open>
  C38. A chunk written while the ring is full is dropped but its index is consumed. Once the
  ring has been drained, the next chunk lands one slot further than the logger thread
  looks, and the thread does not print it although nothing else is waiting.
\<close>

theorem ktty_drop_stalls_logger:
  assumes "serial_ready s" "klogger_is_threaded s" "length (log_ring_queue s) = LOG_RING_QUEUE_SIZE"
    and "\<forall>slot \<in> set (log_ring_queue s). ls_ready slot"
    and "log_ring_queue_read_idx s = of_nat (m mod LOG_RING_QUEUE_SIZE)" "log_ring_queue_write_idx s = of_nat m" "m + 1 < 2 ^ 32"
  shows "\<exists>s1 s2 s3. ktty_chunk x s = Ok s1 \<and> log_manager_turns LOG_RING_QUEUE_SIZE s1 = Ok s2 \<and> ktty_chunk y s2 = Ok s3 \<and>
    log_ring_queue s3 ! (Suc m mod LOG_RING_QUEUE_SIZE) = \<lparr>ls_buf = y, ls_ready = True\<rparr> \<and> log_manager_step s3 = Ok s3"
proof -
  let ?N = "LOG_RING_QUEUE_SIZE" and ?r = "m mod LOG_RING_QUEUE_SIZE"
  have um: "unat (of_nat m :: u32) = m" "unat (of_nat (Suc m) :: u32) = Suc m" using assms(7) by (simp_all only: unat_of_nat) simp_all
  have r: "?r < ?N" "unat (of_nat ?r :: u32) = ?r" by (simp_all add: ring_size unat_of_nat)
  define s1 where "s1 = s\<lparr>log_ring_queue_write_idx := of_nat (Suc m)\<rparr>"
  have "ls_ready (log_ring_queue s ! ?r)" using assms(3,4) r(1) by simp
  then have one: "ktty_chunk x s = Ok s1"
    using assms(2,6) um(1) by (simp add: ktty_chunk_def claim_slot_def s1_def add.commute)
  obtain s2 where two: "log_manager_turns ?N s1 = Ok s2" "length (log_ring_queue s2) = ?N"
    "log_ring_queue_read_idx s2 = of_nat ?r" "log_ring_queue_write_idx s2 = of_nat (Suc m)" "klogger_is_threaded s2"
    and free: "\<And>k. ?r \<le> k \<Longrightarrow> k < ?r + ?N \<Longrightarrow> \<not> ls_ready (log_ring_queue s2 ! (k mod ?N))"
    using log_manager_drains [of s1 ?r ?N] assms(1-5) r(1) by (auto simp: s1_def serial_ready_def)
  let ?q = "Suc m mod ?N"
  have q: "?q = Suc ?r mod ?N" "?q < ?N" by (simp_all add: mod_Suc_eq ring_size)
  have "?q \<noteq> ?r" using r(1) unfolding q(1) by (auto simp: mod_Suc ring_size)
  define s3 where "s3 = (fill_slot ?q y s2)\<lparr>log_ring_queue_write_idx := of_nat (Suc m) + 1\<rparr>"
  have "\<not> ls_ready (log_ring_queue s2 ! ?q)" using free [of "Suc ?r"] unfolding q(1) by (simp add: ring_size)
  then have three: "ktty_chunk y s2 = Ok s3"
    using two(4,5) um(2) by (simp add: ktty_chunk_def claim_slot_def s3_def fill_slot_def del: of_nat_Suc)
  have "log_ring_queue s3 ! ?q = \<lparr>ls_buf = y, ls_ready = True\<rparr>" using two(2) q(2) by (simp add: s3_def fill_slot_def)
  moreover have "\<not> ls_ready (log_ring_queue s3 ! ?r)" using free [of ?r] \<open>?q \<noteq> ?r\<close> r(1) by (simp add: s3_def fill_slot_def)
  then have "log_manager_step s3 = Ok s3" using two(3) r(2) by (simp add: log_manager_step_def s3_def fill_slot_def)
  ultimately show ?thesis using one two(1) three by blast
qed

definition demo_full :: logger where
  "demo_full = demo_logger\<lparr>log_ring_queue := replicate LOG_RING_QUEUE_SIZE \<lparr>ls_buf = [65], ls_ready = True\<rparr>\<rparr>"

lemma demo_full_sel:
  "serial_ready demo_full" "klogger_is_threaded demo_full" "log_ring_queue_read_idx demo_full = of_nat (0 mod LOG_RING_QUEUE_SIZE)"
  "log_ring_queue_write_idx demo_full = of_nat 0" "length (log_ring_queue demo_full) = LOG_RING_QUEUE_SIZE"
  "\<forall>slot \<in> set (log_ring_queue demo_full). ls_ready slot"
  using demo_serial_ready by (simp_all add: demo_full_def serial_ready_def demo_logger_def timers.defs logger.defs)

theorem ktty_drop_stalls_logger_witness:
  "\<exists>s1 s2 s3. ktty_chunk [66] demo_full = Ok s1 \<and> log_manager_turns LOG_RING_QUEUE_SIZE s1 = Ok s2 \<and> ktty_chunk [67] s2 = Ok s3 \<and>
    log_ring_queue s3 ! 1 = \<lparr>ls_buf = [67], ls_ready = True\<rparr> \<and> log_manager_step s3 = Ok s3"
  using ktty_drop_stalls_logger [OF demo_full_sel(1,2,5,6,3,4), where x = "[66]" and y = "[67]"] by (simp add: ring_size)

end
