(* ===== verification/Kbd.thy ===== *)
theory Kbd
  imports Logger
begin

text \<open>
  The PS/2 keyboard driver \<open>kernel/src/drivers/PS-2/kbd/ps2-kbd.c\<close>: the key maps, the decoding of
  scan codes with the modifier keys, the interrupt handler that fills the ring of 256
  characters, and the blocking read that empties it. A reader that finds the ring empty
  spins until an interrupt arrives; \<open>kbd_irqs\<close> is the number of keyboard interrupts still to
  come, so a reader that spins after the last one hangs. The handler also prints
  reports on four of the keys; those of \<open>_log_all_processes\<close>, \<open>fs_tree\<close> and \<open>cpu_log_specs\<close> are the
  argument \<open>report\<close>.
\<close>

section \<open>Key maps\<close>

definition azerty_normal :: "u8 list" where
  "azerty_normal =
     [0, 27, 38, 101, 34, 39, 40, 45, 101, 95, 99, 97, 41, 61, 8, 9,
      97, 122, 101, 114, 116, 121, 117, 105, 111, 112, 94, 36, 10, 0, 113, 115,
      100, 102, 103, 104, 106, 107, 108, 109, 117, 96, 0, 42, 119, 120, 99, 118,
      98, 110, 44, 59, 58, 33, 0, 42, 0, 32, 0, 0, 0, 0, 0, 0,
      0, 0, 0, 0, 0, 0, 0, 55, 56, 57, 45, 52, 53, 54, 43, 49,
      50, 51, 48, 46, 0, 0, 0, 0, 0, 0, 0, 0, 0, 0, 0, 0]"

definition azerty_shift :: "u8 list" where
  "azerty_shift =
     [0, 27, 49, 50, 51, 52, 53, 54, 55, 56, 57, 48, 48, 43, 8, 9,
      65, 90, 69, 82, 84, 89, 85, 73, 79, 80, 0, 0, 10, 0, 81, 83,
      68, 70, 71, 72, 74, 75, 76, 77, 37, 126, 0, 124, 87, 88, 67, 86,
      66, 78, 63, 46, 47, 0, 0, 42, 0, 32, 0, 0, 0, 0, 0, 0,
      0, 0, 0, 0, 0, 0, 0, 55, 56, 57, 45, 52, 53, 54, 43, 49,
      50, 51, 48, 46, 0, 0, 0, 0, 0, 0, 0, 0, 0, 0, 0, 0]"

definition azerty_altgr :: "u8 list" where
  "azerty_altgr =
     [0, 0, 0, 126, 35, 123, 91, 124, 96, 92, 94, 64, 93, 125, 0, 0,
      0, 0, 69, 0, 0, 0, 0, 0, 0, 0, 0, 0, 0, 0, 0, 0,
      0, 0, 0, 0, 0, 0, 0, 0, 0, 0, 0, 0, 0, 0, 0, 0,
      0, 0, 0, 0, 0, 0, 0, 0, 0, 0, 0, 0, 0, 0, 0, 0,
      0, 0, 0, 0, 0, 0, 0, 0, 0, 0, 45, 0, 0, 0, 43, 0,
      0, 0, 0, 0, 0, 0, 0, 0, 0, 0, 0, 0, 0, 0, 0, 0]"

definition qwerty_normal :: "u8 list" where
  "qwerty_normal =
     [0, 27, 49, 50, 51, 52, 53, 54, 55, 56, 57, 48, 45, 61, 8, 9,
      113, 119, 101, 114, 116, 121, 117, 105, 111, 112, 91, 93, 10, 0, 97, 115,
      100, 102, 103, 104, 106, 107, 108, 59, 39, 96, 0, 92, 122, 120, 99, 118,
      98, 110, 109, 44, 46, 47, 0, 42, 0, 32, 0, 0, 0, 0, 0, 0,
      0, 0, 0, 0, 0, 0, 0, 55, 56, 57, 45, 52, 53, 54, 43, 49,
      50, 51, 48, 46, 0, 0, 0, 0, 0, 0, 0, 0, 0, 0, 0, 0]"

definition qwerty_shift :: "u8 list" where
  "qwerty_shift =
     [0, 27, 33, 64, 35, 36, 37, 94, 38, 42, 40, 41, 95, 43, 8, 9,
      81, 87, 69, 82, 84, 89, 85, 73, 79, 80, 123, 125, 10, 0, 65, 83,
      68, 70, 71, 72, 74, 75, 76, 58, 34, 126, 0, 124, 90, 88, 67, 86,
      66, 78, 77, 60, 62, 63, 0, 42, 0, 32, 0, 0, 0, 0, 0, 0,
      0, 0, 0, 0, 0, 0, 0, 55, 56, 57, 45, 52, 53, 54, 43, 49,
      50, 51, 48, 46, 0, 0, 0, 0, 0, 0, 0, 0, 0, 0, 0, 0]"

definition qwerty_altgr :: "u8 list" where
  "qwerty_altgr =
     [0, 0, 0, 0, 0, 0, 0, 0, 0, 0, 0, 0, 0, 0, 0, 0,
      0, 0, 0, 0, 0, 0, 0, 0, 0, 0, 0, 0, 0, 0, 0, 0,
      0, 0, 0, 0, 0, 0, 0, 0, 0, 0, 0, 0, 0, 0, 0, 0,
      0, 0, 0, 0, 0, 0, 0, 0, 0, 0, 0, 0, 0, 0, 0, 0,
      0, 0, 0, 0, 0, 0, 0, 0, 0, 0, 45, 0, 0, 0, 43, 0,
      0, 0, 0, 0, 0, 0, 0, 0, 0, 0, 0, 0, 0, 0, 0, 0]"

text \<open>Each row of the table has 128 entries; those not listed are zero.\<close>

definition keymaps :: "nat \<Rightarrow> nat \<Rightarrow> u8 list" where
  "keymaps layout modifier =
     (if layout = 0
      then (if modifier = 0 then azerty_normal else if modifier = 1 then azerty_shift else azerty_altgr)
      else (if modifier = 0 then qwerty_normal else if modifier = 1 then qwerty_shift else qwerty_altgr))
     @ replicate 32 0"

definition INPUT_CHAR_BUFFER_SIZE :: nat where "INPUT_CHAR_BUFFER_SIZE = 256"

definition ALT_PRESSED :: u8 where "ALT_PRESSED = 1"
definition ALTGR_PRESSED :: u8 where "ALTGR_PRESSED = 2"
definition CTRL_PRESSED :: u8 where "CTRL_PRESSED = 4"
definition SHIFT_PRESSED :: u8 where "SHIFT_PRESSED = 8"
definition CAPSLOCK_ON :: u8 where "CAPSLOCK_ON = 0x10"

record kbd = logger +
  kbd_mod_keys :: u8
  current_language :: nat
  kbd_extended :: bool
  input_char_buffer :: "u8 list"
  buf_head :: u16
  buf_tail :: u16
  kbd_irqs :: nat

section \<open>Decoding\<close>

definition set_mod_flag :: "u8 \<Rightarrow> bool \<Rightarrow> 'a kbd_scheme \<Rightarrow> 'a kbd_scheme" where
  "set_mod_flag flag state s =
     s\<lparr>kbd_mod_keys := (if state then kbd_mod_keys s OR flag else kbd_mod_keys s AND NOT flag)\<rparr>"

definition mod_flag :: "u8 \<Rightarrow> 'a kbd_scheme \<Rightarrow> bool" where
  "mod_flag flag s \<longleftrightarrow> kbd_mod_keys s AND flag \<noteq> 0"

text \<open>A key after the prefix 0xE0.\<close>

definition extended_key :: "bool \<Rightarrow> u8 \<Rightarrow> 'a kbd_scheme \<Rightarrow> u8 \<times> 'a kbd_scheme" where
  "extended_key released keycode s =
     (if released then
        (0, (if keycode = 0x1D then set_mod_flag CTRL_PRESSED False s
             else if keycode = 0x38 then set_mod_flag ALTGR_PRESSED False s else s)\<lparr>kbd_extended := False\<rparr>)
      else
        (let (c, s) =
           (if keycode = 0x48 then (0x80, s) else if keycode = 0x50 then (0x81, s)
            else if keycode = 0x4B then (0x82, s) else if keycode = 0x4D then (0x83, s)
            else if keycode = 0x47 then (0x84, s)
            else if keycode = 0x1D then (0, set_mod_flag CTRL_PRESSED True s)
            else if keycode = 0x38 then (0, set_mod_flag ALTGR_PRESSED True s) else (0, s))
         in (c, s\<lparr>kbd_extended := False\<rparr>)))"

text \<open>A key that is neither a modifier nor released.\<close>

definition key_char :: "u8 \<Rightarrow> 'a kbd_scheme \<Rightarrow> u8" where
  "key_char keycode s =
     (let m = (if mod_flag ALTGR_PRESSED s then 2
               else if mod_flag SHIFT_PRESSED s \<noteq> mod_flag CAPSLOCK_ON s then 1 else 0);
          base_char = keymaps (current_language s) m ! unat keycode
      in if mod_flag CTRL_PRESSED s \<and> (65 \<le> base_char \<and> base_char \<le> 90 \<or> 97 \<le> base_char \<and> base_char \<le> 122) \<and>
            \<not> mod_flag ALTGR_PRESSED s
         then base_char - 65 + 159 else base_char)"

definition plain_key :: "bool \<Rightarrow> u8 \<Rightarrow> 'a kbd_scheme \<Rightarrow> u8 \<times> 'a kbd_scheme" where
  "plain_key released keycode s =
     (if keycode = 0x2A \<or> keycode = 0x36 then (0, set_mod_flag SHIFT_PRESSED (\<not> released) s)
      else if keycode = 0x3A then
        (0, if released then s else set_mod_flag CAPSLOCK_ON (\<not> mod_flag CAPSLOCK_ON s) s)
      else if keycode = 0x1D then (0, set_mod_flag CTRL_PRESSED (\<not> released) s)
      else if keycode = 0x38 then (0, set_mod_flag ALT_PRESSED (\<not> released) s)
      else if released then (0, s)
      else (key_char keycode s, s))"

definition get_input_char_non_blocking :: "'a kbd_scheme \<Rightarrow> u8 \<times> 'a kbd_scheme" where
  "get_input_char_non_blocking s =
     (case inb 0x64 s of (status, s) \<Rightarrow>
        if status AND 1 = 0 then (0, s\<lparr>kbd_extended := False\<rparr>)
        else
          (case inb 0x60 s of (scancode, s) \<Rightarrow>
             if scancode = 0xE0 then (0, s\<lparr>kbd_extended := True\<rparr>)
             else
               (let released = (scancode AND 0x80 \<noteq> 0); keycode = scancode AND 0x7F
                in if kbd_extended s then extended_key released keycode s else plain_key released keycode s)))"

section \<open>The ring\<close>

definition kbd_push :: "u8 \<Rightarrow> 'a kbd_scheme \<Rightarrow> 'a kbd_scheme run" where
  "kbd_push ch s =
     (let next_tail = of_nat ((unat (buf_tail s) + 1) mod INPUT_CHAR_BUFFER_SIZE)
      in if next_tail \<noteq> buf_head s then
           (if unat (buf_tail s) < INPUT_CHAR_BUFFER_SIZE
            then Ok (s\<lparr>input_char_buffer := (input_char_buffer s)[unat (buf_tail s) := ch], buf_tail := next_tail\<rparr>)
            else Stop OutOfBounds)
         else Ok s)"

definition kbd_pop :: "'a kbd_scheme \<Rightarrow> (u8 \<times> 'a kbd_scheme) run" where
  "kbd_pop s =
     (if unat (buf_head s) < INPUT_CHAR_BUFFER_SIZE
      then Ok (input_char_buffer s ! unat (buf_head s),
               s\<lparr>buf_head := of_nat ((unat (buf_head s) + 1) mod INPUT_CHAR_BUFFER_SIZE)\<rparr>)
      else Stop OutOfBounds)"

text \<open>The memory report of the key M; the number of bytes is cut to 32 bits.\<close>

definition report_memory :: "'a kbd_scheme \<Rightarrow> 'a kbd_scheme run" where
  "report_memory s =
     (let used = (of_nat (pmm_get_total_pages s) - pmm_get_free_pages s) * 0x1000;
          total = of_nat (pmm_get_total_pages s) * 0x1000
      in bindr (sys_serial_vlogf (27 # bytes (''[43mRam: '' @ byte_nb_simplify (ucast (used :: u64)) 4)) None None 0 s) (\<lambda>s.
         sys_serial_vlogf (bytes (''/ '' @ byte_nb_simplify (ucast (total :: u64)) 4) @ esc_reset @ [10]) None None 0 s))"

definition ps2_keyboard_handler :: "(u8 \<Rightarrow> 'a kbd_scheme \<Rightarrow> 'a kbd_scheme run) \<Rightarrow> 'a kbd_scheme \<Rightarrow> 'a kbd_scheme run" where
  "ps2_keyboard_handler report s =
     (let (ch, s) = get_input_char_non_blocking s
      in bindr (if ch \<noteq> 0 then kbd_push ch s else Ok s) (\<lambda>s.
         bindr (if ch = of_char CHR ''L'' \<or> ch = of_char CHR ''T'' \<or> ch = of_char CHR ''C'' then report ch s else Ok s) (\<lambda>s.
         bindr (if ch = of_char CHR ''M'' then report_memory s else Ok s) (\<lambda>s.
           Ok (send_eoi 33 s)))))"

section \<open>Reading\<close>

text \<open>
  The inner loop: take characters until one is not zero. With the ring empty, the next
  interrupt is served; when none is left the loop never ends.
\<close>

partial_function (option) kbd_getc ::
  "(u8 \<Rightarrow> 'a kbd_scheme \<Rightarrow> 'a kbd_scheme run) \<Rightarrow> 'a kbd_scheme \<Rightarrow> (u8 \<times> 'a kbd_scheme) run option" where
  "kbd_getc report s =
     (if buf_head s \<noteq> buf_tail s then
        (case kbd_pop s of Stop c \<Rightarrow> Some (Stop c)
         | Ok (ch, s) \<Rightarrow> if ch = 0 then kbd_getc report s else Some (Ok (ch, s)))
      else if kbd_irqs s = 0 then Some (Stop Hang)
      else
        (case ps2_keyboard_handler report (s\<lparr>kbd_irqs := kbd_irqs s - 1\<rparr>) of Stop c \<Rightarrow> Some (Stop c)
         | Ok s \<Rightarrow> kbd_getc report s))"

fun kbd_read_loop ::
  "(u8 \<Rightarrow> 'a kbd_scheme \<Rightarrow> 'a kbd_scheme run) \<Rightarrow> u64 \<Rightarrow> nat \<Rightarrow> 'a kbd_scheme \<Rightarrow> 'a kbd_scheme run" where
  "kbd_read_loop report out 0 s = Ok s"
| "kbd_read_loop report out (Suc n) s =
     (case kbd_getc report s of None \<Rightarrow> Stop Hang
      | Some r \<Rightarrow> bindr r (\<lambda>(ch, s). kbd_read_loop report (out + 1) n (s\<lparr>kmem := (kmem s)(out := ch)\<rparr>)))"

text \<open>The result is a C \<open>int\<close>.\<close>

definition ps2_kbd_read ::
  "(u8 \<Rightarrow> 'a kbd_scheme \<Rightarrow> 'a kbd_scheme run) \<Rightarrow> u64 \<Rightarrow> u64 \<Rightarrow> 'a kbd_scheme \<Rightarrow> (int \<times> 'a kbd_scheme) run" where
  "ps2_kbd_read report buf n s =
     bindr (kbd_read_loop report buf (unat n) s) (\<lambda>s. Ok (sint (ucast n :: u32), s))"

end
