(* ===== verification/Kbd_Spec.thy ===== *)
theory Kbd_Spec
  imports Kbd Logger_Spec
begin

text \<open>
  The keyboard ring as a bounded queue: the interface \<open>bounded_queue\<close>, its interpretation by
  \<open>kbd_push\<close> and \<open>kbd_pop\<close>, and what a blocking read delivers while interrupts fill the ring.
\<close>

section \<open>Bounded queues\<close>

locale bounded_queue =
  fixes inv :: "'s \<Rightarrow> bool" and cap :: nat and items :: "'s \<Rightarrow> 'a list"
    and push :: "'a \<Rightarrow> 's \<Rightarrow> 's run" and pop :: "'s \<Rightarrow> ('a \<times> 's) run" and valid :: "'a \<Rightarrow> bool"
  assumes push_law: "inv s \<Longrightarrow> valid x \<Longrightarrow>
      \<exists>t. push x s = Ok t \<and> inv t \<and> items t = (if length (items s) < cap then items s @ [x] else items s)"
    and pop_law: "inv s \<Longrightarrow> items s \<noteq> [] \<Longrightarrow> \<exists>t. pop s = Ok (hd (items s), t) \<and> inv t \<and> items t = tl (items s)"
    and capacity: "inv s \<Longrightarrow> length (items s) \<le> cap"
begin

fun pops :: "nat \<Rightarrow> 's \<Rightarrow> ('a list \<times> 's) run" where
  "pops 0 s = Ok ([], s)"
| "pops (Suc n) s = bindr (pop s) (\<lambda>(x, s). bindr (pops n s) (\<lambda>(xs, s). Ok (x # xs, s)))"

lemma push_all:
  "inv s \<Longrightarrow> \<forall>x \<in> set xs. valid x \<Longrightarrow>
     \<exists>t. foreach push xs s = Ok t \<and> inv t \<and> items t = take cap (items s @ xs)"
proof (induction xs arbitrary: s)
  case (Cons x xs)
  obtain u where u: "push x s = Ok u" "inv u" "items u = (if length (items s) < cap then items s @ [x] else items s)"
    using push_law [of s x] Cons.prems by auto
  obtain t where t: "foreach push xs u = Ok t" "inv t" "items t = take cap (items u @ xs)"
    using Cons.IH [OF u(2)] Cons.prems by auto
  have "items t = take cap (items s @ x # xs)"
    using capacity [OF Cons.prems(1)] capacity [OF u(2)] u(3) t(3) by (auto simp: take_Cons' split: if_splits)
  then show ?case using u(1) t(1,2) by auto
qed (simp add: capacity)

lemma pops_front: "inv s \<Longrightarrow> n \<le> length (items s) \<Longrightarrow>
    \<exists>t. pops n s = Ok (take n (items s), t) \<and> inv t \<and> items t = drop n (items s)"
proof (induction n arbitrary: s)
  case (Suc n)
  then have "items s \<noteq> []" by auto
  then obtain u where u: "pop s = Ok (hd (items s), u)" "inv u" "items u = tl (items s)"
    using pop_law Suc.prems(1) by blast
  have "n \<le> length (items u)" using Suc.prems(2) u(3) by simp
  then obtain t where "pops n u = Ok (take n (items u), t)" "inv t" "items t = drop n (items u)"
    using Suc.IH [OF u(2)] by blast
  then show ?case using u \<open>items s \<noteq> []\<close> by (auto simp: drop_Suc take_Suc)
qed simp

text \<open>What goes in comes out in order, the first \<open>cap\<close> elements at most.\<close>

lemma first_in_first_out:
  assumes "inv s" "items s = []" "\<forall>x \<in> set xs. valid x"
  shows "\<exists>t u. foreach push xs s = Ok t \<and> pops (min cap (length xs)) t = Ok (take cap xs, u) \<and> items u = []"
proof -
  obtain t where t: "foreach push xs s = Ok t" "inv t" "items t = take cap xs"
    using push_all [OF assms(1,3)] assms(2) by auto
  have len: "length (items t) = min cap (length xs)" by (simp add: t(3))
  obtain u where "pops (length (items t)) t = Ok (items t, u)" "items u = []"
    using pops_front [OF t(2) order_refl] by auto
  then show ?thesis using t(1,3) len by metis
qed

end

section \<open>The keyboard ring\<close>

definition kbd_count :: "'a kbd_scheme \<Rightarrow> nat" where
  "kbd_count s = (unat (buf_tail s) + 256 - unat (buf_head s)) mod 256"

definition kbd_items :: "'a kbd_scheme \<Rightarrow> u8 list" where
  "kbd_items s = map (\<lambda>i. input_char_buffer s ! ((unat (buf_head s) + i) mod 256)) [0..<kbd_count s]"

definition kbd_ok :: "'a kbd_scheme \<Rightarrow> bool" where
  "kbd_ok s \<longleftrightarrow> length (input_char_buffer s) = 256 \<and> unat (buf_head s) < 256 \<and> unat (buf_tail s) < 256 \<and> 0 \<notin> set (kbd_items s)"

lemma kbd_items_length [simp]: "length (kbd_items s) = kbd_count s"
  by (simp add: kbd_items_def)

lemma u16_small: "n < 256 \<Longrightarrow> unat (of_nat n :: u16) = n"
  by (simp add: unat_of_nat)

lemma tail_of_count: "h < 256 \<Longrightarrow> t < 256 \<Longrightarrow> (h + (t + 256 - h) mod 256) mod 256 = (t :: nat)"
  by (simp add: mod_add_right_eq)

lemma ring_count:
  assumes "h < 256" "t < 256"
  shows "(t + 256 - h) mod 256 = (if h \<le> t then t - h else t + 256 - h :: nat)"
proof (cases "h \<le> t")
  case True
  then have "t + 256 - h = t - h + 256" by simp
  then show ?thesis using True assms by (simp only: mod_add_self2) simp
qed (use assms in simp)

lemma kbd_count_push:
  assumes "h < 256" "t < 256" "Suc t mod 256 \<noteq> (h :: nat)"
  shows "(Suc t mod 256 + 256 - h) mod 256 = Suc ((t + 256 - h) mod 256)"
proof -
  have "Suc t mod 256 < 256" by simp
  then show ?thesis using assms by (auto simp: ring_count mod_Suc)
qed

lemma kbd_count_full:
  assumes "h < 256" "t < 256"
  shows "Suc t mod 256 = h \<longleftrightarrow> (t + 256 - h) mod 256 = (255 :: nat)"
  using assms by (auto simp: ring_count mod_Suc)

lemma kbd_count_pop:
  assumes "h < 256" "t < 256" "0 < (t + 256 - h) mod (256 :: nat)"
  shows "(t + 256 - h) mod 256 = Suc ((t + 256 - Suc h mod 256) mod 256)"
proof -
  have "Suc h mod 256 < 256" by simp
  then show ?thesis using assms by (auto simp: ring_count mod_Suc)
qed

lemma kbd_push_law:
  assumes "kbd_ok s" "x \<noteq> 0"
  shows "\<exists>t. kbd_push x s = Ok t \<and> kbd_ok t \<and>
    kbd_items t = (if length (kbd_items s) < 255 then kbd_items s @ [x] else kbd_items s) \<and>
    kbd_irqs t = kbd_irqs s \<and> kmem t = kmem s"
proof -
  let ?h = "unat (buf_head s)" and ?t = "unat (buf_tail s)"
  have ok: "length (input_char_buffer s) = 256" "?h < 256" "?t < 256" "0 \<notin> set (kbd_items s)"
    using assms(1) by (simp_all add: kbd_ok_def)
  have nt: "unat (of_nat (Suc ?t mod 256) :: u16) = Suc ?t mod 256" by (rule u16_small) simp
  then have eq: "of_nat (Suc ?t mod 256) = buf_head s \<longleftrightarrow> Suc ?t mod 256 = ?h" by (metis word_unat_eq_iff)
  have c: "kbd_count s < 256" by (simp add: kbd_count_def)
  show ?thesis
  proof (cases "Suc ?t mod 256 = ?h")
    case True
    then have "kbd_count s = 255" using kbd_count_full [OF ok(2,3)] by (simp add: kbd_count_def)
    then show ?thesis using True assms(1) eq by (simp add: kbd_push_def INPUT_CHAR_BUFFER_SIZE_def)
  next
    case False
    let ?u = "s\<lparr>input_char_buffer := (input_char_buffer s)[?t := x], buf_tail := of_nat (Suc ?t mod 256)\<rparr>"
    have n: "kbd_count ?u = Suc (kbd_count s)"
      using kbd_count_push [OF ok(2,3) False] by (simp add: kbd_count_def nt)
    have tl: "(?h + kbd_count s) mod 256 = ?t" using tail_of_count [OF ok(2,3)] by (simp add: kbd_count_def)
    have "(?h + i) mod 256 \<noteq> ?t" if "i < kbd_count s" for i
      using that mod_window [of ?h "?h + i" 256 "?h + kbd_count s"] c unfolding tl by auto
    then have "(input_char_buffer s)[?t := x] ! ((?h + i) mod 256) = input_char_buffer s ! ((?h + i) mod 256)"
      if "i < kbd_count s" for i using that by (metis nth_list_update_neq)
    then have "kbd_items ?u = kbd_items s @ [x]"
      using ok(1,3) tl unfolding kbd_items_def n by simp
    moreover have "kbd_count s < 255"
      using c kbd_count_full [OF ok(2,3)] False unfolding kbd_count_def [symmetric] by linarith
    moreover have "kbd_push x s = Ok ?u" using False eq ok(3) by (simp add: kbd_push_def INPUT_CHAR_BUFFER_SIZE_def)
    moreover have "kbd_ok ?u" using ok nt assms(2) \<open>kbd_items ?u = _\<close> by (simp add: kbd_ok_def)
    ultimately show ?thesis by simp
  qed
qed

lemma kbd_pop_law:
  assumes "kbd_ok s" "kbd_items s \<noteq> []"
  shows "\<exists>t. kbd_pop s = Ok (hd (kbd_items s), t) \<and> kbd_ok t \<and> kbd_items t = tl (kbd_items s) \<and>
    kbd_irqs t = kbd_irqs s \<and> kmem t = kmem s"
proof -
  let ?h = "unat (buf_head s)" and ?t = "unat (buf_tail s)"
  have ok: "length (input_char_buffer s) = 256" "?h < 256" "?t < 256" "0 \<notin> set (kbd_items s)"
    using assms(1) by (simp_all add: kbd_ok_def)
  let ?u = "s\<lparr>buf_head := of_nat (Suc ?h mod 256)\<rparr>"
  have nh: "unat (of_nat (Suc ?h mod 256) :: u16) = Suc ?h mod 256" by (rule u16_small) simp
  have pos: "0 < kbd_count s" using assms(2) by (metis kbd_items_length length_greater_0_conv)
  then have "kbd_count s = Suc ((?t + 256 - Suc ?h mod 256) mod 256)"
    using kbd_count_pop [OF ok(2,3)] by (simp only: kbd_count_def)
  moreover have "kbd_count ?u = (?t + 256 - Suc ?h mod 256) mod 256" by (simp add: kbd_count_def nh)
  ultimately have n: "kbd_count s = Suc (kbd_count ?u)" by simp
  have shift: "(Suc ?h mod 256 + i) mod 256 = (?h + Suc i) mod 256" for i by (simp add: mod_add_left_eq)
  have items: "kbd_items s = input_char_buffer s ! ?h # kbd_items ?u"
    unfolding kbd_items_def n upt_conv_Cons [OF zero_less_Suc] list.map map_Suc_upt [symmetric] map_map
    using ok(2) by (simp add: nh comp_def shift)
  have "kbd_pop s = Ok (hd (kbd_items s), ?u)" using ok(2) by (simp add: kbd_pop_def INPUT_CHAR_BUFFER_SIZE_def items)
  moreover have "kbd_ok ?u" using ok nh items by (simp add: kbd_ok_def)
  ultimately show ?thesis using items by simp
qed

interpretation kq: bounded_queue kbd_ok 255 kbd_items kbd_push kbd_pop "\<lambda>ch. ch \<noteq> 0"
proof
  fix s :: "'a kbd_scheme" and x :: u8
  show "kbd_ok s \<Longrightarrow> x \<noteq> 0 \<Longrightarrow> \<exists>t. kbd_push x s = Ok t \<and> kbd_ok t \<and>
      kbd_items t = (if length (kbd_items s) < 255 then kbd_items s @ [x] else kbd_items s)"
    using kbd_push_law by blast
  show "kbd_ok s \<Longrightarrow> kbd_items s \<noteq> [] \<Longrightarrow> \<exists>t. kbd_pop s = Ok (hd (kbd_items s), t) \<and> kbd_ok t \<and> kbd_items t = tl (kbd_items s)"
    using kbd_pop_law by blast
  show "kbd_ok s \<Longrightarrow> length (kbd_items s) \<le> 255"
    using mod_less_divisor [of 256 "unat (buf_tail s) + 256 - unat (buf_head s)"] by (simp add: kbd_count_def)
qed

section \<open>Interrupts\<close>

text \<open>What a log call or a report must leave alone.\<close>

definition kbd_view :: "'a kbd_scheme \<Rightarrow> u8 list \<times> u16 \<times> u16 \<times> nat \<times> mem" where
  "kbd_view s = (input_char_buffer s, buf_head s, buf_tail s, kbd_irqs s, kmem s)"

definition quiet :: "(u8 \<Rightarrow> 'a kbd_scheme \<Rightarrow> 'a kbd_scheme run) \<Rightarrow> bool" where
  "quiet report \<longleftrightarrow> (\<forall>ch s t. report ch s = Ok t \<longrightarrow> kbd_view t = kbd_view s)"

lemma view_items:
  assumes "kbd_view t = kbd_view s"
  shows "kbd_items t = kbd_items s" "kbd_ok t = kbd_ok s" "kbd_irqs t = kbd_irqs s" "kmem t = kmem s"
  using assms by (simp_all add: kbd_view_def kbd_items_def kbd_ok_def kbd_count_def)

interpretation kv: log_frame kbd_view
  by unfold_locales (simp_all add: kbd_view_def)

lemma get_input_char_view: "get_input_char_non_blocking s = (ch, t) \<Longrightarrow> kbd_view t = kbd_view s"
proof -
  have x: "kbd_view (snd (extended_key r k s)) = kbd_view s" for r k and s :: "'a kbd_scheme"
    by (simp add: extended_key_def set_mod_flag_def kbd_view_def)
  have p: "kbd_view (snd (plain_key r k s)) = kbd_view s" for r k and s :: "'a kbd_scheme"
    by (simp add: plain_key_def set_mod_flag_def kbd_view_def)
  have "kbd_view (snd (get_input_char_non_blocking s)) = kbd_view s"
    by (simp add: get_input_char_non_blocking_def inb_def Let_def x p) (simp add: kbd_view_def)
  then show "get_input_char_non_blocking s = (ch, t) \<Longrightarrow> kbd_view t = kbd_view s" by simp
qed

lemma send_eoi_view [simp]: "kbd_view (send_eoi v s) = kbd_view s"
  by (simp add: send_eoi_def pic_send_eoi_def lapic_send_eoi_def lapic_mmio_write_def outb_def kbd_view_def split: eoi.splits)

lemma report_memory_view: "report_memory s = Ok t \<Longrightarrow> kbd_view t = kbd_view s"
  by (auto simp: report_memory_def Let_def bindr_eq_Ok dest!: kv.sys_serial_vlogf_frame)

lemma handler_effect:
  assumes "quiet report" "kbd_ok s" "ps2_keyboard_handler report s = Ok t"
  shows "\<exists>cs. kbd_items t = kbd_items s @ cs \<and> kbd_ok t \<and> kbd_irqs t = kbd_irqs s \<and> kmem t = kmem s"
proof -
  obtain ch u where u: "get_input_char_non_blocking s = (ch, u)" by fastforce
  note uv = view_items [OF get_input_char_view [OF u]]
  obtain w where w: "(if ch \<noteq> 0 then kbd_push ch u else Ok u) = Ok w" and view: "kbd_view t = kbd_view w"
    using assms(1,3) u
    by (auto simp: ps2_keyboard_handler_def bindr_eq_Ok quiet_def split: if_splits dest!: report_memory_view)
  have "\<exists>cs. kbd_items w = kbd_items u @ cs \<and> kbd_ok w \<and> kbd_irqs w = kbd_irqs u \<and> kmem w = kmem u"
    using w kbd_push_law [of u ch] assms(2) uv(2) by (auto split: if_splits)
  then show ?thesis using uv view_items [OF view] by simp
qed

lemma ring_empty: "kbd_ok s \<Longrightarrow> buf_head s = buf_tail s \<longleftrightarrow> kbd_items s = []"
  by (auto simp: kbd_ok_def kbd_items_def kbd_count_def ring_count word_unat_eq_iff)

lemma kbd_getc_ready:
  assumes "kbd_ok s" "kbd_items s = ch # cs"
  shows "\<exists>t. kbd_getc report s = Some (Ok (ch, t)) \<and> kbd_ok t \<and> kbd_items t = cs \<and> kmem t = kmem s"
proof -
  obtain t where t: "kbd_pop s = Ok (ch, t)" "kbd_ok t" "kbd_items t = cs" "kmem t = kmem s"
    using kbd_pop_law [OF assms(1)] assms(2) by auto
  have "ch \<noteq> 0" using assms by (auto simp: kbd_ok_def)
  then have "kbd_getc report s = Some (Ok (ch, t))"
    using t(1) ring_empty [OF assms(1)] assms(2) by (subst kbd_getc.simps) simp
  then show ?thesis using t by blast
qed

lemma kbd_getc_effect:
  assumes "quiet report" "kbd_ok s"
  shows "(\<exists>c. kbd_getc report s = Some (Stop c)) \<or>
    (\<exists>ch t cs. kbd_getc report s = Some (Ok (ch, t)) \<and> kbd_ok t \<and> kmem t = kmem s \<and> ch # kbd_items t = kbd_items s @ cs)"
  using assms(2)
proof (induction "kbd_irqs s" arbitrary: s rule: less_induct)
  case less
  show ?case
  proof (cases "kbd_items s")
    case (Cons ch cs)
    then show ?thesis using kbd_getc_ready [OF less(2) Cons, of report] by auto
  next
    case Nil
    then have empty: "buf_head s = buf_tail s" using ring_empty [OF less(2)] by simp
    show ?thesis
    proof (cases "kbd_irqs s")
      case 0
      then show ?thesis using empty by (subst kbd_getc.simps) simp
    next
      case (Suc n)
      let ?s = "s\<lparr>kbd_irqs := n\<rparr>"
      have s': "kbd_ok ?s" "kbd_items ?s = kbd_items s"
        using less(2) by (simp_all add: kbd_ok_def kbd_items_def kbd_count_def)
      have step: "kbd_getc report s = (case ps2_keyboard_handler report ?s of Stop c \<Rightarrow> Some (Stop c) | Ok s \<Rightarrow> kbd_getc report s)"
        using empty Suc by (subst kbd_getc.simps) simp
      show ?thesis
      proof (cases "ps2_keyboard_handler report ?s")
        case (Ok u)
        obtain cs where u: "kbd_items u = kbd_items s @ cs" "kbd_ok u" "kbd_irqs u = n" "kmem u = kmem s"
          using handler_effect [OF assms(1) s'(1) Ok] s'(2) by auto
        then show ?thesis using less(1) [of u] Suc step Ok Nil by auto
      qed (use step in simp)
    qed
  qed
qed

lemma kmem_frame [simp]:
  "kbd_items (s\<lparr>kmem := m\<rparr>) = kbd_items s" "kbd_ok (s\<lparr>kmem := m\<rparr>) = kbd_ok s"
  by (simp_all add: kbd_ok_def kbd_items_def kbd_count_def)

text \<open>The bytes of a list laid out in memory, and nothing else changed.\<close>

definition stored :: "u64 \<Rightarrow> u8 list \<Rightarrow> mem \<Rightarrow> mem \<Rightarrow> bool" where
  "stored a xs m m' \<longleftrightarrow> (\<forall>i < length xs. m' (a + of_nat i) = xs ! i) \<and>
     (\<forall>b. (\<forall>i < length xs. b \<noteq> a + of_nat i) \<longrightarrow> m' b = m b)"

lemma stored_Cons:
  assumes "stored (a + 1) xs (m(a := x)) m'" "length xs < 2 ^ 64"
  shows "stored a (x # xs) m m'"
proof -
  have "a \<noteq> a + 1 + of_nat i" if "i < length xs" for i
  proof -
    have "unat (of_nat (Suc i) :: u64) = Suc i"
      using that assms(2) by (simp only: unat_of_nat) (simp add: take_bit_nat_eq_self)
    then have "(of_nat (Suc i) :: u64) \<noteq> 0" by (metis nat.distinct(1) unat_0)
    then show ?thesis by (simp add: add.assoc)
  qed
  then have "m' a = x" using assms(1) by (auto simp: stored_def)
  moreover have "m' b = m b" if b: "\<forall>i < length (x # xs). b \<noteq> a + of_nat i" for b
  proof -
    have "b \<noteq> a" using b [rule_format, of 0] by simp
    moreover have "b \<noteq> a + 1 + of_nat i" if "i < length xs" for i
      using b [rule_format, of "Suc i"] that by (simp add: add.assoc)
    ultimately show ?thesis using assms(1) by (simp add: stored_def)
  qed
  ultimately show ?thesis
    using assms(1) unfolding stored_def by (auto simp: less_Suc_eq_0_disj add.assoc)
qed

lemma kbd_read_loop_effect:
  assumes "quiet report" "kbd_ok s" "n < 2 ^ 64"
  shows "(\<exists>c. kbd_read_loop report a n s = Stop c) \<or>
    (\<exists>t out cs. kbd_read_loop report a n s = Ok t \<and> length out = n \<and> kbd_ok t \<and>
       out @ kbd_items t = kbd_items s @ cs \<and> stored a out (kmem s) (kmem t))"
  using assms(2,3)
proof (induction n arbitrary: a s)
  case (Suc n)
  show ?case
  proof (cases "\<exists>c. kbd_getc report s = Some (Stop c)")
    case True
    then show ?thesis by auto
  next
    case False
    then obtain ch u cs where u: "kbd_getc report s = Some (Ok (ch, u))" "kbd_ok u" "kmem u = kmem s"
      "ch # kbd_items u = kbd_items s @ cs"
      using kbd_getc_effect [OF assms(1) Suc.prems(1)] by auto
    let ?u = "u\<lparr>kmem := (kmem u)(a := ch)\<rparr>"
    have u': "kbd_ok ?u" "kbd_items ?u = kbd_items u" using u(2) by simp_all
    have "n < 2 ^ 64" using Suc.prems(2) by simp
    from Suc.IH [OF u'(1) this, of "a + 1"] consider c where "kbd_read_loop report (a + 1) n ?u = Stop c"
      | t out ds where "kbd_read_loop report (a + 1) n ?u = Ok t" "length out = n" "kbd_ok t"
          "out @ kbd_items t = kbd_items u @ ds" "stored (a + 1) out (kmem ?u) (kmem t)"
      unfolding u'(2) by blast
    then show ?thesis
    proof cases
      case 2
      have "(ch # out) @ kbd_items t = kbd_items s @ cs @ ds" using 2(4) u(4) by (metis append.assoc append_Cons)
      moreover have "stored a (ch # out) (kmem s) (kmem t)" 
        by (rule stored_Cons) (use 2(2,5) u(3) Suc.prems(2) in simp_all)
      moreover have "kbd_read_loop report a (Suc n) s = Ok t" "length (ch # out) = Suc n" using 2(1,2) u(1) by simp_all
      ultimately show ?thesis using 2(3) by blast
    qed (use u(1) in simp)
  qed
qed (simp add: stored_def)

lemma sint_small: "k < 2 ^ 31 \<Longrightarrow> sint (of_nat k :: u32) = int k"
  by (simp add: signed_of_nat signed_take_bit_int_eq_self)

lemma kbd_read_loop_ready:
  assumes "kbd_ok s" "n \<le> length (kbd_items s)"
  shows "\<exists>t. kbd_read_loop report a n s = Ok t \<and> kbd_ok t \<and> kbd_items t = drop n (kbd_items s) \<and>
    stored a (take n (kbd_items s)) (kmem s) (kmem t)"
  using assms
proof (induction n arbitrary: a s)
  case (Suc n)
  then obtain ch cs where cs: "kbd_items s = ch # cs" by (cases "kbd_items s") (auto simp del: kbd_items_length)
  obtain u where u: "kbd_getc report s = Some (Ok (ch, u))" "kbd_ok u" "kbd_items u = cs" "kmem u = kmem s"
    using kbd_getc_ready [OF Suc.prems(1) cs] by blast
  let ?u = "u\<lparr>kmem := (kmem u)(a := ch)\<rparr>"
  have u': "kbd_ok ?u" "kbd_items ?u = cs" using u(2,3) by simp_all
  have n: "n \<le> length (kbd_items ?u)" using Suc.prems(2) unfolding u'(2) cs by simp
  obtain t where t: "kbd_read_loop report (a + 1) n ?u = Ok t" "kbd_ok t" "kbd_items t = drop n cs"
    "stored (a + 1) (take n cs) (kmem ?u) (kmem t)"
    using Suc.IH [OF u'(1) n, of "a + 1"] unfolding u'(2) by blast
  have "length (take n cs) < 2 ^ 64"
    using kq.capacity [OF Suc.prems(1)] cs by (simp del: kbd_items_length)
  then have "stored a (ch # take n cs) (kmem s) (kmem t)" by (rule stored_Cons [rotated]) (use t(4) u(4) in simp)
  then show ?case using t u(1) cs by auto
qed (simp add: stored_def)


text \<open>
  C26. A read of no more characters than the ring holds returns without waiting for an
  interrupt, with the first ones of the ring in the buffer.
\<close>

theorem kbd_read_terminates:
  assumes "kbd_ok s" "unat n \<le> length (kbd_items s)"
  shows "\<exists>t. ps2_kbd_read report buf n s = Ok (int (unat n), t) \<and> kbd_items t = drop (unat n) (kbd_items s) \<and>
    stored buf (take (unat n) (kbd_items s)) (kmem s) (kmem t)"
proof -
  have small: "unat n \<le> 255" using kq.capacity [OF assms(1)] assms(2) by simp
  have "(ucast n :: u32) = of_nat (unat n)" by simp
  moreover have "sint (of_nat (unat n) :: u32) = int (unat n)" by (rule sint_small) (use small in simp)
  ultimately have "sint (ucast n :: u32) = int (unat n)" by (simp only:)
  then show ?thesis using kbd_read_loop_ready [OF assms, of report buf] by (auto simp: ps2_kbd_read_def)
qed

definition demo_kbd :: kbd where
  "demo_kbd = logger.extend demo_logger (kbd.fields 0 0 False ([65, 66] @ replicate 254 0) 0 2 0)"

lemma demo_kbd_sel [simp]:
  "input_char_buffer demo_kbd = [65, 66] @ replicate 254 0" "buf_head demo_kbd = 0" "buf_tail demo_kbd = 2"
  by (simp_all add: demo_kbd_def logger.defs kbd.defs)

lemma demo_kbd_items: "kbd_items demo_kbd = [65, 66]"
  by (simp add: kbd_items_def kbd_count_def upt_rec)

lemma demo_kbd_ok: "kbd_ok demo_kbd"
  by (simp add: kbd_ok_def demo_kbd_items)

lemma demo_quiet: "quiet (\<lambda>_. Ok)"
  by (simp add: quiet_def)

lemma demo_kbd_read: "ps2_kbd_read (\<lambda>_. Ok) 0x7000 1 demo_kbd = Ok (1, demo_kbd\<lparr>buf_head := 1, kmem := (kmem demo_kbd)(0x7000 := 65)\<rparr>)"
proof -
  have "kbd_getc (\<lambda>_. Ok) demo_kbd = Some (Ok (65, demo_kbd\<lparr>buf_head := 1\<rparr>))"
    by (subst kbd_getc.simps) (simp add: kbd_pop_def INPUT_CHAR_BUFFER_SIZE_def)
  then show ?thesis by (simp add: ps2_kbd_read_def)
qed


theorem kbd_read_terminates_witness:
  "\<exists>t. ps2_kbd_read (\<lambda>_. Ok) 0x7000 2 demo_kbd = Ok (2, t) \<and> kbd_items t = [] \<and> stored 0x7000 [65, 66] (kmem demo_kbd) (kmem t)"
  using kbd_read_terminates [OF demo_kbd_ok, of 2 "\<lambda>_. Ok" "0x7000"] by (simp add: demo_kbd_items)

end
