(* ===== verification/Devfs.thy ===== *)
theory Devfs
  imports Kbd Fs
begin

text \<open>
  The device files of \<open>kernel/src/vfs/devfs.c\<close> and \<open>vfs/chardev/chardev.c\<close>, and the dispatch on the file
  operations of an open file. A file is passed as its value, an offset pointer as the
  offset, and both are returned updated. \<open>/dev/mem\<close> reads and writes the direct map of
  physical memory, which is \<open>phys_mem\<close>.
\<close>

record devs = kbd +
  rng_state :: u64
  input_id_map :: "u8 list"
  input_device_list_start :: u64
  input_device_amount :: u16
  blkdev_id_map :: "u8 list"
  block_device_list_start :: u64
  block_device_amount :: u16

type_synonym 'a io = "(int \<times> u64 \<times> 'a devs_scheme) run"

section \<open>Common operations\<close>

definition rng_next :: "'a devs_scheme \<Rightarrow> u64 \<times> 'a devs_scheme" where
  "rng_next s =
     (let s = (if rng_state s = 0 then (case rdtsc s of (t, s) \<Rightarrow> s\<lparr>rng_state := t XOR 0x9E3779B97F4A7C15\<rparr>) else s);
          s = (case rdtsc s of (t, s) \<Rightarrow> s\<lparr>rng_state := rng_state s XOR t\<rparr>);
          x = rng_state s;
          x = x XOR push_bit 13 x;
          x = x XOR drop_bit 7 x;
          x = x XOR push_bit 17 x
      in (x * 0x2545F4914F6CDD1D, s\<lparr>rng_state := x\<rparr>))"

definition devfs_open :: "u64 \<Rightarrow> file_t \<Rightarrow> 'a kobj_scheme \<Rightarrow> (int \<times> file_t) run" where
  "devfs_open ip file s =
     (if ip = 0 then Ok (- E_INVAL, file)
      else
        bindr (get_inode ip s) (\<lambda>i.
          Ok (0, file\<lparr>f_inode := ip, f_pos := 0, f_ops := i_fop i, private_data := i_private i\<rparr>)))"

definition devfs_release :: "u64 \<Rightarrow> file_t \<Rightarrow> int \<times> file_t" where
  "devfs_release ip file = (0, file\<lparr>private_data := 0, f_ops := NoFops\<rparr>)"

definition devfs_discard_write :: "u64 \<Rightarrow> u64 \<Rightarrow> u64 \<Rightarrow> 'a devs_scheme \<Rightarrow> 'a io" where
  "devfs_discard_write buf count offset s =
     (if buf = 0 then Ok (- E_INVAL, offset, s) else Ok (sint count, offset + count, s))"

definition chardev_lseek :: "u64 \<Rightarrow> int \<Rightarrow> int" where
  "chardev_lseek offset origin = - E_SPIPE"

section \<open>The devices\<close>

definition devnull_read :: "u64 \<Rightarrow> u64 \<Rightarrow> u64 \<Rightarrow> 'a devs_scheme \<Rightarrow> 'a io" where
  "devnull_read buf count offset s = Ok (0, offset, s)"

definition devzero_read :: "u64 \<Rightarrow> u64 \<Rightarrow> u64 \<Rightarrow> 'a devs_scheme \<Rightarrow> 'a io" where
  "devzero_read buf count offset s =
     (if buf = 0 then Ok (- E_INVAL, offset, s)
      else Ok (sint count, offset + count, s\<lparr>kmem := memset (kmem s) buf 0 (unat count)\<rparr>))"

definition devfull_write :: "u64 \<Rightarrow> u64 \<Rightarrow> u64 \<Rightarrow> 'a devs_scheme \<Rightarrow> 'a io" where
  "devfull_write buf count offset s = (if buf = 0 then Ok (- E_INVAL, offset, s) else Ok (- E_NOSPC, offset, s))"

text \<open>The bytes of a word in memory order.\<close>

definition word_bytes :: "u64 \<Rightarrow> u8 list" where
  "word_bytes w = map (\<lambda>i. ucast (drop_bit (8 * i) w)) [0..<8]"

text \<open>Eight bytes at a time, and the rest from one more number.\<close>

function random_fill :: "u64 \<Rightarrow> nat \<Rightarrow> 'a devs_scheme \<Rightarrow> 'a devs_scheme" where
  "random_fill a n s =
     (if n = 0 then s
      else (case rng_next s of (r, s) \<Rightarrow>
        random_fill (a + 8) (n - 8) (s\<lparr>kmem := write_bytes (kmem s) a (take n (word_bytes r))\<rparr>)))"
  by pat_completeness auto
termination
  by (relation "measure (\<lambda>(a, n, s). n)") auto

declare random_fill.simps [simp del]

definition devrandom_read :: "u64 \<Rightarrow> u64 \<Rightarrow> u64 \<Rightarrow> 'a devs_scheme \<Rightarrow> 'a io" where
  "devrandom_read buf count offset s =
     (if buf = 0 then Ok (- E_INVAL, offset, s)
      else Ok (sint count, offset + count, random_fill buf (unat count) s))"

definition devmem_read :: "u64 \<Rightarrow> u64 \<Rightarrow> u64 \<Rightarrow> 'a devs_scheme \<Rightarrow> 'a io" where
  "devmem_read buf count offset s =
     (if buf = 0 then Ok (- E_INVAL, offset, s)
      else Ok (sint count, offset + count,
               s\<lparr>kmem := write_bytes (kmem s) buf (mem_bytes (phys_mem s) offset (unat count))\<rparr>))"

definition devmem_write :: "u64 \<Rightarrow> u64 \<Rightarrow> u64 \<Rightarrow> 'a devs_scheme \<Rightarrow> 'a io" where
  "devmem_write buf count offset s =
     (if buf = 0 then Ok (- E_INVAL, offset, s)
      else Ok (sint count, offset + count,
               s\<lparr>phys_mem := write_bytes (phys_mem s) offset (mem_bytes (kmem s) buf (unat count))\<rparr>))"

fun port_in :: "u64 \<Rightarrow> u64 \<Rightarrow> nat \<Rightarrow> 'a devs_scheme \<Rightarrow> 'a devs_scheme" where
  "port_in offset a 0 s = s"
| "port_in offset a (Suc n) s =
     (case inb (ucast offset) s of (v, s) \<Rightarrow> port_in (offset + 1) (a + 1) n (s\<lparr>kmem := (kmem s)(a := v)\<rparr>))"

fun port_out :: "u64 \<Rightarrow> u64 \<Rightarrow> nat \<Rightarrow> 'a devs_scheme \<Rightarrow> 'a devs_scheme" where
  "port_out offset a 0 s = s"
| "port_out offset a (Suc n) s = port_out (offset + 1) (a + 1) n (outb (ucast offset) (kmem s a) s)"

definition devport_read :: "u64 \<Rightarrow> u64 \<Rightarrow> u64 \<Rightarrow> 'a devs_scheme \<Rightarrow> 'a io" where
  "devport_read buf count offset s =
     (if buf = 0 then Ok (- E_INVAL, offset, s)
      else Ok (sint count, offset + count, port_in offset buf (unat count) s))"

definition devport_write :: "u64 \<Rightarrow> u64 \<Rightarrow> u64 \<Rightarrow> 'a devs_scheme \<Rightarrow> 'a io" where
  "devport_write buf count offset s =
     (if buf = 0 then Ok (- E_INVAL, offset, s)
      else Ok (sint count, offset + count, port_out offset buf (unat count) s))"

definition devtty_write :: "u64 \<Rightarrow> u64 \<Rightarrow> u64 \<Rightarrow> 'a devs_scheme \<Rightarrow> 'a io" where
  "devtty_write buf count offset s =
     (if buf = 0 then Ok (- E_INVAL, offset, s)
      else bindr (ktty_write buf count s) (\<lambda>s. Ok (sint count, offset + count, s)))"

definition devtty_read :: "u64 \<Rightarrow> u64 \<Rightarrow> u64 \<Rightarrow> 'a devs_scheme \<Rightarrow> 'a io" where
  "devtty_read buf count offset s = Ok (0, offset, s)"

section \<open>Input devices\<close>

text \<open>\<open>report\<close> is the argument of the keyboard handler, see theory \<open>Kbd\<close>.\<close>

type_synonym 'a report = "u8 \<Rightarrow> 'a devs_scheme \<Rightarrow> 'a devs_scheme run"

definition devfs_indev_read :: "'a report \<Rightarrow> file_t \<Rightarrow> u64 \<Rightarrow> u64 \<Rightarrow> u64 \<Rightarrow> 'a devs_scheme \<Rightarrow> 'a io" where
  "devfs_indev_read report file buf count offset s =
     (if private_data file = 0 then Ok (- E_INVAL, offset, s)
      else
        bindr (get_input (private_data file) s) (\<lambda>idev.
          case in_ops idev of NoInputOps \<Rightarrow> Ok (- E_INVAL, offset, s)
          | ps2_kbd_ops \<Rightarrow>
              bindr (ps2_kbd_read report buf count s) (\<lambda>(res, s).
                Ok (res, if res > 0 then offset + of_int res else offset, s))))"

text \<open>The write operation of the keyboard is \<open>vfs_inv_func\<close>.\<close>

definition devfs_indev_write :: "file_t \<Rightarrow> u64 \<Rightarrow> u64 \<Rightarrow> u64 \<Rightarrow> 'a devs_scheme \<Rightarrow> 'a io" where
  "devfs_indev_write file buf count offset s =
     (if private_data file = 0 then Ok (- E_INVAL, offset, s)
      else
        bindr (get_input (private_data file) s) (\<lambda>idev.
          case in_ops idev of NoInputOps \<Rightarrow> Ok (- E_INVAL, offset, s)
          | ps2_kbd_ops \<Rightarrow> Ok (vfs_inv_func, offset, s)))"

section \<open>Dispatch\<close>

text \<open>
  A call through \<open>f_ops\<close>. Each has all five operations, so only a file without operations
  follows a NULL pointer.
\<close>

definition call_open :: "fops \<Rightarrow> u64 \<Rightarrow> file_t \<Rightarrow> 'a kobj_scheme \<Rightarrow> (int \<times> file_t) run" where
  "call_open op ip file s =
     (case op of NoFops \<Rightarrow> Stop BadPointer | ram_file_fops \<Rightarrow> ramfile_open ip file s | _ \<Rightarrow> devfs_open ip file s)"

definition call_release :: "fops \<Rightarrow> u64 \<Rightarrow> file_t \<Rightarrow> (int \<times> file_t) run" where
  "call_release op ip file =
     (case op of NoFops \<Rightarrow> Stop BadPointer | ram_file_fops \<Rightarrow> Ok (ramfile_release ip file) | _ \<Rightarrow> Ok (devfs_release ip file))"

definition call_lseek :: "fops \<Rightarrow> file_t \<Rightarrow> u64 \<Rightarrow> int \<Rightarrow> 'a kobj_scheme \<Rightarrow> (int \<times> file_t) run" where
  "call_lseek op file offset origin s =
     (case op of NoFops \<Rightarrow> Stop BadPointer | ram_file_fops \<Rightarrow> ramfile_lseek file offset origin s
      | _ \<Rightarrow> Ok (chardev_lseek offset origin, file))"

definition call_read :: "'a report \<Rightarrow> fops \<Rightarrow> file_t \<Rightarrow> u64 \<Rightarrow> u64 \<Rightarrow> u64 \<Rightarrow> 'a devs_scheme \<Rightarrow> 'a io" where
  "call_read report op file buf count offset s =
     (case op of NoFops \<Rightarrow> Stop BadPointer
      | ram_file_fops \<Rightarrow> ramfile_read file buf count offset s
      | devnull_fops \<Rightarrow> devnull_read buf count offset s
      | devzero_fops \<Rightarrow> devzero_read buf count offset s
      | devfull_fops \<Rightarrow> devzero_read buf count offset s
      | devrandom_fops \<Rightarrow> devrandom_read buf count offset s
      | devmem_fops \<Rightarrow> devmem_read buf count offset s
      | devport_fops \<Rightarrow> devport_read buf count offset s
      | devtty_fops \<Rightarrow> devtty_read buf count offset s
      | devfs_indev_fops \<Rightarrow> devfs_indev_read report file buf count offset s)"

definition call_write :: "fops \<Rightarrow> file_t \<Rightarrow> u64 \<Rightarrow> u64 \<Rightarrow> u64 \<Rightarrow> 'a devs_scheme \<Rightarrow> 'a io" where
  "call_write op file buf count offset s =
     (case op of NoFops \<Rightarrow> Stop BadPointer
      | ram_file_fops \<Rightarrow> ramfile_write file buf count offset s
      | devnull_fops \<Rightarrow> devfs_discard_write buf count offset s
      | devzero_fops \<Rightarrow> devfs_discard_write buf count offset s
      | devfull_fops \<Rightarrow> devfull_write buf count offset s
      | devrandom_fops \<Rightarrow> devfs_discard_write buf count offset s
      | devmem_fops \<Rightarrow> devmem_write buf count offset s
      | devport_fops \<Rightarrow> devport_write buf count offset s
      | devtty_fops \<Rightarrow> devtty_write buf count offset s
      | devfs_indev_fops \<Rightarrow> devfs_indev_write file buf count offset s)"

section \<open>Registration\<close>

definition k_devfs_create :: "string \<Rightarrow> fops \<Rightarrow> u16 \<Rightarrow> 'a kobj_scheme \<Rightarrow> (int \<times> 'a kobj_scheme) run" where
  "k_devfs_create pathname fops mode s =
     (if fops = NoFops then Ok (- E_INVAL, s)
      else
        bindr (get_dentry (root_dentry s) s) (\<lambda>rd.
        bindr (kpath_create_force (d_inode rd) pathname mode False s) (\<lambda>(res, s).
          if res < 0 then Ok (res, s)
          else
            bindr (kpath_lookup (d_inode rd) pathname s) (\<lambda>(dentry, s).
              if dentry = 0 then Ok (- E_NOENT, s)
              else
                bindr (get_dentry dentry s) (\<lambda>d.
                  if d_inode d = 0 then Ok (- E_NOENT, s)
                  else
                    bindr (upd_inode (d_inode d) (\<lambda>i. i\<lparr>i_size := 0, i_private := 0, i_fop := fops, i_op := NoIops\<rparr>) s) (\<lambda>s.
                      Ok (0, s)))))))"

text \<open>The first failure ends the list.\<close>

fun devfs_create_all :: "(string \<times> fops \<times> u16) list \<Rightarrow> 'a kobj_scheme \<Rightarrow> (int \<times> 'a kobj_scheme) run" where
  "devfs_create_all [] s = Ok (0, s)"
| "devfs_create_all ((p, f, m) # ds) s =
     bindr (k_devfs_create p f m s) (\<lambda>(res, s). if res < 0 then Ok (res, s) else devfs_create_all ds s)"

definition devfs_init :: "'a kobj_scheme \<Rightarrow> (int \<times> 'a kobj_scheme) run" where
  "devfs_init s =
     bindr (get_dentry (root_dentry s) s) (\<lambda>rd.
     bindr (kpath_mkdir (d_inode rd) ''/dev'' 0x1ED s) (\<lambda>(res, s).
       if res < 0 then Ok (res, s)
       else devfs_create_all
         [(''/dev/null'', devnull_fops, 0x1B6), (''/dev/zero'', devzero_fops, 0x1B6), (''/dev/full'', devfull_fops, 0x1B6),
          (''/dev/random'', devrandom_fops, 0x1B6), (''/dev/urandom'', devrandom_fops, 0x1B6),
          (''/dev/mem'', devmem_fops, 0x180), (''/dev/port'', devport_fops, 0x180),
          (''/dev/tty'', devtty_fops, 0x1B6 OR S_IFCHR)] s))"

definition devfs_register_input :: "u64 \<Rightarrow> 'a kobj_scheme \<Rightarrow> (int \<times> 'a kobj_scheme) run" where
  "devfs_register_input idev s =
     (if idev = 0 then Ok (- E_INVAL, s)
      else
        bindr (get_dentry (root_dentry s) s) (\<lambda>rd.
        bindr (kpath_mkdir_force (d_inode rd) ''/dev/input'' 0x1ED s) (\<lambda>(res, s).
          if res < 0 then Ok (res, s)
          else
            bindr (get_input idev s) (\<lambda>dev.
              let pathname = ''/dev/input/input'' @ dec_int (sint (in_id dev))
              in bindr (k_devfs_create pathname devfs_indev_fops 0x1A0 s) (\<lambda>(res, s).
                   if res < 0 then Ok (res, s)
                   else
                     bindr (kpath_lookup (d_inode rd) pathname s) (\<lambda>(dentry, s).
                       if dentry = 0 then Ok (- E_NOENT, s)
                       else
                         bindr (get_dentry dentry s) (\<lambda>d.
                           if d_inode d = 0 then Ok (- E_NOENT, s)
                           else bindr (upd_inode (d_inode d) (\<lambda>i. i\<lparr>i_private := idev\<rparr>) s) (\<lambda>s. Ok (0, s)))))))))"

end
