(* ===== verification/Devices.thy ===== *)
theory Devices
  imports Devfs
begin

text \<open>
  The registries of input devices (\<open>kernel/src/input/input.c\<close>) and block devices (\<open>kernel/src/block/blkdev.c\<close>)
  with their entries in \<open>/sys\<close> (\<open>kernel/src/vfs/sysfs.c\<close>) and \<open>/dev\<close>, the scan of a partition table
  (\<open>kernel/src/block/partitions/mbr_partition.c\<close>), and the start-up of the keyboard driver. A pointer to
  the list node of a device is the address of the device. No block driver is part of
  the sources, so the \<open>read\<close> operation of a block device is an argument.
\<close>

section \<open>Entries in /sys\<close>

text \<open>\<open>sprintf\<close> into an array of \<open>n\<close> bytes on the stack.\<close>

definition sprintf_into :: "nat \<Rightarrow> string \<Rightarrow> string run" where
  "sprintf_into n cs = (if length cs < n then Ok cs else Stop OutOfBounds)"

definition root_inode :: "'a kobj_scheme \<Rightarrow> u64 run" where
  "root_inode s = bindr (get_dentry (root_dentry s) s) (\<lambda>rd. Ok (d_inode rd))"

definition sysfs_mkdirs :: "string list \<Rightarrow> 'a kobj_scheme \<Rightarrow> 'a kobj_scheme run" where
  "sysfs_mkdirs ps s =
     foreach (\<lambda>p s. bindr (root_inode s) (\<lambda>r. bindr (kpath_mkdir r p 0x1ED s) (\<lambda>(res, s). Ok s))) ps s"

text \<open>The function has no \<open>return\<close> statement; the caller does not use the result.\<close>

definition sysfs_init :: "'a kobj_scheme \<Rightarrow> 'a kobj_scheme run" where
  "sysfs_init s = sysfs_mkdirs [''/sys'', ''/sys/devices'', ''/sys/class'', ''/sys/class/block'', ''/sys/class/input''] s"

text \<open>
  One attribute: a block of \<open>sz\<close> bytes with the text, and a file of \<open>len\<close> bytes that shows it.
  The result of the creation is ignored.
\<close>

definition sysfs_attr :: "string \<Rightarrow> u64 \<Rightarrow> string \<Rightarrow> u64 \<Rightarrow> 'a kobj_scheme \<Rightarrow> (bool \<times> 'a kobj_scheme) run" where
  "sysfs_attr pathname sz cs len s =
     bindr (sprintf_into 96 pathname) (\<lambda>pathname.
     bindr (kmalloc sz (Buf sz) s) (\<lambda>(buf, s).
       if buf = 0 then Ok (False, s)
       else if of_nat (length cs) \<ge> sz then Stop OutOfBounds
       else
         (let s = s\<lparr>kmem := write_bytes (kmem s) buf (bytes cs @ [0])\<rparr>
          in bindr (k_ramfile_create pathname buf len (S_IFREG OR 0x1E4) True False s) (\<lambda>(res, s). Ok (True, s)))))"

definition sysfs_register_block :: "u64 \<Rightarrow> 'a kobj_scheme \<Rightarrow> (int \<times> 'a kobj_scheme) run" where
  "sysfs_register_block blkdev s =
     (if blkdev = 0 then Ok (- E_INVAL, s)
      else
        bindr (get_block blkdev s) (\<lambda>dev.
        bindr (sprintf_into 64 (''/sys/class/block/'' @ bd_name dev)) (\<lambda>dir.
        bindr (root_inode s) (\<lambda>r.
        bindr (kpath_mkdir r dir 0x1ED s) (\<lambda>(res, s).
          if res < 0 then Ok (res, s)
          else
            (let len = of_nat (length (bd_name dev)) + 2
             in bindr (sysfs_attr (dir @ ''/name'') len (bd_name dev @ [CHR 0x0A]) len s) (\<lambda>(ok, s).
                  if \<not> ok then Ok (- E_NOMEM, s)
                  else
                    (let t = dec (unat (bd_size dev)) @ [CHR 0x0A]
                     in bindr (sysfs_attr (dir @ ''/size'') 32 t (of_nat (length t)) s) (\<lambda>(ok, s).
                          if \<not> ok then Ok (- E_NOMEM, s)
                          else
                            (let t = dec (unat (bd_block_size dev)) @ [CHR 0x0A]
                             in bindr (sysfs_attr (dir @ ''/block_size'') 32 t (of_nat (length t)) s) (\<lambda>(ok, s).
                                  if \<not> ok then Ok (- E_NOMEM, s) else Ok (0, s))))))))))))"

definition sysfs_register_input :: "u64 \<Rightarrow> 'a kobj_scheme \<Rightarrow> (int \<times> 'a kobj_scheme) run" where
  "sysfs_register_input idev s =
     (if idev = 0 then Ok (- E_INVAL, s)
      else
        bindr (get_input idev s) (\<lambda>dev.
        bindr (sprintf_into 64 (''/sys/class/input/input'' @ dec (unat (in_id dev)))) (\<lambda>dir.
        bindr (root_inode s) (\<lambda>r.
        bindr (kpath_mkdir r dir 0x1ED s) (\<lambda>(res, s).
          if res < 0 then Ok (res, s)
          else
            (let len = of_nat (length (in_name dev)) + 2
             in bindr (sysfs_attr (dir @ ''/name'') len (in_name dev @ [CHR 0x0A]) len s) (\<lambda>(ok, s).
                  if \<not> ok then Ok (- E_NOMEM, s)
                  else
                    (let t = dec_int (sint (in_id dev)) @ [CHR 0x0A]
                     in bindr (sysfs_attr (dir @ ''/id'') 32 t (of_nat (length t)) s) (\<lambda>(ok, s).
                          if \<not> ok then Ok (- E_NOMEM, s) else Ok (0, s))))))))))"

section \<open>Input devices\<close>

definition SIZEOF_INPUT_DEVICE :: u64 where "SIZEOF_INPUT_DEVICE = 48"

definition sys_error :: "string \<Rightarrow> 'a logger_scheme \<Rightarrow> 'a logger_scheme run" where
  "sys_error cs s =
     sys_serial_vlogf ([91, 27] @ bytes ''[31mERROR'' @ [27] @ bytes ''[0m] '' @ bytes cs) None None 0 s"

definition sys_info :: "string \<Rightarrow> 'a logger_scheme \<Rightarrow> 'a logger_scheme run" where
  "sys_info cs s =
     sys_serial_vlogf ([91, 27] @ bytes ''[36mINFO'' @ [27] @ bytes ''[0m] '' @ bytes cs) None None 0 s"

text \<open>
  The first device points back to itself; \<open>prev\<close> of the first device is always the last one.
\<close>

definition input_list_add :: "u64 \<Rightarrow> 'a devs_scheme \<Rightarrow> (bool \<times> 'a devs_scheme) run" where
  "input_list_add idev s =
     (if input_device_list_start s = 0 then
        bindr (upd_input idev (\<lambda>d. d\<lparr>in_next := 0, in_prev := idev\<rparr>) (s\<lparr>input_device_list_start := idev\<rparr>)) (\<lambda>s.
          Ok (True, s\<lparr>input_device_amount := input_device_amount s + 1\<rparr>))
      else
        bindr (get_input (input_device_list_start s) s) (\<lambda>first.
          let last_dev = in_prev first
          in if last_dev = 0 then Ok (False, s)
             else
               bindr (upd_input last_dev (\<lambda>d. d\<lparr>in_next := idev\<rparr>) s) (\<lambda>s.
               bindr (upd_input idev (\<lambda>d. d\<lparr>in_prev := last_dev, in_next := 0\<rparr>) s) (\<lambda>s.
               bindr (upd_input (input_device_list_start s) (\<lambda>d. d\<lparr>in_prev := idev\<rparr>) s) (\<lambda>s.
                 Ok (True, s\<lparr>input_device_amount := input_device_amount s + 1\<rparr>))))))"

definition register_input_device :: "string \<Rightarrow> inops \<Rightarrow> u64 \<Rightarrow> 'a devs_scheme \<Rightarrow> (u64 \<times> 'a devs_scheme) run" where
  "register_input_device name ops priv s =
     bindr (kmalloc SIZEOF_INPUT_DEVICE (InputDev \<lparr>in_id = 0, in_name = name, in_private = priv, in_ops = ops,
              in_next = 0, in_prev = 0\<rparr>) s) (\<lambda>(idev, s).
       if idev = 0 then Ok (0, s)
       else
         bindr (bitmap_alloc_1_first (input_id_map s) 16) (\<lambda>(n, bm).
         bindr (upd_input idev (\<lambda>d. d\<lparr>in_id := ucast n, in_next := junk s (idev + 32), in_prev := junk s (idev + 40)\<rparr>)
                  (s\<lparr>input_id_map := bm\<rparr>)) (\<lambda>s.
         bindr (input_list_add idev s) (\<lambda>(ok, s).
           if \<not> ok then Ok (0, s)
           else
             bindr (sysfs_register_input idev s) (\<lambda>(res, s).
               if res \<noteq> 0
               then bindr (sys_error (''sysfs input registration failed ('' @ dec_int res @ '')'' @ [CHR 0x0A]) s) (\<lambda>s. Ok (0, s))
               else
                 bindr (devfs_register_input idev s) (\<lambda>(res, s).
                   if res \<noteq> 0
                   then bindr (sys_error (''devfs input registration failed ('' @ dec_int res @ '')'' @ [CHR 0x0A]) s) (\<lambda>s. Ok (0, s))
                   else Ok (idev, s)))))))"

definition unregister_input_device :: "u64 \<Rightarrow> 'a devs_scheme \<Rightarrow> (int \<times> 'a devs_scheme) run" where
  "unregister_input_device idev s =
     (if idev = 0 then Ok (- E_INVAL, s)
      else
        bindr (get_input idev s) (\<lambda>dev.
        bindr (if idev = input_device_list_start s then
                 (let s = s\<lparr>input_device_list_start := in_next dev\<rparr>
                  in if in_next dev \<noteq> 0 then upd_input (in_next dev) (\<lambda>d. d\<lparr>in_prev := in_prev dev\<rparr>) s else Ok s)
               else
                 bindr (upd_input (in_prev dev) (\<lambda>d. d\<lparr>in_next := in_next dev\<rparr>) s) (\<lambda>s.
                   if in_next dev = 0 then upd_input (input_device_list_start s) (\<lambda>d. d\<lparr>in_prev := in_prev dev\<rparr>) s
                   else upd_input (in_next dev) (\<lambda>d. d\<lparr>in_prev := in_prev dev\<rparr>) s)) (\<lambda>s.
        bindr (helpers_bitmap_set (input_id_map s) (scast (in_id dev)) False) (\<lambda>bm.
        bindr (kfree idev (s\<lparr>input_id_map := bm\<rparr>)) (\<lambda>s. Ok (0, s))))))"

definition get_input_device_amount :: "'a devs_scheme \<Rightarrow> int" where
  "get_input_device_amount s = sint (input_device_amount s)"

section \<open>Partitions\<close>

text \<open>The number of sectors of entry \<open>i\<close> of the partition table in the boot sector at \<open>mbr\<close>.\<close>

definition mbr_total_sectors :: "mem \<Rightarrow> u64 \<Rightarrow> nat \<Rightarrow> u32" where
  "mbr_total_sectors m mbr i =
     (let a = mbr + 446 + 16 * of_nat i + 12
      in ucast (m a) OR push_bit 8 (ucast (m (a + 1))) OR push_bit 16 (ucast (m (a + 2))) OR push_bit 24 (ucast (m (a + 3))))"

type_synonym 'a blk_read = "u64 \<Rightarrow> u64 \<Rightarrow> u64 \<Rightarrow> u64 \<Rightarrow> 'a devs_scheme \<Rightarrow> (int \<times> 'a devs_scheme) run"

text \<open>\<open>meta_buf\<close> is the address of the array on the stack that the new file keeps pointing to.\<close>

definition mbr_partition :: "u64 \<Rightarrow> block_device \<Rightarrow> u64 \<Rightarrow> nat \<Rightarrow> 'a devs_scheme \<Rightarrow> 'a devs_scheme run" where
  "mbr_partition meta_buf dev mbr i s =
     (let sectors = mbr_total_sectors (kmem s) mbr i
      in if sectors = 0 then Ok s
         else
           bindr (sprintf_into 128 (''/sys/class/block/'' @ bd_name dev @ ''/'' @ bd_name dev @ ''p'' @ dec (i + 1))) (\<lambda>p.
           bindr (root_inode s) (\<lambda>r.
           bindr (kpath_create_force r p (S_IFBLK OR 0x1B0) True s) (\<lambda>(res, s).
           bindr (sprintf_into 160 (p @ ''/size'')) (\<lambda>mp.
             let t = dec (unat sectors) @ [CHR 0x0A];
                 s = s\<lparr>kmem := write_bytes (kmem s) meta_buf (bytes t @ [0])\<rparr>
             in bindr (k_ramfile_create mp meta_buf (of_nat (length t) + 1) (S_IFREG OR 0x124) True False s) (\<lambda>(res, s).
                  Ok s))))))"

definition scan_disk_mbr_vfs :: "'a blk_read \<Rightarrow> u64 \<Rightarrow> u64 \<Rightarrow> 'a devs_scheme \<Rightarrow> (int \<times> 'a devs_scheme) run" where
  "scan_disk_mbr_vfs blk_read meta_buf blkdev s =
     (if blkdev = 0 then Ok (- E_INVAL, s)
      else
        bindr (kmalloc 512 (Buf 512) s) (\<lambda>(mbr, s).
          if mbr = 0 then Ok (- E_NOMEM, s)
          else
            bindr (blk_read blkdev mbr 512 0 (s\<lparr>kmem := memset (kmem s) mbr 0 512\<rparr>)) (\<lambda>(ret, s).
              if ret \<noteq> 512 then Ok (- E_IO, s)
              else
                bindr (get_block blkdev s) (\<lambda>dev.
                bindr (foreach (mbr_partition meta_buf dev mbr) [0..<4] s) (\<lambda>s. Ok (0, s))))))"

section \<open>Block devices\<close>

definition SIZEOF_BLOCK_DEVICE :: u64 where "SIZEOF_BLOCK_DEVICE = 64"

definition block_list_add :: "u64 \<Rightarrow> 'a devs_scheme \<Rightarrow> (bool \<times> 'a devs_scheme) run" where
  "block_list_add blkdev s =
     (if block_device_list_start s = 0 then
        bindr (upd_block blkdev (\<lambda>d. d\<lparr>bd_next := 0, bd_prev := blkdev\<rparr>) (s\<lparr>block_device_list_start := blkdev\<rparr>)) (\<lambda>s.
          Ok (True, s\<lparr>block_device_amount := block_device_amount s + 1\<rparr>))
      else
        bindr (get_block (block_device_list_start s) s) (\<lambda>first.
          let end_entry = bd_prev first
          in if end_entry = 0 then Ok (False, s)
             else
               bindr (upd_block end_entry (\<lambda>d. d\<lparr>bd_next := blkdev\<rparr>) s) (\<lambda>s.
               bindr (upd_block blkdev (\<lambda>d. d\<lparr>bd_prev := end_entry, bd_next := 0\<rparr>) s) (\<lambda>s.
               bindr (upd_block (block_device_list_start s) (\<lambda>d. d\<lparr>bd_prev := blkdev\<rparr>) s) (\<lambda>s.
                 Ok (True, s\<lparr>block_device_amount := block_device_amount s + 1\<rparr>))))))"

definition register_block_device ::
  "'a blk_read \<Rightarrow> u64 \<Rightarrow> string \<Rightarrow> u64 \<Rightarrow> u64 \<Rightarrow> u64 \<Rightarrow> u64 \<Rightarrow> 'a devs_scheme \<Rightarrow> (u64 \<times> 'a devs_scheme) run" where
  "register_block_device blk_read meta_buf name sz block_size ops priv s =
     bindr (kmalloc SIZEOF_BLOCK_DEVICE (BlockDev \<lparr>bd_id = 0, bd_name = name, bd_private = priv, bd_size = sz,
              bd_block_size = block_size, bd_ops = ops, bd_next = 0, bd_prev = 0\<rparr>) s) (\<lambda>(blkdev, s).
       if blkdev = 0 then Ok (0, s)
       else
         bindr (wbitmap_alloc_1_first (blkdev_id_map s) 16) (\<lambda>(n, bm).
         bindr (upd_block blkdev (\<lambda>d. d\<lparr>bd_id := ucast n, bd_next := junk s (blkdev + 48), bd_prev := junk s (blkdev + 56)\<rparr>)
                  (s\<lparr>blkdev_id_map := bm\<rparr>)) (\<lambda>s.
         bindr (block_list_add blkdev s) (\<lambda>(ok, s).
           if \<not> ok then Ok (0, s)
           else
             bindr (kmalloc (20 + of_nat (length name)) (Str (''/sys/devices/block/'' @ name)) s) (\<lambda>(tmpbuff, s).
               if tmpbuff = 0 then Ok (0, s)
               else
                 bindr (root_inode s) (\<lambda>r.
                 bindr (kpath_create_force r (''/sys/devices/block/'' @ name) (S_IFBLK OR 0x1B0) False s) (\<lambda>(res, s).
                 bindr (sysfs_register_block blkdev s) (\<lambda>(res, s).
                 bindr (scan_disk_mbr_vfs blk_read meta_buf blkdev s) (\<lambda>(res, s). Ok (blkdev, s))))))))))"

definition unregister_block_device :: "u64 \<Rightarrow> 'a devs_scheme \<Rightarrow> (int \<times> 'a devs_scheme) run" where
  "unregister_block_device blkdev s =
     (if blkdev = 0 then Ok (- 1, s)
      else
        bindr (get_block blkdev s) (\<lambda>dev.
        bindr (if blkdev = block_device_list_start s then
                 (let s = s\<lparr>block_device_list_start := bd_next dev\<rparr>
                  in if bd_next dev \<noteq> 0 then upd_block (bd_next dev) (\<lambda>d. d\<lparr>bd_prev := bd_prev dev\<rparr>) s else Ok s)
               else
                 bindr (upd_block (bd_prev dev) (\<lambda>d. d\<lparr>bd_next := bd_next dev\<rparr>) s) (\<lambda>s.
                   if bd_next dev = 0 then upd_block (block_device_list_start s) (\<lambda>d. d\<lparr>bd_prev := bd_prev dev\<rparr>) s
                   else upd_block (bd_next dev) (\<lambda>d. d\<lparr>bd_prev := bd_prev dev\<rparr>) s)) (\<lambda>s.
        bindr (helpers_bitmap_set (blkdev_id_map s) (scast (bd_id dev)) False) (\<lambda>bm.
        bindr (kfree blkdev (s\<lparr>blkdev_id_map := bm\<rparr>)) (\<lambda>s. Ok (0, s))))))"

partial_function (option) find_block :: "u64 \<Rightarrow> u32 \<Rightarrow> 'a devs_scheme \<Rightarrow> u64 run option" where
  "find_block cur n s =
     (if cur = 0 then Some (Ok 0)
      else case get_block cur s of Stop c \<Rightarrow> Some (Stop c)
        | Ok dev \<Rightarrow> if bd_id dev = n then Some (Ok cur) else find_block (bd_next dev) n s)"

definition get_block_device :: "int \<Rightarrow> 'a devs_scheme \<Rightarrow> u64 run" where
  "get_block_device n s =
     (if n < 0 then Ok 0
      else case find_block (block_device_list_start s) (of_int n) s of None \<Rightarrow> Stop Hang | Some r \<Rightarrow> r)"

definition get_block_device_amount :: "'a devs_scheme \<Rightarrow> int" where
  "get_block_device_amount s = sint (block_device_amount s)"

section \<open>The keyboard\<close>

text \<open>The wait for the acknowledgement.\<close>

partial_function (option) ps2_wait :: "'a hw_scheme \<Rightarrow> 'a hw_scheme option" where
  "ps2_wait s = (case inb 0x64 s of (v, s) \<Rightarrow> if v AND 1 = 0 then ps2_wait s else Some s)"

definition hex_digit :: "nat \<Rightarrow> char" where
  "hex_digit d = (if d < 10 then digit d else char_of (87 + d))"

definition hex02 :: "u8 \<Rightarrow> string" where
  "hex02 b = [hex_digit (unat b div 16), hex_digit (unat b mod 16)]"

definition ps2_kbd_init :: "u64 \<Rightarrow> 'a devs_scheme \<Rightarrow> (int \<times> 'a devs_scheme) run" where
  "ps2_kbd_init handler s =
     bindr (idt_set_allocated 33 s) (\<lambda>s.
       let (res, s) = setup_interrupt_vector 33 handler 0 s;
           s = outb 0x60 0xF4 (outb 0x64 0xAE s)
       in case ps2_wait s of None \<Rightarrow> Stop Hang
          | Some s \<Rightarrow>
              (case inb 0x60 s of (ack, s) \<Rightarrow>
                 bindr (sys_info (''ACK: '' @ hex02 ack @ [CHR 0x0A]) s) (\<lambda>s.
                 bindr (register_input_device ''PS/2 Keyboard'' ps2_kbd_ops 0 s) (\<lambda>(kbd_dev, s).
                   if kbd_dev = 0
                   then bindr (sys_error (''couldn'' @ [CHR 0x27] @ ''t register ps2 in input registery'' @ [CHR 0x0A]) s)
                          (\<lambda>s. Ok (- 1, s))
                   else Ok (0, s)))))"

end
