(* ===== verification/Sched.thy ===== *)
theory Sched
  imports Devices
begin

text \<open>
  The scheduler of \<open>kernel/src/arch/x86_64/scheduler/scheduler.c\<close> and \<open>scheduler.h\<close>: identifiers,
  the lists of processes and threads, the choice of the next thread, and the end of
  threads and processes. The four families of intrusive lists are \<open>t_links\<close> (threads of a
  process), \<open>r_links\<close> (threads the scheduler visits), \<open>p_links\<close> (all processes) and
  \<open>s_links\<close> (children of a process); the two global heads have address 0. The state also
  has the open files of the processes, sixty-four in every physical page of a file table,
  and the floating-point registers of the processor.
\<close>

record sched = devs +
  t_links :: hlists
  r_links :: hlists
  p_links :: hlists
  s_links :: hlists
  kernel_proc :: u64
  current_thread :: u64
  tid_bitmap :: "u64 list"
  tid_bitmap_curr :: nat
  tid0_used :: bool
  id_table :: "nat \<Rightarrow> u64"
  scheduler_lock :: u32
  process_list_depth :: u16
  fpu_enabled :: bool
  fpu_regs :: "u8 list"
  ftab :: "u64 \<Rightarrow> file_t list"

definition MAX_TID :: nat where "MAX_TID = 16384"
definition TCB_STATE_RUNNABLE :: u16 where "TCB_STATE_RUNNABLE = 1"
definition TCB_STATE_STARTING_UP :: u16 where "TCB_STATE_STARTING_UP = 2"
definition TCB_STATE_ZOMBIE :: u16 where "TCB_STATE_ZOMBIE = 4"
definition TCB_STATE_DEAD :: u16 where "TCB_STATE_DEAD = 8"
definition PCB_STATE_ZOMBIE :: u16 where "PCB_STATE_ZOMBIE = 4"
definition DEFAULT_STACK_PAGE_AMOUNT :: nat where "DEFAULT_STACK_PAGE_AMOUNT = 128"
definition DEFAULT_STACK_PAGE_BYTES :: u64 where "DEFAULT_STACK_PAGE_BYTES = 0x80000"
definition SIZEOF_PCB :: u64 where "SIZEOF_PCB = 680"
definition SIZEOF_TCB :: u64 where "SIZEOF_TCB = 832"
definition MSR_FS_BASE :: u32 where "MSR_FS_BASE = 0xC0000100"
definition MSR_GS_BASE :: u32 where "MSR_GS_BASE = 0xC0000101"
definition SCHED_HEAD :: u64 where "SCHED_HEAD = 0"

definition ADDR_TO_PAGE :: "u64 \<Rightarrow> u64" where
  "ADDR_TO_PAGE a = a div PAGE_SIZE_4K"

section \<open>Messages\<close>

definition sys_log :: "string \<Rightarrow> 'a logger_scheme \<Rightarrow> 'a logger_scheme run" where
  "sys_log cs s = sys_serial_vlogf (bytes cs) None None 0 s"

definition sys_success :: "string \<Rightarrow> 'a logger_scheme \<Rightarrow> 'a logger_scheme run" where
  "sys_success cs s =
     sys_serial_vlogf ([91, 27] @ bytes ''[32mOK'' @ [27] @ bytes ''[0m] '' @ bytes cs) None None 0 s"

definition sys_debug :: "string \<Rightarrow> 'a logger_scheme \<Rightarrow> 'a logger_scheme run" where
  "sys_debug cs s =
     sys_serial_vlogf ([91, 27] @ bytes ''[90mDEBUG'' @ [27] @ bytes ''[0m] '' @ [27] @ bytes ''[90m'' @ bytes cs @ esc_reset)
       None None 0 s"

definition quoted :: "string \<Rightarrow> string" where "quoted cs = [CHR 0x27] @ cs @ [CHR 0x27]"

definition newline :: string where "newline = [CHR 0x0A]"

section \<open>Locking\<close>

definition sched_lock_acquire :: "'a sched_scheme \<Rightarrow> (u64 \<times> 'a sched_scheme) run" where
  "sched_lock_acquire s =
     bindr (spin_lock_irqsave (scheduler_lock s) s) (\<lambda>(f, l, s). Ok (f, s\<lparr>scheduler_lock := l\<rparr>))"

definition sched_lock_release :: "u64 \<Rightarrow> 'a sched_scheme \<Rightarrow> 'a sched_scheme" where
  "sched_lock_release f s = (let (l, s) = spin_unlock_irqrestore f s in s\<lparr>scheduler_lock := l\<rparr>)"

section \<open>Identifiers\<close>

text \<open>
  The search starts at word \<open>curr\<close> with its low six bits cleared and, in every word, at bit
  \<open>curr mod 64\<close>; \<open>tid_bitmap_curr\<close> is never changed from its initial value 0.
\<close>

fun tid_scan :: "bool \<Rightarrow> nat \<Rightarrow> u64 list \<Rightarrow> nat \<Rightarrow> nat option" where
  "tid_scan used j0 [] i = None"
| "tid_scan used j0 (w # ws) i =
     (if w = 0 then tid_scan used j0 ws (Suc i)
      else case find (\<lambda>j. \<not> (used \<and> i = 0 \<and> j = 0) \<and> bit w j) [j0..<64] of
          Some j \<Rightarrow> Some (64 * i + j)
        | None \<Rightarrow> tid_scan used j0 ws (Suc i))"

definition get_unused_tid :: "'a sched_scheme \<Rightarrow> (int \<times> 'a sched_scheme) run" where
  "get_unused_tid s =
     bindr (sched_lock_acquire s) (\<lambda>(irq_flags, s).
       let i0 = tid_bitmap_curr s - tid_bitmap_curr s mod 64
       in case tid_scan (tid0_used s) (tid_bitmap_curr s mod 64) (drop i0 (tid_bitmap s)) i0 of
            None \<Rightarrow> Ok (- 1, sched_lock_release irq_flags s)
          | Some t \<Rightarrow>
              Ok (int t, sched_lock_release irq_flags
                (s\<lparr>tid_bitmap := (tid_bitmap s)[t div 64 := tid_bitmap s ! (t div 64) AND NOT (2 ^ (t mod 64))]\<rparr>)))"

text \<open>A negative number above \<open>-64\<close> would shift by more than the width of a word.\<close>

definition free_tid :: "16 word \<Rightarrow> 'a sched_scheme \<Rightarrow> 'a sched_scheme run" where
  "free_tid tid s =
     (let t = sint tid
      in if t \<le> - 64 \<or> t div 64 \<ge> 256 then Ok s
         else if t < 0 then Stop OutOfBounds
         else
           bindr (sched_lock_acquire s) (\<lambda>(irq_flags, s).
             let i = nat (t div 64)
             in Ok (sched_lock_release irq_flags
                  (s\<lparr>tid_bitmap := (tid_bitmap s)[i := tid_bitmap s ! i OR 2 ^ nat (t mod 64)]\<rparr>))))"

definition ID_TAG_MASK :: u64 where "ID_TAG_MASK = 0x8000000000000000"

datatype id_kind = ID_NONE | ID_PROC | ID_THREAD

definition id_table_set_proc :: "nat \<Rightarrow> u64 \<Rightarrow> 'a sched_scheme \<Rightarrow> 'a sched_scheme run" where
  "id_table_set_proc pid proc s =
     (if pid < MAX_TID then Ok (s\<lparr>id_table := (id_table s)(pid := proc AND NOT ID_TAG_MASK)\<rparr>) else Stop OutOfBounds)"

definition id_table_set_thread :: "nat \<Rightarrow> u64 \<Rightarrow> 'a sched_scheme \<Rightarrow> 'a sched_scheme run" where
  "id_table_set_thread tid t s =
     (if tid < MAX_TID then Ok (s\<lparr>id_table := (id_table s)(tid := t)\<rparr>) else Stop OutOfBounds)"

definition id_table_clear :: "nat \<Rightarrow> 'a sched_scheme \<Rightarrow> 'a sched_scheme run" where
  "id_table_clear n s = (if n < MAX_TID then Ok (s\<lparr>id_table := (id_table s)(n := 0)\<rparr>) else Stop OutOfBounds)"

definition id_lookup :: "nat \<Rightarrow> 'a sched_scheme \<Rightarrow> id_kind \<times> u64" where
  "id_lookup n s =
     (if n \<ge> MAX_TID then (ID_NONE, 0)
      else
        (let raw = id_table s n
         in if raw = 0 then (ID_NONE, 0)
            else (if raw AND ID_TAG_MASK \<noteq> 0 then ID_THREAD else ID_PROC, raw OR ID_TAG_MASK)))"

definition tcb_state_str :: "u16 \<Rightarrow> string" where
  "tcb_state_str state =
     (if state AND TCB_STATE_DEAD \<noteq> 0 then ''DEAD''
      else if state AND TCB_STATE_ZOMBIE \<noteq> 0 then ''ZOMBIE''
      else if state AND TCB_STATE_STARTING_UP \<noteq> 0 then ''STARTING UP''
      else if state AND TCB_STATE_RUNNABLE \<noteq> 0 then ''RUNNABLE'' else ''UNKNOWN'')"

definition IS_KTHREAD :: "u64 \<Rightarrow> 'a sched_scheme \<Rightarrow> bool run" where
  "IS_KTHREAD t s = bindr (get_tcb t s) (\<lambda>th. Ok (t_process th = kernel_proc s))"

definition groups_list_has :: "u32 \<Rightarrow> u64 \<Rightarrow> 'a sched_scheme \<Rightarrow> bool run" where
  "groups_list_has gid proc s =
     (if proc = 0 then Ok False
      else
        bindr (get_pcb proc s) (\<lambda>p.
          if p_groups p = 0 \<or> sint (p_ngroups p) \<le> 0 then Ok False
          else
            bindr (get_groups (p_groups p) s) (\<lambda>gs.
              if length gs < unat (p_ngroups p) then Stop OutOfBounds
              else Ok (gid \<in> set (take (unat (p_ngroups p)) gs)))))"

section \<open>Lists of threads and processes\<close>

definition unlink_run :: "u64 \<Rightarrow> 'a sched_scheme \<Rightarrow> 'a sched_scheme run" where
  "unlink_run t s = bindr (hlist_del t (r_links s)) (\<lambda>m. Ok (s\<lparr>r_links := m\<rparr>))"

definition unlink_of_proc :: "u64 \<Rightarrow> 'a sched_scheme \<Rightarrow> 'a sched_scheme run" where
  "unlink_of_proc t s = bindr (hlist_del t (t_links s)) (\<lambda>m. Ok (s\<lparr>t_links := m\<rparr>))"

definition unlink_proc :: "u64 \<Rightarrow> 'a sched_scheme \<Rightarrow> 'a sched_scheme run" where
  "unlink_proc p s = bindr (hlist_del p (p_links s)) (\<lambda>m. Ok (s\<lparr>p_links := m\<rparr>))"

definition unlink_child :: "u64 \<Rightarrow> 'a sched_scheme \<Rightarrow> 'a sched_scheme run" where
  "unlink_child p s = bindr (hlist_del p (s_links s)) (\<lambda>m. Ok (s\<lparr>s_links := m\<rparr>))"

definition unlink_thread :: "u64 \<Rightarrow> 'a sched_scheme \<Rightarrow> 'a sched_scheme run" where
  "unlink_thread t s = bindr (unlink_run t s) (unlink_of_proc t)"

definition teardown_process :: "u64 \<Rightarrow> 'a sched_scheme \<Rightarrow> 'a sched_scheme run" where
  "teardown_process proc s =
     bindr (unlink_proc proc s) (\<lambda>s.
     bindr (get_pcb proc s) (\<lambda>p.
     bindr (vmm_pagetable_free_owned (p_cr3 p) (s\<lparr>process_list_depth := process_list_depth s - 1\<rparr>)) (\<lambda>s.
     bindr (id_table_clear (unat (p_pid p)) s) (\<lambda>s.
     bindr (kfree (p_name p) s) (\<lambda>s.
     aligned_release proc s)))))"

section \<open>The end of threads and processes\<close>

definition usthread_exit_locked :: "u64 \<Rightarrow> u32 \<Rightarrow> 'a sched_scheme \<Rightarrow> 'a sched_scheme run" where
  "usthread_exit_locked t exit_code s =
     bindr (upd_tcb t (\<lambda>th. th\<lparr>t_exit_code := exit_code\<rparr>) s) (\<lambda>s.
     bindr (unlink_run t s) (\<lambda>s.
     upd_tcb t (\<lambda>th. th\<lparr>t_state := TCB_STATE_ZOMBIE\<rparr>) s))"

definition no_stack :: stack_t where "no_stack = \<lparr>st_top = 0, st_bottom = 0, st_size = 0\<rparr>"

text \<open>\<open>pmm_free_pages\<close> is given a page number where it expects an address.\<close>

definition usthread_exit :: "u64 \<Rightarrow> u32 \<Rightarrow> 'a sched_scheme \<Rightarrow> 'a sched_scheme run" where
  "usthread_exit t exit_code s =
     (if t = 0 then Ok s
      else
        bindr (get_tcb t s) (\<lambda>th.
          if t_process th = kernel_proc s then Ok s
          else
            bindr (sched_lock_acquire s) (\<lambda>(irq_flags, s).
              if t_state th AND TCB_STATE_ZOMBIE \<noteq> 0 then Ok (sched_lock_release irq_flags s)
              else
                bindr (usthread_exit_locked t exit_code s) (\<lambda>s.
                  let s = sched_lock_release irq_flags s; stk = t_user_stack th
                  in if st_top stk \<noteq> 0 then
                       bindr (pmm_free_pages (ADDR_TO_PAGE (st_top stk)) (unat (ADDR_TO_PAGE (st_size stk))) s) (\<lambda>s.
                         upd_tcb t (\<lambda>th. th\<lparr>t_user_stack := no_stack\<rparr>) s)
                     else Ok s))))"

text \<open>The loops follow the links of the process, which their bodies do not change.\<close>

definition usproc_exit :: "u64 \<Rightarrow> u32 \<Rightarrow> 'a sched_scheme \<Rightarrow> 'a sched_scheme run" where
  "usproc_exit proc exit_code s =
     (if proc = 0 \<or> proc = kernel_proc s then Ok s
      else
        bindr (sched_lock_acquire s) (\<lambda>(irq_flags, s).
        bindr (get_pcb proc s) (\<lambda>p.
          if p_state p AND PCB_STATE_ZOMBIE \<noteq> 0 then Ok (sched_lock_release irq_flags s)
          else
            bindr (hlist_nodes proc (t_links s)) (\<lambda>ts.
            bindr (foreach (\<lambda>t s. bindr (get_tcb t s) (\<lambda>th.
                     if t_state th AND TCB_STATE_ZOMBIE = 0
                     then usthread_exit_locked t (if t = current_thread s then exit_code else - 1) s
                     else Ok s)) ts s) (\<lambda>s.
            bindr (upd_pcb proc (\<lambda>p. p\<lparr>p_exit_code := exit_code, p_state := PCB_STATE_ZOMBIE\<rparr>) s) (\<lambda>s.
              let s = sched_lock_release irq_flags s
              in bindr (foreach (\<lambda>t. upd_tcb t (\<lambda>th. th\<lparr>t_user_stack := no_stack\<rparr>)) ts s) (\<lambda>s.
                 upd_pcb proc (\<lambda>p. p\<lparr>p_heap := (p_heap p)\<lparr>h_lower := 0\<rparr>, opened_file_table := 0,
                   opened_file_table_phys := 0\<rparr>) s)))))))"

definition kill_ktask :: "u64 \<Rightarrow> 'a sched_scheme \<Rightarrow> (int \<times> 'a sched_scheme) run" where
  "kill_ktask t s =
     (if t = 0 then Ok (- 1, s)
      else
        bindr (get_tcb t s) (\<lambda>th.
          if t_process th \<noteq> kernel_proc s then
            bindr (sys_error (''kill_ktask: tid '' @ dec_int (uint (scast (t_tid th) :: u32)) @ '' is not a kernel thread'' @ newline) s)
              (\<lambda>s. Ok (- 1, s))
          else
            bindr (sys_log (''ktask '' @ dec_int (uint (scast (t_tid th) :: u32)) @ '' exited with code:'' @ dec_int (sint (t_exit_code th)) @ newline) s) (\<lambda>s.
            bindr (sched_lock_acquire s) (\<lambda>(irq_flags, s).
            bindr (unlink_thread t s) (\<lambda>s.
            bindr (id_table_clear (unat (t_tid th)) s) (\<lambda>s.
              let s = sched_lock_release irq_flags s
              in bindr (free_tid (t_tid th) s) (\<lambda>s.
                 bindr (page_kfree (st_top (t_kernel_stack th)) (ADDR_TO_PAGE (st_size (t_kernel_stack th))) s) (\<lambda>s.
                 bindr (kfree t s) (\<lambda>s. Ok (0, s))))))))))"

definition reap_us_proc :: "u64 \<Rightarrow> 'a sched_scheme \<Rightarrow> (int \<times> 'a sched_scheme) run" where
  "reap_us_proc proc s =
     (if proc = 0 \<or> proc = kernel_proc s then Ok (- 1, s)
      else
        bindr (get_pcb proc s) (\<lambda>p.
          if p_state p AND PCB_STATE_ZOMBIE = 0 then
            bindr (get_str (p_name p) s) (\<lambda>name.
            bindr (sys_error (''reap_us_proc: proc '' @ quoted name @ '' has not exited'' @ newline) s) (\<lambda>s. Ok (- 1, s)))
          else if hfirst (t_links s) proc \<noteq> 0 then
            bindr (get_str (p_name p) s) (\<lambda>name.
            bindr (sys_error (''reap_us_proc: proc '' @ quoted name @ '' still has un-reaped threads'' @ newline) s)
              (\<lambda>s. Ok (- 1, s)))
          else
            bindr (sched_lock_acquire s) (\<lambda>(irq_flags, s).
            bindr (unlink_proc proc s) (\<lambda>s.
            bindr (if p_parent p \<noteq> 0 then unlink_child proc s else Ok s) (\<lambda>s.
            bindr (id_table_clear (unat (p_pid p)) (s\<lparr>process_list_depth := process_list_depth s - 1\<rparr>)) (\<lambda>s.
              let s = sched_lock_release irq_flags s
              in bindr (vmm_pagetable_free_owned (p_cr3 p) s) (\<lambda>s.
                 bindr (free_tid (p_pid p) s) (\<lambda>s.
                 bindr (kfree (p_name p) s) (\<lambda>s.
                 bindr (aligned_release proc s) (\<lambda>s. Ok (0, s)))))))))))"

definition reap_us_thread :: "u64 \<Rightarrow> 'a sched_scheme \<Rightarrow> (int \<times> 'a sched_scheme) run" where
  "reap_us_thread t s =
     (if t = 0 then Ok (- 1, s)
      else
        bindr (get_tcb t s) (\<lambda>th.
          let proc = t_process th; tid = dec_int (uint (scast (t_tid th) :: u32))
          in if proc = 0 \<or> proc = kernel_proc s then
               bindr (sys_error (''reap_us_thread: tid '' @ tid @ '' has no user process'' @ newline) s) (\<lambda>s. Ok (- 1, s))
             else if t_state th AND TCB_STATE_ZOMBIE = 0 then
               bindr (sys_error (''reap_us_thread: tid '' @ tid @ '' has not exited'' @ newline) s) (\<lambda>s. Ok (- 1, s))
             else
               bindr (get_pcb proc s) (\<lambda>p.
               bindr (get_str (p_name p) s) (\<lambda>name.
               bindr (sys_log (''reaped thread '' @ tid @ '' (proc '' @ quoted name @ '') exit='' @ dec_int (sint (t_exit_code th)) @ newline) s) (\<lambda>s.
               bindr (sched_lock_acquire s) (\<lambda>(irq_flags, s).
               bindr (unlink_of_proc t s) (\<lambda>s.
               bindr (id_table_clear (unat (t_tid th)) s) (\<lambda>s.
                 let proc_empty = (hfirst (t_links s) proc = 0);
                     s = sched_lock_release irq_flags s
                 in bindr (free_tid (t_tid th) s) (\<lambda>s.
                    bindr (page_kfree (st_top (t_kernel_stack th)) (ADDR_TO_PAGE (st_size (t_kernel_stack th))) s) (\<lambda>s.
                    bindr (aligned_release t s) (\<lambda>s.
                    bindr (get_pcb proc s) (\<lambda>p.
                      if proc_empty \<and> p_state p AND PCB_STATE_ZOMBIE \<noteq> 0
                      then bindr (reap_us_proc proc s) (\<lambda>(res, s). Ok (0, s))
                      else Ok (0, s)))))))))))))"

text \<open>
  The loop reads the head of the thread list again after the last thread, when
  \<open>reap_us_thread\<close> may have released the process.
\<close>

partial_function (option) reap_loop :: "u64 \<Rightarrow> 'a sched_scheme \<Rightarrow> 'a sched_scheme run option" where
  "reap_loop proc s =
     (case get_pcb proc s of Stop c \<Rightarrow> Some (Stop c)
      | Ok p \<Rightarrow>
          (let t = hfirst (t_links s) proc
           in if t = 0 then Some (Ok s)
              else case reap_us_thread t s of Stop c \<Rightarrow> Some (Stop c) | Ok (r, s) \<Rightarrow> reap_loop proc s))"

definition reap_us_proc_threads :: "u64 \<Rightarrow> 'a sched_scheme \<Rightarrow> 'a sched_scheme run" where
  "reap_us_proc_threads proc s = (case reap_loop proc s of None \<Rightarrow> Stop Hang | Some r \<Rightarrow> r)"

text \<open>One turn of the reaper thread; \<open>False\<close> when it found nothing and yields.\<close>

definition reaper_step :: "'a sched_scheme \<Rightarrow> (bool \<times> 'a sched_scheme) run" where
  "reaper_step s =
     bindr (sched_lock_acquire s) (\<lambda>(irq_flags, s).
     bindr (hlist_find (\<lambda>t. bindr (get_tcb t s) (\<lambda>th. Ok (t_state th AND TCB_STATE_DEAD \<noteq> 0))) SCHED_HEAD (r_links s)) (\<lambda>victim.
       let s = sched_lock_release irq_flags s
       in if victim \<noteq> 0 then bindr (kill_ktask victim s) (\<lambda>(r, s). Ok (True, s))
          else
            bindr (sched_lock_acquire s) (\<lambda>(irq_flags, s).
            bindr (hlist_find (\<lambda>p. bindr (get_pcb p s) (\<lambda>pp. Ok (p_state pp AND PCB_STATE_ZOMBIE \<noteq> 0 \<and> p_parent pp = 0)))
                     SCHED_HEAD (p_links s)) (\<lambda>orphan.
              let s = sched_lock_release irq_flags s
              in if orphan \<noteq> 0 then bindr (reap_us_proc_threads orphan s) (\<lambda>s. Ok (True, s))
                 else Ok (False, s)))))"

section \<open>Choosing the next thread\<close>

partial_function (option) sched_pick :: "u64 \<Rightarrow> u64 \<Rightarrow> 'a sched_scheme \<Rightarrow> u64 run option" where
  "sched_pick cur node s =
     (let node = (if node = 0 then hfirst (r_links s) SCHED_HEAD else node)
      in if node = 0 then Some (Ok cur)
         else case get_tcb node s of Stop c \<Rightarrow> Some (Stop c)
           | Ok cand \<Rightarrow>
               if t_state cand AND TCB_STATE_RUNNABLE \<noteq> 0 then Some (Ok node)
               else if node = cur then Some (Ok cur)
               else sched_pick cur (hnext (r_links s) node) s)"

definition sched_next_process_core :: "u64 \<Rightarrow> 'a sched_scheme \<Rightarrow> (u64 \<times> 'a sched_scheme) run" where
  "sched_next_process_core saved_rsp s =
     (let (irq_flags, l, s) = try_lock_irqsave (scheduler_lock s) s; s = s\<lparr>scheduler_lock := l\<rparr>
      in if irq_flags = 0 then Ok (saved_rsp, s)
         else
           (let cur = current_thread s
            in bindr (upd_tcb cur (\<lambda>t. t\<lparr>t_k_rsp := saved_rsp, t_fs_base := rdmsr MSR_FS_BASE s,
                        t_gs_base := rdmsr MSR_GS_BASE s\<rparr>) s) (\<lambda>s.
               bindr (if fpu_enabled s then upd_tcb cur (\<lambda>t. t\<lparr>t_fp_state := fpu_regs s\<rparr>) s else Ok s) (\<lambda>s.
                 case sched_pick cur (hnext (r_links s) cur) s of None \<Rightarrow> Stop Hang
                 | Some r \<Rightarrow>
                     bindr r (\<lambda>next_t.
                     bindr (get_tcb next_t s) (\<lambda>th.
                     bindr (get_pcb (t_process th) s) (\<lambda>p.
                       let s = s\<lparr>current_thread := next_t, current_process := t_process th, cr3 := p_cr3 p\<rparr>;
                           s = wrmsr MSR_GS_BASE (t_gs_base th) (wrmsr MSR_FS_BASE (t_fs_base th) s);
                           s = (if fpu_enabled s then s\<lparr>fpu_regs := t_fp_state th\<rparr> else s);
                           s = set_tss_sp (st_bottom (t_kernel_stack th)) s
                       in Ok (t_k_rsp th, sched_lock_release irq_flags s))))))))"

definition enable_scheduler :: "'a sched_scheme \<Rightarrow> 'a sched_scheme" where
  "enable_scheduler s = s\<lparr>task_switching_flag := True\<rparr>"

definition disable_scheduler :: "'a sched_scheme \<Rightarrow> 'a sched_scheme" where
  "disable_scheduler s = s\<lparr>task_switching_flag := False\<rparr>"

end
