(* ===== verification/Proc.thy ===== *)
theory Proc
  imports Sched
begin

text \<open>
  The creation of threads and processes in \<open>kernel/src/arch/x86_64/scheduler/scheduler.c\<close>: the first stack
  frame of a thread, the arguments on the stack of a new program, \<open>new_usproc\<close>, \<open>new_thread\<close>
  and \<open>scheduler_init\<close>. Kernel stacks are in \<open>kmem\<close>; the user stack is written through the
  direct map, in \<open>phys_mem\<close>. Messages that print a pointer are left out, because its format
  belongs to the \<open>printf\<close> library.
\<close>

section \<open>First frames\<close>

definition SIZEOF_FRAME :: nat where "SIZEOF_FRAME = 160"
definition KERNEL_CODE_SEGMENT :: u64 where "KERNEL_CODE_SEGMENT = 0x08"
definition KERNEL_DATA_SEGMENT :: u64 where "KERNEL_DATA_SEGMENT = 0x10"
definition USER_CODE_SEGMENT :: u64 where "USER_CODE_SEGMENT = 0x23"
definition USER_DATA_SEGMENT :: u64 where "USER_DATA_SEGMENT = 0x1B"

definition write_frame :: "u64 \<Rightarrow> u64 \<Rightarrow> u64 \<Rightarrow> u64 \<Rightarrow> u64 \<Rightarrow> u64 \<Rightarrow> mem \<Rightarrow> mem" where
  "write_frame frame rip cs flags rsp ss m =
     (let m = memset m frame 0 SIZEOF_FRAME;
          m = write64 m (frame + 120) rip;
          m = write64 m (frame + 128) cs;
          m = write64 m (frame + 136) flags;
          m = write64 m (frame + 144) rsp
      in write64 m (frame + 152) ss)"

definition build_kernel_stack_frame :: "u64 \<Rightarrow> u64 \<Rightarrow> 'a heap_scheme \<Rightarrow> u64 \<times> 'a heap_scheme" where
  "build_kernel_stack_frame stack_top entry s =
     (let frame = stack_top - of_nat SIZEOF_FRAME
      in (frame, s\<lparr>kmem := write_frame frame entry KERNEL_CODE_SEGMENT 0x202 stack_top KERNEL_DATA_SEGMENT (kmem s)\<rparr>))"

definition build_user_stack_frame :: "u64 \<Rightarrow> u64 \<Rightarrow> u64 \<Rightarrow> u64 \<Rightarrow> u64 \<Rightarrow> 'a heap_scheme \<Rightarrow> u64 \<times> 'a heap_scheme" where
  "build_user_stack_frame stack_top entry user_rsp cs ss s =
     (let frame = stack_top - of_nat SIZEOF_FRAME
      in (frame, s\<lparr>kmem := write_frame frame entry cs 0x202 user_rsp ss (kmem s)\<rparr>))"

section \<open>Arguments\<close>

primrec get_strs :: "u64 list \<Rightarrow> 'a kobj_scheme \<Rightarrow> string list run" where
  "get_strs [] s = Ok []"
| "get_strs (p # ps) s = bindr (get_str p s) (\<lambda>x. bindr (get_strs ps s) (\<lambda>xs. Ok (x # xs)))"

text \<open>A NULL-terminated array of strings; \<open>_argv_len\<close> is its length, 0 for a NULL pointer.\<close>

definition load_strv :: "u64 \<Rightarrow> 'a kobj_scheme \<Rightarrow> string list run" where
  "load_strv p s = (if p = 0 then Ok [] else bindr (get_strv p s) (\<lambda>ps. get_strs (takeWhile (\<lambda>q. q \<noteq> 0) ps) s))"

fun copy_strings :: "string list \<Rightarrow> u64 \<Rightarrow> u64 \<Rightarrow> u64 \<Rightarrow> nat \<Rightarrow> mem \<Rightarrow> nat \<times> mem" where
  "copy_strings [] ptrs strings uva off m = (off, m)"
| "copy_strings (a # as) ptrs strings uva off m =
     copy_strings as (ptrs + 8) strings uva (off + length a + 1)
       (write64 (write_bytes m (strings + of_nat off) (str_bytes a)) ptrs (uva + of_nat off))"

definition str_total :: "string list \<Rightarrow> nat" where
  "str_total as = sum_list (map (\<lambda>a. length a + 1) as)"

definition fixed_bytes :: "string list \<Rightarrow> string list \<Rightarrow> nat" where
  "fixed_bytes argv envp = 8 + (length argv + 1) * 8 + (length envp + 1) * 8 + 48 * 8"

definition args_pad :: "string list \<Rightarrow> string list \<Rightarrow> nat" where
  "args_pad argv envp = (16 - (fixed_bytes argv envp + (str_total argv + str_total envp)) mod 16) mod 16"

definition args_total :: "string list \<Rightarrow> string list \<Rightarrow> nat" where
  "args_total argv envp = fixed_bytes argv envp + args_pad argv envp + (str_total argv + str_total envp)"

definition setup_user_stack_args :: "u64 \<Rightarrow> u64 \<Rightarrow> string list \<Rightarrow> string list \<Rightarrow> mem \<Rightarrow> (u64 \<times> mem) option" where
  "setup_user_stack_args k_stack_top u_stack_top argv envp m =
     (let total = args_total argv envp
      in if total > unat DEFAULT_STACK_PAGE_BYTES then None
         else
           (let base = k_stack_top - of_nat total;
                base_uva = u_stack_top - of_nat total;
                m = memset m base 0 total;
                k_argv = base + 8;
                k_envp = k_argv + of_nat ((length argv + 1) * 8);
                k_auxv = k_envp + of_nat ((length envp + 1) * 8);
                k_strings = k_auxv + 384 + of_nat (args_pad argv envp);
                strings_uva = base_uva + of_nat (fixed_bytes argv envp + args_pad argv envp);
                (off, m) = copy_strings argv k_argv k_strings strings_uva 0 m;
                m = write64 m (k_argv + 8 * of_nat (length argv)) 0;
                (off, m) = copy_strings envp k_envp k_strings strings_uva off m;
                m = write64 m (k_envp + 8 * of_nat (length envp)) 0;
                m = write64 (write64 m k_auxv 6) (k_auxv + 8) PAGE_SIZE_4K;
                m = write64 (write64 m (k_auxv + 16) 25) (k_auxv + 24) (u_stack_top - 16);
                m = write64 (write64 m (k_auxv + 32) 0) (k_auxv + 40) 0;
                m = write64 m base (of_nat (length argv))
            in Some (base_uva, m)))"

section \<open>Processes\<close>

definition DEFAULT_USER_HEAP_PAGES :: nat where "DEFAULT_USER_HEAP_PAGES = 16"
definition DEFAULT_USER_HEAP_START :: u64 where "DEFAULT_USER_HEAP_START = 0x0000600000000000"
definition DEFAULT_USER_HEAP_END :: u64 where "DEFAULT_USER_HEAP_END = 0x0000600000010000"
definition DEFAULT_FILE_TABLE_PAGES :: nat where "DEFAULT_FILE_TABLE_PAGES = 4"
definition DEFAULT_FILE_TABLE_START :: u64 where "DEFAULT_FILE_TABLE_START = 0x00007E0000000000"
definition FILES_PER_PAGE :: nat where "FILES_PER_PAGE = 64"
definition DEFAULT_FILE_TABLE_ENTRIES :: nat where "DEFAULT_FILE_TABLE_ENTRIES = DEFAULT_FILE_TABLE_PAGES * FILES_PER_PAGE"
definition STACK_LOWER_USPACE_ADDR :: u64 where "STACK_LOWER_USPACE_ADDR = 0x00007F0000000000"
definition STACK_UPPER_USPACE_ADDR :: u64 where "STACK_UPPER_USPACE_ADDR = 0x0000800000000000"

text \<open>The typed view of fresh zeroed frames that will hold open files.\<close>

definition zero_files :: "u64 \<Rightarrow> nat \<Rightarrow> 'a sched_scheme \<Rightarrow> 'a sched_scheme" where
  "zero_files pg n s =
     s\<lparr>ftab := fold (\<lambda>k f. f(pg + of_nat k * PAGE_SIZE_4K := replicate FILES_PER_PAGE empty_file)) [0..<n] (ftab s)\<rparr>"

definition zero_pcb :: pcb where
  "zero_pcb = \<lparr>p_pid = 0, p_name = 0, p_state = 0, p_exit_code = 0, p_cr3 = 0, p_heap = \<lparr>h_lower = 0, h_higher = 0, h_size = 0\<rparr>,
     opened_file_table = 0, opened_file_table_phys = 0, cwd_i = 0, p_uid = 0, p_gid = 0, p_ngroups = 0, p_groups = 0,
     p_parent = 0, signals_bitmap = 0, signal_handlers = replicate 64 0\<rparr>"

text \<open>A thread control block set to zero, with the default control word of the vector unit.\<close>

definition fresh_fp_state :: "u8 list" where
  "fresh_fp_state = (replicate 512 0)[24 := 0x80, 25 := 0x1F]"

definition zero_tcb :: tcb where
  "zero_tcb = \<lparr>t_tid = 0, t_state = 0, t_exit_code = 0, t_process = 0, t_k_rsp = 0, t_kernel_stack = no_stack,
     t_user_stack = no_stack, t_fs_base = 0, t_gs_base = 0, t_fp_state = fresh_fp_state, t_signal_mask = 0\<rparr>"

text \<open>The links of a structure that was set to zero.\<close>

definition zero_proc_links :: "u64 \<Rightarrow> 'a sched_scheme \<Rightarrow> 'a sched_scheme" where
  "zero_proc_links proc s =
     s\<lparr>p_links := INIT_HLIST_NODE proc (p_links s), t_links := INIT_HLIST_HEAD proc (t_links s),
       s_links := INIT_HLIST_NODE proc (INIT_HLIST_HEAD proc (s_links s))\<rparr>"

definition zero_thread_links :: "u64 \<Rightarrow> 'a sched_scheme \<Rightarrow> 'a sched_scheme" where
  "zero_thread_links t s = s\<lparr>t_links := INIT_HLIST_NODE t (t_links s), r_links := INIT_HLIST_NODE t (r_links s)\<rparr>"

definition task_error :: "string \<Rightarrow> string \<Rightarrow> 'a logger_scheme \<Rightarrow> 'a logger_scheme run" where
  "task_error name what s = sys_error (''task '' @ quoted name @ '': '' @ what @ newline) s"

text \<open>The clean-up sequences of \<open>new_usproc\<close>, each ending in the one before.\<close>

definition drop_proc :: "u64 \<Rightarrow> 'a sched_scheme \<Rightarrow> 'a sched_scheme run" where
  "drop_proc proc s =
     bindr (get_pcb proc s) (\<lambda>p.
     bindr (free_tid (p_pid p) s) (\<lambda>s.
     bindr (kfree (p_name p) s) (\<lambda>s. kfree proc s)))"

definition drop_heap :: "u64 \<Rightarrow> u64 \<Rightarrow> 'a sched_scheme \<Rightarrow> 'a sched_scheme run" where
  "drop_heap heap_pages proc s = bindr (pmm_free_pages heap_pages DEFAULT_USER_HEAP_PAGES s) (drop_proc proc)"

definition drop_files :: "u64 \<Rightarrow> u64 \<Rightarrow> u64 \<Rightarrow> 'a sched_scheme \<Rightarrow> 'a sched_scheme run" where
  "drop_files ft_pages heap_pages proc s =
     bindr (pmm_free_pages ft_pages DEFAULT_FILE_TABLE_PAGES s) (drop_heap heap_pages proc)"

definition drop_thread :: "u64 \<Rightarrow> u64 \<Rightarrow> u64 \<Rightarrow> u64 \<Rightarrow> 'a sched_scheme \<Rightarrow> 'a sched_scheme run" where
  "drop_thread t ft_pages heap_pages proc s = bindr (kfree t s) (drop_files ft_pages heap_pages proc)"

definition drop_kstack :: "u64 \<Rightarrow> u64 \<Rightarrow> u64 \<Rightarrow> u64 \<Rightarrow> u64 \<Rightarrow> 'a sched_scheme \<Rightarrow> 'a sched_scheme run" where
  "drop_kstack k_stack t ft_pages heap_pages proc s =
     bindr (page_kfree k_stack (of_nat DEFAULT_STACK_PAGE_AMOUNT + 1) s) (drop_thread t ft_pages heap_pages proc)"

definition drop_ustack :: "u64 \<Rightarrow> u64 \<Rightarrow> u64 \<Rightarrow> u64 \<Rightarrow> u64 \<Rightarrow> u64 \<Rightarrow> 'a sched_scheme \<Rightarrow> 'a sched_scheme run" where
  "drop_ustack us_stack k_stack t ft_pages heap_pages proc s =
     bindr (pmm_free_pages us_stack DEFAULT_STACK_PAGE_AMOUNT s) (drop_kstack k_stack t ft_pages heap_pages proc)"

definition map_user_stack :: "u64 \<Rightarrow> u64 \<Rightarrow> 'a sched_scheme \<Rightarrow> 'a sched_scheme run" where
  "map_user_stack p_dir us_stack s =
     foreach (\<lambda>i. map_4k p_dir (STACK_UPPER_USPACE_ADDR - (DEFAULT_STACK_PAGE_BYTES - of_nat i * PAGE_SIZE_4K))
                    (us_stack + of_nat i * PAGE_SIZE_4K) (PTE_WRITABLE OR PTE_NX OR PTE_USER OR PTE_LOCAL_OWNED))
       [0..<DEFAULT_STACK_PAGE_AMOUNT] s"

text \<open>The last part: the thread gets its number and its frame, and both are linked.\<close>

definition new_usproc_link :: "u64 \<Rightarrow> u64 \<Rightarrow> u64 \<Rightarrow> u64 \<Rightarrow> u64 \<Rightarrow> 'a sched_scheme \<Rightarrow> (u64 \<times> 'a sched_scheme) run" where
  "new_usproc_link parent proc t entry user_rsp s =
     bindr (get_tcb t s) (\<lambda>th.
       let (frame, s) = build_user_stack_frame (st_bottom (t_kernel_stack th)) entry user_rsp USER_CODE_SEGMENT USER_DATA_SEGMENT s
       in bindr (upd_tcb t (\<lambda>th. th\<lparr>t_state := TCB_STATE_STARTING_UP, t_k_rsp := frame, t_fs_base := 0, t_gs_base := 0\<rparr>) s) (\<lambda>s.
          bindr (sched_lock_acquire s) (\<lambda>(irq_flags, s).
            let s = s\<lparr>t_links := hlist_add_head t proc (t_links s), r_links := hlist_add_head t SCHED_HEAD (r_links s),
                      p_links := hlist_add_head proc SCHED_HEAD (p_links s)\<rparr>;
                s = (if parent \<noteq> 0 then s\<lparr>s_links := hlist_add_head proc parent (s_links s)\<rparr> else s)
            in bindr (get_pcb proc s) (\<lambda>p.
               bindr (id_table_set_proc (unat (p_pid p)) proc s) (\<lambda>s.
               bindr (id_table_set_thread (unat (t_tid th)) t s) (\<lambda>s.
                 Ok (proc, sched_lock_release irq_flags (s\<lparr>process_list_depth := process_list_depth s + 1\<rparr>))))))))"

definition new_usproc_stack ::
  "u64 \<Rightarrow> u64 \<Rightarrow> string \<Rightarrow> u64 \<Rightarrow> u64 \<Rightarrow> u64 \<Rightarrow> u64 \<Rightarrow> u64 \<Rightarrow> u64 \<Rightarrow> u64 \<Rightarrow> 'a sched_scheme \<Rightarrow> (u64 \<times> 'a sched_scheme) run" where
  "new_usproc_stack parent entry name page_dir argv envp proc heap_pages ft_pages t s =
     bindr (page_kalloc (of_nat DEFAULT_STACK_PAGE_AMOUNT + 1) PTE_WRITABLE s) (\<lambda>(k_stack, s).
       if k_stack = 0 then
         bindr (task_error name ''unable to allocate kernel stack'' s) (\<lambda>s.
         bindr (drop_thread t ft_pages heap_pages proc s) (\<lambda>s. Ok (0, s)))
       else
         bindr (upd_tcb t (\<lambda>th. th\<lparr>t_kernel_stack := \<lparr>st_top = k_stack, st_bottom = k_stack + DEFAULT_STACK_PAGE_BYTES,
                  st_size = DEFAULT_STACK_PAGE_BYTES\<rparr>\<rparr>) s) (\<lambda>s.
         bindr (pmm_alloc_pages DEFAULT_STACK_PAGE_AMOUNT s) (\<lambda>(us_stack, s).
           if us_stack = 0 then
             bindr (task_error name ''unable to allocate user stack pages'' s) (\<lambda>s.
             bindr (drop_kstack k_stack t ft_pages heap_pages proc s) (\<lambda>s. Ok (0, s)))
           else
             bindr (map_user_stack page_dir us_stack s) (\<lambda>s.
             bindr (upd_tcb t (\<lambda>th. th\<lparr>t_user_stack := \<lparr>st_top = us_stack, st_bottom = us_stack + DEFAULT_STACK_PAGE_BYTES,
                      st_size = DEFAULT_STACK_PAGE_BYTES\<rparr>\<rparr>) s) (\<lambda>s.
             bindr (load_strv argv s) (\<lambda>args.
             bindr (load_strv envp s) (\<lambda>envs.
               case setup_user_stack_args (us_stack + DEFAULT_STACK_PAGE_BYTES) STACK_UPPER_USPACE_ADDR args envs (phys_mem s) of
                 None \<Rightarrow>
                   bindr (task_error name ''unable to set up argv/envp on user stack'' s) (\<lambda>s.
                   bindr (drop_ustack us_stack k_stack t ft_pages heap_pages proc s) (\<lambda>s. Ok (0, s)))
               | Some (user_rsp, m) \<Rightarrow>
                   bindr (get_unused_tid (s\<lparr>phys_mem := m\<rparr>)) (\<lambda>(tid, s).
                   bindr (upd_tcb t (\<lambda>th. th\<lparr>t_tid := of_int tid\<rparr>) s) (\<lambda>s.
                     if tid < 0 then
                       bindr (task_error name ''no free tid available for main thread'' s) (\<lambda>s.
                       bindr (drop_ustack us_stack k_stack t ft_pages heap_pages proc s) (\<lambda>s. Ok (0, s)))
                     else new_usproc_link parent proc t entry user_rsp s)))))))))"

definition new_usproc :: "u64 \<Rightarrow> u64 \<Rightarrow> string \<Rightarrow> u64 \<Rightarrow> u64 \<Rightarrow> u64 \<Rightarrow> 'a sched_scheme \<Rightarrow> (u64 \<times> 'a sched_scheme) run" where
  "new_usproc parent entry name page_dir argv envp s =
     (if page_dir = 0 then bindr (task_error name ''no page directory provided'' s) (\<lambda>s. Ok (0, s))
      else
        (let s = fold (\<lambda>i s. set_pte page_dir i (pte (phys_mem s) (kernel_pagedir_phys s) i) s) [256..<512] s
         in bindr (struct_kmalloc_align SIZEOF_PCB (Pcb zero_pcb) s) (\<lambda>(proc, s).
              if proc = 0 then bindr (task_error name ''unable to allocate pcb'' s) (\<lambda>s. Ok (0, s))
              else
                bindr (get_unused_tid (zero_proc_links proc s)) (\<lambda>(pid, s).
                  if pid < 0 then
                    bindr (task_error name ''no free pid available'' s) (\<lambda>s.
                    bindr (kfree proc s) (\<lambda>s. Ok (0, s)))
                  else
                    bindr (kstrdup name s) (\<lambda>(nm, s).
                    bindr (upd_pcb proc (\<lambda>p. p\<lparr>p_pid := of_int pid, p_name := nm, p_cr3 := page_dir, p_parent := parent\<rparr>) s) (\<lambda>s.
                    bindr (pmm_alloc_pages_zeroed DEFAULT_USER_HEAP_PAGES s) (\<lambda>(heap_pages, s).
                      if heap_pages = 0 then
                        bindr (task_error name ''unable to allocate user heap pages'' s) (\<lambda>s.
                        bindr (drop_proc proc s) (\<lambda>s. Ok (0, s)))
                      else
                        bindr (map_4k_pages page_dir DEFAULT_USER_HEAP_START heap_pages DEFAULT_USER_HEAP_PAGES
                                 (PTE_USER OR PTE_WRITABLE OR PTE_LOCAL_OWNED) s) (\<lambda>s.
                        bindr (upd_pcb proc (\<lambda>p. p\<lparr>p_heap := \<lparr>h_lower = DEFAULT_USER_HEAP_START, h_higher = DEFAULT_USER_HEAP_END,
                                 h_size = of_nat DEFAULT_USER_HEAP_PAGES * PAGE_SIZE_4K\<rparr>\<rparr>) s) (\<lambda>s.
                        bindr (pmm_alloc_pages_zeroed 4 s) (\<lambda>(ft_pages, s).
                          if ft_pages = 0 then
                            bindr (task_error name ''unable to allocate user file table pages'' s) (\<lambda>s.
                            bindr (drop_heap heap_pages proc s) (\<lambda>s. Ok (0, s)))
                          else
                            bindr (map_4k_pages page_dir DEFAULT_FILE_TABLE_START ft_pages DEFAULT_FILE_TABLE_PAGES
                                     (PTE_WRITABLE OR PTE_LOCAL_OWNED) s) (\<lambda>s.
                            bindr (upd_pcb proc (\<lambda>p. p\<lparr>opened_file_table_phys := ft_pages,
                                     opened_file_table := DEFAULT_FILE_TABLE_START, cwd_i := 0\<rparr>)
                                     (zero_files ft_pages DEFAULT_FILE_TABLE_PAGES s)) (\<lambda>s.
                            bindr (struct_kmalloc_align SIZEOF_TCB (Tcb (zero_tcb\<lparr>t_process := proc\<rparr>)) s) (\<lambda>(t, s).
                              if t = 0 then
                                bindr (task_error name ''unable to allocate main thread'' s) (\<lambda>s.
                                bindr (drop_files ft_pages heap_pages proc s) (\<lambda>s. Ok (0, s)))
                              else
                                bindr (new_usproc_stack parent entry name page_dir argv envp proc heap_pages ft_pages t
                                         (zero_thread_links t s)) (\<lambda>(r, s).
                                  if r = 0 then Ok (0, s)
                                  else bindr (sys_success (''task '' @ quoted name @ '': created sucesssfully'' @ newline) s)
                                         (\<lambda>s. Ok (r, s))))))))))))))))"

section \<open>Threads\<close>

definition new_thread_link :: "u64 \<Rightarrow> u64 \<Rightarrow> 'a sched_scheme \<Rightarrow> (u64 \<times> 'a sched_scheme) run" where
  "new_thread_link proc t s =
     bindr (get_tcb t s) (\<lambda>th.
     bindr (sched_lock_acquire s) (\<lambda>(irq_flags, s).
     bindr (id_table_set_thread (unat (t_tid th)) t
              (s\<lparr>t_links := hlist_add_head t proc (t_links s), r_links := hlist_add_head t SCHED_HEAD (r_links s)\<rparr>)) (\<lambda>s.
       Ok (t, sched_lock_release irq_flags s))))"

definition new_thread :: "u64 \<Rightarrow> u64 \<Rightarrow> u16 \<Rightarrow> 'a sched_scheme \<Rightarrow> (u64 \<times> 'a sched_scheme) run" where
  "new_thread proc entry starting_state s =
     (let is_kthread = (proc = 0); proc = (if is_kthread then kernel_proc s else proc)
      in bindr (struct_kmalloc_align SIZEOF_TCB (Tcb (zero_tcb\<lparr>t_process := proc\<rparr>)) s) (\<lambda>(t, s).
           if t = 0 then Ok (0, s)
           else
             bindr (page_kalloc (of_nat DEFAULT_STACK_PAGE_AMOUNT) PTE_WRITABLE (zero_thread_links t s)) (\<lambda>(kstack, s).
               if kstack = 0 then bindr (kfree t s) (\<lambda>s. Ok (0, s))
               else
                 bindr (get_unused_tid s) (\<lambda>(tid, s).
                   if tid < 0 then
                     bindr (page_kfree kstack (of_nat DEFAULT_STACK_PAGE_AMOUNT) s) (\<lambda>s.
                     bindr (kfree t s) (\<lambda>s. Ok (0, s)))
                   else
                     bindr (upd_tcb t (\<lambda>th. th\<lparr>t_kernel_stack := \<lparr>st_top = kstack, st_bottom = kstack + DEFAULT_STACK_PAGE_BYTES,
                              st_size = DEFAULT_STACK_PAGE_BYTES\<rparr>, t_tid := of_int tid, t_state := starting_state\<rparr>) s) (\<lambda>s.
                       if is_kthread then
                         (let (frame, s) = build_kernel_stack_frame (kstack + DEFAULT_STACK_PAGE_BYTES) entry s
                          in bindr (upd_tcb t (\<lambda>th. th\<lparr>t_k_rsp := frame, t_user_stack := no_stack\<rparr>) s) (new_thread_link proc t))
                       else
                         bindr (pmm_alloc_pages DEFAULT_STACK_PAGE_AMOUNT s) (\<lambda>(ustack, s).
                           if ustack = 0 then
                             bindr (free_tid (of_int tid) s) (\<lambda>s.
                             bindr (page_kfree kstack (of_nat DEFAULT_STACK_PAGE_AMOUNT) s) (\<lambda>s.
                             bindr (kfree t s) (\<lambda>s. Ok (0, s))))
                           else
                             bindr (get_pcb proc s) (\<lambda>p.
                             bindr (uvma_map_pages (p_cr3 p) ustack DEFAULT_STACK_PAGE_AMOUNT
                                      (PTE_USER OR PTE_WRITABLE OR PTE_NX OR PTE_LOCAL_OWNED) STACK_LOWER_USPACE_ADDR s) (\<lambda>(vbase, s).
                               if vbase = 0 then
                                 bindr (pmm_free_pages ustack DEFAULT_STACK_PAGE_AMOUNT s) (\<lambda>s.
                                 bindr (free_tid (of_int tid) s) (\<lambda>s.
                                 bindr (page_kfree kstack (of_nat DEFAULT_STACK_PAGE_AMOUNT) s) (\<lambda>s.
                                 bindr (kfree t s) (\<lambda>s. Ok (0, s)))))
                               else
                                 (let (frame, s) = build_user_stack_frame (kstack + DEFAULT_STACK_PAGE_BYTES) entry vbase
                                                     USER_CODE_SEGMENT USER_DATA_SEGMENT s
                                  in bindr (upd_tcb t (\<lambda>th. th\<lparr>t_k_rsp := frame, t_user_stack := \<lparr>st_top = ustack,
                                              st_bottom = ustack + DEFAULT_STACK_PAGE_BYTES, st_size = DEFAULT_STACK_PAGE_BYTES\<rparr>\<rparr>) s)
                                       (new_thread_link proc t))))))))))"

definition ktask_start :: "u64 \<Rightarrow> string \<Rightarrow> 'a sched_scheme \<Rightarrow> (u64 \<times> 'a sched_scheme) run" where
  "ktask_start entry name s =
     bindr (new_thread 0 entry TCB_STATE_RUNNABLE s) (\<lambda>(t, s).
       if t = 0 then
         bindr (sys_error (''ktask_start: unable to create thread '' @ quoted name @ newline) s) (\<lambda>s. Ok (0, s))
       else
         bindr (get_tcb t s) (\<lambda>th.
         bindr (sys_debug (''ktask_start: created ktask '' @ quoted name @ '' tid='' @ dec_int (uint (scast (t_tid th) :: u32)) @ newline) s) (\<lambda>s.
           Ok (t, s))))"

section \<open>Start-up\<close>

text \<open>The text of \<open>%04d\<close>.\<close>

definition dec04 :: "int \<Rightarrow> string" where
  "dec04 i = replicate (4 - length (dec_int i)) (CHR ''0'') @ dec_int i"

definition scheduler_init :: "u64 \<Rightarrow> u64 \<Rightarrow> 'a sched_scheme \<Rightarrow> (int \<times> 'a sched_scheme) run" where
  "scheduler_init pit_isr_entry reaper s =
     bindr (sys_info (''Initing PIT'' @ newline) s) (\<lambda>s.
     bindr (pit_init pit_isr_entry s) (\<lambda>(res, s).
     bindr (sys_info (''Initing Scheduler'' @ newline) s) (\<lambda>s.
     bindr (struct_kmalloc_align SIZEOF_PCB (Pcb zero_pcb) s) (\<lambda>(kp, s).
       let s = s\<lparr>kernel_proc := kp\<rparr>
       in if kp = 0 then
            bindr (sys_error (''scheduler_init: unable to allocate kernel_proc'' @ newline) s) (\<lambda>s. Ok (- 1, s))
          else
            bindr (kstrdup ''Kernel'' (zero_proc_links kp s)) (\<lambda>(nm, s).
            bindr (upd_pcb kp (\<lambda>p. p\<lparr>p_name := nm, p_cr3 := kernel_pagedir_phys s\<rparr>) s) (\<lambda>s.
            bindr (struct_kmalloc_align SIZEOF_TCB (Tcb (zero_tcb\<lparr>t_process := kp, t_state := TCB_STATE_RUNNABLE\<rparr>)) s) (\<lambda>(t, s).
              if t = 0 then
                bindr (sys_error (''scheduler_init: unable to allocate boot thread'' @ newline) s) (\<lambda>s.
                bindr (kfree nm s) (\<lambda>s.
                bindr (kfree kp s) (\<lambda>s. Ok (- 1, s))))
              else
                (let s = (zero_thread_links t s)\<lparr>tid0_used := True\<rparr>;
                     s = s\<lparr>t_links := hlist_add_head t kp (t_links s), r_links := hlist_add_head t SCHED_HEAD (r_links s),
                           p_links := hlist_add_head kp SCHED_HEAD (p_links s)\<rparr>
                 in bindr (id_table_set_proc 0 kp s) (\<lambda>s.
                      let s = enable_scheduler (s\<lparr>process_list_depth := 1, current_thread := t, current_process := kp\<rparr>)
                      in bindr (ktask_start reaper ''reaper'' s) (\<lambda>(rt, s).
                         bindr (get_tcb rt s) (\<lambda>th.
                         bindr (sys_debug (''reaper tid = '' @ dec04 (sint (t_tid th))) s) (\<lambda>s.
                         bindr (sys_success (''Scheduler Inited'' @ newline) s) (\<lambda>s. Ok (0, s))))))))))))))"

text \<open>After \<open>usproc_exit\<close> the thread yields for ever; the value is the state it yields in.\<close>

definition kill_current_process :: "u32 \<Rightarrow> string \<Rightarrow> string \<Rightarrow> 'a sched_scheme \<Rightarrow> 'a sched_scheme run" where
  "kill_current_process exit_code reason message s =
     bindr (if current_process s = 0 then Ok True else IS_KTHREAD (current_thread s) s) (\<lambda>fatal.
       if fatal then Stop (Panic reason)
       else bindr (sys_error message s) (usproc_exit (current_process s) exit_code))"

end
