(* ===== verification/Sched_Spec.thy ===== *)
theory Sched_Spec
  imports Proc Kbd_Spec
begin

text \<open>
  The scheduler: thread numbers are a pool of numbers (\<open>id_pool\<close>), the next thread is the first runnable one in round-robin order, a switch saves and restores the
  context of the threads, and the stack of a new program holds its arguments.
\<close>

section \<open>Thread numbers\<close>

definition tid_free :: "bool \<Rightarrow> u64 list \<Rightarrow> nat \<Rightarrow> nat \<Rightarrow> bool" where
  "tid_free used ws i n \<longleftrightarrow> i \<le> n div 64 \<and> n div 64 - i < length ws \<and> bit (ws ! (n div 64 - i)) (n mod 64) \<and> \<not> (used \<and> n = 0)"

lemma tid_free_Cons:
  "tid_free used (w # ws) i n \<longleftrightarrow>
     n div 64 = i \<and> bit w (n mod 64) \<and> \<not> (used \<and> i = 0 \<and> n mod 64 = 0) \<or> tid_free used ws (Suc i) n"
proof (cases "n div 64 = i")
  case True
  then have "n = 0 \<longleftrightarrow> i = 0 \<and> n mod 64 = 0" by (metis div_0 mod_0 div_mult_mod_eq mult_0_right add_0)
  then show ?thesis using True by (auto simp: tid_free_def)
next
  case False
  then show ?thesis by (auto simp: tid_free_def nth_Cons' Suc_diff_le)
qed

lemma tid_scan_lowest:
  "case tid_scan used 0 ws i of None \<Rightarrow> \<forall>n. \<not> tid_free used ws i n
   | Some n \<Rightarrow> tid_free used ws i n \<and> (\<forall>m < n. \<not> tid_free used ws i m)"
proof (induction ws arbitrary: i)
  case Nil
  then show ?case by (simp add: tid_free_def)
next
  case (Cons w ws)
  let ?P = "\<lambda>j. \<not> (used \<and> i = 0 \<and> j = 0) \<and> bit w j"
  have skip: ?case if none: "\<And>j. j < 64 \<Longrightarrow> \<not> ?P j" and same: "tid_scan used 0 (w # ws) i = tid_scan used 0 ws (Suc i)"
  proof -
    have "tid_free used (w # ws) i n = tid_free used ws (Suc i) n" for n
      using none [of "n mod 64"] by (auto simp: tid_free_Cons)
    then have eq: "tid_free used (w # ws) i = tid_free used ws (Suc i)" by blast
    show ?thesis unfolding same eq by (rule Cons)
  qed
  show ?case
  proof (cases "w = 0")
    case True
    then show ?thesis by (intro skip) simp_all
  next
    case False
    show ?thesis
    proof (cases "find ?P [0..<64]")
      case None
      then have "\<And>j. j < 64 \<Longrightarrow> \<not> ?P j" unfolding find_None_iff by simp
      then show ?thesis using False None by (intro skip) (simp_all del: de_Morgan_conj)
    next
      case (Some j)
      then have j: "j < 64" "?P j" "\<And>k. k < j \<Longrightarrow> \<not> ?P k" by (auto simp: find_Some_iff)
      have e: "(64 * i + j) div 64 = i" "(64 * i + j) mod 64 = j" using j(1) by simp_all
      have "\<not> tid_free used (w # ws) i m" if "m < 64 * i + j" for m
      proof -
        have "m div 64 \<le> i" using that j(1) by (simp add: less_mult_imp_div_less)
        moreover have "m mod 64 < j" if "m div 64 = i" using \<open>m < 64 * i + j\<close> that by (metis mult_div_mod_eq nat_add_left_cancel_less)
        ultimately show ?thesis using j(3) by (auto simp: tid_free_Cons tid_free_def [of used ws])
      qed
      moreover have "tid_free used (w # ws) i (64 * i + j)" using j(2) e by (auto simp: tid_free_Cons)
      ultimately show ?thesis using False Some by simp
    qed
  qed
qed

lemma sched_lock_free [run_simps]:
  "scheduler_lock s = 0 \<Longrightarrow> sched_lock_acquire s = Ok (rflags s, s\<lparr>int_flag := False, scheduler_lock := 1\<rparr>)"
  by (simp add: sched_lock_acquire_def run_simps)

lemma sched_unlock [run_simps]:
  "sched_lock_release (rflags s) t = t\<lparr>int_flag := int_flag s \<or> int_flag t, scheduler_lock := 0\<rparr>"
  by (simp add: sched_lock_release_def run_simps)

lemma critical_tids:
  "scheduler_lock s = 0 \<Longrightarrow> sched_lock_release (rflags s) (s\<lparr>int_flag := False, scheduler_lock := 1, tid_bitmap := b\<rparr>) = s\<lparr>tid_bitmap := b\<rparr>"
  by (auto simp: run_simps)

definition tids_ok :: "'a sched_scheme \<Rightarrow> bool" where
  "tids_ok s \<longleftrightarrow> scheduler_lock s = 0 \<and> tid_bitmap_curr s = 0 \<and> length (tid_bitmap s) = 256 \<and> tid0_used s"

definition free_tids :: "'a sched_scheme \<Rightarrow> nat set" where
  "free_tids s = {n. tid_free True (tid_bitmap s) 0 n}"

lemma free_tids_word:
  "tids_ok s \<Longrightarrow> n \<in> free_tids s \<longleftrightarrow> n < MAX_TID \<and> n \<noteq> 0 \<and> bit (tid_bitmap s ! (n div 64)) (n mod 64)"
  by (auto simp: free_tids_def tid_free_def tids_ok_def MAX_TID_def)

lemma same_slot: "n div 64 = k div 64 \<Longrightarrow> n mod 64 = k mod 64 \<longleftrightarrow> n = (k :: nat)"
  by (metis div_mult_mod_eq)

lemma free_tids_update:
  assumes "tids_ok s" "k < MAX_TID" "k \<noteq> 0" "t = s\<lparr>tid_bitmap := (tid_bitmap s)[k div 64 := w]\<rparr>"
    and "\<And>j. j < 64 \<Longrightarrow> bit w j = (if j = k mod 64 then v else bit (tid_bitmap s ! (k div 64)) j)"
  shows "tids_ok t \<and> free_tids t = (if v then insert k (free_tids s) else free_tids s - {k})"
proof -
  have ok: "tids_ok t" using assms(1) by (simp add: assms(4) tids_ok_def)
  have len: "k div 64 < length (tid_bitmap s)" using assms(1,2) by (simp add: tids_ok_def MAX_TID_def)
  have bm: "tid_bitmap t = (tid_bitmap s)[k div 64 := w]" by (simp add: assms(4))
  have w: "bit (tid_bitmap t ! (n div 64)) (n mod 64) = (if n = k then v else bit (tid_bitmap s ! (n div 64)) (n mod 64))" for n
  proof (cases "n div 64 = k div 64")
    case True
    then show ?thesis using len assms(5) [of "n mod 64"] same_slot [OF True] by (simp add: bm)
  next
    case False
    then show ?thesis by (auto simp: bm)
  qed
  have eq: "(n \<in> free_tids t) = (if n = k then v else n \<in> free_tids s)" for n
    unfolding free_tids_word [OF ok] free_tids_word [OF assms(1)] w using assms(2,3) by simp
  show ?thesis using ok by (cases v) (auto simp: eq set_eq_iff)
qed

lemma get_unused_tid_eq:
  assumes "tids_ok s"
  shows "get_unused_tid s = Ok (case tid_scan True 0 (tid_bitmap s) 0 of None \<Rightarrow> (- 1, s)
    | Some t \<Rightarrow> (int t, s\<lparr>tid_bitmap := (tid_bitmap s)[t div 64 := tid_bitmap s ! (t div 64) AND NOT (2 ^ (t mod 64))]\<rparr>))"
  using assms by (auto simp: get_unused_tid_def tids_ok_def run_simps split: option.split)

lemma free_tid_eq:
  assumes "tids_ok s" "n < MAX_TID"
  shows "free_tid (of_nat n) s =
    Ok (s\<lparr>tid_bitmap := (tid_bitmap s)[n div 64 := tid_bitmap s ! (n div 64) OR 2 ^ (n mod 64)]\<rparr>)"
proof -
  have guards: "(int n \<le> - 64 \<or> 256 \<le> int n div 64) = False" "(int n < 0) = False"
    using assms(2) by (auto simp: MAX_TID_def not_le)
  have "sint (of_nat n :: 16 word) = int n" using assms(2) by (simp add: signed_of_nat signed_take_bit_int_eq_self MAX_TID_def)
  then have "free_tid (of_nat n) s = bindr (sched_lock_acquire s) (\<lambda>(irq_flags, s).
      Ok (sched_lock_release irq_flags
        (s\<lparr>tid_bitmap := (tid_bitmap s)[nat (int n div 64) := tid_bitmap s ! nat (int n div 64) OR 2 ^ nat (int n mod 64)]\<rparr>)))"
    by (simp only: free_tid_def Let_def guards if_False)
  moreover have "nat (int n div 64) = n div 64" "nat (int n mod 64) = n mod 64" by (simp_all add: nat_div_distrib nat_mod_distrib)
  moreover have "scheduler_lock s = 0" using assms(1) by (simp add: tids_ok_def)
  ultimately show ?thesis by (simp add: sched_lock_free critical_tids)
qed

interpretation tids: id_pool "tids_ok :: 'a sched_scheme \<Rightarrow> bool" "{1..<MAX_TID}" free_tids get_unused_tid
  "\<lambda>n. free_tid (of_nat n)"
proof
  fix s :: "'a sched_scheme" and n
  assume ok: "tids_ok s"
  have scan: "case tid_scan True 0 (tid_bitmap s) 0 of None \<Rightarrow> free_tids s = {} | Some k \<Rightarrow> k \<in> free_tids s \<and> (\<forall>m < k. m \<notin> free_tids s)"
    using tid_scan_lowest [of True "tid_bitmap s" 0] by (auto simp: free_tids_def split: option.splits)
  show "\<exists>t. get_unused_tid s = Ok (int (LEAST k. k \<in> free_tids s), t) \<and> tids_ok t \<and> free_tids t = free_tids s - {LEAST k. k \<in> free_tids s}"
    if some: "n \<in> free_tids s"
  proof -
    obtain k where k: "tid_scan True 0 (tid_bitmap s) 0 = Some k" "k \<in> free_tids s" "\<And>m. m < k \<Longrightarrow> m \<notin> free_tids s"
      using scan some by (auto split: option.splits)
    have "(LEAST k. k \<in> free_tids s) = k" using k(2,3) by (intro Least_equality) (auto simp: not_less [symmetric])
    moreover have "k < MAX_TID" "k \<noteq> 0" using k(2) by (simp_all add: free_tids_word [OF ok])
    ultimately show ?thesis
      using free_tids_update [OF ok, of k _ "tid_bitmap s ! (k div 64) AND NOT (2 ^ (k mod 64))" False]
      by (auto simp: get_unused_tid_eq [OF ok] k(1) bit_simps)
  qed
  show "\<exists>t. get_unused_tid s = Ok (- 1, t) \<and> tids_ok t \<and> free_tids t = {}" if "free_tids s = {}"
    using scan that ok by (auto simp: get_unused_tid_eq [OF ok] split: option.splits)
  show "\<exists>t. free_tid (of_nat n) s = Ok t \<and> tids_ok t \<and> free_tids t = insert n (free_tids s)" if "n \<in> {1..<MAX_TID}"
    using that free_tids_update [OF ok, of n _ "tid_bitmap s ! (n div 64) OR 2 ^ (n mod 64)" True]
    by (auto simp: free_tid_eq [OF ok] bit_simps)
  show "free_tids s \<subseteq> {1..<MAX_TID}" by (auto simp: free_tids_word [OF ok])
qed

section \<open>The run queue\<close>

definition run_queue :: "u64 list \<Rightarrow> 'a sched_scheme \<Rightarrow> bool" where
  "run_queue ts s \<longleftrightarrow> hl_abs {SCHED_HEAD} (r_links s) (\<lambda>_. ts) \<and> (\<forall>t \<in> set ts. returns (get_tcb t s))"

definition runnable :: "'a sched_scheme \<Rightarrow> u64 \<Rightarrow> bool" where
  "runnable s t \<longleftrightarrow> (case get_tcb t s of Ok th \<Rightarrow> t_state th AND TCB_STATE_RUNNABLE \<noteq> 0 | Stop c \<Rightarrow> False)"

text \<open>The order in which the scheduler looks at the threads, and its choice.\<close>

definition round_robin :: "u64 \<Rightarrow> u64 list \<Rightarrow> u64 list" where
  "round_robin cur ts =
     (if cur \<in> set ts then tl (dropWhile ((\<noteq>) cur) ts) @ takeWhile ((\<noteq>) cur) ts @ [cur] else ts)"

definition choice :: "'a sched_scheme \<Rightarrow> u64 \<Rightarrow> u64 list \<Rightarrow> u64" where
  "choice s cur ts = (case find (runnable s) (round_robin cur ts) of Some t \<Rightarrow> t | None \<Rightarrow> cur)"

definition list_head :: "u64 list \<Rightarrow> u64" where
  "list_head xs = (case xs of [] \<Rightarrow> 0 | x # xs \<Rightarrow> x)"

lemma list_head_simps [simp]: "list_head [] = 0" "list_head (x # xs) = x"
  by (simp_all add: list_head_def)

text \<open>A walk over threads other than the current one, and a walk that arrives at it.\<close>

lemma pick_step:
  assumes "run_queue ts s" "ts = xs @ x # ys"
  shows "sched_pick cur x s =
    (if runnable s x then Some (Ok x) else if x = cur then Some (Ok cur) else sched_pick cur (list_head ys) s)"
proof -
  have q: "hl_abs {SCHED_HEAD} (r_links s) (\<lambda>_. ts)" and "returns (get_tcb x s)" using assms by (auto simp: run_queue_def)
  then obtain th where th: "get_tcb x s = Ok th" by (cases "get_tcb x s") auto
  have "x \<noteq> 0" using hl_abs_nonzero [OF q, of SCHED_HEAD x] assms(2) by simp
  moreover have "hnext (r_links s) x = list_head ys" using hl_abs_next [OF q] assms(2) by (simp add: list_head_def)
  ultimately show ?thesis using th by (subst sched_pick.simps) (simp add: runnable_def)
qed

lemma pick_walk:
  assumes "run_queue ts s" "ts = xs @ ys @ zs" "cur \<notin> set ys"
  shows "sched_pick cur (list_head (ys @ zs)) s =
    (case find (runnable s) ys of Some t \<Rightarrow> Some (Ok t) | None \<Rightarrow> sched_pick cur (list_head zs) s)"
  using assms(2,3)
proof (induction ys arbitrary: xs)
  case (Cons y ys)
  then show ?case
    using pick_step [OF assms(1), of xs y "ys @ zs" cur] Cons.IH [of "xs @ [y]"] by auto
qed simp

lemma pick_wrap:
  assumes "run_queue ts s" "ts \<noteq> []"
  shows "sched_pick cur 0 s = sched_pick cur (list_head ts) s"
proof -
  have q: "hl_abs {SCHED_HEAD} (r_links s) (\<lambda>_. ts)" using assms by (auto simp: run_queue_def)
  have first: "hfirst (r_links s) SCHED_HEAD = list_head ts" using hl_abs_first [OF q] by (simp add: list_head_def)
  have "list_head ts \<noteq> 0" using hl_abs_nonzero [OF q, of SCHED_HEAD "hd ts"] assms(2) by (cases ts) (auto simp: list_head_def)
  then show ?thesis by (subst (1 2) sched_pick.simps) (simp add: first)
qed

text \<open>A thread that has left the queue needs another one to be runnable, or the search never ends.\<close>

definition can_choose :: "'a sched_scheme \<Rightarrow> u64 \<Rightarrow> u64 list \<Rightarrow> bool" where
  "can_choose s cur ts \<longleftrightarrow> cur \<in> set ts \<or> hnext (r_links s) cur = 0 \<and> (ts = [] \<or> list_ex (runnable s) ts)"

lemma sched_pick_choice:
  assumes "run_queue ts s" "can_choose s cur ts"
  shows "sched_pick cur (hnext (r_links s) cur) s = Some (Ok (choice s cur ts))"
proof (cases "cur \<in> set ts")
  case True
  then obtain as bs where ts: "ts = as @ cur # bs" "cur \<notin> set as" by (meson split_list_first)
  have q: "hl_abs {SCHED_HEAD} (r_links s) (\<lambda>_. ts)" using assms(1) by (auto simp: run_queue_def)
  then have d: "cur \<notin> set bs" using ts by (auto simp: hl_abs_def)
  have split: "takeWhile ((\<noteq>) cur) ts = as" "dropWhile ((\<noteq>) cur) ts = cur # bs"
    using ts by (auto simp: takeWhile_append dropWhile_append3 takeWhile_eq_all_conv)
  have last: "sched_pick cur (list_head (as @ cur # bs)) s =
      Some (Ok (case find (runnable s) (as @ [cur]) of Some t \<Rightarrow> t | None \<Rightarrow> cur))"
    using pick_walk [OF assms(1), of "[]" as "cur # bs" cur] pick_step [OF assms(1) ts(1), of cur] ts
    by (simp add: find_append split: option.splits)
  have "sched_pick cur (list_head bs) s =
      (case find (runnable s) bs of Some t \<Rightarrow> Some (Ok t) | None \<Rightarrow> sched_pick cur 0 s)"
    using pick_walk [OF assms(1), of "as @ [cur]" bs "[]" cur] ts d by (simp split: option.splits)
  moreover have "sched_pick cur 0 s = sched_pick cur (list_head (as @ cur # bs)) s" using pick_wrap [OF assms(1)] ts by simp
  moreover have "hnext (r_links s) cur = list_head bs" using hl_abs_next [OF q] ts(1) by (simp add: list_head_def)
  ultimately show ?thesis using True last
    by (simp add: choice_def round_robin_def split find_append split: option.splits)
next
  case False
  then have start: "hnext (r_links s) cur = 0" "ts = [] \<or> list_ex (runnable s) ts" "round_robin cur ts = ts"
    using assms(2) by (auto simp: round_robin_def can_choose_def)
  show ?thesis
  proof (cases "ts = []")
    case True
    then have "hfirst (r_links s) SCHED_HEAD = 0" using assms(1) by (auto simp: run_queue_def hl_abs_def)
    then show ?thesis using start True by (subst sched_pick.simps) (simp add: choice_def)
  next
    case ne: False
    then obtain t where "find (runnable s) ts = Some t"
      using start(2) by (cases "find (runnable s) ts") (auto simp: find_None_iff list_ex_iff)
    then show ?thesis
      using start False pick_wrap [OF assms(1) ne, of cur] pick_walk [OF assms(1), of "[]" ts "[]" cur]
      by (simp add: choice_def)
  qed
qed

section \<open>Switching\<close>

text \<open>The context of the processor, as a thread structure keeps it.\<close>

definition save_context :: "u64 \<Rightarrow> 'a sched_scheme \<Rightarrow> tcb \<Rightarrow> tcb" where
  "save_context rsp s th =
     th\<lparr>t_k_rsp := rsp, t_fs_base := msrs s MSR_FS_BASE, t_gs_base := msrs s MSR_GS_BASE,
        t_fp_state := (if fpu_enabled s then fpu_regs s else t_fp_state th)\<rparr>"

definition saved :: "u64 \<Rightarrow> 'a sched_scheme \<Rightarrow> tcb \<Rightarrow> 'a sched_scheme" where
  "saved rsp s th = put (current_thread s) (Tcb (save_context rsp s th)) (s\<lparr>int_flag := False, scheduler_lock := 1\<rparr>)"

lemma put_twice: "objs s p = Some e \<Longrightarrow> put p b (put p a s) = put p b s"
  by (cases e) (simp add: put_def)

lemma try_lock_free: "try_lock_irqsave 0 s = (rflags s, 1, s\<lparr>int_flag := False\<rparr>)"
  by (simp add: try_lock_irqsave_def)

lemma rflags_nonzero: "rflags s \<noteq> 0"
  by (simp add: rflags_def)

lemma upd_tcb_eq: "objs s p = Some (k, Tcb th) \<Longrightarrow> upd_tcb p f s = Ok (put p (Tcb (f th)) s)"
  by (simp add: upd_tcb_def get_tcb_def)

lemma save_steps:
  assumes "get_tcb (current_thread s) s = Ok th" "u = s\<lparr>int_flag := False, scheduler_lock := 1\<rparr>"
  shows "bindr (upd_tcb (current_thread u) (\<lambda>t. t\<lparr>t_k_rsp := rsp, t_fs_base := rdmsr MSR_FS_BASE u, t_gs_base := rdmsr MSR_GS_BASE u\<rparr>) u) (\<lambda>v.
      bindr (if fpu_enabled v then upd_tcb (current_thread u) (\<lambda>t. t\<lparr>t_fp_state := fpu_regs v\<rparr>) v else Ok v) g) = g (saved rsp s th)"
proof -
  obtain k where k: "objs s (current_thread s) = Some (k, Tcb th)" using assms(1) by (auto simp: get_tcb_Ok)
  then have u: "objs u (current_thread s) = Some (k, Tcb th)" by (simp add: assms(2))
  let ?a = "th\<lparr>t_k_rsp := rsp, t_fs_base := rdmsr MSR_FS_BASE u, t_gs_base := rdmsr MSR_GS_BASE u\<rparr>"
  let ?v = "put (current_thread s) (Tcb ?a) u"
  have v: "objs ?v (current_thread s) = Some (k, Tcb ?a)" "fpu_enabled ?v = fpu_enabled s" "fpu_regs ?v = fpu_regs s"
    using u by (simp_all add: put_def assms(2))
  have cu: "current_thread u = current_thread s" by (simp add: assms(2))
  show ?thesis
    unfolding cu upd_tcb_eq [OF u] bindr.simps upd_tcb_eq [OF v(1)] v(2,3) put_twice [OF u]
    by (simp add: saved_def save_context_def assms(2) rdmsr_def)
qed

lemma sched_next_unfold:
  assumes "scheduler_lock s = 0" "get_tcb (current_thread s) s = Ok th"
  shows "sched_next_process_core rsp s =
    (case sched_pick (current_thread s) (hnext (r_links s) (current_thread s)) (saved rsp s th) of None \<Rightarrow> Stop Hang
     | Some r \<Rightarrow>
         bindr r (\<lambda>next_t.
         bindr (get_tcb next_t (saved rsp s th)) (\<lambda>nt.
         bindr (get_pcb (t_process nt) (saved rsp s th)) (\<lambda>p.
           let u = (saved rsp s th)\<lparr>current_thread := next_t, current_process := t_process nt, cr3 := p_cr3 p\<rparr>;
               u = wrmsr MSR_GS_BASE (t_gs_base nt) (wrmsr MSR_FS_BASE (t_fs_base nt) u);
               u = (if fpu_enabled u then u\<lparr>fpu_regs := t_fp_state nt\<rparr> else u);
               u = set_tss_sp (st_bottom (t_kernel_stack nt)) u
           in Ok (t_k_rsp nt, sched_lock_release (rflags s) u)))))"
proof -
  have tl: "try_lock_irqsave (scheduler_lock s) s = (rflags s, 1, s\<lparr>int_flag := False\<rparr>)" using assms(1) by (simp add: try_lock_free)
  have links: "r_links (saved rsp s th) = r_links s" by (simp add: saved_def put_def)
  show ?thesis
    unfolding sched_next_process_core_def tl Let_def prod.case
    by (simp only: rflags_nonzero if_False save_steps [OF assms(2) HOL.refl]) (simp add: links)
qed

lemma saved_sel [simp]:
  "r_links (saved rsp s th) = r_links s" "fpu_enabled (saved rsp s th) = fpu_enabled s" "fpu_regs (saved rsp s th) = fpu_regs s"
  "t_links (saved rsp s th) = t_links s" "msrs (saved rsp s th) = msrs s"
  by (simp_all add: saved_def put_def)

lemma saved_tcb:
  "get_tcb (current_thread s) s = Ok th \<Longrightarrow>
     get_tcb x (saved rsp s th) = (if x = current_thread s then Ok (save_context rsp s th) else get_tcb x s)"
  unfolding get_tcb_Ok by (auto simp: get_tcb_def saved_def put_def)

lemma saved_pcb: "get_tcb (current_thread s) s = Ok th \<Longrightarrow> get_pcb x (saved rsp s th) = get_pcb x s"
  unfolding get_tcb_Ok by (auto simp: get_pcb_def saved_def put_def)

lemma saved_queue:
  assumes "get_tcb (current_thread s) s = Ok th"
  shows "run_queue ts (saved rsp s th) = run_queue ts s" "runnable (saved rsp s th) = runnable s"
  using assms by (auto simp: run_queue_def runnable_def saved_tcb save_context_def fun_eq_iff split: if_splits)

text \<open>The processor is set up for a thread \<open>nt\<close> of the process \<open>p\<close>.\<close>

definition running :: "u64 \<Rightarrow> tcb \<Rightarrow> pcb \<Rightarrow> 'a sched_scheme \<Rightarrow> bool" where
  "running t nt p s \<longleftrightarrow> current_thread s = t \<and> current_process s = t_process nt \<and> cr3 s = p_cr3 p \<and>
     msrs s MSR_FS_BASE = t_fs_base nt \<and> msrs s MSR_GS_BASE = t_gs_base nt \<and>
     tss_rsp0 s = st_bottom (t_kernel_stack nt) \<and> (fpu_enabled s \<longrightarrow> fpu_regs s = t_fp_state nt)"

lemma sched_next_running:
  assumes "scheduler_lock s = 0" "get_tcb (current_thread s) s = Ok th"
    and "sched_pick (current_thread s) (hnext (r_links s) (current_thread s)) (saved rsp s th) = Some (Ok n)"
    and "get_tcb n (saved rsp s th) = Ok nt" "get_pcb (t_process nt) s = Ok p"
  shows "\<exists>t. sched_next_process_core rsp s = Ok (t_k_rsp nt, t) \<and> running n nt p t \<and> objs t = objs (saved rsp s th) \<and>
    r_links t = r_links s \<and> scheduler_lock t = 0 \<and> int_flag t = int_flag s \<and> fpu_enabled t = fpu_enabled s"
proof -
  have p: "get_pcb (t_process nt) (saved rsp s th) = Ok p" using assms(5) saved_pcb [OF assms(2)] by simp
  have i: "int_flag (saved rsp s th) = False" by (simp add: saved_def put_def)
  have ne: "MSR_FS_BASE \<noteq> MSR_GS_BASE" by (simp add: MSR_GS_BASE_def MSR_FS_BASE_def)
  show ?thesis
    unfolding sched_next_unfold [OF assms(1,2)] assms(3) option.case bindr.simps assms(4) p
    by (simp add: Let_def running_def wrmsr_def set_tss_sp_def run_simps i ne)
qed

lemma sched_next_choice:
  assumes "scheduler_lock s = 0" "get_tcb (current_thread s) s = Ok th" "run_queue ts s" "can_choose s (current_thread s) ts"
    and "get_tcb (choice s (current_thread s) ts) s = Ok nt" "get_pcb (t_process nt) s = Ok p"
    and nt': "nt' = (if choice s (current_thread s) ts = current_thread s then save_context rsp s th else nt)"
  shows "\<exists>t. sched_next_process_core rsp s = Ok (t_k_rsp nt', t) \<and> running (choice s (current_thread s) ts) nt' p t \<and>
    objs t = objs (saved rsp s th) \<and> r_links t = r_links s \<and> scheduler_lock t = 0 \<and> int_flag t = int_flag s \<and>
    fpu_enabled t = fpu_enabled s"
proof (rule sched_next_running [OF assms(1,2)])
  let ?v = "saved rsp s th"
  have "run_queue ts ?v" "can_choose ?v (current_thread s) ts" using assms(3,4) saved_queue [OF assms(2)] by (simp_all add: can_choose_def)
  then have "sched_pick (current_thread s) (hnext (r_links ?v) (current_thread s)) ?v = Some (Ok (choice ?v (current_thread s) ts))"
    by (rule sched_pick_choice)
  then show "sched_pick (current_thread s) (hnext (r_links s) (current_thread s)) ?v = Some (Ok (choice s (current_thread s) ts))"
    using saved_queue [OF assms(2)] by (simp add: choice_def)
  show "get_tcb (choice s (current_thread s) ts) ?v = Ok nt'" using saved_tcb [OF assms(2)] assms(5) by (simp add: nt')
  show "get_pcb (t_process nt') s = Ok p" using assms(2,5,6) by (auto simp: nt' save_context_def)
qed

text \<open>
  C27. A timer tick gives the processor to the first runnable thread after the current one,
  in the order of the queue and round its end, and to the current thread when no thread is
  runnable. The search ends when the current thread is still on the queue, or when it has
  left the queue and another thread is runnable. The context of the old thread is saved in
  its structure, the processor gets the address space, segment bases, kernel stack and
  floating-point registers of the new one, the value returned is its saved stack pointer,
  and the lock and the interrupt flag are as before.
\<close>

theorem sched_round_robin:
  assumes "scheduler_lock s = 0" "get_tcb (current_thread s) s = Ok th" "run_queue ts s" "can_choose s (current_thread s) ts"
    and "get_tcb (choice s (current_thread s) ts) s = Ok nt" "get_pcb (t_process nt) s = Ok p"
    and "nt' = (if choice s (current_thread s) ts = current_thread s then save_context rsp s th else nt)"
  shows "\<exists>t. sched_next_process_core rsp s = Ok (t_k_rsp nt', t) \<and> running (choice s (current_thread s) ts) nt' p t \<and>
    (\<forall>x. get_tcb x t = (if x = current_thread s then Ok (save_context rsp s th) else get_tcb x s)) \<and>
    run_queue ts t \<and> scheduler_lock t = 0 \<and> int_flag t = int_flag s"
proof -
  obtain t where t: "sched_next_process_core rsp s = Ok (t_k_rsp nt', t)" "running (choice s (current_thread s) ts) nt' p t"
      "objs t = objs (saved rsp s th)" "r_links t = r_links s" "scheduler_lock t = 0" "int_flag t = int_flag s"
    using sched_next_choice [OF assms] by blast
  have same: "get_tcb x t = get_tcb x (saved rsp s th)" for x using t(3) by (simp add: get_tcb_def)
  then have "run_queue ts t" using assms(3) t(4) saved_queue(1) [OF assms(2), of ts rsp] by (auto simp: run_queue_def)
  then show ?thesis using t same saved_tcb [OF assms(2)] by auto
qed

lemma sched_next_OkD:
  assumes "scheduler_lock s = 0" "sched_next_process_core rsp s = Ok (r, t)"
  obtains th nt where "get_tcb (current_thread s) s = Ok th" "get_tcb (current_thread t) (saved rsp s th) = Ok nt"
    "r = t_k_rsp nt" "objs t = objs (saved rsp s th)" "msrs t MSR_FS_BASE = t_fs_base nt" "msrs t MSR_GS_BASE = t_gs_base nt"
    "fpu_enabled s \<Longrightarrow> fpu_regs t = t_fp_state nt"
proof (cases "get_tcb (current_thread s) s")
  case (Stop c)
  then have "get_tcb (current_thread s) (s\<lparr>int_flag := False, scheduler_lock := 1\<rparr>) = Stop c" by (simp add: get_tcb_def)
  then have "sched_next_process_core rsp s = Stop c"
    using assms(1) by (simp add: sched_next_process_core_def try_lock_free Let_def rflags_nonzero upd_tcb_def)
  then show ?thesis using assms(2) by simp
next
  case (Ok th)
  obtain n nt p where n: "sched_pick (current_thread s) (hnext (r_links s) (current_thread s)) (saved rsp s th) = Some (Ok n)"
      "get_tcb n (saved rsp s th) = Ok nt" "get_pcb (t_process nt) (saved rsp s th) = Ok p"
    using assms(2) unfolding sched_next_unfold [OF assms(1) Ok]
    by (auto simp: bindr_eq_Ok split: option.splits)
  obtain u where u: "sched_next_process_core rsp s = Ok (t_k_rsp nt, u)" "running n nt p u" "objs u = objs (saved rsp s th)"
      "fpu_enabled u = fpu_enabled s"
    using sched_next_running [OF assms(1) Ok n(1,2)] n(3) saved_pcb [OF Ok] by auto
  then have "u = t" "r = t_k_rsp nt" using assms(2) by auto
  then show ?thesis using u Ok n(2) by (intro that [of th nt]) (auto simp: running_def)
qed

text \<open>
  C28. A thread that gives up the processor and is resumed later finds its stack pointer,
  its segment bases and its floating-point registers as they were, whatever the other
  threads did in between, as long as nobody wrote to its structure.
\<close>

theorem context_round_trip:
  assumes "scheduler_lock s = 0" "fpu_enabled s" "sched_next_process_core rsp s = Ok (r1, t)"
    and "get_tcb (current_thread s) u = get_tcb (current_thread s) t" "current_thread u \<noteq> current_thread s"
    and "scheduler_lock u = 0" "fpu_enabled u" "sched_next_process_core rsp' u = Ok (r2, v)" "current_thread v = current_thread s"
  shows "r2 = rsp \<and> msrs v MSR_FS_BASE = msrs s MSR_FS_BASE \<and> msrs v MSR_GS_BASE = msrs s MSR_GS_BASE \<and> fpu_regs v = fpu_regs s"
proof -
  obtain th where th: "get_tcb (current_thread s) s = Ok th" "objs t = objs (saved rsp s th)"
    using sched_next_OkD [OF assms(1,3)] by metis
  have "get_tcb (current_thread s) t = get_tcb (current_thread s) (saved rsp s th)" using th(2) by (simp add: get_tcb_def)
  then have ctx: "get_tcb (current_thread s) u = Ok (save_context rsp s th)" using assms(4) saved_tcb [OF th(1)] by simp
  obtain uh nt where u: "get_tcb (current_thread u) u = Ok uh" "get_tcb (current_thread s) (saved rsp' u uh) = Ok nt"
      "r2 = t_k_rsp nt" "msrs v MSR_FS_BASE = t_fs_base nt" "msrs v MSR_GS_BASE = t_gs_base nt" "fpu_regs v = t_fp_state nt"
    using sched_next_OkD [OF assms(6,8)] assms(7,9) by metis
  have "nt = save_context rsp s th" using u(2) ctx assms(5) saved_tcb [OF u(1)] by simp
  then show ?thesis using u(3-6) assms(2) by (simp add: save_context_def)
qed

section \<open>The end of a process\<close>

lemma get_tcb_put:
  "get_tcb p s = Ok th \<Longrightarrow> get_tcb x (put p (Tcb th') s) = (if x = p then Ok th' else get_tcb x s)"
  unfolding get_tcb_Ok by (auto simp: get_tcb_def put_def)

lemma get_pcb_put: "get_tcb p s = Ok th \<Longrightarrow> get_pcb x (put p (Tcb th') s) = get_pcb x s"
  unfolding get_tcb_Ok by (auto simp: get_pcb_def put_def)

lemma upd_tcb_Ok: "get_tcb p s = Ok th \<Longrightarrow> upd_tcb p f s = Ok (put p (Tcb (f th)) s)"
  by (simp add: upd_tcb_def)

lemma queue_delete:
  assumes "run_queue ts s" "x \<in> set ts"
  obtains m where "hlist_del x (r_links s) = Ok m" "hl_abs {SCHED_HEAD} m (\<lambda>_. remove1 x ts)"
proof -
  have q: "hl_abs {SCHED_HEAD} (r_links s) (\<lambda>_. ts)" using assms(1) by (simp add: run_queue_def)
  obtain m where "hlist_del x (r_links s) = Ok m" "hl_abs {SCHED_HEAD} m ((\<lambda>_. ts)(SCHED_HEAD := remove1 x ts))"
    using hl_abs_del [OF q, of SCHED_HEAD x] assms(2) by auto
  moreover from this(2) have "hl_abs {SCHED_HEAD} m (\<lambda>_. remove1 x ts)" by (subst hl_abs_cong) auto
  ultimately show thesis using that by blast
qed

text \<open>What one thread, and a list of threads, become.\<close>

definition exited :: "u32 \<Rightarrow> tcb \<Rightarrow> tcb" where
  "exited code th = (if t_state th AND TCB_STATE_ZOMBIE = 0 then th\<lparr>t_exit_code := code, t_state := TCB_STATE_ZOMBIE\<rparr> else th)"

lemma exited_zombie: "t_state (exited code th) AND TCB_STATE_ZOMBIE \<noteq> 0"
  by (simp add: exited_def TCB_STATE_ZOMBIE_def)

definition exit_step :: "u32 \<Rightarrow> u64 \<Rightarrow> 'a sched_scheme \<Rightarrow> 'a sched_scheme run" where
  "exit_step exit_code t s = bindr (get_tcb t s) (\<lambda>th.
     if t_state th AND TCB_STATE_ZOMBIE = 0
     then usthread_exit_locked t (if t = current_thread s then exit_code else - 1) s else Ok s)"

definition thread_code :: "u32 \<Rightarrow> 'a sched_scheme \<Rightarrow> u64 \<Rightarrow> u32" where
  "thread_code exit_code s t = (if t = current_thread s then exit_code else - 1)"

lemma exit_step_eq:
  assumes "run_queue ts s" "get_tcb x s = Ok th" "x \<in> set ts \<longleftrightarrow> t_state th AND TCB_STATE_ZOMBIE = 0"
  shows "\<exists>ob m. exit_step code x s = Ok (s\<lparr>objs := ob, r_links := m\<rparr>) \<and>
    run_queue (remove1 x ts) (s\<lparr>objs := ob, r_links := m\<rparr>) \<and>
    (\<forall>y. get_tcb y (s\<lparr>objs := ob, r_links := m\<rparr>) = (if y = x then Ok (exited (thread_code code s x) th) else get_tcb y s)) \<and>
    (\<forall>y. get_pcb y (s\<lparr>objs := ob, r_links := m\<rparr>) = get_pcb y s)"
proof (cases "x \<in> set ts")
  case False
  then have "exit_step code x s = Ok (s\<lparr>objs := objs s, r_links := r_links s\<rparr>)" "exited c th = th" for c
    using assms(2,3) by (simp_all add: exit_step_def exited_def)
  then show ?thesis using assms(1,2) False by (intro exI [of _ "objs s"] exI [of _ "r_links s"]) (simp add: remove1_idem)
next
  case True
  then obtain m where m: "hlist_del x (r_links s) = Ok m" "hl_abs {SCHED_HEAD} m (\<lambda>_. remove1 x ts)"
    using queue_delete [OF assms(1)] by blast
  define th' where "th' = exited (thread_code code s x) th"
  define u where "u = put x (Tcb th') (s\<lparr>r_links := m\<rparr>)"
  have live: "get_tcb y (s\<lparr>r_links := m\<rparr>) = get_tcb y s" "get_pcb y (s\<lparr>r_links := m\<rparr>) = get_pcb y s" for y
    by (simp_all add: get_tcb_def get_pcb_def)
  obtain k where k: "objs s x = Some (k, Tcb th)" using assms(2) by (auto simp: get_tcb_Ok)
  have "exit_step code x s = Ok u"
    using True assms(2,3) m(1) k
    by (simp add: exit_step_def usthread_exit_locked_def upd_tcb_eq unlink_run_def u_def th'_def exited_def thread_code_def put_def)
  moreover have tcb: "get_tcb y u = (if y = x then Ok th' else get_tcb y s)" for y
    using get_tcb_put [of x "s\<lparr>r_links := m\<rparr>"] assms(2) live by (simp add: u_def)
  moreover have "get_pcb y u = get_pcb y s" for y
    using get_pcb_put [of x "s\<lparr>r_links := m\<rparr>"] assms(2) live by (simp add: u_def)
  moreover have "run_queue (remove1 x ts) u"
    using assms(1) m(2) tcb by (auto simp: run_queue_def u_def put_def dest: notin_set_remove1)
  moreover have "u = s\<lparr>objs := objs u, r_links := m\<rparr>" by (simp add: u_def put_def)
  ultimately show ?thesis unfolding th'_def by metis
qed

lemma exit_threads:
  assumes "distinct xs" "run_queue ts s" "\<And>x. x \<in> set xs \<Longrightarrow> \<exists>th. get_tcb x s = Ok th \<and> (x \<in> set ts \<longleftrightarrow> t_state th AND TCB_STATE_ZOMBIE = 0)"
  shows "\<exists>ob m. foreach (exit_step code) xs s = Ok (s\<lparr>objs := ob, r_links := m\<rparr>) \<and>
    run_queue (filter (\<lambda>x. x \<notin> set xs) ts) (s\<lparr>objs := ob, r_links := m\<rparr>) \<and>
    (\<forall>y. get_tcb y (s\<lparr>objs := ob, r_links := m\<rparr>) =
       (if y \<in> set xs then bindr (get_tcb y s) (\<lambda>th. Ok (exited (thread_code code s y) th)) else get_tcb y s)) \<and>
    (\<forall>y. get_pcb y (s\<lparr>objs := ob, r_links := m\<rparr>) = get_pcb y s)"
  using assms
proof (induction xs arbitrary: s ts)
  case Nil
  then show ?case by (intro exI [of _ "objs s"] exI [of _ "r_links s"]) simp
next
  case (Cons x xs)
  obtain th where th: "get_tcb x s = Ok th" "x \<in> set ts \<longleftrightarrow> t_state th AND TCB_STATE_ZOMBIE = 0" using Cons.prems(3) by auto
  obtain ob m where step: "exit_step code x s = Ok (s\<lparr>objs := ob, r_links := m\<rparr>)" "run_queue (remove1 x ts) (s\<lparr>objs := ob, r_links := m\<rparr>)"
      "\<And>y. get_tcb y (s\<lparr>objs := ob, r_links := m\<rparr>) = (if y = x then Ok (exited (thread_code code s x) th) else get_tcb y s)"
      "\<And>y. get_pcb y (s\<lparr>objs := ob, r_links := m\<rparr>) = get_pcb y s"
    using exit_step_eq [OF Cons.prems(2) th, of code] by blast
  let ?u = "s\<lparr>objs := ob, r_links := m\<rparr>"
  have d: "distinct ts" using Cons.prems(2) by (simp add: run_queue_def hl_abs_def)
  have "\<exists>th. get_tcb y ?u = Ok th \<and> (y \<in> set (remove1 x ts) \<longleftrightarrow> t_state th AND TCB_STATE_ZOMBIE = 0)" if "y \<in> set xs" for y
    using Cons.prems(1,3) that step(3) [of y] d by auto
  then obtain ob' m' where rest: "foreach (exit_step code) xs ?u = Ok (?u\<lparr>objs := ob', r_links := m'\<rparr>)"
      "run_queue (filter (\<lambda>x. x \<notin> set xs) (remove1 x ts)) (?u\<lparr>objs := ob', r_links := m'\<rparr>)"
      "\<And>y. get_tcb y (?u\<lparr>objs := ob', r_links := m'\<rparr>) =
         (if y \<in> set xs then bindr (get_tcb y ?u) (\<lambda>th. Ok (exited (thread_code code ?u y) th)) else get_tcb y ?u)"
      "\<And>y. get_pcb y (?u\<lparr>objs := ob', r_links := m'\<rparr>) = get_pcb y ?u"
    using Cons.IH [of "remove1 x ts" ?u] Cons.prems(1) step(2) by auto
  have over: "?u\<lparr>objs := ob', r_links := m'\<rparr> = s\<lparr>objs := ob', r_links := m'\<rparr>" by simp
  have "filter (\<lambda>x. x \<notin> set xs) (remove1 x ts) = filter (\<lambda>y. y \<notin> set (x # xs)) ts"
    using d by (auto simp: distinct_remove1_removeAll removeAll_filter_not_eq intro!: filter_cong)
  moreover have "thread_code code ?u y = thread_code code s y" for y by (simp add: thread_code_def)
  ultimately show ?case using step rest Cons.prems(1) th(1) unfolding over
    by (intro exI [of _ ob'] exI [of _ m']) auto
qed

lemma drop_stacks:
  assumes "\<And>x. x \<in> set xs \<Longrightarrow> returns (get_tcb x s)"
  shows "\<exists>ob. foreach (\<lambda>t. upd_tcb t (\<lambda>th. th\<lparr>t_user_stack := no_stack\<rparr>)) xs s = Ok (s\<lparr>objs := ob\<rparr>) \<and>
    (\<forall>y. get_tcb y (s\<lparr>objs := ob\<rparr>) =
       (if y \<in> set xs then bindr (get_tcb y s) (\<lambda>th. Ok (th\<lparr>t_user_stack := no_stack\<rparr>)) else get_tcb y s)) \<and>
    (\<forall>y. get_pcb y (s\<lparr>objs := ob\<rparr>) = get_pcb y s)"
  using assms
proof (induction xs arbitrary: s)
  case Nil
  then show ?case by (intro exI [of _ "objs s"]) simp
next
  case (Cons x xs)
  obtain th where th: "get_tcb x s = Ok th" using Cons.prems [of x] by (cases "get_tcb x s") auto
  let ?th = "th\<lparr>t_user_stack := no_stack\<rparr>"
  let ?u = "put x (Tcb ?th) s"
  have u: "get_tcb y ?u = (if y = x then Ok ?th else get_tcb y s)" "get_pcb y ?u = get_pcb y s" for y
    using get_tcb_put [OF th] get_pcb_put [OF th] by simp_all
  have "returns (get_tcb y ?u)" if "y \<in> set xs" for y using Cons.prems that u(1) by auto
  then obtain ob where ob: "foreach (\<lambda>t. upd_tcb t (\<lambda>th. th\<lparr>t_user_stack := no_stack\<rparr>)) xs ?u = Ok (?u\<lparr>objs := ob\<rparr>)"
      "\<And>y. get_tcb y (?u\<lparr>objs := ob\<rparr>) =
       (if y \<in> set xs then bindr (get_tcb y ?u) (\<lambda>th. Ok (th\<lparr>t_user_stack := no_stack\<rparr>)) else get_tcb y ?u)"
      "\<And>y. get_pcb y (?u\<lparr>objs := ob\<rparr>) = get_pcb y ?u"
    using Cons.IH [of ?u] by blast
  have over: "?u\<lparr>objs := ob\<rparr> = s\<lparr>objs := ob\<rparr>" by (simp add: put_def)
  show ?case using ob u th unfolding over by (intro exI [of _ ob]) (auto simp: upd_tcb_Ok [OF th])
qed

lemma upd_pcb_frame:
  assumes "get_pcb q s = Ok p"
  shows "\<exists>ob. upd_pcb q f s = Ok (s\<lparr>objs := ob\<rparr>) \<and> (\<forall>y. get_tcb y (s\<lparr>objs := ob\<rparr>) = get_tcb y s) \<and>
    (\<forall>y. get_pcb y (s\<lparr>objs := ob\<rparr>) = (if y = q then Ok (f p) else get_pcb y s))"
proof -
  obtain k where k: "objs s q = Some (k, Pcb p)" using assms by (auto simp: get_pcb_Ok)
  show ?thesis
    by (intro exI [of _ "(objs s)(q \<mapsto> (k, Pcb (f p)))"]) (auto simp: upd_pcb_def get_pcb_def get_tcb_def put_def k)
qed

text \<open>The steps of the exit, one after the other.\<close>

lemma usproc_exit_steps:
  assumes "scheduler_lock s = 0" "proc \<noteq> 0" "proc \<noteq> kernel_proc s" "get_pcb proc s = Ok p" "p_state p AND PCB_STATE_ZOMBIE = 0"
    and "hlist_nodes proc (t_links s) = Ok xs" "foreach (exit_step code) xs (s\<lparr>int_flag := False, scheduler_lock := 1\<rparr>) = Ok b"
    and "upd_pcb proc (\<lambda>p. p\<lparr>p_exit_code := code, p_state := PCB_STATE_ZOMBIE\<rparr>) b = Ok c"
    and "foreach (\<lambda>t. upd_tcb t (\<lambda>th. th\<lparr>t_user_stack := no_stack\<rparr>)) xs (sched_lock_release (rflags s) c) = Ok e"
    and "upd_pcb proc (\<lambda>p. p\<lparr>p_heap := (p_heap p)\<lparr>h_lower := 0\<rparr>, opened_file_table := 0, opened_file_table_phys := 0\<rparr>) e = Ok g"
  shows "usproc_exit proc code s = Ok g"
proof -
  have pcb: "get_pcb proc (s\<lparr>int_flag := False, scheduler_lock := 1\<rparr>) = Ok p" using assms(4) by (simp add: get_pcb_def)
  show ?thesis
    using assms(2,3,5-10)
    by (simp add: usproc_exit_def sched_lock_free [OF assms(1)] pcb exit_step_def [abs_def] Let_def)
qed


section \<open>A machine with two threads\<close>

definition demo_thread :: "16 word \<Rightarrow> u64 \<Rightarrow> tcb" where
  "demo_thread tid rsp = \<lparr>t_tid = tid, t_state = TCB_STATE_RUNNABLE, t_exit_code = 0, t_process = 0x50, t_k_rsp = rsp,
     t_kernel_stack = no_stack, t_user_stack = no_stack, t_fs_base = 0, t_gs_base = 0, t_fp_state = [], t_signal_mask = 0\<rparr>"

definition demo_process :: pcb where
  "demo_process = \<lparr>p_pid = 1, p_name = 0, p_state = 1, p_exit_code = 0, p_cr3 = 0x3000, p_heap = \<lparr>h_lower = 0, h_higher = 0, h_size = 0\<rparr>,
     opened_file_table = 0, opened_file_table_phys = 0, cwd_i = 0, p_uid = 0, p_gid = 0, p_ngroups = 0, p_groups = 0, p_parent = 0,
     signals_bitmap = 0, signal_handlers = []\<rparr>"

definition no_links :: hlists where
  "no_links = \<lparr>hnext = \<lambda>_. 0, hpprev = \<lambda>_. None, hfirst = \<lambda>_. 0\<rparr>"

definition demo_devs :: devs where
  "demo_devs = kbd.extend demo_kbd (devs.fields 1 [] 0 0 [] 0 0)"

definition demo_sched :: sched where
  "demo_sched = devs.extend
     (demo_devs\<lparr>objs := [0x50 \<mapsto> (Aligned, Pcb demo_process), 0x100 \<mapsto> (Aligned, Tcb (demo_thread 2 0x1000)),
        0x200 \<mapsto> (Aligned, Tcb (demo_thread 3 0x2000))]\<rparr>)
     (sched.fields (hlist_add_head 0x100 0x50 (hlist_add_head 0x200 0x50 no_links))
        (hlist_add_head 0x100 SCHED_HEAD (hlist_add_head 0x200 SCHED_HEAD no_links)) no_links no_links 0x40 0x100
        (replicate 256 0xFFFFFFFF) 0 True (\<lambda>_. 0) 0 1 True [7] (\<lambda>_. []))"

lemma demo_sched_sel [simp]:
  "objs demo_sched = [0x50 \<mapsto> (Aligned, Pcb demo_process), 0x100 \<mapsto> (Aligned, Tcb (demo_thread 2 0x1000)),
     0x200 \<mapsto> (Aligned, Tcb (demo_thread 3 0x2000))]"
  "t_links demo_sched = hlist_add_head 0x100 0x50 (hlist_add_head 0x200 0x50 no_links)"
  "r_links demo_sched = hlist_add_head 0x100 SCHED_HEAD (hlist_add_head 0x200 SCHED_HEAD no_links)"
  "kernel_proc demo_sched = 0x40" "current_thread demo_sched = 0x100" "tid_bitmap demo_sched = replicate 256 0xFFFFFFFF"
  "tid_bitmap_curr demo_sched = 0" "tid0_used demo_sched" "scheduler_lock demo_sched = 0" "fpu_enabled demo_sched"
  by (simp_all add: demo_sched_def devs.defs sched.defs)

lemma demo_tcb:
  "get_tcb 0x100 demo_sched = Ok (demo_thread 2 0x1000)" "get_tcb 0x200 demo_sched = Ok (demo_thread 3 0x2000)"
  "get_pcb 0x50 demo_sched = Ok demo_process"
  by (simp_all add: get_tcb_def get_pcb_def)

lemma demo_queue: "run_queue [0x100, 0x200] demo_sched"
  by (simp add: run_queue_def hl_abs_def hlist_add_head_def Let_def no_links_def demo_tcb)

lemma demo_runnable: "runnable demo_sched 0x100" "runnable demo_sched 0x200"
  by (simp_all add: runnable_def demo_tcb demo_thread_def TCB_STATE_RUNNABLE_def)

lemma demo_choice: "choice demo_sched 0x100 [0x100, 0x200] = 0x200" "can_choose demo_sched 0x100 [0x100, 0x200]"
  by (simp_all add: choice_def round_robin_def demo_runnable can_choose_def)

theorem sched_round_robin_witness:
  "\<exists>t. sched_next_process_core 0x7777 demo_sched = Ok (0x2000, t) \<and> current_thread t = 0x200 \<and> cr3 t = 0x3000 \<and>
     get_tcb 0x100 t = Ok (save_context 0x7777 demo_sched (demo_thread 2 0x1000)) \<and> run_queue [0x100, 0x200] t"
  using sched_round_robin [of demo_sched "demo_thread 2 0x1000" "[0x100, 0x200]" "demo_thread 3 0x2000" demo_process
      "demo_thread 3 0x2000" "0x7777"] demo_queue
  by (simp add: demo_tcb demo_choice running_def) (auto simp: demo_thread_def demo_process_def demo_tcb)

theorem context_round_trip_witness:
  "\<exists>r t v. sched_next_process_core 0x7777 demo_sched = Ok (0x2000, t) \<and> sched_next_process_core 0x8888 t = Ok (r, v) \<and>
     current_thread v = 0x100 \<and> r = 0x7777 \<and> fpu_regs v = fpu_regs demo_sched"
proof -
  let ?a = "demo_thread 2 0x1000" and ?b = "demo_thread 3 0x2000"
  obtain t where t: "sched_next_process_core 0x7777 demo_sched = Ok (0x2000, t)" "running 0x200 ?b demo_process t"
      "objs t = objs (saved 0x7777 demo_sched ?a)" "r_links t = r_links demo_sched" "scheduler_lock t = 0" "fpu_enabled t"
    using sched_next_choice [of demo_sched ?a "[0x100, 0x200]" ?b demo_process ?b "0x7777"] demo_queue
    by (auto simp: demo_tcb demo_choice demo_thread_def [of 3])
  let ?a' = "save_context 0x7777 demo_sched ?a"
  have tcb: "get_tcb x t = (if x = 0x100 then Ok ?a' else get_tcb x demo_sched)" "get_pcb x t = get_pcb x demo_sched" for x
    using saved_tcb [of demo_sched ?a x "0x7777"] saved_pcb [of demo_sched ?a x "0x7777"] t(3) demo_tcb
    by (simp_all add: get_tcb_def [of _ t] get_pcb_def [of _ t] get_tcb_def [of _ "saved _ _ _"] get_pcb_def [of _ "saved _ _ _"])
  have cur: "current_thread t = 0x200" using t(2) by (simp add: running_def)
  have q: "run_queue [0x100, 0x200] t" using demo_queue t(4) by (simp add: run_queue_def tcb)
  have "runnable t 0x100" by (simp add: runnable_def tcb save_context_def demo_thread_def TCB_STATE_RUNNABLE_def)
  then have ch: "choice t 0x200 [0x100, 0x200] = 0x100" "can_choose t 0x200 [0x100, 0x200]"
    by (simp_all add: choice_def round_robin_def can_choose_def)
  obtain r v where v: "sched_next_process_core 0x8888 t = Ok (r, v)" "current_thread v = 0x100"
    using sched_next_choice [of t ?b "[0x100, 0x200]" ?a' demo_process ?a' "0x8888"] q t(5)
    by (auto simp: tcb demo_tcb cur ch running_def save_context_def demo_thread_def [of 2])
  show ?thesis
    using context_round_trip [of demo_sched "0x7777" "0x2000" t t "0x8888" r v] t v cur by auto
qed


section \<open>Identifiers\<close>

text \<open>
  C30. As long as \<open>n\<close> numbers are free, \<open>n\<close> calls return \<open>n\<close> different free numbers in
  ascending order, never 0, each below the bound of the table, and take exactly these
  numbers out of the pool; a number that is given back can be taken again.
\<close>

theorem thread_ids_fresh:
  assumes "tids_ok s" "n \<le> card (free_tids s)"
  shows "\<exists>xs t. acquires get_unused_tid n s = Ok (map int xs, t) \<and> tids_ok t \<and> length xs = n \<and> sorted_wrt (<) xs \<and>
    set xs \<subseteq> free_tids s \<inter> {1..<MAX_TID} \<and> free_tids t = free_tids s - set xs \<and>
    (\<forall>x \<in> set xs. \<exists>u. free_tid (of_nat x) t = Ok u \<and> tids_ok u \<and> free_tids u = insert x (free_tids t))"
proof -
  have fin: "finite (free_tids s)" using tids.ids_valid [OF assms(1)] finite_subset by blast
  obtain xs t where t: "acquires get_unused_tid n s = Ok (map int xs, t)" "tids_ok t" "length xs = n" "sorted_wrt (<) xs"
      "set xs \<subseteq> free_tids s" "free_tids t = free_tids s - set xs"
    using tids.acquires_fresh [OF assms(1) fin assms(2)] by (elim exE conjE) (rule that)
  have range: "set xs \<subseteq> {1..<MAX_TID}" using t(5) tids.ids_valid [OF assms(1)] by blast
  then have "\<exists>u. free_tid (of_nat x) t = Ok u \<and> tids_ok u \<and> free_tids u = insert x (free_tids t)" if "x \<in> set xs" for x
    using tids.release_law [OF t(2), of x] that by blast
  then show ?thesis using t range by (intro exI [of _ xs] exI [of _ t]) auto
qed

lemma demo_tids: "tids_ok demo_sched" "{1, 2, 3} \<subseteq> free_tids demo_sched"
proof -
  show ok: "tids_ok demo_sched" by (simp add: tids_ok_def)
  show "{1, 2, 3} \<subseteq> free_tids demo_sched" by (auto simp: free_tids_word [OF ok] MAX_TID_def bit_numeral_rec)
qed

theorem thread_ids_fresh_witness:
  "tids_ok demo_sched \<and> 3 \<le> card (free_tids demo_sched) \<and>
   (\<exists>xs t. acquires get_unused_tid 3 demo_sched = Ok (map int xs, t) \<and> length xs = 3 \<and> sorted_wrt (<) xs)"
proof -
  have fin: "finite (free_tids demo_sched)" using tids.ids_valid [OF demo_tids(1)] finite_subset by blast
  have "card {1, 2, 3 :: nat} \<le> card (free_tids demo_sched)" using demo_tids(2) by (rule card_mono [OF fin])
  then have "3 \<le> card (free_tids demo_sched)" by simp
  then show ?thesis using thread_ids_fresh [OF demo_tids(1), of 3] demo_tids(1) by blast
qed

text \<open>
  C31. An entry of the table remembers what kind of structure it points at: after storing a
  process or a thread at a kernel address, the lookup of its number returns that address
  with its kind, the other numbers are unchanged, and a number that was cleared or is out of
  range is neither.
\<close>

theorem id_table_kinds:
  assumes "bit a 63" "a \<noteq> ID_TAG_MASK" "n < MAX_TID"
  shows "\<exists>t u v. id_table_set_proc n a s = Ok t \<and> id_lookup n t = (ID_PROC, a) \<and>
    id_table_set_thread n a s = Ok u \<and> id_lookup n u = (ID_THREAD, a) \<and>
    id_table_clear n s = Ok v \<and> id_lookup n v = (ID_NONE, 0) \<and>
    (\<forall>m. m \<noteq> n \<longrightarrow> id_lookup m t = id_lookup m s \<and> id_lookup m u = id_lookup m s \<and> id_lookup m v = id_lookup m s) \<and>
    (\<forall>m \<ge> MAX_TID. id_lookup m t = (ID_NONE, 0))"
proof -
  have tag: "bit ID_TAG_MASK i \<longleftrightarrow> i = 63" for i
    using bit_exp_iff [where 'a = u64, of 63 i] by (auto simp: ID_TAG_MASK_def bit_simps)
  have a: "a OR ID_TAG_MASK = a" using assms(1) by (intro bit_word_eqI) (auto simp: bit_simps tag)
  have restore: "(a AND NOT ID_TAG_MASK) OR ID_TAG_MASK = a" using assms(1) by (intro bit_word_eqI) (auto simp: bit_simps tag)
  have "a AND NOT ID_TAG_MASK \<noteq> 0" using restore assms(2) by auto
  moreover have "(a AND NOT ID_TAG_MASK) AND ID_TAG_MASK = 0" by (intro bit_word_eqI) (auto simp: bit_simps)
  moreover have "bit (a AND ID_TAG_MASK) 63" using assms(1) by (simp add: bit_simps tag)
  then have "a AND ID_TAG_MASK \<noteq> 0" "a \<noteq> 0" by auto
  ultimately show ?thesis using assms(3) a restore
    by (auto simp: id_table_set_proc_def id_table_set_thread_def id_table_clear_def id_lookup_def Let_def)
qed

theorem id_table_kinds_witness:
  "\<exists>t. id_table_set_proc 5 0xFFFF800000001000 demo_sched = Ok t \<and> id_lookup 5 t = (ID_PROC, 0xFFFF800000001000)"
  using id_table_kinds [of "0xFFFF800000001000" 5 demo_sched]
  by (auto simp: ID_TAG_MASK_def MAX_TID_def bit_numeral_rec)

end
