(* ===== verification/Exec.thy ===== *)
theory Exec
  imports Proc
begin

text \<open>
  Program images and processes made from them: \<open>kernel/src/executable/elf/elf.c\<close>, \<open>execve.c\<close>
  and \<open>fork.c\<close>. An image is read through the direct map into physical frames, where its
  headers are parsed in place and its segments are copied to frames of their own. A
  buffer in the direct map that a file operation fills is brought into \<open>kmem\<close>
  (\<open>to_direct_map\<close>), written there, and taken back into \<open>phys_mem\<close> (\<open>from_direct_map\<close>). The entries of a file table are
  reached through the page tables of the running process.
\<close>

section \<open>Bytes in physical memory\<close>

definition read16 :: "mem \<Rightarrow> u64 \<Rightarrow> u16" where
  "read16 m a = ucast (m a) OR push_bit 8 (ucast (m (a + 1)))"

definition read32 :: "mem \<Rightarrow> u64 \<Rightarrow> u32" where
  "read32 m a = ucast (read16 m a) OR push_bit 16 (ucast (read16 m (a + 2)))"

definition PHYS_2_HHDM :: "u64 \<Rightarrow> u64" where
  "PHYS_2_HHDM phys = phys + HHDM_VBASE"

definition to_direct_map :: "u64 \<Rightarrow> u64 \<Rightarrow> 'a heap_scheme \<Rightarrow> 'a heap_scheme" where
  "to_direct_map phys count s =
     s\<lparr>kmem := write_bytes (kmem s) (PHYS_2_HHDM phys) (mem_bytes (phys_mem s) phys (unat count))\<rparr>"

definition from_direct_map :: "u64 \<Rightarrow> u64 \<Rightarrow> 'a heap_scheme \<Rightarrow> 'a heap_scheme" where
  "from_direct_map phys count s =
     s\<lparr>phys_mem := write_bytes (phys_mem s) phys (mem_bytes (kmem s) (PHYS_2_HHDM phys) (unat count))\<rparr>"

text \<open>Copying frames through the direct map carries the typed view of open files along.\<close>

definition copy_frames :: "u64 \<Rightarrow> u64 \<Rightarrow> nat \<Rightarrow> 'a sched_scheme \<Rightarrow> 'a sched_scheme" where
  "copy_frames dst src n s =
     s\<lparr>phys_mem := memcpy (phys_mem s) dst src (n * 4096),
       ftab := fold (\<lambda>k f. f(dst + of_nat k * PAGE_SIZE_4K := f (src + of_nat k * PAGE_SIZE_4K))) [0..<n] (ftab s)\<rparr>"

definition cli :: "'a cpu_scheme \<Rightarrow> 'a cpu_scheme" where "cli s = s\<lparr>int_flag := False\<rparr>"
definition sti :: "'a cpu_scheme \<Rightarrow> 'a cpu_scheme" where "sti s = s\<lparr>int_flag := True\<rparr>"

section \<open>File tables\<close>

text \<open>
  \<open>((file*) table)[i]\<close> in the running address space: the frame behind the page of the
  entry and the position in it.
\<close>

definition file_slot :: "u64 \<Rightarrow> nat \<Rightarrow> 'a sched_scheme \<Rightarrow> (u64 \<times> nat) run" where
  "file_slot table i s =
     (let pa = page_dir_virt_to_phys (phys_mem s) (cr3 s) (table + of_nat i * 64)
      in if pa = UINTPTR_MAX then Stop BadPointer
         else
           (let frame = pa AND NOT (PAGE_SIZE_4K - 1); k = unat ((pa AND (PAGE_SIZE_4K - 1)) div 64)
            in if k < length (ftab s frame) then Ok (frame, k) else Stop BadPointer))"

definition get_file :: "u64 \<Rightarrow> nat \<Rightarrow> 'a sched_scheme \<Rightarrow> file_t run" where
  "get_file table i s = bindr (file_slot table i s) (\<lambda>(frame, k). Ok (ftab s frame ! k))"

definition set_file :: "u64 \<Rightarrow> nat \<Rightarrow> file_t \<Rightarrow> 'a sched_scheme \<Rightarrow> 'a sched_scheme run" where
  "set_file table i f s =
     bindr (file_slot table i s) (\<lambda>(frame, k). Ok (s\<lparr>ftab := (ftab s)(frame := (ftab s frame)[k := f])\<rparr>))"

section \<open>Headers\<close>

record elf64_ehdr =
  e_ident :: "u8 list"
  e_type :: u16
  e_machine :: u16
  e_version :: u32
  e_entry :: u64
  e_phoff :: u64
  e_shoff :: u64
  e_flags :: u32
  e_ehsize :: u16
  e_phentsize :: u16
  e_phnum :: u16
  e_shentsize :: u16
  e_shnum :: u16
  e_shstrndx :: u16

definition read_ehdr :: "mem \<Rightarrow> u64 \<Rightarrow> elf64_ehdr" where
  "read_ehdr m a =
     \<lparr>e_ident = mem_bytes m a 16, e_type = read16 m (a + 16), e_machine = read16 m (a + 18), e_version = read32 m (a + 20),
      e_entry = read64 m (a + 24), e_phoff = read64 m (a + 32), e_shoff = read64 m (a + 40), e_flags = read32 m (a + 48),
      e_ehsize = read16 m (a + 52), e_phentsize = read16 m (a + 54), e_phnum = read16 m (a + 56),
      e_shentsize = read16 m (a + 58), e_shnum = read16 m (a + 60), e_shstrndx = read16 m (a + 62)\<rparr>"

record elf64_phdr =
  ph_type :: u32
  ph_flags :: u32
  ph_offset :: u64
  ph_vaddr :: u64
  ph_paddr :: u64
  ph_filesz :: u64
  ph_memsz :: u64
  ph_align :: u64

definition read_phdr :: "mem \<Rightarrow> u64 \<Rightarrow> elf64_phdr" where
  "read_phdr m a =
     \<lparr>ph_type = read32 m a, ph_flags = read32 m (a + 4), ph_offset = read64 m (a + 8), ph_vaddr = read64 m (a + 16),
      ph_paddr = read64 m (a + 24), ph_filesz = read64 m (a + 32), ph_memsz = read64 m (a + 40), ph_align = read64 m (a + 48)\<rparr>"

definition PT_LOAD :: u32 where "PT_LOAD = 1"
definition PF_X :: u32 where "PF_X = 1"
definition PF_W :: u32 where "PF_W = 2"

definition elf64_validate :: "elf64_ehdr \<Rightarrow> int" where
  "elf64_validate eh =
     (if e_ident eh ! 0 \<noteq> 0x7F \<or> e_ident eh ! 1 \<noteq> of_char CHR ''E'' \<or> e_ident eh ! 2 \<noteq> of_char CHR ''L'' \<or>
         e_ident eh ! 3 \<noteq> of_char CHR ''F'' then - E_NOEXEC
      else if e_ident eh ! 4 \<noteq> 2 then - E_NOEXEC
      else if e_ident eh ! 5 \<noteq> 1 then - E_NOEXEC
      else if e_machine eh \<noteq> 62 then - E_NOEXEC
      else if e_type eh \<noteq> 2 then - E_NOEXEC
      else if e_phnum eh = 0 \<or> e_phoff eh = 0 then - E_NOEXEC
      else 0)"

section \<open>Segments\<close>

definition pages_of :: "u64 \<Rightarrow> nat" where
  "pages_of sz = (let n = unat ((sz + PAGE_SIZE_4K - 1) div PAGE_SIZE_4K) in if n = 0 then 1 else n)"

definition drop_image :: "u64 \<Rightarrow> nat \<Rightarrow> u64 \<Rightarrow> 'a pmm_scheme \<Rightarrow> 'a pmm_scheme run" where
  "drop_image raw_image raw_pages pml4 s = bindr (pmm_free_pages raw_image raw_pages s) (pmm_free_pages pml4 1)"

definition segment_flags :: "elf64_phdr \<Rightarrow> u64" where
  "segment_flags ph =
     (let flags = PTE_PRESENT OR PTE_USER OR PTE_LOCAL_OWNED;
          flags = (if ph_flags ph AND PF_W \<noteq> 0 then flags OR PTE_WRITABLE else flags)
      in if ph_flags ph AND PF_X = 0 then flags OR PTE_NX else flags)"

definition load_segment :: "u64 \<Rightarrow> u64 \<Rightarrow> nat \<Rightarrow> elf64_phdr \<Rightarrow> 'a paging_scheme \<Rightarrow> (int \<times> 'a paging_scheme) run" where
  "load_segment pml4 raw_image raw_pages ph s =
     (if ph_type ph \<noteq> PT_LOAD then Ok (0, s)
      else
        (let vaddr_aligned = ph_vaddr ph AND NOT (PAGE_SIZE_4K - 1);
             page_offset = ph_vaddr ph AND (PAGE_SIZE_4K - 1);
             seg_pages = pages_of (page_offset + ph_memsz ph)
         in bindr (pmm_alloc_pages_zeroed seg_pages s) (\<lambda>(seg_phys, s).
              if seg_phys = 0 then bindr (drop_image raw_image raw_pages pml4 s) (\<lambda>s. Ok (- E_NOMEM, s))
              else
                (let s = (if ph_filesz ph > 0
                          then s\<lparr>phys_mem := memcpy (phys_mem s) (seg_phys + page_offset) (raw_image + ph_offset ph) (unat (ph_filesz ph))\<rparr>
                          else s)
                 in bindr (map_4k_pages pml4 vaddr_aligned seg_phys seg_pages (segment_flags ph) s) (\<lambda>s. Ok (0, s))))))"

text \<open>
  The loop reads the number of headers and the header itself from the image every time
  round; the counter has sixteen bits and stays below that number.
\<close>

function load_segments :: "u64 \<Rightarrow> u64 \<Rightarrow> nat \<Rightarrow> u64 \<Rightarrow> nat \<Rightarrow> 'a paging_scheme \<Rightarrow> (int \<times> 'a paging_scheme) run" where
  "load_segments pml4 raw_image raw_pages phdrs i s =
     (if i < unat (e_phnum (read_ehdr (phys_mem s) raw_image)) then
        bindr (load_segment pml4 raw_image raw_pages (read_phdr (phys_mem s) (phdrs + of_nat i * 56)) s) (\<lambda>(r, s).
          if r < 0 then Ok (r, s) else load_segments pml4 raw_image raw_pages phdrs (Suc i) s)
      else Ok (0, s))"
  by pat_completeness auto
termination
proof (relation "measure (\<lambda>(pml4, raw_image, raw_pages, phdrs, i, s). 65536 - i)", goal_cases)
  case (2 pml4 raw_image raw_pages phdrs i s)
  moreover have "unat (e_phnum (read_ehdr (phys_mem s) raw_image)) < 65536"
    using unsigned_less [of "e_phnum (read_ehdr (phys_mem s) raw_image)", where ?'a = nat] by simp
  ultimately show ?case by simp
qed simp

text \<open>
  On an error after the process exists, the function returns with interrupts disabled and
  the process in its start-up state.
\<close>

definition open_stdin :: "u64 \<Rightarrow> 'a sched_scheme \<Rightarrow> (int \<times> 'a sched_scheme) run" where
  "open_stdin proc s =
     bindr (root_inode s) (\<lambda>root.
     bindr (kpath_lookup root ''/dev/input/input0'' s) (\<lambda>(stdin_dentry, s).
       if stdin_dentry = 0 then Ok (- E_NOENT, s)
       else
         bindr (get_dentry stdin_dentry s) (\<lambda>d.
           if d_inode d = 0 then Ok (- E_NODEV, s)
           else
             bindr (get_inode (d_inode d) s) (\<lambda>i.
               if i_fop i = NoFops then Ok (- E_NOSYS, s)
               else
                 bindr (get_pcb proc s) (\<lambda>p.
                   if opened_file_table p = 0 then Ok (- E_INVAL, s)
                   else
                     (let table = ftab s (opened_file_table_phys p)
                      in if table = [] then Stop BadPointer
                         else
                           bindr (call_open (i_fop i) (d_inode d) (table ! 0) s) (\<lambda>(ret, f).
                             let s = s\<lparr>ftab := (ftab s)(opened_file_table_phys p := table[0 := f])\<rparr>
                             in if ret < 0 then Ok (ret, s)
                                else
                                  (let s = sti s; t = hfirst (t_links s) proc
                                   in bindr (upd_tcb t (\<lambda>th. th\<lparr>t_state := TCB_STATE_RUNNABLE\<rparr>) s) (\<lambda>s.
                                        Ok (sint (p_pid p), s))))))))))"

definition load_elf_from_vfs :: "'a sched_ext report \<Rightarrow> string \<Rightarrow> u64 \<Rightarrow> u64 \<Rightarrow> 'a sched_scheme \<Rightarrow> (int \<times> 'a sched_scheme) run" where
  "load_elf_from_vfs report vfs_path argv envp s =
     bindr (pmm_alloc_pages_zeroed 1 s) (\<lambda>(pml4, s).
       if pml4 = 0 then Ok (- E_NOMEM, s)
       else
         bindr (root_inode s) (\<lambda>root.
         bindr (kpath_lookup root vfs_path s) (\<lambda>(dent, s).
           if dent = 0 then Ok (- E_NOENT, s)
           else
             bindr (get_dentry dent s) (\<lambda>d.
             bindr (get_inode (d_inode d) s) (\<lambda>i.
               let image_size = i_size i; raw_pages = pages_of image_size
               in bindr (pmm_alloc_pages_zeroed raw_pages s) (\<lambda>(raw_image, s).
                    if raw_image = 0 then Ok (- E_NOMEM, s)
                    else
                      bindr (call_open (i_fop i) (d_inode d) empty_file s) (\<lambda>(ret, f).
                        if ret < 0 then Ok (ret, s)
                        else
                          bindr (call_read report (f_ops f) f (PHYS_2_HHDM raw_image) image_size 0 (to_direct_map raw_image image_size s)) (\<lambda>(rd, off, s).
                            let s = from_direct_map raw_image image_size s
                            in if rd \<noteq> sint image_size then
                                 bindr (drop_image raw_image raw_pages pml4 s) (\<lambda>s. Ok (- E_IO, s))
                               else
                                 (let eh = read_ehdr (phys_mem s) raw_image; ret = elf64_validate eh
                                  in if ret < 0 then bindr (drop_image raw_image raw_pages pml4 s) (\<lambda>s. Ok (ret, s))
                                     else
                                       bindr (load_segments pml4 raw_image raw_pages (raw_image + e_phoff eh) 0 s) (\<lambda>(ret, s).
                                         if ret < 0 then Ok (ret, s)
                                         else
                                           bindr (pmm_free_pages raw_image raw_pages s) (\<lambda>s.
                                             let s = cli s
                                             in bindr (new_usproc (current_process s) (e_entry (read_ehdr (phys_mem s) raw_image)) vfs_path pml4 argv envp s)
                                                  (\<lambda>(proc, s).
                                                    if proc = 0 then Ok (- E_NOMEM, s)
                                                    else
                                                      bindr (get_dentry dent s) (\<lambda>d.
                                                      bindr (get_dentry (d_parent d) s) (\<lambda>pd.
                                                      bindr (upd_pcb proc (\<lambda>p. p\<lparr>cwd_i := d_inode pd\<rparr>) s) (open_stdin proc)))))))))))))))"

section \<open>Replacing the program\<close>

text \<open>
  The loop over the file tables: both pointers are the same virtual address, resolved in
  the address space of the calling process.
\<close>

definition move_file :: "u64 \<Rightarrow> u64 \<Rightarrow> nat \<Rightarrow> 'a sched_scheme \<Rightarrow> 'a sched_scheme run" where
  "move_file src dst i s =
     bindr (get_file src i s) (\<lambda>f.
       if f_inode f = 0 then Ok s
       else bindr (set_file dst i f s) (set_file src i empty_file))"

text \<open>The result is \<open>None\<close> when the calling thread has given up the processor for good.\<close>

definition exec_elf_from_vfs ::
  "'a sched_ext report \<Rightarrow> u64 \<Rightarrow> string \<Rightarrow> u64 \<Rightarrow> u64 \<Rightarrow> u64 \<Rightarrow> 'a sched_scheme \<Rightarrow> (int option \<times> 'a sched_scheme) run" where
  "exec_elf_from_vfs report thread vfs_path argv envp rsp s =
     (if thread = 0 then Ok (Some (- E_INVAL), s)
      else
        bindr (get_tcb thread s) (\<lambda>th.
          if t_process th = 0 then Ok (Some (- E_INVAL), s)
          else
            (let proc = t_process th
             in bindr (get_pcb proc s) (\<lambda>p.
                  if p_cr3 p = 0 \<or> p_cr3 p = kernel_pagedir_phys s then Ok (Some (- E_INVAL), s)
                  else if rsp = 0 then Ok (Some (- E_INVAL), s)
                  else
                    bindr (root_inode s) (\<lambda>root.
                    bindr (kpath_lookup root vfs_path s) (\<lambda>(dent, s).
                      if dent = 0 then Ok (Some (- E_NOENT), s)
                      else
                        bindr (load_elf_from_vfs report vfs_path argv envp (cli s)) (\<lambda>(newpid, s).
                          if newpid < 0 then Ok (Some newpid, s)
                          else
                            (let (kind, newproc) = id_lookup (nat newpid) s
                             in if newproc = 0 \<or> kind \<noteq> ID_PROC then
                                  bindr (sys_error ''execve load fail'' s) (\<lambda>s. Ok (Some (- E_NOMEM), sti s))
                                else
                                  bindr (get_pcb newproc s) (\<lambda>np.
                                  bindr (id_table_clear (unat (p_pid np)) s) (\<lambda>s.
                                  bindr (upd_pcb newproc (\<lambda>q. q\<lparr>p_pid := p_pid p\<rparr>) s) (\<lambda>s.
                                  bindr (id_table_set_proc (unat (p_pid p)) newproc s) (\<lambda>s.
                                    let mainthread = hfirst (t_links s) newproc
                                    in if mainthread = 0 then Ok (Some (- E_NOMEM), sti s)
                                       else
                                         bindr (foreach (move_file (opened_file_table p) (opened_file_table np)) [0..<256] s) (\<lambda>s.
                                         bindr (get_pcb proc s) (\<lambda>p.
                                         bindr (upd_pcb newproc (\<lambda>q. q\<lparr>cwd_i := cwd_i p, p_uid := p_uid p, p_gid := p_gid p\<rparr>) s) (\<lambda>s.
                                         bindr (upd_pcb proc (\<lambda>q. q\<lparr>cwd_i := 0\<rparr>) s) (\<lambda>s.
                                         bindr (get_tcb mainthread s) (\<lambda>mt.
                                         bindr (id_table_clear (unat (t_tid mt)) s) (\<lambda>s.
                                         bindr (upd_tcb mainthread (\<lambda>t. t\<lparr>t_tid := t_tid th\<rparr>) s) (\<lambda>s.
                                         bindr (id_table_set_thread (unat (t_tid th)) mainthread s) (\<lambda>s.
                                         bindr (get_pcb (p_parent p) s) (\<lambda>parent.
                                           let s = s\<lparr>s_links := hlist_add_head newproc (p_parent p) (s_links s)\<rparr>
                                           in bindr (usproc_exit proc (- 1) s) (\<lambda>s.
                                              bindr (unlink_child proc s) (\<lambda>s.
                                              bindr (upd_pcb proc (\<lambda>q. q\<lparr>p_parent := 0, p_state := PCB_STATE_ZOMBIE\<rparr>) s) (\<lambda>s.
                                                Ok (None, sti s)))))))))))))))))))))))))"

section \<open>Forking\<close>

text \<open>A loop whose body may return from the function with a negative code.\<close>

primrec until_err :: "('i \<Rightarrow> 's \<Rightarrow> (int \<times> 's) run) \<Rightarrow> 'i list \<Rightarrow> 's \<Rightarrow> (int \<times> 's) run" where
  "until_err f [] s = Ok (0, s)"
| "until_err f (i # is) s = bindr (f i s) (\<lambda>(r, s). if r < 0 then Ok (r, s) else until_err f is s)"

definition walk_leaf_phys :: "mem \<Rightarrow> u64 \<Rightarrow> u64 \<Rightarrow> u64" where
  "walk_leaf_phys m pml4 va =
     (if pte m pml4 (PML4_INDEX va) AND PTE_PRESENT = 0 then 0
      else
        (let pdpt = pte m pml4 (PML4_INDEX va) AND PTE_ADDR_MASK
         in if pte m pdpt (PDPT_INDEX va) AND PTE_PRESENT = 0 then 0
            else
              (let pd = pte m pdpt (PDPT_INDEX va) AND PTE_ADDR_MASK
               in if pte m pd (PD_INDEX va) AND PTE_PRESENT = 0 then 0
                  else
                    (let pt = pte m pd (PD_INDEX va) AND PTE_ADDR_MASK; e = pte m pt (PT_INDEX va)
                     in if e AND PTE_PRESENT = 0 then 0 else e AND PTE_ADDR_MASK))))"

definition page_va :: "nat \<Rightarrow> nat \<Rightarrow> nat \<Rightarrow> nat \<Rightarrow> u64" where
  "page_va i4 i3 i2 i1 =
     push_bit 39 (of_nat i4) OR push_bit 30 (of_nat i3) OR push_bit 21 (of_nat i2) OR push_bit 12 (of_nat i1)"

definition fork_copy_page :: "u64 \<Rightarrow> u64 \<Rightarrow> u64 \<Rightarrow> u64 \<Rightarrow> u64 \<Rightarrow> 'a sched_scheme \<Rightarrow> (int \<times> 'a sched_scheme) run" where
  "fork_copy_page new_pml4 skip_lo skip_hi va e s =
     (if e AND PTE_PRESENT = 0 then Ok (0, s)
      else if va \<ge> skip_lo \<and> va < skip_hi then Ok (0, s)
      else
        (let old_pa = e AND PTE_ADDR_MASK; flags = e AND NOT PTE_ADDR_MASK
         in if e AND PTE_LOCAL_OWNED \<noteq> 0 then
              bindr (pmm_alloc_pages 1 s) (\<lambda>(new_pa, s).
                if new_pa = 0 then Ok (- E_NOMEM, s)
                else bindr (map_4k new_pml4 va new_pa flags (copy_frames new_pa old_pa 1 s)) (\<lambda>s. Ok (0, s)))
            else bindr (map_4k new_pml4 va old_pa flags s) (\<lambda>s. Ok (0, s))))"

definition fork_copy_user_pages :: "u64 \<Rightarrow> u64 \<Rightarrow> u64 \<Rightarrow> u64 \<Rightarrow> 'a sched_scheme \<Rightarrow> (int \<times> 'a sched_scheme) run" where
  "fork_copy_user_pages old_pml4 new_pml4 skip_lo skip_hi =
     until_err (\<lambda>i4 s.
       let e4 = pte (phys_mem s) old_pml4 i4
       in if e4 AND PTE_PRESENT = 0 then Ok (0, s)
          else until_err (\<lambda>i3 s.
            let e3 = pte (phys_mem s) (e4 AND PTE_ADDR_MASK) i3
            in if e3 AND PTE_PRESENT = 0 then Ok (0, s)
               else until_err (\<lambda>i2 s.
                 let e2 = pte (phys_mem s) (e3 AND PTE_ADDR_MASK) i2
                 in if e2 AND PTE_PRESENT = 0 then Ok (0, s)
                    else until_err (\<lambda>i1 s.
                      fork_copy_page new_pml4 skip_lo skip_hi (page_va i4 i3 i2 i1)
                        (pte (phys_mem s) (e2 AND PTE_ADDR_MASK) i1) s) [0..<512] s) [0..<512] s) [0..<512] s) [0..<256]"

definition fork_copy_contig_block :: "u64 \<Rightarrow> u64 \<Rightarrow> u64 \<Rightarrow> nat \<Rightarrow> u64 \<Rightarrow> 'a sched_scheme \<Rightarrow> (u64 \<times> 'a sched_scheme) run" where
  "fork_copy_contig_block new_pml4 va_base old_phys_base page_count flags s =
     bindr (pmm_alloc_pages page_count s) (\<lambda>(new_phys, s).
       if new_phys = 0 then Ok (0, s)
       else
         bindr (map_4k_pages new_pml4 va_base new_phys page_count flags (copy_frames new_phys old_phys_base page_count s))
           (\<lambda>s. Ok (new_phys, s)))"

text \<open>The child was allocated with \<open>struct_kmalloc_align\<close> and is given back with \<open>kfree\<close>.\<close>

definition fork_cleanup_proc :: "u64 \<Rightarrow> u64 \<Rightarrow> 'a sched_scheme \<Rightarrow> 'a sched_scheme run" where
  "fork_cleanup_proc child new_pml4 s =
     bindr (if new_pml4 \<noteq> 0 then vmm_pagetable_free_owned new_pml4 s else Ok s) (\<lambda>s.
       if child = 0 then Ok s
       else
         bindr (get_pcb child s) (\<lambda>p.
         bindr (free_tid (p_pid p) s) (\<lambda>s.
         bindr (if p_name p \<noteq> 0 then kfree (p_name p) s else Ok s) (kfree child))))"

text \<open>
  A block of the parent that was mapped from contiguous frames: the child gets a copy at
  the same address. The result is the frames of the copy, 0 after an error.
\<close>

definition fork_block :: "string \<Rightarrow> u64 \<Rightarrow> u64 \<Rightarrow> u64 \<Rightarrow> u64 \<Rightarrow> nat \<Rightarrow> u64 \<Rightarrow> 'a sched_scheme \<Rightarrow> (u64 \<times> 'a sched_scheme) run" where
  "fork_block what child old_pml4 new_pml4 va pages flags s =
     (let old_phys = walk_leaf_phys (phys_mem s) old_pml4 va
      in if old_phys = 0 then
           bindr (sys_error (''fork: couldn'' @ [CHR 0x27] @ ''t locate parent '' @ what @ '' phys'' @ newline) s) (\<lambda>s.
           bindr (fork_cleanup_proc child new_pml4 s) (\<lambda>s. Ok (0, s)))
         else
           bindr (fork_copy_contig_block new_pml4 va old_phys pages flags s) (\<lambda>(new_phys, s).
             if new_phys = 0 then
               bindr (sys_error (''fork: unable to copy '' @ what @ newline) s) (\<lambda>s.
               bindr (fork_cleanup_proc child new_pml4 s) (\<lambda>s. Ok (0, s)))
             else Ok (new_phys, s)))"

definition fork_user_pages :: "u64 \<Rightarrow> u64 \<Rightarrow> 'a sched_scheme \<Rightarrow> (int \<times> 'a sched_scheme) run" where
  "fork_user_pages old_pml4 new_pml4 =
     until_err (\<lambda>(lo, hi). fork_copy_user_pages old_pml4 new_pml4 lo hi)
       [(DEFAULT_USER_HEAP_START, DEFAULT_USER_HEAP_END),
        (DEFAULT_FILE_TABLE_START, DEFAULT_FILE_TABLE_START + of_nat DEFAULT_FILE_TABLE_PAGES * PAGE_SIZE_4K),
        (STACK_UPPER_USPACE_ADDR - DEFAULT_STACK_PAGE_BYTES, STACK_UPPER_USPACE_ADDR)]"

definition fork_link :: "u64 \<Rightarrow> u64 \<Rightarrow> u64 \<Rightarrow> 'a sched_scheme \<Rightarrow> (int \<times> 'a sched_scheme) run" where
  "fork_link parent child child_thread s =
     bindr (get_pcb parent s) (\<lambda>pp.
     bindr (get_pcb child s) (\<lambda>p.
     bindr (get_tcb child_thread s) (\<lambda>th.
     bindr (sched_lock_acquire s) (\<lambda>(irq_flags, s).
       let s = s\<lparr>t_links := hlist_add_head child_thread child (t_links s),
                 r_links := hlist_add_head child_thread SCHED_HEAD (r_links s),
                 p_links := hlist_add_head child SCHED_HEAD (p_links s),
                 s_links := hlist_add_head child parent (s_links s)\<rparr>
       in bindr (id_table_set_proc (unat (p_pid p)) child s) (\<lambda>s.
          bindr (id_table_set_thread (unat (t_tid th)) child_thread s) (\<lambda>s.
            let s = sched_lock_release irq_flags (s\<lparr>process_list_depth := process_list_depth s + 1\<rparr>)
            in bindr (sys_success (''fork: pid '' @ dec_int (uint (scast (p_pid pp) :: u32)) @ '' -> child pid '' @
                        dec_int (uint (scast (p_pid p) :: u32)) @ '' (tid '' @ dec_int (uint (scast (t_tid th) :: u32)) @ '')'' @ newline) s)
                 (\<lambda>s. Ok (sint (p_pid p), s))))))))"

text \<open>The thread of the child: a copy of the parent's kernel stack from the frame up.\<close>

definition fork_thread :: "u64 \<Rightarrow> u64 \<Rightarrow> u64 \<Rightarrow> u64 \<Rightarrow> u64 \<Rightarrow> u64 \<Rightarrow> 'a sched_scheme \<Rightarrow> (int \<times> 'a sched_scheme) run" where
  "fork_thread parent_thread parent child new_pml4 new_stack_phys rsp s =
     bindr (get_tcb parent_thread s) (\<lambda>pt.
     bindr (struct_kmalloc_align SIZEOF_TCB (Tcb (zero_tcb\<lparr>t_fp_state := t_fp_state pt, t_process := child, t_fs_base := t_fs_base pt,
              t_gs_base := t_gs_base pt, t_signal_mask := t_signal_mask pt\<rparr>)) s) (\<lambda>(child_thread, s).
       if child_thread = 0 then
         bindr (sys_error (''fork: unable to allocate child thread'' @ newline) s) (\<lambda>s.
         bindr (fork_cleanup_proc child new_pml4 s) (\<lambda>s. Ok (- E_NOMEM, s)))
       else
         bindr (page_kalloc (of_nat DEFAULT_STACK_PAGE_AMOUNT + 1) PTE_WRITABLE (zero_thread_links child_thread s)) (\<lambda>(k_stack, s).
           if k_stack = 0 then
             bindr (sys_error (''fork: unable to allocate kernel stack'' @ newline) s) (\<lambda>s.
             bindr (kfree child_thread s) (\<lambda>s.
             bindr (fork_cleanup_proc child new_pml4 s) (\<lambda>s. Ok (- E_NOMEM, s))))
           else
             bindr (get_unused_tid s) (\<lambda>(tid, s).
             bindr (upd_tcb child_thread (\<lambda>t. t\<lparr>
                      t_kernel_stack := \<lparr>st_top = k_stack, st_bottom = k_stack + DEFAULT_STACK_PAGE_BYTES, st_size = DEFAULT_STACK_PAGE_BYTES\<rparr>,
                      t_user_stack := \<lparr>st_top = new_stack_phys, st_bottom = new_stack_phys + DEFAULT_STACK_PAGE_BYTES,
                        st_size = DEFAULT_STACK_PAGE_BYTES\<rparr>, t_tid := of_int tid\<rparr>) s) (\<lambda>s.
               if tid < 0 then
                 bindr (sys_error (''fork: no free tid available for child thread'' @ newline) s) (\<lambda>s.
                 bindr (page_kfree k_stack (of_nat DEFAULT_STACK_PAGE_AMOUNT + 1) s) (\<lambda>s.
                 bindr (kfree child_thread s) (\<lambda>s.
                 bindr (fork_cleanup_proc child new_pml4 s) (\<lambda>s. Ok (- E_NOMEM, s)))))
               else if rsp < st_top (t_kernel_stack pt) \<or> rsp \<ge> st_bottom (t_kernel_stack pt) then
                 bindr (sys_error (''fork: rsp not within parent'' @ [CHR 0x27] @ ''s kernel stack'' @ newline) s) (\<lambda>s.
                 bindr (free_tid (of_int tid) s) (\<lambda>s.
                 bindr (page_kfree k_stack (of_nat DEFAULT_STACK_PAGE_AMOUNT + 1) s) (\<lambda>s.
                 bindr (kfree child_thread s) (\<lambda>s.
                 bindr (fork_cleanup_proc child new_pml4 s) (\<lambda>s. Ok (- E_INVAL, s))))))
               else
                 (let used = st_bottom (t_kernel_stack pt) - rsp;
                      child_rsp = k_stack + DEFAULT_STACK_PAGE_BYTES - used;
                      m = write64 (memcpy (kmem s) child_rsp rsp (unat used)) (child_rsp + 112) 0
                  in bindr (upd_tcb child_thread (\<lambda>t. t\<lparr>t_k_rsp := child_rsp, t_state := TCB_STATE_RUNNABLE\<rparr>) (s\<lparr>kmem := m\<rparr>))
                       (fork_link parent child child_thread)))))))"

text \<open>The blocks of the address space, in the order of the code.\<close>

definition fork_heap :: "pcb \<Rightarrow> u64 \<Rightarrow> u64 \<Rightarrow> 'a sched_scheme \<Rightarrow> (int \<times> 'a sched_scheme) run" where
  "fork_heap p child new_pml4 s =
     (if h_lower (p_heap p) = 0 then Ok (0, s)
      else
        bindr (fork_block ''heap'' child (p_cr3 p) new_pml4 (h_lower (p_heap p)) (unat (h_size (p_heap p) div PAGE_SIZE_4K))
                 (PTE_USER OR PTE_WRITABLE OR PTE_LOCAL_OWNED) s) (\<lambda>(pa, s).
          if pa = 0 then Ok (- E_NOMEM, s)
          else bindr (upd_pcb child (\<lambda>c. c\<lparr>p_heap := p_heap p\<rparr>) s) (\<lambda>s. Ok (0, s))))"

text \<open>The physical address of the child's file table is not recorded.\<close>

definition fork_files :: "pcb \<Rightarrow> u64 \<Rightarrow> u64 \<Rightarrow> 'a sched_scheme \<Rightarrow> (int \<times> 'a sched_scheme) run" where
  "fork_files p child new_pml4 s =
     (if opened_file_table p = 0 then Ok (0, s)
      else
        bindr (fork_block ''file table'' child (p_cr3 p) new_pml4 (opened_file_table p) DEFAULT_FILE_TABLE_PAGES
                 (PTE_WRITABLE OR PTE_LOCAL_OWNED) s) (\<lambda>(pa, s).
          if pa = 0 then Ok (- E_NOMEM, s)
          else bindr (upd_pcb child (\<lambda>c. c\<lparr>opened_file_table := opened_file_table p\<rparr>) s) (\<lambda>s. Ok (0, s))))"

definition fork_address_space :: "u64 \<Rightarrow> pcb \<Rightarrow> u64 \<Rightarrow> u64 \<Rightarrow> u64 \<Rightarrow> u64 \<Rightarrow> 'a sched_scheme \<Rightarrow> (int \<times> 'a sched_scheme) run" where
  "fork_address_space parent_thread p parent child new_pml4 rsp s =
     bindr (fork_heap p child new_pml4 s) (\<lambda>(r, s).
       if r < 0 then Ok (r, s)
       else
         bindr (fork_files p child new_pml4 s) (\<lambda>(r, s).
           if r < 0 then Ok (r, s)
           else
             bindr (upd_pcb child (\<lambda>c. c\<lparr>cwd_i := cwd_i p\<rparr>) s) (\<lambda>s.
             bindr (fork_block ''user stack'' child (p_cr3 p) new_pml4 (STACK_UPPER_USPACE_ADDR - DEFAULT_STACK_PAGE_BYTES)
                      DEFAULT_STACK_PAGE_AMOUNT (PTE_WRITABLE OR PTE_NX OR PTE_USER OR PTE_LOCAL_OWNED) s) (\<lambda>(new_stack_phys, s).
               if new_stack_phys = 0 then Ok (- E_NOMEM, s)
               else
                 bindr (fork_user_pages (p_cr3 p) new_pml4 s) (\<lambda>(r, s).
                   if r < 0 then
                     bindr (sys_error (''fork: unable to copy remaining user pages'' @ newline) s) (\<lambda>s.
                     bindr (fork_cleanup_proc child new_pml4 s) (\<lambda>s. Ok (- E_NOMEM, s)))
                   else
                     bindr (upd_pcb child (\<lambda>c. c\<lparr>p_cr3 := new_pml4\<rparr>) s)
                       (fork_thread parent_thread parent child new_pml4 new_stack_phys rsp))))))"

definition fork_process :: "u64 \<Rightarrow> u64 \<Rightarrow> 'a sched_scheme \<Rightarrow> (int \<times> 'a sched_scheme) run" where
  "fork_process parent_thread rsp s =
     (if parent_thread = 0 then Ok (- E_INVAL, s)
      else
        bindr (get_tcb parent_thread s) (\<lambda>pt.
          if t_process pt = 0 then Ok (- E_INVAL, s)
          else if rsp = 0 then Ok (- E_INVAL, s)
          else
            (let parent = t_process pt
             in if parent = kernel_proc s then
                  bindr (sys_error (''fork: refusing to fork the kernel process'' @ newline) s) (\<lambda>s. Ok (- E_INVAL, s))
                else
                  bindr (get_pcb parent s) (\<lambda>p.
                  bindr (struct_kmalloc_align SIZEOF_PCB (Pcb zero_pcb) s) (\<lambda>(child, s).
                    if child = 0 then
                      bindr (sys_error (''fork: unable to allocate child pcb'' @ newline) s) (\<lambda>s. Ok (- E_NOMEM, s))
                    else
                      bindr (get_unused_tid (zero_proc_links child s)) (\<lambda>(cpid, s).
                        if cpid < 0 then
                          bindr (sys_error (''fork: no free pid available'' @ newline) s) (\<lambda>s.
                          bindr (kfree child s) (\<lambda>s. Ok (- E_NOMEM, s)))
                        else
                          bindr (get_str (p_name p) s) (\<lambda>name.
                          bindr (kstrdup name s) (\<lambda>(nm, s).
                          bindr (upd_pcb child (\<lambda>c. c\<lparr>p_pid := of_int cpid, p_name := nm, p_uid := p_uid p, p_gid := p_gid p,
                                   p_parent := parent, signals_bitmap := signals_bitmap p, signal_handlers := signal_handlers p\<rparr>) s) (\<lambda>s.
                          bindr (pmm_alloc_pages_zeroed 1 s) (\<lambda>(new_pml4, s).
                            if new_pml4 = 0 then
                              bindr (sys_error (''fork: unable to allocate pml4'' @ newline) s) (\<lambda>s.
                              bindr (fork_cleanup_proc child 0 s) (\<lambda>s. Ok (- E_NOMEM, s)))
                            else
                              fork_address_space parent_thread p parent child new_pml4 rsp
                                (fold (\<lambda>i s. set_pte new_pml4 i (pte (phys_mem s) (p_cr3 p) i) s) [256..<512] s)))))))))))"

end
