(* ===== verification/Proc_Spec.thy ===== *)
theory Proc_Spec
  imports Exec
begin

text \<open>
  What a new program finds on its stack, and what the loader accepts. Addresses of a block
  of memory are written as offsets from its first byte.
\<close>

section \<open>Bytes by offset\<close>

lemma unat_minus_offset:
  fixes x :: u64
  assumes "j + n \<le> 2 ^ 64" and "0 < n"
  shows "unat (x - of_nat j) < n \<longleftrightarrow> j \<le> unat x \<and> unat x < j + n"
    and "j \<le> unat x \<Longrightarrow> unat (x - of_nat j) = unat x - j"
proof -
  have j: "unat (of_nat j :: u64) = j" using assms by (simp add: unat_of_nat)
  have x: "unat x < 2 ^ 64" using unsigned_less [of x, where ?'a = nat] by simp
  show eq: "unat (x - of_nat j) = unat x - j" if "j \<le> unat x"
    using that j by (simp add: unat_sub word_le_nat_alt)
  show "unat (x - of_nat j) < n \<longleftrightarrow> j \<le> unat x \<and> unat x < j + n"
  proof (cases "j \<le> unat x")
    case True
    then show ?thesis using eq by auto
  next
    case False
    then have "unat (x - of_nat j) = 2 ^ 64 + unat x - j"
      using j x by (simp add: unat_sub_if')
    then show ?thesis using False assms by simp
  qed
qed

lemma write64_offset:
  assumes "j + 8 \<le> 2 ^ 64"
  shows "write64 m (b + of_nat j) v a =
     (if j \<le> unat (a - b) \<and> unat (a - b) < j + 8 then ucast (drop_bit (8 * (unat (a - b) - j)) v) else m a)"
  using unat_minus_offset [of j 8 "a - b"] assms by (auto simp: write64_def diff_diff_eq [symmetric])

lemma write_bytes_offset:
  assumes "j + length bs \<le> 2 ^ 64"
  shows "write_bytes m (b + of_nat j) bs a =
     (if j \<le> unat (a - b) \<and> unat (a - b) < j + length bs then bs ! (unat (a - b) - j) else m a)"
proof -
  have a_eq: "a = b + of_nat j + of_nat i \<longleftrightarrow> unat (a - b) = j + i" if "i < length bs" for i
  proof -
    have "a = b + of_nat j + of_nat i \<longleftrightarrow> a - b = of_nat (j + i)" by (auto simp: algebra_simps)
    also have "\<dots> \<longleftrightarrow> unat (a - b) = j + i"
      using that assms unat_of_nat_u64 [of "j + i"] by (simp add: word_unat_eq_iff del: of_nat_add)
    finally show ?thesis .
  qed
  have "fold (\<lambda>i m. m(b + of_nat j + of_nat i := bs ! i)) [0..<n] m a =
      (if j \<le> unat (a - b) \<and> unat (a - b) < j + n then bs ! (unat (a - b) - j) else m a)" if "n \<le> length bs" for n
    using that
  proof (induction n)
    case 0
    then show ?case by auto
  next
    case (Suc n)
    then show ?case using a_eq [of n] by auto
  qed
  then show ?thesis by (simp add: write_bytes_def)
qed

text \<open>Reading a word that later writes do not touch.\<close>

lemma read64_untouched:
  assumes "\<And>k. j \<le> k \<Longrightarrow> k < j + 8 \<Longrightarrow> m' (b + of_nat k) = m (b + of_nat k)"
  shows "read64 m' (b + of_nat j) = read64 m (b + of_nat j)"
proof (rule read64_cong)
  fix i :: nat
  assume "i < 8"
  then show "m' (b + of_nat j + of_nat i) = m (b + of_nat j + of_nat i)"
    using assms [of "j + i"] by (simp add: add.assoc)
qed

lemma write64_at:
  "j + 8 \<le> 2 ^ 64 \<Longrightarrow> k < 2 ^ 64 \<Longrightarrow> write64 m (b + of_nat j) v (b + of_nat k) =
     (if j \<le> k \<and> k < j + 8 then ucast (drop_bit (8 * (k - j)) v) else m (b + of_nat k))"
  using write64_offset [of j m b v "b + of_nat k"] by (simp add: unat_of_nat_u64)

lemma write64_at_0:
  "k < 2 ^ 64 \<Longrightarrow> write64 m b v (b + of_nat k) = (if k < 8 then ucast (drop_bit (8 * k) v) else m (b + of_nat k))"
  using write64_at [of 0 k m b v] by simp

lemma write_bytes_at:
  "j + length bs \<le> 2 ^ 64 \<Longrightarrow> k < 2 ^ 64 \<Longrightarrow> write_bytes m (b + of_nat j) bs (b + of_nat k) =
     (if j \<le> k \<and> k < j + length bs then bs ! (k - j) else m (b + of_nat k))"
  using write_bytes_offset [of j bs m b "b + of_nat k"] by (simp add: unat_of_nat_u64)

section \<open>The strings\<close>

text \<open>
  After \<open>copy_strings\<close> every pointer leads to its string, and nothing else has changed. The
  pointers are at offset \<open>P\<close> of the block, the strings from offset \<open>S\<close> on.
\<close>

definition str_start :: "string list \<Rightarrow> nat \<Rightarrow> nat" where
  "str_start as i = str_total (take i as)"

lemma str_total_simps [simp]: "str_total [] = 0" "str_total (a # as) = length a + 1 + str_total as"
  by (simp_all add: str_total_def)

lemma str_start_simps [simp]: "str_start as 0 = 0" "str_start (a # as) (Suc i) = length a + 1 + str_start as i"
  by (simp_all add: str_start_def)

lemma length_str_bytes [simp]: "length (str_bytes a) = length a + 1"
  by (simp add: str_bytes_def)

lemma str_start_bound: "i < length as \<Longrightarrow> str_start as i + length (as ! i) + 1 \<le> str_total as"
proof (induction as arbitrary: i)
  case (Cons a as)
  then show ?case by (cases i) auto
qed simp

lemma copy_strings_result:
  assumes "copy_strings as (b + of_nat P) (b + of_nat S) uva off m = (off', m')"
    and "P + 8 * length as \<le> S" and "S + off + str_total as \<le> 2 ^ 64"
  shows "off' = off + str_total as"
    and "\<And>k. k < 2 ^ 64 \<Longrightarrow> \<not> (P \<le> k \<and> k < P + 8 * length as) \<Longrightarrow>
           \<not> (S + off \<le> k \<and> k < S + off + str_total as) \<Longrightarrow> m' (b + of_nat k) = m (b + of_nat k)"
    and "\<And>i. i < length as \<Longrightarrow> read64 m' (b + of_nat (P + 8 * i)) = uva + of_nat (off + str_start as i)"
    and "\<And>i j. i < length as \<Longrightarrow> j \<le> length (as ! i) \<Longrightarrow>
           m' (b + of_nat (S + off + str_start as i + j)) = str_bytes (as ! i) ! j"
proof -
  have "off' = off + str_total as \<and>
    (\<forall>k. k < 2 ^ 64 \<and> \<not> (P \<le> k \<and> k < P + 8 * length as) \<and> \<not> (S + off \<le> k \<and> k < S + off + str_total as) \<longrightarrow>
       m' (b + of_nat k) = m (b + of_nat k)) \<and>
    (\<forall>i < length as. read64 m' (b + of_nat (P + 8 * i)) = uva + of_nat (off + str_start as i)) \<and>
    (\<forall>i < length as. \<forall>j \<le> length (as ! i). m' (b + of_nat (S + off + str_start as i + j)) = str_bytes (as ! i) ! j)"
    using assms
  proof (induction as arbitrary: P off m)
    case Nil
    then show ?case by simp
  next
    case (Cons a as)
    define m1 where "m1 = write64 (write_bytes m (b + of_nat (S + off)) (str_bytes a)) (b + of_nat P) (uva + of_nat off)"
    have m1: "m1 (b + of_nat k) =
        (if P \<le> k \<and> k < P + 8 then ucast (drop_bit (8 * (k - P)) (uva + of_nat off))
         else if S + off \<le> k \<and> k < S + off + length a + 1 then str_bytes a ! (k - (S + off)) else m (b + of_nat k))"
      if "k < 2 ^ 64" for k
      using that Cons.prems(2,3) unfolding m1_def
      by (simp add: write64_at write_bytes_at del: of_nat_add)
    have run: "copy_strings as (b + of_nat (P + 8)) (b + of_nat S) uva (off + length a + 1) m1 = (off', m')"
      using Cons.prems(1) by (simp add: m1_def add.assoc [symmetric])
    have IH: "off' = off + length a + 1 + str_total as"
      "\<And>k. k < 2 ^ 64 \<Longrightarrow> \<not> (P + 8 \<le> k \<and> k < P + 8 + 8 * length as) \<Longrightarrow>
         \<not> (S + (off + length a + 1) \<le> k \<and> k < S + (off + length a + 1) + str_total as) \<Longrightarrow> m' (b + of_nat k) = m1 (b + of_nat k)"
      "\<And>i. i < length as \<Longrightarrow> read64 m' (b + of_nat (P + 8 + 8 * i)) = uva + of_nat (off + length a + 1 + str_start as i)"
      "\<And>i j. i < length as \<Longrightarrow> j \<le> length (as ! i) \<Longrightarrow>
         m' (b + of_nat (S + (off + length a + 1) + str_start as i + j)) = str_bytes (as ! i) ! j"
      using Cons.IH [OF run] Cons.prems(2,3) by (auto simp: add.assoc)
    have first_ptr: "read64 m' (b + of_nat P) = uva + of_nat off"
    proof -
      have "read64 m' (b + of_nat P) = read64 m1 (b + of_nat P)"
        using Cons.prems(2,3) by (intro read64_untouched IH(2)) auto
      then show ?thesis by (simp add: m1_def)
    qed
    have first_str: "m' (b + of_nat (S + off + j)) = str_bytes a ! j" if "j \<le> length a" for j
      using IH(2) [of "S + off + j"] m1 [of "S + off + j"] that Cons.prems(2,3) by simp
    have ptrs: "read64 m' (b + of_nat (P + 8 * i)) = uva + of_nat (off + str_start (a # as) i)" if "i < length (a # as)" for i
      using that first_ptr IH(3) [of "i - 1"] by (cases i) (auto simp: add.assoc simp del: of_nat_add)
    have strs: "m' (b + of_nat (S + off + str_start (a # as) i + j)) = str_bytes ((a # as) ! i) ! j"
      if "i < length (a # as)" "j \<le> length ((a # as) ! i)" for i j
      using that first_str [of j] IH(4) [of "i - 1" j] by (cases i) (auto simp: add.assoc simp del: of_nat_add)
    have rest: "m' (b + of_nat k) = m (b + of_nat k)"
      if "k < 2 ^ 64" "\<not> (P \<le> k \<and> k < P + 8 * length (a # as))" "\<not> (S + off \<le> k \<and> k < S + off + str_total (a # as))" for k
      using that IH(2) [of k] m1 [of k] by auto
    show ?case using IH(1) rest ptrs strs by auto
  qed
  then show "off' = off + str_total as"
    and "\<And>k. k < 2 ^ 64 \<Longrightarrow> \<not> (P \<le> k \<and> k < P + 8 * length as) \<Longrightarrow>
           \<not> (S + off \<le> k \<and> k < S + off + str_total as) \<Longrightarrow> m' (b + of_nat k) = m (b + of_nat k)"
    and "\<And>i. i < length as \<Longrightarrow> read64 m' (b + of_nat (P + 8 * i)) = uva + of_nat (off + str_start as i)"
    and "\<And>i j. i < length as \<Longrightarrow> j \<le> length (as ! i) \<Longrightarrow>
           m' (b + of_nat (S + off + str_start as i + j)) = str_bytes (as ! i) ! j"
    by auto
qed

section \<open>The stack of a new program\<close>

text \<open>
  The layout that the System V interface promises to the first instruction: the stack
  pointer is aligned, and above it are the number of arguments, the pointers to the
  arguments and a NULL, the pointers to the environment and a NULL.
\<close>

definition ptr_array :: "mem \<Rightarrow> u64 \<Rightarrow> string list \<Rightarrow> bool" where
  "ptr_array um a as \<longleftrightarrow>
     (\<forall>i < length as. cstr um (read64 um (a + of_nat (8 * i))) (map of_char (as ! i))) \<and>
     read64 um (a + of_nat (8 * length as)) = 0"

definition program_args :: "mem \<Rightarrow> u64 \<Rightarrow> string list \<Rightarrow> string list \<Rightarrow> bool" where
  "program_args um rsp argv envp \<longleftrightarrow>
     16 dvd uint rsp \<and> read64 um rsp = of_nat (length argv) \<and> ptr_array um (rsp + 8) argv \<and>
     ptr_array um (rsp + of_nat (8 + 8 * (length argv + 1))) envp"

lemma args_total_parts:
  "args_total argv envp = 8 + 8 * (length argv + 1) + 8 * (length envp + 1) + 384 + args_pad argv envp +
     (str_total argv + str_total envp)"
  by (simp add: args_total_def fixed_bytes_def)

lemma args_total_aligned: "16 dvd args_total argv envp"
proof -
  have "16 dvd n + (16 - n mod 16) mod 16" for n :: nat
  proof -
    define q r where "q = n div 16" and "r = n mod 16"
    then have n: "n = 16 * q + r" "r < 16" by simp_all
    show ?thesis
    proof (cases "r = 0")
      case True
      then show ?thesis using n by simp
    next
      case False
      then have "n + (16 - r) mod 16 = 16 * (q + 1)" using n by simp
      then show ?thesis unfolding r_def [symmetric] by (simp only: dvd_triv_left)
    qed
  qed
  from this [of "fixed_bytes argv envp + (str_total argv + str_total envp)"] show ?thesis
    by (simp add: args_total_def args_pad_def algebra_simps)
qed

lemma setup_args_offsets:
  assumes "setup_user_stack_args kt ut argv envp m = Some (rsp, m')"
  obtains m1 off2 m3 b P2 A S where "b = kt - of_nat (args_total argv envp)" "rsp = ut - of_nat (args_total argv envp)"
    "args_total argv envp \<le> 0x80000"
    "P2 = 8 + 8 * (length argv + 1)" "A = P2 + 8 * (length envp + 1)" "S = A + 384 + args_pad argv envp"
    "args_total argv envp = S + str_total argv + str_total envp"
    "copy_strings argv (b + of_nat 8) (b + of_nat S) (rsp + of_nat S) 0 (memset m b 0 (args_total argv envp)) = (str_total argv, m1)"
    "copy_strings envp (b + of_nat P2) (b + of_nat S) (rsp + of_nat S) (str_total argv)
       (write64 m1 (b + of_nat (8 + 8 * length argv)) 0) = (off2, m3)"
    "m' = write64 (write64 (write64 (write64 (write64 (write64 (write64 (write64 m3 (b + of_nat (P2 + 8 * length envp)) 0)
       (b + of_nat A) 6) (b + of_nat (A + 8)) PAGE_SIZE_4K) (b + of_nat (A + 16)) 25) (b + of_nat (A + 24)) (ut - 16))
       (b + of_nat (A + 32)) 0) (b + of_nat (A + 40)) 0) (b + of_nat 0) (of_nat (length argv))"
proof -
  define T where "T = args_total argv envp"
  define b where "b = kt - of_nat T"
  define P2 where "P2 = 8 + 8 * (length argv + 1)"
  define A where "A = P2 + 8 * (length envp + 1)"
  define S where "S = A + 384 + args_pad argv envp"
  define a8 where "a8 = b + 8"
  obtain off1 m1 where c1: "copy_strings argv a8 (b + of_nat S) (ut - of_nat T + of_nat S) 0 (memset m b 0 T) = (off1, m1)"
    by fastforce
  obtain off2 m3 where c2: "copy_strings envp (b + of_nat P2) (b + of_nat S) (ut - of_nat T + of_nat S) off1
       (write64 m1 (a8 + 8 * of_nat (length argv)) 0) = (off2, m3)"
    by fastforce
  have T: "T = S + str_total argv + str_total envp" "\<not> unat DEFAULT_STACK_PAGE_BYTES < T" "T \<le> 0x80000"
    using assms by (auto simp: T_def S_def A_def P2_def args_total_parts setup_user_stack_args_def DEFAULT_STACK_PAGE_BYTES_def Let_def split: if_splits)
  have a8: "a8 = b + of_nat 8" by (simp add: a8_def)
  have off1: "off1 = str_total argv"
    using copy_strings_result(1) [OF c1 [unfolded a8]] T by (simp add: S_def A_def P2_def)
  have S_eq: "fixed_bytes argv envp + args_pad argv envp = S" by (simp add: S_def A_def P2_def fixed_bytes_def)
  have addr: "a8 + of_nat ((length argv + 1) * 8) = b + of_nat P2"
    "b + of_nat P2 + of_nat ((length envp + 1) * 8) = b + of_nat A" "b + of_nat A + 384 + of_nat (args_pad argv envp) = b + of_nat S"
    by (simp_all add: a8_def P2_def A_def S_def algebra_simps)
  have "setup_user_stack_args kt ut argv envp m = Some (ut - of_nat T,
     write64 (write64 (write64 (write64 (write64 (write64 (write64 (write64 m3 (b + of_nat P2 + 8 * of_nat (length envp)) 0)
       (b + of_nat A) 6) (b + of_nat A + 8) PAGE_SIZE_4K) (b + of_nat A + 16) 25) (b + of_nat A + 24) (ut - 16))
       (b + of_nat A + 32) 0) (b + of_nat A + 40) 0) b (of_nat (length argv)))"
    unfolding setup_user_stack_args_def Let_def T_def [symmetric] b_def [symmetric] a8_def [symmetric]
    by (simp only: T(2) if_False S_eq addr c1 c2 prod.case)
  then have m': "rsp = ut - of_nat T" "m' = write64 (write64 (write64 (write64 (write64 (write64 (write64 (write64 m3
       (b + of_nat P2 + 8 * of_nat (length envp)) 0)
       (b + of_nat A) 6) (b + of_nat A + 8) PAGE_SIZE_4K) (b + of_nat A + 16) 25) (b + of_nat A + 24) (ut - 16))
       (b + of_nat A + 32) 0) (b + of_nat A + 40) 0) b (of_nat (length argv))"
    using assms by simp_all
  show ?thesis
  proof (rule that [OF b_def [unfolded T_def] _ T(3) [unfolded T_def] P2_def A_def S_def T(1) [unfolded T_def]])
    show "rsp = ut - of_nat (args_total argv envp)" using m'(1) by (simp only: T_def)
    show "copy_strings argv (b + of_nat 8) (b + of_nat S) (rsp + of_nat S) 0 (memset m b 0 (args_total argv envp)) = (str_total argv, m1)"
      using c1 by (simp only: a8 m'(1) off1 T_def)
    show "copy_strings envp (b + of_nat P2) (b + of_nat S) (rsp + of_nat S) (str_total argv)
       (write64 m1 (b + of_nat (8 + 8 * length argv)) 0) = (off2, m3)"
      using c2 by (simp add: a8_def m'(1) off1 add.assoc)
    show "m' = write64 (write64 (write64 (write64 (write64 (write64 (write64 (write64 m3 (b + of_nat (P2 + 8 * length envp)) 0)
       (b + of_nat A) 6) (b + of_nat (A + 8)) PAGE_SIZE_4K) (b + of_nat (A + 16)) 25) (b + of_nat (A + 24)) (ut - 16))
       (b + of_nat (A + 32)) 0) (b + of_nat (A + 40)) 0) (b + of_nat 0) (of_nat (length argv))"
      by (simp add: m'(2) add.assoc)
  qed
qed

lemma cstrI:
  "0 \<notin> set bs \<Longrightarrow> (\<And>j. j \<le> length bs \<Longrightarrow> m (p + of_nat j) = (bs @ [0]) ! j) \<Longrightarrow> cstr m p bs"
proof (induction bs arbitrary: p)
  case Nil
  then show ?case using Nil.prems(2) [of 0] by simp
next
  case (Cons b bs)
  have "m (p + 1 + of_nat j) = (bs @ [0]) ! j" if "j \<le> length bs" for j
    using Cons.prems(2) [of "Suc j"] that by (simp add: add.assoc)
  then show ?case using Cons.IH [of "p + 1"] Cons.prems(1) Cons.prems(2) [of 0] by auto
qed

text \<open>The offsets of the block that hold strings and pointers, from the last write back to the first.\<close>

lemma setup_args_bytes:
  assumes "setup_user_stack_args kt ut argv envp m = Some (rsp, m')"
  defines "b \<equiv> kt - of_nat (args_total argv envp)" and "P2 \<equiv> 8 + 8 * (length argv + 1)"
    and "S \<equiv> args_total argv envp - (str_total argv + str_total envp)"
  shows "rsp = ut - of_nat (args_total argv envp)"
    and "read64 m' b = of_nat (length argv)"
    and "\<And>i. i < length argv \<Longrightarrow> read64 m' (b + of_nat (8 + 8 * i)) = rsp + of_nat (S + str_start argv i)"
    and "read64 m' (b + of_nat (8 + 8 * length argv)) = 0"
    and "\<And>i. i < length envp \<Longrightarrow> read64 m' (b + of_nat (P2 + 8 * i)) = rsp + of_nat (S + str_total argv + str_start envp i)"
    and "read64 m' (b + of_nat (P2 + 8 * length envp)) = 0"
    and "\<And>i j. i < length argv \<Longrightarrow> j \<le> length (argv ! i) \<Longrightarrow>
           m' (b + of_nat (S + str_start argv i + j)) = str_bytes (argv ! i) ! j"
    and "\<And>i j. i < length envp \<Longrightarrow> j \<le> length (envp ! i) \<Longrightarrow>
           m' (b + of_nat (S + str_total argv + str_start envp i + j)) = str_bytes (envp ! i) ! j"
    and "\<And>a. args_total argv envp \<le> unat (a - b) \<Longrightarrow> m' a = m a"
proof -
  obtain m1 off2 m3 b0 P A S0 where o: "b0 = kt - of_nat (args_total argv envp)" "rsp = ut - of_nat (args_total argv envp)"
    "args_total argv envp \<le> 0x80000" "P = 8 + 8 * (length argv + 1)" "A = P + 8 * (length envp + 1)"
    "S0 = A + 384 + args_pad argv envp" "args_total argv envp = S0 + str_total argv + str_total envp"
    and c1: "copy_strings argv (b0 + of_nat 8) (b0 + of_nat S0) (rsp + of_nat S0) 0 (memset m b0 0 (args_total argv envp)) = (str_total argv, m1)"
    and c2: "copy_strings envp (b0 + of_nat P) (b0 + of_nat S0) (rsp + of_nat S0) (str_total argv)
       (write64 m1 (b0 + of_nat (8 + 8 * length argv)) 0) = (off2, m3)"
    and m': "m' = write64 (write64 (write64 (write64 (write64 (write64 (write64 (write64 m3 (b0 + of_nat (P + 8 * length envp)) 0)
       (b0 + of_nat A) 6) (b0 + of_nat (A + 8)) PAGE_SIZE_4K) (b0 + of_nat (A + 16)) 25) (b0 + of_nat (A + 24)) (ut - 16))
       (b0 + of_nat (A + 32)) 0) (b0 + of_nat (A + 40)) 0) (b0 + of_nat 0) (of_nat (length argv))"
    by (rule setup_args_offsets [OF assms(1)])
  have eqs: "b = b0" "P2 = P" "S = S0" using o by (simp_all add: b_def P2_def S_def)
  note small = o(3-7)
  have r1: "\<And>k. k < 2 ^ 64 \<Longrightarrow> \<not> (8 \<le> k \<and> k < 8 + 8 * length argv) \<Longrightarrow> \<not> (S \<le> k \<and> k < S + str_total argv) \<Longrightarrow>
      m1 (b + of_nat k) = memset m b 0 (args_total argv envp) (b + of_nat k)"
    "\<And>i. i < length argv \<Longrightarrow> read64 m1 (b + of_nat (8 + 8 * i)) = rsp + of_nat S + of_nat (str_start argv i)"
    "\<And>i j. i < length argv \<Longrightarrow> j \<le> length (argv ! i) \<Longrightarrow> m1 (b + of_nat (S + str_start argv i + j)) = str_bytes (argv ! i) ! j"
    using copy_strings_result [OF c1] small unfolding eqs by simp_all
  have r2: "\<And>k. k < 2 ^ 64 \<Longrightarrow> \<not> (P2 \<le> k \<and> k < P2 + 8 * length envp) \<Longrightarrow>
      \<not> (S + str_total argv \<le> k \<and> k < S + str_total argv + str_total envp) \<Longrightarrow>
      m3 (b + of_nat k) = write64 m1 (b + of_nat (8 + 8 * length argv)) 0 (b + of_nat k)"
    "\<And>i. i < length envp \<Longrightarrow> read64 m3 (b + of_nat (P2 + 8 * i)) = rsp + of_nat S + of_nat (str_total argv + str_start envp i)"
    "\<And>i j. i < length envp \<Longrightarrow> j \<le> length (envp ! i) \<Longrightarrow>
      m3 (b + of_nat (S + str_total argv + str_start envp i + j)) = str_bytes (envp ! i) ! j"
    using copy_strings_result [OF c2] small unfolding eqs by simp_all
  have fin: "m' (b + of_nat k) = write64 m3 (b + of_nat (P2 + 8 * length envp)) 0 (b + of_nat k)"
    if "k < 2 ^ 64" "\<not> k < 8" "\<not> (A \<le> k \<and> k < A + 48)" for k
  proof -
    have "A + 48 \<le> 2 ^ 64" "P + 8 * length envp + 8 \<le> 2 ^ 64" using small by simp_all
    note bounds = this
    from that(3) consider "k < A" | "A + 48 \<le> k" by linarith
    then show ?thesis
      using that(1,2) bounds unfolding m' eqs by cases (simp_all add: write64_at write64_at_0 del: of_nat_add)
  qed
  have low: "m' (b + of_nat k) = m1 (b + of_nat k)"
    if "k < 2 ^ 64" "8 \<le> k" "k < 8 + 8 * length argv \<or> S \<le> k \<and> k < S + str_total argv" for k
    using that small fin [of k] r2(1) [of k] unfolding eqs by (auto simp: write64_at simp del: of_nat_add)
  have env: "m' (b + of_nat k) = m3 (b + of_nat k)"
    if "k < 2 ^ 64" "P2 \<le> k" "k < P2 + 8 * length envp \<or> S + str_total argv \<le> k" for k
    using that small fin [of k] unfolding eqs by (auto simp: write64_at simp del: of_nat_add)
  show "rsp = ut - of_nat (args_total argv envp)" by (rule o(2))
  show "read64 m' b = of_nat (length argv)" unfolding m' eqs by simp
  show "read64 m' (b + of_nat (8 + 8 * i)) = rsp + of_nat (S + str_start argv i)" if "i < length argv" for i
  proof -
    have "read64 m' (b + of_nat (8 + 8 * i)) = read64 m1 (b + of_nat (8 + 8 * i))"
      using that small by (intro read64_untouched low) auto
    then show ?thesis using r1(2) [OF that] by (simp add: add.assoc)
  qed
  show "read64 m' (b + of_nat (P2 + 8 * i)) = rsp + of_nat (S + str_total argv + str_start envp i)" if "i < length envp" for i
  proof -
    have "read64 m' (b + of_nat (P2 + 8 * i)) = read64 m3 (b + of_nat (P2 + 8 * i))"
      using that small unfolding eqs by (intro read64_untouched env [unfolded eqs]) auto
    then show ?thesis using r2(2) [OF that] by (simp add: add.assoc)
  qed
  show "read64 m' (b + of_nat (P2 + 8 * length envp)) = 0"
  proof -
    have "read64 m' (b + of_nat (P2 + 8 * length envp)) = read64 (write64 m3 (b + of_nat (P2 + 8 * length envp)) 0) (b + of_nat (P2 + 8 * length envp))"
      using small unfolding eqs by (intro read64_untouched fin [unfolded eqs]) auto
    then show ?thesis by simp
  qed
  show "read64 m' (b + of_nat (8 + 8 * length argv)) = 0"
  proof -
    have "m' (b + of_nat k) = write64 m1 (b + of_nat (8 + 8 * length argv)) 0 (b + of_nat k)"
      if "8 + 8 * length argv \<le> k" "k < 8 + 8 * length argv + 8" for k
      using that small fin [of k] r2(1) [of k] unfolding eqs by (simp add: write64_at del: of_nat_add)
    then have "read64 m' (b + of_nat (8 + 8 * length argv)) =
        read64 (write64 m1 (b + of_nat (8 + 8 * length argv)) 0) (b + of_nat (8 + 8 * length argv))"
      by (intro read64_untouched) auto
    then show ?thesis by simp
  qed
  show "m' (b + of_nat (S + str_start argv i + j)) = str_bytes (argv ! i) ! j" if "i < length argv" "j \<le> length (argv ! i)" for i j
    using low [of "S + str_start argv i + j"] r1(3) [OF that] str_start_bound [OF that(1)] that small unfolding eqs by simp
  show "m' (b + of_nat (S + str_total argv + str_start envp i + j)) = str_bytes (envp ! i) ! j"
    if "i < length envp" "j \<le> length (envp ! i)" for i j
    using env [of "S + str_total argv + str_start envp i + j"] r2(3) [OF that] str_start_bound [OF that(1)] that small
    unfolding eqs by simp
  show "m' a = m a" if "args_total argv envp \<le> unat (a - b)" for a
  proof -
    define k where "k = unat (a - b)"
    have k: "a = b + of_nat k" "k < 2 ^ 64" using unsigned_less [of "a - b", where ?'a = nat] by (simp_all add: k_def)
    have kT: "args_total argv envp \<le> k" using that by (simp add: k_def)
    have "m' (b + of_nat k) = memset m b 0 (args_total argv envp) (b + of_nat k)"
      using kT k(2) small fin [of k] r2(1) [of k] r1(1) [of k] unfolding eqs by (simp add: write64_at del: of_nat_add)
    also have "\<dots> = m (b + of_nat k)"
      using kT k(2) small(1) by (simp add: memset_eq_fill mem_fill_def unat_of_nat_u64)
    finally show ?thesis unfolding k(1) .
  qed
qed

text \<open>A character as a byte is 0 only for the terminator.\<close>

lemma of_char_u8_0: "(of_char c :: u8) = 0 \<longleftrightarrow> c = CHR 0x00"
proof -
  have "unat (of_nat (of_char c) :: u8) = of_char c" by (simp add: unat_of_nat take_bit_nat_eq_self del: of_nat_of_char)
  then have "unat (of_char c :: u8) = of_char c" by (simp only: of_nat_of_char)
  moreover have "(of_char CHR 0x00 :: nat) = 0" by simp
  ultimately show ?thesis by (metis of_char_eq_iff unsigned_0 unsigned_eq_0_iff)
qed

lemma str_bytes_nth: "j \<le> length a \<Longrightarrow> str_bytes a ! j = (map of_char a @ [0]) ! j"
  by (simp add: str_bytes_def)

lemma ptr_arrayI:
  assumes "\<And>i. i < length as \<Longrightarrow> read64 um (a + of_nat (8 * i)) = q i"
    and "\<And>i j. i < length as \<Longrightarrow> j \<le> length (as ! i) \<Longrightarrow> um (q i + of_nat j) = str_bytes (as ! i) ! j"
    and "read64 um (a + of_nat (8 * length as)) = 0" and "\<forall>x \<in> set as. CHR 0x00 \<notin> set x"
  shows "ptr_array um a as"
proof -
  have "cstr um (read64 um (a + of_nat (8 * i))) (map of_char (as ! i))" if "i < length as" for i
  proof (rule cstrI)
    show "(0 :: u8) \<notin> set (map of_char (as ! i))" using assms(4) that nth_mem [of i as] by (auto simp: of_char_u8_0)
  next
    fix j
    assume "j \<le> length (map of_char (as ! i) :: u8 list)"
    then show "um (read64 um (a + of_nat (8 * i)) + of_nat j) = (map of_char (as ! i) @ [0]) ! j"
      using assms(1,2) [OF that] by (simp add: str_bytes_nth)
  qed
  then show ?thesis using assms(3) by (simp add: ptr_array_def)
qed

lemma aligned_sub:
  fixes a :: u64
  assumes "16 dvd uint a" and "16 dvd n"
  shows "16 dvd uint (a - of_nat n)"
proof -
  have "16 dvd int n" using assms(2) by presburger
  then show ?thesis using assms(1) by (simp add: uint_word_ariths unsigned_of_nat take_bit_eq_mod zmod_int dvd_mod)
qed

text \<open>The block as the new program sees it, and the rest of memory.\<close>

lemma setup_args_layout:
  assumes "setup_user_stack_args kt ut argv envp m = Some (rsp, m')"
    and "\<forall>x \<in> set argv \<union> set envp. CHR 0x00 \<notin> set x" and "16 dvd uint ut"
  shows "program_args (\<lambda>a. m' (a + (kt - ut))) rsp argv envp"
proof -
  let ?um = "\<lambda>a. m' (a + (kt - ut))"
  let ?b = "kt - of_nat (args_total argv envp)"
  let ?S = "args_total argv envp - (str_total argv + str_total envp)"
  note B = setup_args_bytes [OF assms(1)]
  have um: "?um (rsp + of_nat k) = m' (?b + of_nat k)" for k
    unfolding B(1) by (simp add: algebra_simps)
  have um64: "read64 ?um (rsp + of_nat k) = read64 m' (?b + of_nat k)" for k
  proof -
    have "?um (rsp + of_nat k + of_nat i) = m' (?b + of_nat k + of_nat i)" for i
      using um [of "k + i"] by (simp add: add.assoc)
    then show ?thesis unfolding read64_def by presburger
  qed
  have argv: "ptr_array ?um (rsp + of_nat 8) argv"
  proof (rule ptr_arrayI [where q = "\<lambda>i. rsp + of_nat (?S + str_start argv i)"])
    show "read64 ?um (rsp + of_nat 8 + of_nat (8 * i)) = rsp + of_nat (?S + str_start argv i)" if "i < length argv" for i
      using um64 [of "8 + 8 * i"] B(3) [OF that] by (simp add: add.assoc)
    show "?um (rsp + of_nat (?S + str_start argv i) + of_nat j) = str_bytes (argv ! i) ! j" if "i < length argv" "j \<le> length (argv ! i)" for i j
      using um [of "?S + str_start argv i + j"] B(7) [OF that] by (simp add: add.assoc)
    show "read64 ?um (rsp + of_nat 8 + of_nat (8 * length argv)) = 0"
      using um64 [of "8 + 8 * length argv"] B(4) by (simp add: add.assoc)
  qed (use assms(2) in auto)
  have envp: "ptr_array ?um (rsp + of_nat (8 + 8 * (length argv + 1))) envp"
  proof (rule ptr_arrayI [where q = "\<lambda>i. rsp + of_nat (?S + str_total argv + str_start envp i)"])
    let ?P = "8 + 8 * (length argv + 1)"
    show "read64 ?um (rsp + of_nat ?P + of_nat (8 * i)) = rsp + of_nat (?S + str_total argv + str_start envp i)" if "i < length envp" for i
      using um64 [of "?P + 8 * i"] B(5) [OF that] by (simp add: add.assoc)
    show "?um (rsp + of_nat (?S + str_total argv + str_start envp i) + of_nat j) = str_bytes (envp ! i) ! j"
      if "i < length envp" "j \<le> length (envp ! i)" for i j
      using um [of "?S + str_total argv + str_start envp i + j"] B(8) [OF that] by (simp add: add.assoc)
    show "read64 ?um (rsp + of_nat ?P + of_nat (8 * length envp)) = 0"
      using um64 [of "?P + 8 * length envp"] B(6) by (simp add: add.assoc)
  qed (use assms(2) in auto)
  show ?thesis
    unfolding program_args_def
    using argv envp um64 [of 0] B(2) aligned_sub [OF assms(3) args_total_aligned] B(1) by simp
qed

lemma setup_args_succeeds:
  "args_total argv envp \<le> 0x80000 \<Longrightarrow> \<exists>rsp m'. setup_user_stack_args kt ut argv envp m = Some (rsp, m')"
  by (auto simp: setup_user_stack_args_def DEFAULT_STACK_PAGE_BYTES_def Let_def split: prod.splits)

section \<open>Properties\<close>

text \<open>
  C11. The arguments of a new program. When the arguments and the environment fit into the
  stack, \<open>_setup_user_stack_args\<close> succeeds; the stack pointer it returns is aligned to
  sixteen bytes, and the memory of the new process holds there, as the binary interface
  asks for, the number of arguments, a pointer to every argument and a NULL, then a
  pointer to every string of the environment and a NULL, each pointer leading to exactly
  the string that was passed. No byte outside that block has changed. The user sees the
  frames that end at \<open>kt\<close> at the addresses that end at \<open>ut\<close>.
\<close>

theorem user_stack_arguments:
  assumes "args_total argv envp \<le> 0x80000" and "\<forall>x \<in> set argv \<union> set envp. CHR 0x00 \<notin> set x" and "16 dvd uint ut"
  shows "\<exists>rsp m'. setup_user_stack_args kt ut argv envp m = Some (rsp, m') \<and>
           program_args (\<lambda>a. m' (a + (kt - ut))) rsp argv envp \<and>
           (\<forall>a. args_total argv envp \<le> unat (a - (kt - of_nat (args_total argv envp))) \<longrightarrow> m' a = m a)"
  using setup_args_succeeds [OF assms(1)] setup_args_layout [OF _ assms(2,3)] setup_args_bytes(9) by metis

theorem user_stack_arguments_witness:
  "\<exists>rsp m'. setup_user_stack_args 0x180000 STACK_UPPER_USPACE_ADDR [''sh'', ''-c''] [''A=1''] (\<lambda>a. 7) = Some (rsp, m') \<and>
     program_args (\<lambda>a. m' (a + (0x180000 - STACK_UPPER_USPACE_ADDR))) rsp [''sh'', ''-c''] [''A=1''] \<and>
     (\<forall>a. args_total [''sh'', ''-c''] [''A=1''] \<le> unat (a - (0x180000 - of_nat (args_total [''sh'', ''-c''] [''A=1'']))) \<longrightarrow> m' a = 7)"
  by (rule user_stack_arguments)
    (simp_all add: args_total_def fixed_bytes_def args_pad_def str_total_def STACK_UPPER_USPACE_ADDR_def)

end
