(* ===== verification/Syscall.thy ===== *)
theory Syscall
  imports Exec Rtc
begin

text \<open>
  The system calls of \<open>kernel/src/arch/x86_64/syscalls/syscall.c\<close>. A \<open>__user\<close> pointer is followed the way the
  processor does: an address of the lower half goes through the page tables of the running
  process into \<open>phys_mem\<close>, an address of the upper half is kernel memory, and anything
  else, or a page that is not mapped, is a \<open>BadPointer\<close>. The kernel does not look at the
  address, and the model does not look at the permission bits of the mapping. Structures
  that the model keeps as typed objects, and the entries of file tables, are not visible
  in the bytes a pointer reaches. A path in a \<open>char[PATH_MAX]\<close> is the string up to its
  terminator; without one, the functions that read it leave the array.
\<close>

section \<open>The surroundings of a call\<close>

text \<open>
  What a call does not determine: the keyboard data that arrives during a read, the build
  date in the version string, what the other threads do while this one has yielded, and
  the value of a function that ends without \<open>return\<close>.
\<close>

record 'a sys_env =
  env_report :: "'a sched_ext report"
  env_version :: string
  env_others :: "'a sched_scheme \<Rightarrow> 'a sched_scheme"
  env_no_return :: int

text \<open>A call returns a value, or resumes a thread at its stack pointer, or never comes back.\<close>

datatype sys_ret = Value int | Resume u64 | Gone

type_synonym 'a sys = "(sys_ret \<times> 'a sched_scheme) run"

definition ret :: "int \<Rightarrow> 'a sched_scheme \<Rightarrow> 'a sys" where
  "ret v s = Ok (Value v, s)"

definition current :: "'a sched_scheme \<Rightarrow> pcb run" where
  "current s = get_pcb (current_process s) s"

definition to_int32 :: "int \<Rightarrow> int" where
  "to_int32 i = sint (word_of_int i :: u32)"

section \<open>User memory\<close>

definition USER_VADDR_LIMIT :: u64 where "USER_VADDR_LIMIT = 0x0000800000000000"
definition KERNEL_HALF :: u64 where "KERNEL_HALF = 0xFFFF800000000000"

definition get_user_byte :: "u64 \<Rightarrow> 'a sched_scheme \<Rightarrow> u8 run" where
  "get_user_byte a s =
     (if a < USER_VADDR_LIMIT then
        (let pa = page_dir_virt_to_phys (phys_mem s) (cr3 s) a
         in if pa = UINTPTR_MAX then Stop BadPointer else Ok (phys_mem s pa))
      else if a < KERNEL_HALF then Stop BadPointer
      else Ok (kmem s a))"

definition put_user_byte :: "u64 \<Rightarrow> u8 \<Rightarrow> 'a sched_scheme \<Rightarrow> 'a sched_scheme run" where
  "put_user_byte a b s =
     (if a < USER_VADDR_LIMIT then
        (let pa = page_dir_virt_to_phys (phys_mem s) (cr3 s) a
         in if pa = UINTPTR_MAX then Stop BadPointer else Ok (s\<lparr>phys_mem := (phys_mem s)(pa := b)\<rparr>))
      else if a < KERNEL_HALF then Stop BadPointer
      else Ok (s\<lparr>kmem := (kmem s)(a := b)\<rparr>))"

primrec get_user_bytes :: "nat \<Rightarrow> u64 \<Rightarrow> 'a sched_scheme \<Rightarrow> u8 list run" where
  "get_user_bytes 0 a s = Ok []"
| "get_user_bytes (Suc n) a s =
     bindr (get_user_byte a s) (\<lambda>b. bindr (get_user_bytes n (a + 1) s) (\<lambda>bs. Ok (b # bs)))"

primrec put_user_bytes :: "u8 list \<Rightarrow> u64 \<Rightarrow> 'a sched_scheme \<Rightarrow> 'a sched_scheme run" where
  "put_user_bytes [] a s = Ok s"
| "put_user_bytes (b # bs) a s = bindr (put_user_byte a b s) (put_user_bytes bs (a + 1))"

text \<open>The loops of \<open>compiler_defs.h\<close> between a kernel buffer and a user buffer.\<close>

primrec copy_in :: "nat \<Rightarrow> u64 \<Rightarrow> u64 \<Rightarrow> 'a sched_scheme \<Rightarrow> 'a sched_scheme run" where
  "copy_in 0 dst src s = Ok s"
| "copy_in (Suc n) dst src s =
     bindr (get_user_byte src s) (\<lambda>b. copy_in n (dst + 1) (src + 1) (s\<lparr>kmem := (kmem s)(dst := b)\<rparr>))"

primrec copy_out :: "nat \<Rightarrow> u64 \<Rightarrow> u64 \<Rightarrow> 'a sched_scheme \<Rightarrow> 'a sched_scheme run" where
  "copy_out 0 dst src s = Ok s"
| "copy_out (Suc n) dst src s =
     bindr (put_user_byte dst (kmem s src) s) (copy_out n (dst + 1) (src + 1))"

text \<open>The characters up to a terminator within \<open>n\<close> bytes; \<open>None\<close> when there is none.\<close>

primrec user_str :: "nat \<Rightarrow> u64 \<Rightarrow> 'a sched_scheme \<Rightarrow> string option run" where
  "user_str 0 a s = Ok None"
| "user_str (Suc n) a s =
     bindr (get_user_byte a s) (\<lambda>b.
       if b = 0 then Ok (Some [])
       else bindr (user_str n (a + 1) s) (\<lambda>r. Ok (map_option (\<lambda>cs. char_of (unat b) # cs) r)))"

definition PATH_MAX :: nat where "PATH_MAX = 512"

definition path_strncpy :: "u64 \<Rightarrow> 'a sched_scheme \<Rightarrow> string run" where
  "path_strncpy a s =
     bindr (user_str PATH_MAX a s) (\<lambda>r. case r of None \<Rightarrow> Stop OutOfBounds | Some cs \<Rightarrow> Ok cs)"

definition c_string :: "u8 list \<Rightarrow> string" where
  "c_string bs = map (\<lambda>b. char_of (unat b)) (takeWhile (\<lambda>b. b \<noteq> 0) bs)"

definition path_copy :: "u64 \<Rightarrow> 'a sched_scheme \<Rightarrow> string run" where
  "path_copy a s =
     bindr (get_user_bytes PATH_MAX a s) (\<lambda>bs. if 0 \<in> set bs then Ok (c_string bs) else Stop OutOfBounds)"

definition get_user64 :: "u64 \<Rightarrow> 'a sched_scheme \<Rightarrow> u64 run" where
  "get_user64 a s = bindr (get_user_bytes 8 a s) (\<lambda>bs. Ok (le_word bs))"

definition put_user64 :: "u64 \<Rightarrow> u64 \<Rightarrow> 'a sched_scheme \<Rightarrow> 'a sched_scheme run" where
  "put_user64 a v s = put_user_bytes (word_bytes v) a s"

section \<open>Setting up\<close>

definition MSR_EFER :: u32 where "MSR_EFER = 0xC0000080"
definition MSR_STAR :: u32 where "MSR_STAR = 0xC0000081"
definition MSR_LSTAR :: u32 where "MSR_LSTAR = 0xC0000082"
definition MSR_SYSCALL_MASK :: u32 where "MSR_SYSCALL_MASK = 0xC0000084"

definition syscall_init :: "u64 \<Rightarrow> 'a hw_scheme \<Rightarrow> int \<times> 'a hw_scheme" where
  "syscall_init syscall_entry s =
     (let s = wrmsr MSR_EFER (rdmsr MSR_EFER s OR 1) s;
          s = wrmsr MSR_STAR (push_bit 48 (USER_CODE_SEGMENT - 16) OR push_bit 32 KERNEL_CODE_SEGMENT) s;
          s = wrmsr MSR_LSTAR syscall_entry s
      in (0, wrmsr MSR_SYSCALL_MASK 0x600 s))"

section \<open>Argument vectors\<close>

definition EXEC_ARGV_MAX :: nat where "EXEC_ARGV_MAX = 64"
definition EXEC_ARG_MAXLEN :: nat where "EXEC_ARG_MAXLEN = 256"

primrec user_ptrs :: "nat \<Rightarrow> u64 \<Rightarrow> 'a sched_scheme \<Rightarrow> u64 list run" where
  "user_ptrs 0 a s = Ok []"
| "user_ptrs (Suc n) a s =
     bindr (get_user64 a s) (\<lambda>p.
       if p = 0 then Ok [] else bindr (user_ptrs n (a + 8) s) (\<lambda>ps. Ok (p # ps)))"

text \<open>
  The copies made so far are \<open>out\<close>, first string first. When there is no memory for
  another, they are all given back.
\<close>

fun copy_args :: "u64 list \<Rightarrow> u64 list \<Rightarrow> u64 \<Rightarrow> 'a sched_scheme \<Rightarrow> (u64 \<times> 'a sched_scheme) run" where
  "copy_args [] out v s = Ok (v, put v (Strv (out @ [0])) s)"
| "copy_args (p # ps) out v s =
     bindr (kmalloc (of_nat EXEC_ARG_MAXLEN) (Str []) s) (\<lambda>(kstr, s).
       if kstr = 0 then bindr (foreach kfree out s) (\<lambda>s. bindr (kfree v s) (\<lambda>s. Ok (0, s)))
       else
         bindr (get_user_bytes EXEC_ARG_MAXLEN p s) (\<lambda>bs.
           copy_args ps (out @ [kstr]) v (put kstr (Str (c_string (take (EXEC_ARG_MAXLEN - 1) bs))) s)))"

definition copy_user_strv :: "u64 \<Rightarrow> 'a sched_scheme \<Rightarrow> (u64 \<times> 'a sched_scheme) run" where
  "copy_user_strv uarr s =
     (if uarr = 0 then Ok (0, s)
      else
        bindr (user_ptrs EXEC_ARGV_MAX uarr s) (\<lambda>uptrs.
        bindr (kmalloc (of_nat ((length uptrs + 1) * 8)) (Strv []) s) (\<lambda>(v, s).
          if v = 0 then Ok (0, s) else copy_args uptrs [] v s)))"

definition free_strv :: "u64 \<Rightarrow> 'a sched_scheme \<Rightarrow> 'a sched_scheme run" where
  "free_strv v s =
     (if v = 0 then Ok s
      else bindr (get_strv v s) (\<lambda>ps. bindr (foreach kfree (takeWhile (\<lambda>p. p \<noteq> 0) ps) s) (kfree v)))"

section \<open>Opening and closing\<close>

definition AT_FDCWD :: u32 where "AT_FDCWD = - 100"
definition AT_REMOVEDIR :: u32 where "AT_REMOVEDIR = 0x200"
definition O_PATH :: u32 where "O_PATH = 0x200000"
definition O_ACCMODE :: u32 where "O_ACCMODE = 3 OR O_PATH"
definition O_RDONLY :: u32 where "O_RDONLY = 0"
definition O_WRONLY :: u32 where "O_WRONLY = 1"
definition O_RDWR :: u32 where "O_RDWR = 2"
definition O_CREAT :: u32 where "O_CREAT = 0x40"

text \<open>\<open>fd >= DEFAULT_FILE_TABLE_ENTRIES\<close> compares unsigned numbers, so a negative \<open>fd\<close> is too large.\<close>

definition fd_too_large :: "u32 \<Rightarrow> bool" where
  "fd_too_large fd \<longleftrightarrow> unat (scast fd :: u64) \<ge> DEFAULT_FILE_TABLE_ENTRIES"

definition resolve_at :: "u32 \<Rightarrow> string \<Rightarrow> 'a sched_scheme \<Rightarrow> u64 run" where
  "resolve_at dfd kpath s =
     (if kpath \<noteq> [] \<and> hd kpath = CHR ''/'' then path_resolve_start kpath s
      else
        bindr (current s) (\<lambda>p.
          if dfd = AT_FDCWD then Ok (cwd_i p)
          else if fd_too_large dfd then Ok 0
          else if opened_file_table p = 0 then Ok 0
          else
            bindr (get_file (opened_file_table p) (unat dfd) s) (\<lambda>f.
              if f_inode f = 0 then Ok 0
              else bindr (get_inode (f_inode f) s) (\<lambda>i. Ok (if S_ISDIR (i_mode i) then f_inode f else 0)))))"

fun free_fd :: "u64 \<Rightarrow> nat list \<Rightarrow> 'a sched_scheme \<Rightarrow> nat option run" where
  "free_fd table [] s = Ok None"
| "free_fd table (i # is) s =
     bindr (get_file table i s) (\<lambda>f. if f_inode f = 0 then Ok (Some i) else free_fd table is s)"

definition inode_count :: "u64 \<Rightarrow> (u32 \<Rightarrow> u32) \<Rightarrow> 'a kobj_scheme \<Rightarrow> 'a kobj_scheme run" where
  "inode_count ip f s = upd_inode ip (\<lambda>i. i\<lparr>i_count := f (i_count i)\<rparr>) s"

text \<open>The last part of \<open>sys_open\<close> and \<open>sys_openat\<close>, from the entry that was found.\<close>

definition open_entry :: "u64 \<Rightarrow> nat \<Rightarrow> u32 \<Rightarrow> u64 \<Rightarrow> 'a sched_scheme \<Rightarrow> 'a sys" where
  "open_entry table fd flags d s =
     bindr (get_dentry d s) (\<lambda>dd.
     bindr (get_inode (d_inode dd) s) (\<lambda>i.
     bindr (get_file table fd s) (\<lambda>old.
       let f = old\<lparr>f_inode := d_inode dd, f_pos := 0, f_flags := flags, f_ops := i_fop i, private_data := 0\<rparr>
       in bindr (set_file table fd f s) (\<lambda>s.
          bindr (inode_count (d_inode dd) (\<lambda>n. n + 1) s) (\<lambda>s.
            if i_fop i = NoFops then ret (int fd) s
            else
              bindr (call_open (i_fop i) (d_inode dd) f s) (\<lambda>(r, f).
                if r < 0 then
                  bindr (inode_count (d_inode dd) (\<lambda>n. n - 1) s) (\<lambda>s.
                  bindr (set_file table fd (f\<lparr>f_inode := 0, f_ops := NoFops\<rparr>) s) (ret r))
                else bindr (set_file table fd f s) (ret (int fd))))))))"

definition open_from :: "u64 \<Rightarrow> string \<Rightarrow> u32 \<Rightarrow> u32 \<Rightarrow> u64 \<Rightarrow> 'a sched_scheme \<Rightarrow> 'a sys" where
  "open_from start kpath flags mode table s =
     bindr (free_fd table [3..<DEFAULT_FILE_TABLE_ENTRIES] s) (\<lambda>slot.
       case slot of None \<Rightarrow> ret (- E_INVAL) s
       | Some fd \<Rightarrow>
           bindr (kpath_lookup start kpath s) (\<lambda>(d, s).
             if d \<noteq> 0 then open_entry table fd flags d s
             else if flags AND O_CREAT = 0 then ret (- E_INVAL) s
             else
               bindr (kpath_create start kpath (ucast mode OR S_IFREG) False s) (\<lambda>(r, s).
                 if r < 0 then ret r s
                 else
                   bindr (kpath_lookup start kpath s) (\<lambda>(d, s).
                     if d = 0 then ret (- E_INVAL) s else open_entry table fd flags d s))))"

definition sys_open :: "u64 \<Rightarrow> u32 \<Rightarrow> u32 \<Rightarrow> 'a sched_scheme \<Rightarrow> 'a sys" where
  "sys_open filename flags mode s =
     (if filename = 0 then ret (- E_INVAL) s
      else
        bindr (current s) (\<lambda>p.
          if opened_file_table p = 0 then ret (- E_INVAL) s
          else
            bindr (path_strncpy filename s) (\<lambda>kpath.
            bindr (path_resolve_start kpath s) (\<lambda>start.
              if start = 0 then ret (- E_INVAL) s
              else open_from start kpath flags mode (opened_file_table p) s))))"

definition sys_openat :: "u32 \<Rightarrow> u64 \<Rightarrow> u32 \<Rightarrow> u32 \<Rightarrow> 'a sched_scheme \<Rightarrow> 'a sys" where
  "sys_openat dfd filename flags mode s =
     (if filename = 0 then ret (- E_INVAL) s
      else
        bindr (current s) (\<lambda>p.
          if opened_file_table p = 0 then ret (- E_INVAL) s
          else
            bindr (path_copy filename s) (\<lambda>kpath.
            bindr (resolve_at dfd kpath s) (\<lambda>start.
              if start = 0 then ret (- E_INVAL) s
              else open_from start kpath flags mode (opened_file_table p) s))))"

definition sys_close :: "u32 \<Rightarrow> 'a sched_scheme \<Rightarrow> 'a sys" where
  "sys_close fd s =
     bindr (current s) (\<lambda>p.
       if opened_file_table p = 0 \<or> fd_too_large fd then ret (- E_INVAL) s
       else
         bindr (get_file (opened_file_table p) (unat fd) s) (\<lambda>f.
           if f_inode f = 0 then ret (- E_INVAL) s
           else
             bindr (if f_ops f = NoFops then Ok (0, f) else call_release (f_ops f) (f_inode f) f) (\<lambda>(r, f).
             bindr (if f_inode f = 0 then Ok s else inode_count (f_inode f) (\<lambda>n. n - 1) s) (\<lambda>s.
             bindr (set_file (opened_file_table p) (unat fd)
                      (f\<lparr>f_inode := 0, f_ops := NoFops, f_pos := 0, f_flags := 0, private_data := 0\<rparr>) s) (ret r)))))"

section \<open>Reading and writing\<close>

definition can_read :: "u32 \<Rightarrow> bool" where
  "can_read flags \<longleftrightarrow> flags AND O_ACCMODE = O_RDONLY \<or> flags AND O_ACCMODE = O_RDWR"

definition can_write :: "u32 \<Rightarrow> bool" where
  "can_write flags \<longleftrightarrow> flags AND O_ACCMODE = O_WRONLY \<or> flags AND O_ACCMODE = O_RDWR"

definition sys_read :: "'a sys_env \<Rightarrow> u32 \<Rightarrow> u64 \<Rightarrow> u64 \<Rightarrow> 'a sched_scheme \<Rightarrow> 'a sys" where
  "sys_read env fd buf count s =
     (if buf = 0 then ret (- E_INVAL) s
      else
        bindr (current s) (\<lambda>p.
          if opened_file_table p = 0 \<or> fd_too_large fd then ret (- E_INVAL) s
          else
            bindr (get_file (opened_file_table p) (unat fd) s) (\<lambda>fil.
              if f_inode fil = 0 \<or> f_ops fil = NoFops then ret (- E_INVAL) s
              else
                bindr (kmalloc count (Buf count) s) (\<lambda>(kbuf, s).
                  if kbuf = 0 then ret (- E_NOMEM) s
                  else
                    bindr (if can_read (f_flags fil) then
                             bindr (call_read (env_report env) (f_ops fil) fil kbuf count (f_pos fil) s) (\<lambda>(r, off, s).
                             bindr (set_file (opened_file_table p) (unat fd) (fil\<lparr>f_pos := off\<rparr>) s) (\<lambda>s. Ok (to_int32 r, s)))
                           else Ok (- E_ACCES, s)) (\<lambda>(r, s).
                    bindr (if r > 0 then copy_out (nat r) buf kbuf s else Ok s) (\<lambda>s.
                    bindr (kfree kbuf s) (ret r)))))))"

text \<open>The characters \<open>%.*s\<close> prints: at most the precision, or all when it is negative.\<close>

fun user_text :: "nat \<Rightarrow> u64 \<Rightarrow> 'a sched_scheme \<Rightarrow> u8 list run" where
  "user_text n a s =
     (if n = 0 then Ok []
      else
        bindr (get_user_byte a s) (\<lambda>b.
          if b = 0 then Ok [] else bindr (user_text (n - 1) (a + 1) s) (\<lambda>bs. Ok (b # bs))))"

definition text_arg :: "u64 \<Rightarrow> u64 \<Rightarrow> 'a sched_scheme \<Rightarrow> u8 list run" where
  "text_arg count buf s =
     (let prec = sint (ucast count :: u32) in user_text (if prec < 0 then 2 ^ 64 else nat prec) buf s)"

definition esc_red :: "u8 list" where "esc_red = 27 # bytes ''[31m''"

definition sys_write :: "u32 \<Rightarrow> u64 \<Rightarrow> u64 \<Rightarrow> 'a sched_scheme \<Rightarrow> 'a sys" where
  "sys_write fd buf count s =
     (if fd = 1 then
        bindr (text_arg count buf s) (\<lambda>bs. bindr (sys_serial_vlogf bs None None 0 s) (ret (sint count)))
      else if fd = 2 then
        bindr (text_arg count buf s) (\<lambda>bs.
        bindr (sys_serial_vlogf (esc_red @ bs @ [10] @ esc_reset) None None 0 s) (ret (sint count)))
      else if buf = 0 then ret (- E_INVAL) s
      else
        bindr (current s) (\<lambda>p.
          if opened_file_table p = 0 \<or> fd_too_large fd then ret (- E_INVAL) s
          else
            bindr (get_file (opened_file_table p) (unat fd) s) (\<lambda>fil.
              if f_inode fil = 0 \<or> f_ops fil = NoFops then ret (- E_INVAL) s
              else
                bindr (kmalloc count (Buf count) s) (\<lambda>(kbuf, s).
                  if kbuf = 0 then ret (- E_NOMEM) s
                  else
                    bindr (copy_in (unat count) kbuf buf s) (\<lambda>s.
                    bindr (if can_write (f_flags fil) then
                             bindr (call_write (f_ops fil) fil kbuf count (f_pos fil) s) (\<lambda>(r, off, s).
                             bindr (set_file (opened_file_table p) (unat fd) (fil\<lparr>f_pos := off\<rparr>) s) (\<lambda>s. Ok (to_int32 r, s)))
                           else Ok (- E_ACCES, s)) (\<lambda>(r, s).
                    bindr (kfree kbuf s) (ret r)))))))"

definition sys_lseek :: "u32 \<Rightarrow> u64 \<Rightarrow> u32 \<Rightarrow> 'a sched_scheme \<Rightarrow> 'a sys" where
  "sys_lseek fd offset origin s =
     (if fd < 3 then ret (- E_SPIPE) s
      else
        bindr (current s) (\<lambda>p.
          if opened_file_table p = 0 then ret (- E_INVAL) s
          else if unat fd \<ge> DEFAULT_FILE_TABLE_ENTRIES then ret (- E_INVAL) s
          else
            bindr (get_file (opened_file_table p) (unat fd) s) (\<lambda>fil.
              if f_inode fil = 0 then ret (- E_INVAL) s
              else if f_ops fil = NoFops then ret (- E_INVAL) s
              else
                bindr (call_lseek (f_ops fil) fil offset (sint origin) s) (\<lambda>(r, fil).
                bindr (set_file (opened_file_table p) (unat fd) fil s) (ret r)))))"

definition sys_getdents64 :: "u32 \<Rightarrow> u64 \<Rightarrow> u64 \<Rightarrow> 'a sched_scheme \<Rightarrow> 'a sys" where
  "sys_getdents64 fd dirp count s =
     (if dirp = 0 \<or> count = 0 then ret (- E_INVAL) s
      else
        bindr (current s) (\<lambda>p.
          if opened_file_table p = 0 then ret (- E_INVAL) s
          else if unat fd \<ge> DEFAULT_FILE_TABLE_ENTRIES then ret (- E_INVAL) s
          else
            bindr (get_file (opened_file_table p) (unat fd) s) (\<lambda>fil.
              if f_inode fil = 0 then ret (- E_INVAL) s
              else
                bindr (kmalloc count (Buf count) s) (\<lambda>(kbuf, s).
                  if kbuf = 0 then ret (- E_NOMEM) s
                  else
                    bindr (vfs_getdents64 fil kbuf (unat count) s) (\<lambda>(r, fil, s).
                    bindr (set_file (opened_file_table p) (unat fd) fil s) (\<lambda>s.
                    bindr (if r > 0 then copy_out (nat r) dirp kbuf s else Ok s) (\<lambda>s.
                    bindr (kfree kbuf s) (ret r))))))))"

section \<open>Descriptors\<close>

definition sys_dup :: "u32 \<Rightarrow> 'a sched_scheme \<Rightarrow> 'a sys" where
  "sys_dup oldfd s =
     bindr (current s) (\<lambda>p.
       if opened_file_table p = 0 then ret (- E_INVAL) s
       else if sint oldfd < 0 \<or> fd_too_large oldfd then ret (- E_INVAL) s
       else
         bindr (get_file (opened_file_table p) (unat oldfd) s) (\<lambda>f.
           if f_inode f = 0 then ret (- E_INVAL) s
           else
             bindr (free_fd (opened_file_table p) [0..<DEFAULT_FILE_TABLE_ENTRIES] s) (\<lambda>slot.
               case slot of None \<Rightarrow> ret (- E_MFILE) s
               | Some newfd \<Rightarrow>
                   bindr (set_file (opened_file_table p) newfd f s) (\<lambda>s.
                   bindr (inode_count (f_inode f) (\<lambda>n. n + 1) s) (ret (int newfd))))))"

definition sys_dup2 :: "u32 \<Rightarrow> u32 \<Rightarrow> 'a sched_scheme \<Rightarrow> 'a sys" where
  "sys_dup2 oldfd newfd s =
     bindr (current s) (\<lambda>p.
       if opened_file_table p = 0 then ret (- E_INVAL) s
       else if sint oldfd < 0 \<or> fd_too_large oldfd \<or> sint newfd < 0 \<or> fd_too_large newfd then ret (- E_INVAL) s
       else
         bindr (get_file (opened_file_table p) (unat oldfd) s) (\<lambda>f.
           if f_inode f = 0 then ret (- E_INVAL) s
           else if oldfd = newfd then ret (sint newfd) s
           else
             bindr (get_file (opened_file_table p) (unat newfd) s) (\<lambda>g.
             bindr (if f_inode g = 0 then Ok s
                    else
                      bindr (if f_ops g = NoFops then Ok (0, g) else call_release (f_ops g) (f_inode g) g) (\<lambda>(r, g).
                      bindr (set_file (opened_file_table p) (unat newfd) g s) (inode_count (f_inode g) (\<lambda>n. n - 1)))) (\<lambda>s.
             bindr (set_file (opened_file_table p) (unat newfd) f s) (\<lambda>s.
             bindr (inode_count (f_inode f) (\<lambda>n. n + 1) s) (ret (sint newfd)))))))"

section \<open>Memory\<close>

definition sys_mmap :: "u64 \<Rightarrow> u64 \<Rightarrow> u64 \<Rightarrow> u64 \<Rightarrow> u64 \<Rightarrow> u64 \<Rightarrow> 'a sched_scheme \<Rightarrow> 'a sys" where
  "sys_mmap addr len prot flags fd off s = ret 0 s"

text \<open>\<open>ROUND_TO_PAGE_UP\<close> gives the number of a page, \<open>ROUND_TO_PAGE_DOWN\<close> an address.\<close>

definition ROUND_TO_PAGE_UP :: "u64 \<Rightarrow> u64" where
  "ROUND_TO_PAGE_UP x = x div PAGE_SIZE_4K + 1"

definition ROUND_TO_PAGE_DOWN :: "u64 \<Rightarrow> u64" where
  "ROUND_TO_PAGE_DOWN x = x AND NOT (PAGE_SIZE_4K - 1)"

definition mprotect_flags :: "u64 \<Rightarrow> u64" where
  "mprotect_flags prot =
     (let flags = PTE_NX OR PTE_USER;
          flags = (if prot = 0 then flags AND NOT PTE_USER else flags);
          flags = (if prot AND 2 \<noteq> 0 then flags OR PTE_WRITABLE else flags)
      in if prot AND 4 \<noteq> 0 then flags AND NOT PTE_NX else flags)"

fun hex :: "nat \<Rightarrow> string" where
  "hex n = (if n < 16 then [hex_digit n] else hex (n div 16) @ [hex_digit (n mod 16)])"

text \<open>The physical address of the page is used as the address of its page-table entry.\<close>

definition mprotect_page :: "u64 \<Rightarrow> u64 \<Rightarrow> 'a sched_scheme \<Rightarrow> 'a sched_scheme run" where
  "mprotect_page flags addr s =
     bindr (current s) (\<lambda>p.
       let phys = page_dir_virt_to_phys (phys_mem s) (p_cr3 p AND PTE_ADDR_MASK) addr
       in if phys = 0 \<or> phys = UINTPTR_MAX then Ok s
          else
            bindr (sys_log (hex (unat (p_cr3 p)) @ newline) s) (\<lambda>s.
            bindr (sys_log (hex (unat phys) @ newline) s) (\<lambda>s.
            bindr (get_user64 phys s) (\<lambda>e.
            bindr (put_user64 phys (e AND NOT (PTE_USER OR PTE_WRITABLE OR PTE_NX)) s) (\<lambda>s.
            bindr (get_user64 phys s) (\<lambda>e. put_user64 phys (e OR flags) s))))))"

lemma ROUND_TO_PAGE_UP_bound: "unat (ROUND_TO_PAGE_UP x) \<le> 2 ^ 52"
proof -
  have "unat x < 2 ^ 64" using unsigned_less [of x, where ?'a = nat] by simp
  then have "unat x div 4096 < 2 ^ 52" by (simp add: less_mult_imp_div_less)
  then show ?thesis
    unfolding ROUND_TO_PAGE_UP_def PAGE_SIZE_4K_def
    by (simp add: unat_word_ariths unat_div)
qed

text \<open>The loop up to \<open>ROUND_TO_PAGE_UP lim\<close>.\<close>

function mprotect_loop :: "u64 \<Rightarrow> u64 \<Rightarrow> u64 \<Rightarrow> 'a sched_scheme \<Rightarrow> 'a sched_scheme run" where
  "mprotect_loop flags lim addr s =
     (if addr < ROUND_TO_PAGE_UP lim then
        bindr (mprotect_page flags addr s) (mprotect_loop flags lim (addr + PAGE_SIZE_4K))
      else Ok s)"
  by pat_completeness auto
termination
proof (relation "measure (\<lambda>(flags, lim, addr, s). 2 ^ 53 - unat addr)", goal_cases)
  case (2 flags lim addr s)
  then have "unat addr < 2 ^ 52" using ROUND_TO_PAGE_UP_bound [of lim] by (simp add: word_less_nat_alt)
  then show ?case by (simp add: PAGE_SIZE_4K_def unat_word_ariths)
qed simp

declare mprotect_loop.simps [simp del]

definition sys_mprotect :: "u64 \<Rightarrow> u64 \<Rightarrow> u64 \<Rightarrow> 'a sched_scheme \<Rightarrow> 'a sys" where
  "sys_mprotect start len prot s =
     bindr (mprotect_loop (mprotect_flags prot) (start + len) (ROUND_TO_PAGE_DOWN start) s) (ret 0)"

text \<open>\<open>sys_munmap\<close> ends without a \<open>return\<close>.\<close>

definition sys_munmap :: "'a sys_env \<Rightarrow> u64 \<Rightarrow> u64 \<Rightarrow> 'a sched_scheme \<Rightarrow> 'a sys" where
  "sys_munmap env addr len s =
     bindr (current s) (\<lambda>p.
       let start = addr AND NOT (PAGE_SIZE_4K - 1);
           stop = (addr + len + PAGE_SIZE_4K - 1) AND NOT (PAGE_SIZE_4K - 1)
       in bindr (unmap_4k_pages (p_cr3 p) start (unat ((stop - start) div PAGE_SIZE_4K)) s) (ret (env_no_return env)))"

definition page_up :: "u64 \<Rightarrow> u64" where
  "page_up a = (a + PAGE_SIZE_4K - 1) AND NOT (PAGE_SIZE_4K - 1)"

definition sys_brk :: "u64 \<Rightarrow> 'a sched_scheme \<Rightarrow> 'a sys" where
  "sys_brk brk s =
     bindr (current s) (\<lambda>p.
       let hp = p_heap p
       in if brk = 0 then ret (sint (h_higher hp)) s
          else if brk < h_lower hp then ret (- E_INVAL) s
          else
            (let old_page = page_up (h_higher hp); new_page = page_up brk;
                 done_brk = (\<lambda>s. bindr (upd_pcb (current_process s) (\<lambda>p. p\<lparr>p_heap := hp\<lparr>h_higher := brk, h_size := brk - h_lower hp\<rparr>\<rparr>) s)
                              (ret (sint brk)))
             in if new_page > old_page then
                  (let pages = unat ((new_page - old_page) div PAGE_SIZE_4K)
                   in bindr (pmm_alloc_pages pages s) (\<lambda>(phys, s).
                        if phys = 0 then ret (- E_NOMEM) s
                        else
                          bindr (map_4k_pages (p_cr3 p) old_page phys pages (PTE_WRITABLE OR PTE_USER OR PTE_LOCAL_OWNED OR PTE_NX) s)
                            done_brk))
                else done_brk s))"

section \<open>Processes\<close>

definition sys_getpid :: "'a sched_scheme \<Rightarrow> 'a sys" where
  "sys_getpid s = bindr (current s) (\<lambda>p. ret (sint (p_pid p)) s)"

definition sys_gettid :: "'a sched_scheme \<Rightarrow> 'a sys" where
  "sys_gettid s = bindr (get_tcb (current_thread s) s) (\<lambda>t. ret (sint (t_tid t)) s)"

definition sys_fork :: "u64 \<Rightarrow> 'a sched_scheme \<Rightarrow> 'a sys" where
  "sys_fork rsp s =
     bindr (fork_process (current_thread s) rsp s) (\<lambda>(pid, s). if pid < 1 then ret (- E_NOMEM) s else ret pid s)"

definition sys_warning :: "string \<Rightarrow> 'a logger_scheme \<Rightarrow> 'a logger_scheme run" where
  "sys_warning cs s =
     sys_serial_vlogf ([91, 27] @ bytes ''[93mWARNING'' @ [27] @ bytes ''[0m] '' @ bytes cs) None None 0 s"

definition sys_execve :: "'a sys_env \<Rightarrow> u64 \<Rightarrow> u64 \<Rightarrow> u64 \<Rightarrow> u64 \<Rightarrow> 'a sched_scheme \<Rightarrow> 'a sys" where
  "sys_execve env filename argv envp rsp s =
     (if filename = 0 \<or> rsp = 0 then ret (- E_INVAL) s
      else
        bindr (path_copy filename s) (\<lambda>kpath.
        bindr (copy_user_strv argv s) (\<lambda>(kargv, s).
        bindr (copy_user_strv envp s) (\<lambda>(kenvp, s).
        bindr (exec_elf_from_vfs (env_report env) (current_thread s) kpath kargv kenvp rsp s) (\<lambda>(r, s).
          case r of None \<Rightarrow> Ok (Gone, s)
          | Some r \<Rightarrow>
              bindr (sys_warning (''exec '' @ dec_int r @ newline) s) (\<lambda>s.
              bindr (free_strv kargv s) (\<lambda>s.
              bindr (free_strv kenvp s) (ret r))))))))"

definition yield_core :: "u64 \<Rightarrow> 'a sched_scheme \<Rightarrow> 'a sys" where
  "yield_core rsp s = bindr (sched_next_process_core rsp s) (\<lambda>(sp, s). Ok (Resume sp, s))"

definition sys_exit :: "u32 \<Rightarrow> u64 \<Rightarrow> 'a sched_scheme \<Rightarrow> 'a sys" where
  "sys_exit code rsp s = bindr (usproc_exit (current_process s) code s) (yield_core rsp)"

text \<open>The first child that matches and has exited, and whether any child matches.\<close>

fun wait_scan :: "int \<Rightarrow> bool \<Rightarrow> u64 list \<Rightarrow> 'a sched_scheme \<Rightarrow> (bool \<times> u64) run" where
  "wait_scan pid matching [] s = Ok (matching, 0)"
| "wait_scan pid matching (c # cs) s =
     bindr (get_pcb c s) (\<lambda>p.
       if pid = - 1 \<or> sint (p_pid p) = pid then
         (if p_state p AND PCB_STATE_ZOMBIE \<noteq> 0 then Ok (True, c) else wait_scan pid True cs s)
       else wait_scan pid matching cs s)"

definition WNOHANG :: u32 where "WNOHANG = 1"

definition word_bytes32 :: "u32 \<Rightarrow> u8 list" where
  "word_bytes32 w = map (\<lambda>i. ucast (drop_bit (8 * i) w)) [0..<4]"

definition reap_child :: "u64 \<Rightarrow> u64 \<Rightarrow> 'a sched_scheme \<Rightarrow> (int \<times> 'a sched_scheme) run" where
  "reap_child zombie wstatus s =
     bindr (get_pcb zombie s) (\<lambda>z.
     bindr (if wstatus \<noteq> 0 then put_user_bytes (word_bytes32 (p_exit_code z)) wstatus s else Ok s) (\<lambda>s.
     bindr (reap_us_proc_threads zombie s) (\<lambda>s. Ok (sint (p_pid z), s))))"

text \<open>One turn of the loop: an answer, or the state in which the thread yields.\<close>

definition wait_turn :: "u64 \<Rightarrow> int \<Rightarrow> u64 \<Rightarrow> u32 \<Rightarrow> 'a sched_scheme \<Rightarrow> (int option \<times> 'a sched_scheme) run" where
  "wait_turn parent pid wstatus options s =
     bindr (sched_lock_acquire s) (\<lambda>(irq_flags, s).
     bindr (hlist_nodes parent (s_links s)) (\<lambda>cs.
     bindr (wait_scan pid False cs s) (\<lambda>(matching, zombie).
       let s = sched_lock_release irq_flags s
       in if zombie \<noteq> 0 then
            bindr (reap_child zombie wstatus s) (\<lambda>(v, s). Ok (Some v, s))
          else if \<not> matching then Ok (Some (- E_CHILD), s)
          else if options AND WNOHANG \<noteq> 0 then Ok (Some 0, s)
          else Ok (None, s))))"

partial_function (option) wait_loop ::
    "('a sched_scheme \<Rightarrow> 'a sched_scheme) \<Rightarrow> u64 \<Rightarrow> int \<Rightarrow> u64 \<Rightarrow> u32 \<Rightarrow> 'a sched_scheme \<Rightarrow> 'a sys option" where
  "wait_loop others parent pid wstatus options s =
     (case wait_turn parent pid wstatus options s of Stop c \<Rightarrow> Some (Stop c)
      | Ok (Some v, s) \<Rightarrow> Some (ret v s)
      | Ok (None, s) \<Rightarrow> wait_loop others parent pid wstatus options (others s))"

definition sys_wait4 :: "'a sys_env \<Rightarrow> u16 \<Rightarrow> u64 \<Rightarrow> u32 \<Rightarrow> 'a sched_scheme \<Rightarrow> 'a sys" where
  "sys_wait4 env pid wstatus options s =
     (let parent = current_process s; pid = sint pid
      in bindr (get_pcb parent s) (\<lambda>pp.
           if p_pid pp = 0 then ret (- E_CHILD) s
           else if pid = 0 \<or> pid < - 1 then ret (- E_INVAL) s
           else
             bindr (if pid > 0 then
                      (let (kind, obj) = id_lookup (nat pid) s
                       in if obj = 0 \<or> kind \<noteq> ID_PROC then Ok False
                          else bindr (get_pcb obj s) (\<lambda>c. Ok (p_parent c = parent)))
                    else Ok True) (\<lambda>child.
               if \<not> child then ret (- E_CHILD) s
               else case wait_loop (env_others env) parent pid wstatus options s of None \<Rightarrow> Stop Hang | Some r \<Rightarrow> r)))"

section \<open>Credentials\<close>

definition sys_getuid :: "'a sched_scheme \<Rightarrow> 'a sys" where
  "sys_getuid s = bindr (current s) (\<lambda>p. ret (sint (p_uid p)) s)"

definition sys_getgid :: "'a sched_scheme \<Rightarrow> 'a sys" where
  "sys_getgid s = bindr (current s) (\<lambda>p. ret (sint (p_gid p)) s)"

definition sys_setuid :: "u32 \<Rightarrow> 'a sched_scheme \<Rightarrow> 'a sys" where
  "sys_setuid uid s =
     bindr (current s) (\<lambda>p.
       if p_uid p \<noteq> 0 \<and> p_uid p \<noteq> uid then ret (- E_PERM) s
       else bindr (upd_pcb (current_process s) (\<lambda>p. p\<lparr>p_uid := uid\<rparr>) s) (ret 0))"

definition sys_setgid :: "u32 \<Rightarrow> 'a sched_scheme \<Rightarrow> 'a sys" where
  "sys_setgid gid s =
     bindr (current s) (\<lambda>p.
     bindr (if p_uid p \<noteq> 0 then groups_list_has gid (current_process s) s else Ok True) (\<lambda>may.
       if \<not> may then ret (- E_PERM) s
       else bindr (upd_pcb (current_process s) (\<lambda>p. p\<lparr>p_gid := gid\<rparr>) s) (ret 0)))"

text \<open>The size is in bytes, an \<open>int\<close> that is compared with a \<open>size_t\<close>.\<close>

definition sys_getgroups :: "u64 \<Rightarrow> u64 \<Rightarrow> 'a sched_scheme \<Rightarrow> 'a sys" where
  "sys_getgroups sz lst s =
     bindr (current s) (\<lambda>p.
       let grp_size = (scast (4 * p_ngroups p) :: u64);
           copy_size = (scast (ucast (if sz < grp_size then sz else grp_size) :: u32) :: u64)
       in bindr (if copy_size = 0 then Ok s
                 else
                   bindr (get_groups (p_groups p) s) (\<lambda>gs.
                     let bs = concat (map word_bytes32 gs)
                     in if unat copy_size > length bs then Stop OutOfBounds
                        else put_user_bytes (take (unat copy_size) bs) lst s)) (ret (sint (p_ngroups p))))"

primrec le_words32 :: "nat \<Rightarrow> u8 list \<Rightarrow> u32 list" where
  "le_words32 0 bs = []"
| "le_words32 (Suc n) bs = ucast (le_word (take 4 bs)) # le_words32 n (drop 4 bs)"

definition sys_setgroups :: "u64 \<Rightarrow> u64 \<Rightarrow> 'a sched_scheme \<Rightarrow> 'a sys" where
  "sys_setgroups sz lst s =
     bindr (current s) (\<lambda>p.
       if p_uid p \<noteq> 0 then ret (- E_PERM) s
       else
         bindr (kmalloc sz (Groups []) s) (\<lambda>(buff, s).
           if buff = 0 then ret (- E_NOMEM) s
           else
             bindr (get_user_bytes (unat sz) lst s) (\<lambda>bs.
             bindr (kfree (p_groups p) (put buff (Groups (le_words32 (unat (sz div 4)) bs)) s)) (\<lambda>s.
             bindr (upd_pcb (current_process s) (\<lambda>p. p\<lparr>p_groups := buff, p_ngroups := ucast (sz div 4)\<rparr>) s) (ret 0)))))"

section \<open>Names\<close>

definition pad65 :: "string \<Rightarrow> u8 list" where
  "pad65 cs = take 65 (bytes cs @ replicate 65 0)"

definition sys_uname :: "'a sys_env \<Rightarrow> u64 \<Rightarrow> 'a sched_scheme \<Rightarrow> 'a sys" where
  "sys_uname env ptr s =
     (if ptr = 0 then ret (- E_INVAL) s
      else
        bindr (put_user_bytes (pad65 ''CreeperKernel'' @ pad65 ''pc-unimpl'' @ pad65 ''0.0.0'' @ pad65 (env_version env) @
                 pad65 ''X86_64'') ptr s) (ret 0))"

definition sys_getcwd :: "u64 \<Rightarrow> u64 \<Rightarrow> 'a sched_scheme \<Rightarrow> 'a sys" where
  "sys_getcwd buf sz s =
     (if buf = 0 \<or> sz = 0 then ret (- E_INVAL) s
      else
        bindr (current s) (\<lambda>p.
          if cwd_i p = 0 then ret (- E_INVAL) s
          else
            bindr (get_inode (cwd_i p) s) (\<lambda>i.
            bindr (kpath_reverse (i_dentry i) s) (\<lambda>(pth, s).
              if pth = 0 then ret (- E_NOMEM) s
              else
                bindr (get_str pth s) (\<lambda>cs.
                  if length cs + 1 > unat sz then bindr (kfree pth s) (ret (- E_RANGE))
                  else
                    bindr (put_user_bytes (str_bytes cs) buf s) (\<lambda>s.
                    bindr (kfree pth s) (ret (sint buf))))))))"

section \<open>Paths\<close>

definition sys_mkdir :: "u64 \<Rightarrow> u32 \<Rightarrow> 'a sched_scheme \<Rightarrow> 'a sys" where
  "sys_mkdir pth mode s =
     (if pth = 0 then ret (- E_INVAL) s
      else
        bindr (path_strncpy pth s) (\<lambda>kpath.
        bindr (path_resolve_start kpath s) (\<lambda>start.
          if start = 0 then ret (- E_INVAL) s
          else bindr (kpath_mkdir start kpath (ucast mode) s) (\<lambda>(r, s). ret r s))))"

definition sys_mkdirat :: "u32 \<Rightarrow> u64 \<Rightarrow> u32 \<Rightarrow> 'a sched_scheme \<Rightarrow> 'a sys" where
  "sys_mkdirat dfd pth mode s =
     (if pth = 0 then ret (- E_INVAL) s
      else
        bindr (path_copy pth s) (\<lambda>kpath.
        bindr (resolve_at dfd kpath s) (\<lambda>start.
          if start = 0 then ret (- E_INVAL) s
          else bindr (kpath_mkdir start kpath (ucast mode) s) (\<lambda>(r, s). ret r s))))"

definition sys_create :: "u64 \<Rightarrow> u32 \<Rightarrow> 'a sched_scheme \<Rightarrow> 'a sys" where
  "sys_create pth mode s =
     (if pth = 0 then ret (- E_INVAL) s
      else
        bindr (path_strncpy pth s) (\<lambda>kpath.
        bindr (path_resolve_start kpath s) (\<lambda>start.
          if start = 0 then ret (- E_INVAL) s
          else bindr (kpath_create start kpath (ucast mode) False s) (\<lambda>(r, s). ret r s))))"

text \<open>Removal: the path is split, the operation gets the name, and both parts are given back.\<close>

definition remove_at :: "(u64 \<Rightarrow> string \<Rightarrow> u64 \<Rightarrow> 'a sched_scheme \<Rightarrow> (int \<times> 'a sched_scheme) run) \<Rightarrow> u64 \<Rightarrow> string \<Rightarrow> 'a sched_scheme \<Rightarrow> 'a sys" where
  "remove_at op start kpath s =
     bindr (split_path kpath s) (\<lambda>(err, parent_path, name, s).
       if err \<noteq> 0 then ret err s
       else
         bindr (get_str parent_path s) (\<lambda>parent.
         bindr (op start parent name s) (\<lambda>(r, s).
         bindr (kfree parent_path s) (\<lambda>s.
         bindr (kfree name s) (ret r)))))"

definition sys_rmdir :: "u64 \<Rightarrow> 'a sched_scheme \<Rightarrow> 'a sys" where
  "sys_rmdir pth s =
     (if pth = 0 then ret (- E_INVAL) s
      else
        bindr (path_copy pth s) (\<lambda>kpath.
        bindr (path_resolve_start kpath s) (\<lambda>start.
          if start = 0 then ret (- E_INVAL) s else remove_at kpath_rmdir start kpath s)))"

definition sys_unlink :: "u64 \<Rightarrow> 'a sched_scheme \<Rightarrow> 'a sys" where
  "sys_unlink pth s =
     (if pth = 0 then ret (- E_INVAL) s
      else
        bindr (path_copy pth s) (\<lambda>kpath.
        bindr (path_resolve_start kpath s) (\<lambda>start.
          if start = 0 then ret (- E_INVAL) s else remove_at path_unlink start kpath s)))"

definition sys_unlinkat :: "u32 \<Rightarrow> u64 \<Rightarrow> u32 \<Rightarrow> 'a sched_scheme \<Rightarrow> 'a sys" where
  "sys_unlinkat dfd pathname flag s =
     (if pathname = 0 then ret (- E_INVAL) s
      else
        bindr (path_copy pathname s) (\<lambda>kpath.
        bindr (resolve_at dfd kpath s) (\<lambda>start.
          if start = 0 then ret (- E_INVAL) s
          else remove_at (if flag AND AT_REMOVEDIR \<noteq> 0 then kpath_rmdir else path_unlink) start kpath s)))"

definition sys_chdir :: "u64 \<Rightarrow> 'a sched_scheme \<Rightarrow> 'a sys" where
  "sys_chdir pth s =
     (if pth = 0 then ret (- E_INVAL) s
      else
        bindr (path_copy pth s) (\<lambda>kpath.
        bindr (path_resolve_start kpath s) (\<lambda>start.
          if start = 0 then ret (- E_INVAL) s
          else
            bindr (kpath_lookup start kpath s) (\<lambda>(d, s).
              if d = 0 then ret (- E_NOENT) s
              else
                bindr (get_dentry d s) (\<lambda>dd.
                bindr (get_inode (d_inode dd) s) (\<lambda>i.
                  if \<not> S_ISDIR (i_mode i) then ret (- E_NOTDIR) s
                  else bindr (upd_pcb (current_process s) (\<lambda>p. p\<lparr>cwd_i := d_inode dd\<rparr>) s) (ret 0)))))))"

definition S_IRWXU :: u16 where "S_IRWXU = 0x1C0"
definition S_IRUSR :: u16 where "S_IRUSR = 0x100"
definition S_IWUSR :: u16 where "S_IWUSR = 0x80"
definition S_IXUSR :: u16 where "S_IXUSR = 0x40"
definition S_IRWXG :: u16 where "S_IRWXG = 0x38"
definition S_IXGRP :: u16 where "S_IXGRP = 0x8"
definition S_IRWXO :: u16 where "S_IRWXO = 0x7"
definition S_IXOTH :: u16 where "S_IXOTH = 0x1"
definition R_OK :: u32 where "R_OK = 4"
definition W_OK :: u32 where "W_OK = 2"
definition X_OK :: u32 where "X_OK = 1"

definition root_bits :: u16 where
  "root_bits = S_IRUSR OR S_IWUSR OR S_IXUSR OR S_IXGRP OR S_IXOTH"

definition perm_bits :: "u32 \<Rightarrow> u32 \<Rightarrow> inode \<Rightarrow> u16" where
  "perm_bits uid gid i =
     (if uid = i_uid i then i_mode i AND S_IRWXU
      else if gid = i_gid i then push_bit 3 (i_mode i AND S_IRWXG)
      else push_bit 6 (i_mode i AND S_IRWXO))"

definition access_check :: "u16 \<Rightarrow> u32 \<Rightarrow> int" where
  "access_check bits mode =
     (if mode AND R_OK \<noteq> 0 \<and> bits AND S_IRUSR = 0 then - E_ACCES
      else if mode AND W_OK \<noteq> 0 \<and> bits AND S_IWUSR = 0 then - E_ACCES
      else if mode AND X_OK \<noteq> 0 \<and> bits AND S_IXUSR = 0 then - E_ACCES
      else 0)"

definition sys_access :: "u64 \<Rightarrow> u32 \<Rightarrow> 'a sched_scheme \<Rightarrow> 'a sys" where
  "sys_access pth mode s =
     (if pth = 0 then ret (- E_INVAL) s
      else
        bindr (path_copy pth s) (\<lambda>kpath.
        bindr (path_resolve_start kpath s) (\<lambda>start.
          if start = 0 then ret (- E_INVAL) s
          else
            bindr (kpath_lookup start kpath s) (\<lambda>(d, s).
              if d = 0 then ret (- E_NOENT) s
              else
                bindr (get_dentry d s) (\<lambda>dd.
                  if mode = 0 then ret 0 s
                  else
                    bindr (current s) (\<lambda>p.
                    bindr (if p_uid p = 0 then Ok root_bits
                           else bindr (get_inode (d_inode dd) s) (\<lambda>i. Ok (perm_bits (p_uid p) (p_gid p) i))) (\<lambda>bits.
                      ret (access_check bits mode) s)))))))"

section \<open>Time and threads\<close>

definition ARCH_PRCTL_SET_FS :: u32 where "ARCH_PRCTL_SET_FS = 0x1002"

definition sys_arch_prctl :: "u32 \<Rightarrow> u64 \<Rightarrow> 'a sched_scheme \<Rightarrow> 'a sys" where
  "sys_arch_prctl code addr s =
     (if code = ARCH_PRCTL_SET_FS then ret 0 (wrmsr MSR_FS_BASE addr s) else ret (- E_INVAL) s)"

definition CLOCK_REALTIME :: u32 where "CLOCK_REALTIME = 0"
definition CLOCK_MONOTONIC :: u32 where "CLOCK_MONOTONIC = 1"
definition CLOCK_MONOTONIC_RAW :: u32 where "CLOCK_MONOTONIC_RAW = 4"
definition CLOCK_REALTIME_COARSE :: u32 where "CLOCK_REALTIME_COARSE = 5"
definition CLOCK_MONOTONIC_COARSE :: u32 where "CLOCK_MONOTONIC_COARSE = 6"
definition CLOCK_BOOTTIME :: u32 where "CLOCK_BOOTTIME = 7"

definition sys_clock_gettime :: "u32 \<Rightarrow> u64 \<Rightarrow> 'a sched_scheme \<Rightarrow> 'a sys" where
  "sys_clock_gettime which_clock tim_sp s =
     (if which_clock \<in> {CLOCK_BOOTTIME, CLOCK_MONOTONIC, CLOCK_MONOTONIC_COARSE, CLOCK_MONOTONIC_RAW} then
        bindr (timer_get_us s) (\<lambda>(us, s).
        bindr (put_user_bytes (word_bytes (us div 1000000) @ word_bytes (us mod 1000000 * 1000)) tim_sp s) (ret 0))
      else if which_clock \<in> {CLOCK_REALTIME, CLOCK_REALTIME_COARSE} then
        bindr (get_unixtime s) (\<lambda>(sec, s).
        bindr (put_user_bytes (word_bytes sec @ word_bytes 0) tim_sp s) (ret 0))
      else ret (- E_INVAL) s)"

section \<open>Dispatch\<close>

definition SYS_READ :: u64 where "SYS_READ = 0"
definition SYS_WRITE :: u64 where "SYS_WRITE = 1"
definition SYS_OPEN :: u64 where "SYS_OPEN = 2"
definition SYS_CLOSE :: u64 where "SYS_CLOSE = 3"
definition SYS_LSEEK :: u64 where "SYS_LSEEK = 8"
definition SYS_MPROTECT :: u64 where "SYS_MPROTECT = 10"
definition SYS_MUNMAP :: u64 where "SYS_MUNMAP = 11"
definition SYS_BRK :: u64 where "SYS_BRK = 12"
definition SYS_ACCESS :: u64 where "SYS_ACCESS = 21"
definition SYS_SCHED_YIELD :: u64 where "SYS_SCHED_YIELD = 24"
definition SYS_DUP :: u64 where "SYS_DUP = 32"
definition SYS_DUP2 :: u64 where "SYS_DUP2 = 33"
definition SYS_GETPID :: u64 where "SYS_GETPID = 39"
definition SYS_FORK :: u64 where "SYS_FORK = 57"
definition SYS_EXECVE :: u64 where "SYS_EXECVE = 59"
definition SYS_EXIT :: u64 where "SYS_EXIT = 60"
definition SYS_WAIT4 :: u64 where "SYS_WAIT4 = 61"
definition SYS_UNAME :: u64 where "SYS_UNAME = 63"
definition SYS_GETCWD :: u64 where "SYS_GETCWD = 79"
definition SYS_CHDIR :: u64 where "SYS_CHDIR = 80"
definition SYS_MKDIR :: u64 where "SYS_MKDIR = 83"
definition SYS_RMDIR :: u64 where "SYS_RMDIR = 84"
definition SYS_CREATE :: u64 where "SYS_CREATE = 85"
definition SYS_UNLINK :: u64 where "SYS_UNLINK = 87"
definition SYS_GETUID :: u64 where "SYS_GETUID = 102"
definition SYS_GETGID :: u64 where "SYS_GETGID = 104"
definition SYS_SETUID :: u64 where "SYS_SETUID = 105"
definition SYS_SETGID :: u64 where "SYS_SETGID = 106"
definition SYS_GETGROUPS :: u64 where "SYS_GETGROUPS = 115"
definition SYS_SETGROUPS :: u64 where "SYS_SETGROUPS = 116"
definition SYS_ARCH_PRCTL :: u64 where "SYS_ARCH_PRCTL = 158"
definition SYS_GETTID :: u64 where "SYS_GETTID = 186"
definition SYS_GETDENTS64 :: u64 where "SYS_GETDENTS64 = 217"
definition SYS_CLOCK_GETTIME :: u64 where "SYS_CLOCK_GETTIME = 228"
definition SYS_OPENAT :: u64 where "SYS_OPENAT = 257"
definition SYS_MKDIRAT :: u64 where "SYS_MKDIRAT = 258"
definition SYS_UNLINKAT :: u64 where "SYS_UNLINKAT = 263"

text \<open>
  An argument register is cut to the type of its parameter. The number for \<open>setgroups\<close>
  leads to \<open>sys_getgroups\<close>.
\<close>

definition syscall_handler ::
  "'a sys_env \<Rightarrow> u64 \<Rightarrow> u64 \<Rightarrow> u64 \<Rightarrow> u64 \<Rightarrow> u64 \<Rightarrow> u64 \<Rightarrow> 'a sched_scheme \<Rightarrow> 'a sys" where
  "syscall_handler env rax rdi rsi rdx r10 rsp s =
     (if rax = SYS_READ then sys_read env (ucast rdi) rsi rdx s
      else if rax = SYS_WRITE then sys_write (ucast rdi) rsi rdx s
      else if rax = SYS_OPEN then sys_open rdi (ucast rsi) (ucast rdx) s
      else if rax = SYS_CLOSE then sys_close (ucast rdi) s
      else if rax = SYS_LSEEK then sys_lseek (ucast rdi) rsi (ucast rdx) s
      else if rax = SYS_MPROTECT then sys_mprotect rdi rsi rdx s
      else if rax = SYS_MUNMAP then sys_munmap env rdi rsi s
      else if rax = SYS_BRK then sys_brk rdi s
      else if rax = SYS_ACCESS then sys_access rdi (ucast rsi) s
      else if rax = SYS_SCHED_YIELD then yield_core rsp s
      else if rax = SYS_DUP then sys_dup (ucast rdi) s
      else if rax = SYS_DUP2 then sys_dup2 (ucast rdi) (ucast rsi) s
      else if rax = SYS_GETPID then sys_getpid s
      else if rax = SYS_FORK then sys_fork rsp s
      else if rax = SYS_EXECVE then sys_execve env rdi rsi rdx rsp s
      else if rax = SYS_EXIT then sys_exit (ucast rdi) rsp s
      else if rax = SYS_WAIT4 then sys_wait4 env (ucast rdi) rsi (ucast rdx) s
      else if rax = SYS_UNAME then sys_uname env rdi s
      else if rax = SYS_GETCWD then sys_getcwd rdi rsi s
      else if rax = SYS_CHDIR then sys_chdir rdi s
      else if rax = SYS_MKDIR then sys_mkdir rdi (ucast rsi) s
      else if rax = SYS_RMDIR then sys_rmdir rdi s
      else if rax = SYS_CREATE then sys_create rdi (ucast rsi) s
      else if rax = SYS_UNLINK then sys_unlink rdi s
      else if rax = SYS_GETUID then sys_getuid s
      else if rax = SYS_GETGID then sys_getgid s
      else if rax = SYS_SETUID then sys_setuid (ucast rdi) s
      else if rax = SYS_SETGID then sys_setgid (ucast rdi) s
      else if rax = SYS_GETGROUPS then sys_getgroups rdi rsi s
      else if rax = SYS_SETGROUPS then sys_getgroups rdi rsi s
      else if rax = SYS_ARCH_PRCTL then sys_arch_prctl (ucast rdi) rsi s
      else if rax = SYS_GETTID then sys_gettid s
      else if rax = SYS_GETDENTS64 then sys_getdents64 (ucast rdi) rsi rdx s
      else if rax = SYS_CLOCK_GETTIME then sys_clock_gettime (ucast rdi) rsi s
      else if rax = SYS_OPENAT then sys_openat (ucast rdi) rsi (ucast rdx) (ucast r10) s
      else if rax = SYS_MKDIRAT then sys_mkdirat (ucast rdi) rsi (ucast rdx) s
      else if rax = SYS_UNLINKAT then sys_unlinkat (ucast rdi) rsi (ucast rdx) s
      else ret (- E_INVAL) s)"

end
