(* ===== verification/Syscall_Spec.thy ===== *)
theory Syscall_Spec
  imports Syscall Sched_Spec
begin

text \<open>
  Properties of the system calls: the descriptor table of a process as an array, and
  through it \<open>dup\<close>, \<open>close\<close> and the loop of \<open>execve\<close>; the permission check of \<open>access\<close>;
  \<open>mprotect\<close>, whose loop stops before it starts; and the growth of the heap by \<open>brk\<close>.
\<close>

section \<open>The descriptor table as an array\<close>

text \<open>What the calls need of the table: every slot can be read and written, and a write changes that slot only.\<close>

locale fd_table =
  fixes ok :: "'s \<Rightarrow> bool" and n :: nat and get :: "nat \<Rightarrow> 's \<Rightarrow> 'f run" and put :: "nat \<Rightarrow> 'f \<Rightarrow> 's \<Rightarrow> 's run"
  assumes get_ok: "ok s \<Longrightarrow> i < n \<Longrightarrow> \<exists>f. get i s = Ok f"
    and put_ok: "ok s \<Longrightarrow> i < n \<Longrightarrow> \<exists>t. put i f s = Ok t \<and> ok t \<and> (\<forall>j < n. get j t = (if j = i then Ok f else get j s))"
begin

lemma put_put:
  assumes "ok s" "i < n"
  shows "\<exists>t. bindr (put i f s) (put i g) = Ok t \<and> ok t \<and> (\<forall>j < n. get j t = (if j = i then Ok g else get j s))"
proof -
  obtain u where u: "put i f s = Ok u" "ok u" "\<And>j. j < n \<Longrightarrow> get j u = (if j = i then Ok f else get j s)"
    using put_ok [OF assms] by blast
  obtain t where "put i g u = Ok t" "ok t" "\<And>j. j < n \<Longrightarrow> get j t = (if j = i then Ok g else get j u)"
    using put_ok [OF u(2) assms(2)] by blast
  then show ?thesis using u by (intro exI [of _ t]) simp
qed

lemma rewrite_loop:
  assumes "distinct is" "set is \<subseteq> {..<n}" "ok s"
    and "\<And>i s. ok s \<Longrightarrow> i < n \<Longrightarrow> \<exists>t. step i s = Ok t \<and> ok t \<and>
           (\<forall>j < n. get j t = (if j = i then bindr (get i s) (\<lambda>f. Ok (h f)) else get j s))"
  shows "\<exists>t. foreach step is s = Ok t \<and> ok t \<and>
    (\<forall>j < n. get j t = (if j \<in> set is then bindr (get j s) (\<lambda>f. Ok (h f)) else get j s))"
  using assms(1-3)
proof (induction "is" arbitrary: s)
  case (Cons i "is")
  then obtain u where u: "step i s = Ok u" "ok u" "\<And>j. j < n \<Longrightarrow> get j u = (if j = i then bindr (get i s) (\<lambda>f. Ok (h f)) else get j s)"
    using assms(4) [of s i] by auto
  obtain t where "foreach step is u = Ok t" "ok t"
      "\<And>j. j < n \<Longrightarrow> get j t = (if j \<in> set is then bindr (get j u) (\<lambda>f. Ok (h f)) else get j u)"
    using Cons.IH [OF _ _ u(2)] Cons.prems by auto
  then show ?case using u Cons.prems by (intro exI [of _ t]) auto
qed simp

end

text \<open>The 256 slots of a table lie in mapped memory, each in a place of its own.\<close>

definition slots_ok :: "u64 \<Rightarrow> 'a sched_scheme \<Rightarrow> bool" where
  "slots_ok table s \<longleftrightarrow> (\<forall>i < 256. \<exists>x. file_slot table i s = Ok x) \<and>
     (\<forall>i < 256. \<forall>j < 256. file_slot table i s = file_slot table j s \<longrightarrow> i = j)"

lemma file_slot_cong:
  "phys_mem t = phys_mem s \<Longrightarrow> cr3 t = cr3 s \<Longrightarrow> (\<And>fr. length (ftab t fr) = length (ftab s fr)) \<Longrightarrow>
     file_slot table i t = file_slot table i s"
  by (simp add: file_slot_def Let_def)

lemma file_slot_inside: "file_slot table i s = Ok (fr, k) \<Longrightarrow> k < length (ftab s fr)"
  by (auto simp: file_slot_def Let_def split: if_splits)

lemma set_file_result:
  assumes "slots_ok table s" "i < 256"
  shows "\<exists>ft. set_file table i f s = Ok (s\<lparr>ftab := ft\<rparr>) \<and> slots_ok table (s\<lparr>ftab := ft\<rparr>) \<and>
    (\<forall>j < 256. get_file table j (s\<lparr>ftab := ft\<rparr>) = (if j = i then Ok f else get_file table j s))"
proof -
  obtain fr k where x: "file_slot table i s = Ok (fr, k)" using assms by (auto simp: slots_ok_def)
  define ft where "ft = (ftab s)(fr := (ftab s fr)[k := f])"
  have slot: "file_slot table j (s\<lparr>ftab := ft\<rparr>) = file_slot table j s" for j
    by (rule file_slot_cong) (simp_all add: ft_def)
  have "get_file table j (s\<lparr>ftab := ft\<rparr>) = (if j = i then Ok f else get_file table j s)" if "j < 256" for j
  proof -
    obtain fr' k' where y: "file_slot table j s = Ok (fr', k')" using assms(1) \<open>j < 256\<close> by (auto simp: slots_ok_def)
    have "file_slot table j s = file_slot table i s \<longrightarrow> j = i" using assms \<open>j < 256\<close> by (simp add: slots_ok_def)
    then have "(fr', k') = (fr, k) \<Longrightarrow> j = i" by (simp add: x y)
    then show ?thesis using x y file_slot_inside [OF x] unfolding get_file_def slot by (auto simp: ft_def nth_list_update)
  qed
  moreover have "set_file table i f s = Ok (s\<lparr>ftab := ft\<rparr>)" by (simp add: set_file_def x ft_def)
  moreover have "slots_ok table (s\<lparr>ftab := ft\<rparr>)" using assms(1) by (simp add: slots_ok_def slot)
  ultimately show ?thesis by blast
qed

interpretation fds: fd_table "slots_ok table" 256 "get_file table" "set_file table" for table
proof
  fix s :: "'a sched_scheme" and i :: nat and f
  assume "slots_ok table s" "i < 256"
  then show "\<exists>f. get_file table i s = Ok f" by (auto simp: slots_ok_def get_file_def)
  show "\<exists>t. set_file table i f s = Ok t \<and> slots_ok table t \<and>
      (\<forall>j < 256. get_file table j t = (if j = i then Ok f else get_file table j s))"
    using set_file_result [OF \<open>slots_ok table s\<close> \<open>i < 256\<close>, of f] by blast
qed

section \<open>Replacing the program\<close>

lemma move_file_same:
  assumes "slots_ok table s" "i < 256"
  shows "\<exists>t. move_file table table i s = Ok t \<and> slots_ok table t \<and>
    (\<forall>j < 256. get_file table j t =
       (if j = i then bindr (get_file table i s) (\<lambda>f. Ok (if f_inode f = 0 then f else empty_file)) else get_file table j s))"
proof -
  obtain f where f: "get_file table i s = Ok f" using fds.get_ok [OF assms] by blast
  show ?thesis
    using fds.put_put [OF assms, of f empty_file] assms(1) by (cases "f_inode f = 0") (auto simp: move_file_def f)
qed

text \<open>
  C39. The loop of \<open>execve\<close> that hands the descriptors to the new process works on one and
  the same table, because both pointers are the same virtual address in the address space
  of the caller: it always ends, and leaves a table in which no descriptor is open.
\<close>

theorem execve_wipes_descriptors:
  assumes "slots_ok table s"
  shows "\<exists>t. foreach (move_file table table) [0..<256] s = Ok t \<and> slots_ok table t \<and>
    (\<forall>i < 256. \<exists>f. get_file table i t = Ok f \<and> f_inode f = 0)"
proof -
  obtain t where t: "foreach (move_file table table) [0..<256] s = Ok t" "slots_ok table t"
      "\<And>i. i < 256 \<Longrightarrow> get_file table i t = bindr (get_file table i s) (\<lambda>f. Ok (if f_inode f = 0 then f else empty_file))"
    using fds.rewrite_loop [OF _ _ assms move_file_same, of "[0..<256]"] by (auto simp: atLeast0LessThan)
  have "\<exists>f. get_file table i t = Ok f \<and> f_inode f = 0" if "i < 256" for i
    using fds.get_ok [OF assms that] t(3) [OF that] by (auto simp: empty_file_def)
  then show ?thesis using t by blast
qed

section \<open>Descriptors\<close>

definition is_free :: "u64 \<Rightarrow> 'a sched_scheme \<Rightarrow> nat \<Rightarrow> bool" where
  "is_free table s i = (case get_file table i s of Ok f \<Rightarrow> f_inode f = 0 | Stop e \<Rightarrow> False)"

lemma free_fd_find:
  assumes "slots_ok table s" "set is \<subseteq> {..<256}"
  shows "free_fd table is s = Ok (find (is_free table s) is)"
  using assms(2)
proof (induction "is")
  case (Cons i "is")
  then obtain f where "get_file table i s = Ok f" using fds.get_ok [OF assms(1), of i] by auto
  then show ?case using Cons by (simp add: is_free_def)
qed simp

lemma small_fd:
  fixes fd :: u32
  assumes "unat fd < 256"
  shows "\<not> fd_too_large fd" "\<not> sint fd < 0" "sint fd = int (unat fd)"
proof -
  show s: "sint fd = int (unat fd)" using sint_small [of "unat fd"] assms by simp
  then have "(scast fd :: u64) = of_nat (unat fd)" by (metis of_int_of_nat_eq scast_eq)
  moreover have "unat (of_nat (unat fd) :: u64) = unat fd" using assms by (intro unat_of_nat_u64) simp
  ultimately have "unat (scast fd :: u64) = unat fd" by (simp only:)
  then show "\<not> fd_too_large fd" using assms
    by (simp only: fd_too_large_def) (simp add: DEFAULT_FILE_TABLE_ENTRIES_def DEFAULT_FILE_TABLE_PAGES_def FILES_PER_PAGE_def)
  show "\<not> sint fd < 0" using s by simp
qed

lemma inode_count_result:
  assumes "get_inode ip s = Ok i"
  shows "inode_count ip g s = Ok (put ip (Inode (i\<lparr>i_count := g (i_count i)\<rparr>)) s)"
  by (simp add: inode_count_def upd_inode_def assms)

lemma put_inode_frame:
  fixes s :: "'a sched_scheme"
  assumes "get_inode ip s = Ok i"
  shows "get_inode x (put ip (Inode i') s) = (if x = ip then Ok i' else get_inode x s)"
    and "current (put ip (Inode i') s) = current s" and "get_file table j (put ip (Inode i') s) = get_file table j s"
    and "slots_ok table (put ip (Inode i') s) = slots_ok table s"
proof -
  obtain k where k: "objs s ip = Some (k, Inode i)" using assms by (auto simp: get_inode_Ok)
  show "get_inode x (put ip (Inode i') s) = (if x = ip then Ok i' else get_inode x s)"
    "current (put ip (Inode i') s) = current s"
    by (simp_all add: get_inode_def current_def get_pcb_def put_def k)
  have slot: "file_slot table j (put ip (Inode i') s) = file_slot table j s" for j
    by (rule file_slot_cong) (simp_all add: put_def)
  show "get_file table j (put ip (Inode i') s) = get_file table j s"
    unfolding get_file_def slot by (simp add: put_def)
  show "slots_ok table (put ip (Inode i') s) = slots_ok table s" by (simp add: slots_ok_def slot)
qed

lemma ftab_frame:
  "get_inode x (s\<lparr>ftab := ft\<rparr>) = get_inode x s" "current (s\<lparr>ftab := ft\<rparr>) = current s"
  by (simp_all add: get_inode_def current_def get_pcb_def)

lemma sys_dup_cases:
  assumes "slots_ok table s" "current s = Ok p" "opened_file_table p = table" "table \<noteq> 0" "unat fd < 256"
    and "get_file table (unat fd) s = Ok f" "f_inode f \<noteq> 0" "get_inode (f_inode f) s = Ok ino"
  obtains
    (full) "\<And>j. j < 256 \<Longrightarrow> \<not> is_free table s j" "sys_dup fd s = Ok (Value (- E_MFILE), s)"
  | (copied) n t where "n < 256" "is_free table s n" "\<And>j. j < n \<Longrightarrow> \<not> is_free table s j" "sys_dup fd s = Ok (Value (int n), t)"
      "slots_ok table t" "current t = Ok p"
      "\<And>j. j < 256 \<Longrightarrow> get_file table j t = (if j = n then Ok f else get_file table j s)"
      "\<And>x. get_inode x t = (if x = f_inode f then Ok (ino\<lparr>i_count := i_count ino + 1\<rparr>) else get_inode x s)"
proof -
  let ?find = "find (is_free table s) [0..<256]"
  have entries: "DEFAULT_FILE_TABLE_ENTRIES = 256"
    by (simp add: DEFAULT_FILE_TABLE_ENTRIES_def DEFAULT_FILE_TABLE_PAGES_def FILES_PER_PAGE_def)
  have free: "free_fd table [0..<256] s = Ok ?find" by (rule free_fd_find [OF assms(1)]) auto
  note unfold = sys_dup_def assms(2-4,6,7) small_fd [OF assms(5)] entries free
  show thesis
  proof (cases ?find)
    case None
    then have "\<not> is_free table s j" if "j < 256" for j using that by (simp add: find_None_iff)
    moreover have "sys_dup fd s = Ok (Value (- E_MFILE), s)" by (simp add: unfold None ret_def)
    ultimately show thesis by (rule full)
  next
    case (Some n)
    then have n: "n < 256" "is_free table s n" "\<And>j. j < n \<Longrightarrow> \<not> is_free table s j" by (auto simp: find_Some_iff)
    obtain ft where ft: "set_file table n f s = Ok (s\<lparr>ftab := ft\<rparr>)" "slots_ok table (s\<lparr>ftab := ft\<rparr>)"
        "\<And>j. j < 256 \<Longrightarrow> get_file table j (s\<lparr>ftab := ft\<rparr>) = (if j = n then Ok f else get_file table j s)"
      using set_file_result [OF assms(1) n(1), of f] by blast
    let ?s = "s\<lparr>ftab := ft\<rparr>" and ?i = "ino\<lparr>i_count := i_count ino + 1\<rparr>"
    have ino: "get_inode (f_inode f) ?s = Ok ino" using assms(8) by (simp add: ftab_frame)
    show thesis
    proof (rule copied [OF n, of "put (f_inode f) (Inode ?i) ?s"])
      show "sys_dup fd s = Ok (Value (int n), put (f_inode f) (Inode ?i) ?s)"
        by (simp add: unfold Some ft(1) inode_count_result [OF ino] ret_def)
    qed (use ft assms(2) in \<open>simp_all add: put_inode_frame [OF ino] ftab_frame\<close>)
  qed
qed

text \<open>
  C12. \<open>sys_dup\<close> of an open descriptor gives the lowest free one: the slot becomes a copy of
  the old one, no other slot changes and the inode gains one reference. When no slot is
  free the call fails with \<open>-E_MFILE\<close> and changes nothing.
\<close>

theorem sys_dup_lowest_free:
  assumes "slots_ok table s" "current s = Ok p" "opened_file_table p = table" "table \<noteq> 0" "unat fd < 256"
    and "get_file table (unat fd) s = Ok f" "f_inode f \<noteq> 0" "get_inode (f_inode f) s = Ok ino"
  shows "(\<exists>n t. n < 256 \<and> is_free table s n \<and> (\<forall>j < n. \<not> is_free table s j) \<and> sys_dup fd s = Ok (Value (int n), t) \<and>
            (\<forall>j < 256. get_file table j t = (if j = n then Ok f else get_file table j s)) \<and>
            get_inode (f_inode f) t = Ok (ino\<lparr>i_count := i_count ino + 1\<rparr>)) \<or>
         (\<forall>j < 256. \<not> is_free table s j) \<and> sys_dup fd s = Ok (Value (- E_MFILE), s)"
proof (rule sys_dup_cases [OF assms])
  fix n t
  assume "n < 256" "is_free table s n" "\<And>j. j < n \<Longrightarrow> \<not> is_free table s j" "sys_dup fd s = Ok (Value (int n), t)"
    "\<And>j. j < 256 \<Longrightarrow> get_file table j t = (if j = n then Ok f else get_file table j s)"
    "\<And>x. get_inode x t = (if x = f_inode f then Ok (ino\<lparr>i_count := i_count ino + 1\<rparr>) else get_inode x s)"
  then show ?thesis by (intro disjI1 exI [of _ n] exI [of _ t]) simp
qed simp

section \<open>Closing\<close>

definition closed_file :: "file_t \<Rightarrow> file_t" where
  "closed_file f = f\<lparr>f_inode := 0, f_ops := NoFops, f_pos := 0, f_flags := 0, private_data := 0\<rparr>"

lemma sys_close_result:
  assumes "slots_ok table s" "current s = Ok p" "opened_file_table p = table" "table \<noteq> 0" "unat fd < 256"
    and "get_file table (unat fd) s = Ok f" "f_inode f \<noteq> 0" "get_inode (f_inode f) s = Ok ino"
  shows "\<exists>t. sys_close fd s = Ok (Value 0, t) \<and> slots_ok table t \<and>
    (\<forall>j < 256. get_file table j t = (if j = unat fd then Ok (closed_file f) else get_file table j s)) \<and>
    (\<forall>x. get_inode x t = (if x = f_inode f then Ok (ino\<lparr>i_count := i_count ino - 1\<rparr>) else get_inode x s))"
proof -
  let ?s = "put (f_inode f) (Inode (ino\<lparr>i_count := i_count ino - 1\<rparr>)) s"
  note frame = put_inode_frame [OF assms(8)]
  obtain f' where rel: "(if f_ops f = NoFops then Ok (0, f) else call_release (f_ops f) (f_inode f) f) = Ok (0, f')"
      "f_inode f' = f_inode f" "closed_file f' = closed_file f"
    by (cases "f_ops f") (auto simp: call_release_def ramfile_release_def devfs_release_def closed_file_def)
  have ok: "slots_ok table ?s" using assms(1) by (simp add: frame)
  obtain ft where ft: "set_file table (unat fd) (closed_file f) ?s = Ok (?s\<lparr>ftab := ft\<rparr>)" "slots_ok table (?s\<lparr>ftab := ft\<rparr>)"
      "\<And>j. j < 256 \<Longrightarrow> get_file table j (?s\<lparr>ftab := ft\<rparr>) = (if j = unat fd then Ok (closed_file f) else get_file table j ?s)"
    using set_file_result [OF ok assms(5), of "closed_file f"] by blast
  have "set_file table (unat fd) (f'\<lparr>f_inode := 0, f_ops := NoFops, f_pos := 0, f_flags := 0, private_data := 0\<rparr>) ?s = Ok (?s\<lparr>ftab := ft\<rparr>)"
    using ft(1) rel(3) by (simp only: closed_file_def)
  then have "sys_close fd s = Ok (Value 0, ?s\<lparr>ftab := ft\<rparr>)"
    using rel(1,2) assms(7) by (simp add: sys_close_def assms(2-4,6) small_fd [OF assms(5)] inode_count_result [OF assms(8)] ret_def)
  then show ?thesis using ft(2,3) by (intro exI [of _ "?s\<lparr>ftab := ft\<rparr>"]) (simp add: ftab_frame frame)
qed

text \<open>
  C32. Closing the descriptor that \<open>sys_dup\<close> gave succeeds and undoes it: every open descriptor
  has the file it had before and every inode its old reference count.
\<close>

theorem dup_close_roundtrip:
  assumes "slots_ok table s" "current s = Ok p" "opened_file_table p = table" "table \<noteq> 0" "unat fd < 256"
    and "get_file table (unat fd) s = Ok f" "f_inode f \<noteq> 0" "get_inode (f_inode f) s = Ok ino"
    and "sys_dup fd s = Ok (Value n, t)" "0 \<le> n"
  shows "\<exists>u. sys_close (of_int n) t = Ok (Value 0, u) \<and> (\<forall>j < 256. is_free table u j = is_free table s j) \<and>
    (\<forall>j < 256. \<not> is_free table s j \<longrightarrow> get_file table j u = get_file table j s) \<and> (\<forall>x. get_inode x u = get_inode x s)"
  using assms(1-8)
proof (cases rule: sys_dup_cases)
  case full
  then show ?thesis using assms(9,10) by simp
next
  case (copied k t')
  have eq: "n = int k" "t' = t" using copied(4) assms(9) by simp_all
  have fd: "unat (of_int n :: u32) = k" using copied(1) by (simp add: eq unat_of_nat)
  have get: "get_file table (unat (of_int n :: u32)) t = Ok f" unfolding fd using copied(1,7) by (simp add: eq(2))
  have ino: "get_inode (f_inode f) t = Ok (ino\<lparr>i_count := i_count ino + 1\<rparr>)" using copied(8) by (simp add: eq)
  obtain u where u: "sys_close (of_int n) t = Ok (Value 0, u)"
      "\<And>j. j < 256 \<Longrightarrow> get_file table j u = (if j = k then Ok (closed_file f) else get_file table j t)"
      "\<And>x. get_inode x u = (if x = f_inode f then Ok ino else get_inode x t)"
    using sys_close_result [OF copied(5) [unfolded eq] copied(6) [unfolded eq] assms(3,4) _ get assms(7) ino] copied(1)
    unfolding fd by auto
  have "get_inode x u = get_inode x s" for x using u(3) copied(8) assms(8) by (simp add: eq)
  moreover have "get_file table j u = (if j = k then Ok (closed_file f) else get_file table j s)" if "j < 256" for j
    using u(2) copied(7) that by (simp add: eq)
  ultimately show ?thesis using u(1) copied(2) by (intro exI [of _ u]) (auto simp: is_free_def closed_file_def)
qed

section \<open>Permissions\<close>

text \<open>The rule: the bits of the first class the caller belongs to decide, each right asked for on its own.\<close>

definition access_class :: "u32 \<Rightarrow> u32 \<Rightarrow> inode \<Rightarrow> nat" where
  "access_class uid gid i = (if uid = i_uid i then 6 else if gid = i_gid i then 3 else 0)"

definition access_granted :: "u32 \<Rightarrow> u32 \<Rightarrow> inode \<Rightarrow> u32 \<Rightarrow> bool" where
  "access_granted uid gid i mode \<longleftrightarrow>
     list_all (\<lambda>b. bit mode b \<longrightarrow> bit (i_mode i) (access_class uid gid i + b)) [0, 1, 2]"

lemma access_masks:
  "mode AND R_OK = 0 \<longleftrightarrow> \<not> bit mode 2" "mode AND W_OK = 0 \<longleftrightarrow> \<not> bit mode 1" "mode AND X_OK = 0 \<longleftrightarrow> \<not> bit mode 0"
  "bits AND S_IRUSR = 0 \<longleftrightarrow> \<not> bit bits 8" "bits AND S_IWUSR = 0 \<longleftrightarrow> \<not> bit bits 7" "bits AND S_IXUSR = 0 \<longleftrightarrow> \<not> bit bits 6"
  using and_exp_eq_0_iff_not_bit [of mode 2] and_exp_eq_0_iff_not_bit [of mode 1] and_exp_eq_0_iff_not_bit [of mode 0] and_exp_eq_0_iff_not_bit [of bits 8] and_exp_eq_0_iff_not_bit [of bits 7] and_exp_eq_0_iff_not_bit [of bits 6]
  by (simp_all add: R_OK_def W_OK_def X_OK_def S_IRUSR_def S_IWUSR_def S_IXUSR_def)

lemma perm_bits_class:
  "b < 3 \<Longrightarrow> bit (perm_bits uid gid i) (6 + b) \<longleftrightarrow> bit (i_mode i) (access_class uid gid i + b)"
proof -
  assume "b < 3"
  then have b: "b = 0 \<or> b = 1 \<or> b = 2" by auto
  have "bit (i_mode i AND S_IRWXU) (6 + b) \<longleftrightarrow> bit (i_mode i) (6 + b)"
    "bit (i_mode i AND S_IRWXG) (3 + b) \<longleftrightarrow> bit (i_mode i) (3 + b)" "bit (i_mode i AND S_IRWXO) b \<longleftrightarrow> bit (i_mode i) b"
    using b by (auto simp: S_IRWXU_def S_IRWXG_def S_IRWXO_def bit_and_iff bit_numeral_rec)
  moreover have "bit (push_bit 3 w) (6 + b) \<longleftrightarrow> bit w (3 + b)" "bit (push_bit 6 w) (6 + b) \<longleftrightarrow> bit w b" for w :: u16
    unfolding bit_push_bit_iff using b by auto
  ultimately show ?thesis by (simp only: perm_bits_def access_class_def split: if_split) simp
qed


section \<open>Protection\<close>

lemma page_down: "w AND NOT 0xFFF = page_addr (unat w div 4096)"
proof -
  have mask: "(0xFFF :: u64) = mask 12" by (simp add: mask_eq_exp_minus_1)
  have "w AND NOT 0xFFF = push_bit 12 (drop_bit 12 w)"
    unfolding mask by (rule bit_word_eqI) (auto simp: bit_simps)
  also have "drop_bit 12 w = of_nat (unat (drop_bit 12 w))" by (simp only: of_nat_unat ucast_id)
  also have "unat (drop_bit 12 w) = unat w div 4096" unfolding unat_drop_bit_eq by (simp add: drop_bit_eq_div)
  also have "push_bit 12 (of_nat (unat w div 4096)) = page_addr (unat w div 4096)"
    by (simp only: page_addr_def PMM_PAGE_SIZE_def push_bit_eq_mult) simp
  finally show ?thesis .
qed

lemma mprotect_limit:
  assumes "0x1000 \<le> unat start" "unat len \<le> 2000 * unat start" "unat start + unat len < 2 ^ 64"
  shows "ROUND_TO_PAGE_UP (start + len) \<le> ROUND_TO_PAGE_DOWN start"
proof -
  define q r where "q = unat start div 4096" and "r = unat start mod 4096"
  have start: "unat start = q * 4096 + r" "r < 4096" by (simp_all add: q_def r_def)
  have q: "1 \<le> q" using assms(1) start by (cases q) auto
  have "unat start < 2 ^ 64" using assms(3) by simp
  then have q52: "q < 2 ^ 52" using start(1) by simp
  have sum: "unat (start + len) = unat start + unat len" using assms(3) by (simp add: unat_word_ariths)
  have "unat start + unat len < q * 4096 * 4096" using assms(2) start q by linarith
  then have "unat (start + len) div 4096 < q * 4096" unfolding sum by (simp add: less_mult_imp_div_less)
  moreover have "unat (ROUND_TO_PAGE_UP (start + len)) \<le> unat (start + len) div 4096 + 1"
    by (simp add: ROUND_TO_PAGE_UP_def PAGE_SIZE_4K_def unat_word_ariths unat_div)
  moreover have "unat (ROUND_TO_PAGE_DOWN start) = q * 4096"
    using q52 page_down [of start] by (simp add: ROUND_TO_PAGE_DOWN_def PAGE_SIZE_4K_def unat_page_addr flip: q_def)
  ultimately show ?thesis by (simp add: word_le_nat_alt)
qed

text \<open>
  C40. \<open>sys_mprotect\<close> reports success and changes nothing, whatever protection is asked for: for
  every range above the first page, up to two thousand times as long as its start address,
  the upper bound of the loop is a page number and lies below its first address.
\<close>

theorem sys_mprotect_changes_nothing:
  assumes "0x1000 \<le> unat start" "unat len \<le> 2000 * unat start" "unat start + unat len < 2 ^ 64"
  shows "sys_mprotect start len prot s = Ok (Value 0, s)"
  using mprotect_limit [OF assms] by (simp add: sys_mprotect_def mprotect_loop.simps ret_def not_less [symmetric])

theorem sys_mprotect_changes_nothing_witness:
  "sys_mprotect 0x400000 0x1000 0 demo_sched = Ok (Value 0, demo_sched)"
  by (rule sys_mprotect_changes_nothing) simp_all

section \<open>A process with one open descriptor\<close>

text \<open>The table lies at \<open>0x100000\<close>, in a page of 1 GiB that maps the addresses to themselves.\<close>

definition demo_file :: file_t where
  "demo_file = \<lparr>f_inode = 0x300, f_pos = 5, f_flags = 2, fd_flags = 0, private_data = 0, f_ops = ram_file_fops\<rparr>"

definition demo_fds_inode :: inode where
  "demo_fds_inode = \<lparr>i_dentry = 0, i_mode = 0x81A4, i_uid = 1, i_gid = 2, i_size = 9, i_count = 1, i_op = ram_dir_iops,
     i_fop = ram_file_fops, i_private = 0\<rparr>"

definition demo_fds :: sched where
  "demo_fds = demo_sched
     \<lparr>objs := [0x50 \<mapsto> (Aligned, Pcb (demo_process\<lparr>opened_file_table := 0x100000\<rparr>)), 0x300 \<mapsto> (Aligned, Inode demo_fds_inode)],
      current_process := 0x50, cr3 := 0x1000, phys_mem := write64 (write64 (\<lambda>_. 0) 0x1000 0x2001) 0x2000 0x81,
      ftab := (\<lambda>_. replicate 64 empty_file)(0x100000 := demo_file # replicate 63 empty_file)\<rparr>"

lemma demo_fds_sel [simp]:
  "objs demo_fds = [0x50 \<mapsto> (Aligned, Pcb (demo_process\<lparr>opened_file_table := 0x100000\<rparr>)), 0x300 \<mapsto> (Aligned, Inode demo_fds_inode)]"
  "current_process demo_fds = 0x50" "cr3 demo_fds = 0x1000" "phys_mem demo_fds = write64 (write64 (\<lambda>_. 0) 0x1000 0x2001) 0x2000 0x81"
  "ftab demo_fds = (\<lambda>_. replicate 64 empty_file)(0x100000 := demo_file # replicate 63 empty_file)"
  by (simp_all add: demo_fds_def)

lemma identity_page:
  fixes va :: u64
  assumes "unat va < 2 ^ 30"
  shows "page_dir_virt_to_phys (write64 (write64 (\<lambda>_. 0) 0x1000 0x2001) 0x2000 0x81) 0x1000 va = va"
proof -
  let ?m = "write64 (write64 (\<lambda>_. 0) 0x1000 0x2001) 0x2000 0x81"
  have "PML4_INDEX va = 0" "PDPT_INDEX va = 0"
    using assms by (simp_all add: PML4_INDEX_def PDPT_INDEX_def unat_index)
  moreover have "pte ?m 0x1000 0 = 0x2001" "pte ?m 0x2000 0 = 0x81"
    by (simp_all add: pte_def read64_write64_other aligned8_def)
  moreover have "(0x3FFFFFFF :: u64) = mask 30" by (simp add: mask_eq_exp_minus_1)
  then have "va AND 0x3FFFFFFF = take_bit 30 va" by (simp only: take_bit_eq_mask)
  moreover have "take_bit 30 va = va" using assms by (simp add: word_unat_eq_iff unsigned_take_bit_eq take_bit_nat_eq_self)
  ultimately show ?thesis by (simp add: page_dir_virt_to_phys_def pte_consts)
qed

lemma demo_fds_slot:
  assumes "i < 256"
  shows "file_slot 0x100000 i demo_fds = Ok (page_addr (256 + i div 64), i mod 64)"
proof -
  define va :: u64 where "va = of_nat (0x100000 + 64 * i)"
  have va: "unat va = 0x100000 + 64 * i" using assms by (simp add: va_def unat_of_nat_u64 del: of_nat_add)
  have eq: "0x100000 + of_nat i * 64 = va" by (simp add: va_def)
  have phys: "page_dir_virt_to_phys (phys_mem demo_fds) (cr3 demo_fds) (0x100000 + of_nat i * 64) = va"
    using assms by (simp add: eq identity_page va)
  have "0x100000 + 64 * (q * 64 + r) = (256 + q) * 4096 + 64 * r" for q r :: nat by simp
  from this [of "i div 64" "i mod 64"] have "unat va = (256 + i div 64) * 4096 + 64 * (i mod 64)"
    unfolding va div_mult_mod_eq .
  moreover have "64 * (i mod 64) < 4096" using mod_less_divisor [of 64 i] by simp
  moreover have "(a * 4096 + b) div 4096 = a" "(a * 4096 + b) mod 4096 = b" if "b < 4096" for a b :: nat using that by simp_all
  ultimately have "unat va div 4096 = 256 + i div 64" "unat va mod 4096 = 64 * (i mod 64)" by (simp_all only:)
  then have off: "unat (take_bit 12 va) = 64 * (i mod 64)" and "va AND NOT 0xFFF = page_addr (256 + i div 64)"
    using page_down [of va] by (simp_all only: unsigned_take_bit_eq) (simp add: take_bit_eq_mod)
  have "(0xFFF :: u64) = mask 12" by (simp add: mask_eq_exp_minus_1)
  then have low: "va AND 0xFFF = take_bit 12 va" by (simp only: take_bit_eq_mask)
  note \<open>va AND NOT 0xFFF = page_addr (256 + i div 64)\<close>
  moreover have "va \<noteq> UINTPTR_MAX" using va assms by (auto simp: UINTPTR_MAX_def)
  moreover have "unat ((va AND 0xFFF) div 64) = i mod 64" by (simp add: low unat_div off)
  ultimately show ?thesis
    unfolding file_slot_def phys by (simp add: Let_def PAGE_SIZE_4K_def)
qed

lemma demo_fds_get:
  assumes "i < 256"
  shows "get_file 0x100000 i demo_fds = Ok (if i = 0 then demo_file else empty_file)"
proof -
  have "page_addr (256 + i div 64) = 0x100000 \<longleftrightarrow> i div 64 = 0"
    using assms page_addr_inj [of "256 + i div 64" 256] by (simp add: page_addr_def PMM_PAGE_SIZE_def)
  then show ?thesis by (auto simp: get_file_def demo_fds_slot [OF assms] nth_Cons' div_eq_0_iff)
qed

lemma demo_fds_ok: "slots_ok 0x100000 demo_fds"
proof -
  have "i = j" if "page_addr (256 + i div 64) = page_addr (256 + j div 64)" "i mod 64 = j mod 64" "i < 256" "j < 256" for i j
  proof -
    have "i div 64 = j div 64" using that page_addr_inj [of "256 + i div 64" "256 + j div 64"] by simp
    then show ?thesis using that(2) by (metis div_mult_mod_eq)
  qed
  then show ?thesis by (auto simp: slots_ok_def demo_fds_slot)
qed

lemma demo_fds_process:
  "current demo_fds = Ok (demo_process\<lparr>opened_file_table := 0x100000\<rparr>)" "get_inode (f_inode demo_file) demo_fds = Ok demo_fds_inode"
  "is_free 0x100000 demo_fds j \<longleftrightarrow> j \<noteq> 0" if "j < 256"
  using that by (simp_all add: current_def get_pcb_def get_inode_def demo_file_def is_free_def demo_fds_get empty_file_def)

theorem execve_wipes_descriptors_witness:
  "get_file 0x100000 0 demo_fds = Ok demo_file \<and> f_inode demo_file = 0x300 \<and>
   (\<exists>t f. foreach (move_file 0x100000 0x100000) [0..<256] demo_fds = Ok t \<and> get_file 0x100000 0 t = Ok f \<and> f_inode f = 0)"
  using execve_wipes_descriptors [OF demo_fds_ok] by (auto simp: demo_fds_get demo_file_def)

lemmas demo_fds_open = demo_fds_ok demo_fds_process(1,2) [of 0, simplified] demo_fds_get [of 0, simplified]

lemma demo_fds_pre:
  "opened_file_table (demo_process\<lparr>opened_file_table := 0x100000\<rparr>) = 0x100000" "(0x100000 :: u64) \<noteq> 0"
  "unat (0 :: u32) < 256" "get_file 0x100000 (unat (0 :: u32)) demo_fds = Ok demo_file" "f_inode demo_file \<noteq> 0"
  using demo_fds_open(4) by (simp_all add: demo_file_def)

lemma demo_fds_least:
  assumes "n < 256" "is_free 0x100000 demo_fds n" "\<forall>j < n. \<not> is_free 0x100000 demo_fds j"
  shows "n = 1"
proof -
  have "n \<noteq> 0" using assms(1,2) by (auto simp: demo_fds_process(3))
  moreover have "\<not> 1 < n" using assms(3) demo_fds_process(3) [of 1] by auto
  ultimately show ?thesis by linarith
qed

theorem sys_dup_lowest_free_witness:
  "\<exists>t. sys_dup 0 demo_fds = Ok (Value 1, t) \<and> get_file 0x100000 1 t = Ok demo_file \<and> get_file 0x100000 2 t = Ok empty_file \<and>
     get_inode 0x300 t = Ok (demo_fds_inode\<lparr>i_count := 2\<rparr>)"
proof -
  have "\<not> (\<forall>j < 256. \<not> is_free 0x100000 demo_fds j)" using demo_fds_process(3) [of 1] by (auto intro!: exI [of _ 1])
  then obtain n t where n: "n < 256" "is_free 0x100000 demo_fds n" "\<forall>j < n. \<not> is_free 0x100000 demo_fds j"
      "sys_dup 0 demo_fds = Ok (Value (int n), t)"
      "\<forall>j < 256. get_file 0x100000 j t = (if j = n then Ok demo_file else get_file 0x100000 j demo_fds)"
      "get_inode (f_inode demo_file) t = Ok (demo_fds_inode\<lparr>i_count := i_count demo_fds_inode + 1\<rparr>)"
    using sys_dup_lowest_free [OF demo_fds_open(1,2) demo_fds_pre demo_fds_open(3)] by blast
  then show ?thesis using demo_fds_least [OF n(1-3)] demo_fds_get [of 2]
    by (intro exI [of _ t]) (simp add: demo_file_def demo_fds_inode_def)
qed

theorem dup_close_roundtrip_witness:
  "\<exists>t u. sys_dup 0 demo_fds = Ok (Value 1, t) \<and> sys_close 1 t = Ok (Value 0, u) \<and> get_inode 0x300 u = Ok demo_fds_inode \<and>
     get_file 0x100000 0 u = Ok demo_file"
proof -
  obtain t where t: "sys_dup 0 demo_fds = Ok (Value 1, t)"
  proof (rule sys_dup_cases [OF demo_fds_open(1,2) demo_fds_pre demo_fds_open(3)])
    assume "\<And>j. j < 256 \<Longrightarrow> \<not> is_free 0x100000 demo_fds j"
    then show ?thesis using demo_fds_process(3) [of 1] by simp
  next
    fix n t
    assume n: "n < 256" "is_free 0x100000 demo_fds n" "\<And>j. j < n \<Longrightarrow> \<not> is_free 0x100000 demo_fds j"
      "sys_dup 0 demo_fds = Ok (Value (int n), t)"
    then show ?thesis using demo_fds_least [of n] that by simp
  qed
  from dup_close_roundtrip [OF demo_fds_open(1,2) demo_fds_pre demo_fds_open(3) t] demo_fds_process(3) [of 0] demo_fds_open(3,4)
  show ?thesis using t by (auto simp: demo_file_def)
qed

end
