(* ===== verification/Brk_Spec.thy ===== *)
theory Brk_Spec
  imports Syscall_Spec Vm_Spec Pmm_Spec
begin

text \<open>
  Growing the heap of a process: \<open>sys_brk\<close> composes the page allocator, the page tables of the
  process and its control block.
\<close>

section \<open>Taking a run of frames\<close>

lemma findable_one: "findable s 1 b \<Longrightarrow> b \<in> free_pgs s"
  by (auto simp: findable_def clear_window_def)

lemma findable_free: "findable s k b \<Longrightarrow> {b..<b + k} \<subseteq> free_pgs s"
  by (auto simp: findable_def clear_window_def)

lemma pmm_alloc_run:
  assumes "pmm_wf s" "0 < k" "findable s k b0"
  obtains b bm nx fp where "{b..<b + k} \<subseteq> free_pgs s"
    "pmm_alloc_pages k s = Ok (page_addr b, s\<lparr>pmm_bitmap := bm, bitmap_next := nx, free_pages := fp\<rparr>)"
    "free_pgs (s\<lparr>pmm_bitmap := bm, bitmap_next := nx, free_pages := fp\<rparr>) = free_pgs s - {b..<b + k}"
    "pmm_wf (s\<lparr>pmm_bitmap := bm, bitmap_next := nx, free_pages := fp\<rparr>)"
proof (cases "k = 1")
  case True
  then have "free_pgs s \<noteq> {}" using assms(3) findable_one by blast
  then show thesis
    using that True by (cases rule: pmm_alloc_correct [OF assms(1)]) (auto simp: pmm_alloc_pages_def)
next
  case False
  then have "2 \<le> k" using assms(2) by simp
  then show thesis
    using that findable_free assms(3) by (cases rule: pmm_alloc_pages_correct [OF assms(1) \<open>2 \<le> k\<close>]) blast+
qed

lemma vm_tree_fewer:
  assumes "vm_tree s root" "phys_mem t = phys_mem s" "bitmap_bits t = bitmap_bits s" "free_pgs t \<subseteq> free_pgs s" "pmm_wf t"
  shows "vm_tree t root"
proof -
  have "vm_pmm t" using assms by (auto simp: vm_tree_def vm_pmm_def)
  moreover have "is_table_frame s f \<Longrightarrow> is_table_frame t f" for f using assms(3,4) by (auto simp: is_table_frame_def)
  ultimately show ?thesis using assms(1) unfolding vm_tree_def assms(2) by blast
qed

section \<open>Mapping a run of pages\<close>

lemma map_4k_pages_walk:
  assumes "vm_tree s root" "vmm_lock s = 0" "one_half n k"
    and "\<forall>i < k. small_path (phys_mem s) root (page_addr (n + i))" "3 * k \<le> card (free_pgs s)"
  shows "\<exists>t. map_4k_pages root (page_addr n) pa k flags s = Ok t \<and> vm_tree t root \<and> vmm_lock t = 0 \<and>
    free_pgs t \<subseteq> free_pgs s \<and> paging.more t = paging.more s \<and>
    (\<forall>i < k. walk (phys_mem t) root (path (page_addr (n + i))) = Some (0, leaf_entry (pa + of_nat i * PAGE_SIZE_4K) flags)) \<and>
    (\<forall>q. length q = 4 \<longrightarrow> idx_ok q \<longrightarrow> (\<forall>i < k. q \<noteq> path (page_addr (n + i))) \<longrightarrow>
       walk (phys_mem t) root q = walk (phys_mem s) root q)"
proof -
  let ?l = "s\<lparr>int_flag := False, vmm_lock := 1\<rparr>"
  have l: "vm_tree ?l root" "\<forall>i < k. small_path (phys_mem ?l) root (page_addr (n + i))" "3 * k \<le> card (free_pgs ?l)"
    using assms by (simp_all add: free_pgs_def)
  then have "vm_pmm ?l" by (simp only: vm_tree_def)
  then obtain u where run: "map_4k_run root (page_addr n) pa k flags ?l = Ok u"
    using map_4k_run_returns l(3) by blast
  note u = map_4k_run_walk [OF l(1) assms(3) l(2) run]
  define t where "t = u\<lparr>int_flag := int_flag s \<or> int_flag u, vmm_lock := 0\<rparr>"
  have "map_4k_pages root (page_addr n) pa k flags s = Ok t"
    using run assms(2) by (simp add: map_4k_pages_def with_vmm_lock0_def with_vmm_lock_def run_simps t_def)
  moreover have "pmm.more u = pmm.more ?l" and fewer: "free_pgs u \<subseteq> free_pgs ?l" using u by (simp_all add: pmm_only_def)
  then have "paging.more t = paging.more s" by (cases u; cases s) (simp add: t_def)
  moreover have "free_pgs t \<subseteq> free_pgs s" using fewer by (simp add: t_def free_pgs_def)
  moreover have "phys_mem t = phys_mem u" "vmm_lock t = 0" "vm_tree t root = vm_tree u root" by (simp_all add: t_def)
  ultimately show ?thesis using u by (intro exI [of _ t]) simp
qed

section \<open>The break\<close>

text \<open>The number of the first page that lies wholly above an address.\<close>

definition heap_page :: "u64 \<Rightarrow> nat" where
  "heap_page a = (unat a + 4095) div 4096"

abbreviation heap_flags :: u64 where
  "heap_flags \<equiv> PTE_WRITABLE OR PTE_USER OR PTE_LOCAL_OWNED OR PTE_NX"

definition heap_to :: "u64 \<Rightarrow> pcb \<Rightarrow> pcb" where
  "heap_to brk p = p\<lparr>p_heap := (p_heap p)\<lparr>h_higher := brk, h_size := brk - h_lower (p_heap p)\<rparr>\<rparr>"

lemma page_up_page:
  assumes "heap_page a < 2 ^ 52"
  shows "page_up a = page_addr (heap_page a)"
proof -
  have "unat a + 4095 < 2 ^ 64" using assms by (simp add: heap_page_def)
  then have "unat (a + 0xFFF) = unat a + 4095" by (simp add: unat_word_ariths)
  then show ?thesis using page_down [of "a + 0xFFF"] by (simp add: page_up_def PAGE_SIZE_4K_def heap_page_def add.commute)
qed

lemma upd_current:
  assumes "current s = Ok p"
  shows "\<exists>ob. upd_pcb (current_process s) f s = Ok (s\<lparr>objs := ob\<rparr>) \<and> current (s\<lparr>objs := ob\<rparr>) = Ok (f p)"
  using upd_pcb_frame [of "current_process s" s p f] assms by (auto simp: current_def)

lemma more_current: "paging.more t = paging.more s \<Longrightarrow> current t = current s \<and> current_process t = current_process s"
  for s t :: "'a sched_scheme"
  by (cases s; cases t) (simp add: current_def get_pcb_def)

lemma sys_brk_grow:
  assumes p: "current s = Ok p" and brk: "brk \<noteq> 0" "h_lower (p_heap p) \<le> brk"
    and n: "n = heap_page (h_higher (p_heap p))" "heap_page brk = n + k" "0 < k" "n + k < 2 ^ 52"
    and a: "pmm_alloc_pages k s = Ok (page_addr b, u)" "page_addr b \<noteq> 0" "current u = Ok p"
    and m: "map_4k_pages (p_cr3 p) (page_addr n) (page_addr b) k heap_flags u = Ok v" "paging.more v = paging.more u"
  shows "\<exists>ob. sys_brk brk s = Ok (Value (sint brk), v\<lparr>objs := ob\<rparr>) \<and> current (v\<lparr>objs := ob\<rparr>) = Ok (heap_to brk p)"
proof -
  have up: "page_up (h_higher (p_heap p)) = page_addr n" "page_up brk = page_addr (n + k)"
    using page_up_page [of "h_higher (p_heap p)"] page_up_page [of brk] n by simp_all
  have less: "page_addr n < page_addr (n + k)" using page_addr_less [of n "n + k"] n(3,4) by simp
  have "page_addr (n + k) - page_addr n = page_addr k" by (simp add: page_addr_def algebra_simps)
  then have pages: "unat ((page_addr (n + k) - page_addr n) div PAGE_SIZE_4K) = k"
    using n(4) by (simp add: unat_div unat_page_addr PAGE_SIZE_4K_def)
  have v: "current v = Ok p" using more_current [OF m(2)] a(3) by simp
  obtain ob where "upd_pcb (current_process v) (\<lambda>q. q\<lparr>p_heap := (p_heap p)\<lparr>h_higher := brk, h_size := brk - h_lower (p_heap p)\<rparr>\<rparr>) v = Ok (v\<lparr>objs := ob\<rparr>)"
      "current (v\<lparr>objs := ob\<rparr>) = Ok (heap_to brk p)"
    using upd_current [OF v] unfolding heap_to_def by blast
  then show ?thesis
    using brk by (intro exI [of _ ob]) (simp add: sys_brk_def p Let_def up less pages a(1,2) m(1) ret_def not_less [symmetric])
qed

text \<open>
  C10. Raising the break beyond the last mapped page of the heap takes a run of free frames,
  maps the new pages of the process to it one after the other, writable, for user mode and
  not executable, changes no other page of the process, and moves the recorded end and
  size of the heap. The call returns the new break. It needs a run of frames the page
  allocator can find and three more frames a page for tables.
\<close>

theorem sys_brk_maps_heap:
  assumes "current s = Ok p" "brk \<noteq> 0" "h_lower (p_heap p) \<le> brk"
    and "n = heap_page (h_higher (p_heap p))" "heap_page brk = n + k" "0 < k" "n + k \<le> 2 ^ 35"
    and "vm_tree s (p_cr3 p)" "vmm_lock s = 0" "\<forall>i < k. small_path (phys_mem s) (p_cr3 p) (page_addr (n + i))"
    and "findable s k b0" "4 * k \<le> card (free_pgs s)"
  shows "\<exists>b t. sys_brk brk s = Ok (Value (sint brk), t) \<and> current t = Ok (heap_to brk p) \<and>
    {b..<b + k} \<subseteq> free_pgs s \<and> {b..<b + k} \<inter> free_pgs t = {} \<and> vm_tree t (p_cr3 p) \<and>
    (\<forall>i < k. walk (phys_mem t) (p_cr3 p) (path (page_addr (n + i))) = Some (0, leaf_entry (page_addr (b + i)) heap_flags)) \<and>
    (\<forall>q. length q = 4 \<longrightarrow> idx_ok q \<longrightarrow> (\<forall>i < k. q \<noteq> path (page_addr (n + i))) \<longrightarrow>
       walk (phys_mem t) (p_cr3 p) q = walk (phys_mem s) (p_cr3 p) q)"
proof -
  have vp: "pmm_wf s" "bitmap_bits s \<le> 2 ^ 40" "0 \<notin> free_pgs s" using assms(8) by (auto simp: vm_tree_def vm_pmm_def)
  obtain b bm nx fp where b: "{b..<b + k} \<subseteq> free_pgs s"
      "pmm_alloc_pages k s = Ok (page_addr b, s\<lparr>pmm_bitmap := bm, bitmap_next := nx, free_pages := fp\<rparr>)"
      "free_pgs (s\<lparr>pmm_bitmap := bm, bitmap_next := nx, free_pages := fp\<rparr>) = free_pgs s - {b..<b + k}"
      "pmm_wf (s\<lparr>pmm_bitmap := bm, bitmap_next := nx, free_pages := fp\<rparr>)"
    by (rule pmm_alloc_run [OF vp(1) assms(6,11)])
  let ?u = "s\<lparr>pmm_bitmap := bm, bitmap_next := nx, free_pages := fp\<rparr>"
  have "b \<in> free_pgs s" using b(1) assms(6) by auto
  then have "0 < b" "b < 2 ^ 52" using vp(2,3) free_pgs_less [of b s] by (auto intro: gr0I)
  then have nz: "page_addr b \<noteq> 0" using page_addr_inj [of b 0] by (simp add: page_addr_def)
  have fin: "finite (free_pgs s)" by (simp add: free_pgs_def)
  have "card (free_pgs ?u) = card (free_pgs s) - k" unfolding b(3) using b(1) fin by (simp add: card_Diff_subset)
  then have cards: "3 * k \<le> card (free_pgs ?u)" using assms(12) by simp
  have tree: "vm_tree ?u (p_cr3 p)" by (rule vm_tree_fewer [OF assms(8) _ _ _ b(4)]) (use b(3) in auto)
  have half: "one_half n k" unfolding one_half_def using assms(7) by (auto simp: div_less)
  obtain v where v: "map_4k_pages (p_cr3 p) (page_addr n) (page_addr b) k heap_flags ?u = Ok v" "vm_tree v (p_cr3 p)"
      "free_pgs v \<subseteq> free_pgs ?u" "paging.more v = paging.more ?u"
      "\<forall>i < k. walk (phys_mem v) (p_cr3 p) (path (page_addr (n + i))) = Some (0, leaf_entry (page_addr b + of_nat i * PAGE_SIZE_4K) heap_flags)"
      "\<forall>q. length q = 4 \<longrightarrow> idx_ok q \<longrightarrow> (\<forall>i < k. q \<noteq> path (page_addr (n + i))) \<longrightarrow> walk (phys_mem v) (p_cr3 p) q = walk (phys_mem ?u) (p_cr3 p) q"
    using map_4k_pages_walk [OF tree _ half _ cards, of "page_addr b" heap_flags] assms(9,10) by auto
  have "current ?u = Ok p" using assms(1) by (simp add: current_def get_pcb_def)
  with sys_brk_grow [OF assms(1-6) _ b(2) nz _ v(1,4)] assms(7) obtain ob where
    ob: "sys_brk brk s = Ok (Value (sint brk), v\<lparr>objs := ob\<rparr>)" "current (v\<lparr>objs := ob\<rparr>) = Ok (heap_to brk p)" by auto
  have same: "phys_mem (v\<lparr>objs := ob\<rparr>) = phys_mem v" "free_pgs (v\<lparr>objs := ob\<rparr>) = free_pgs v" "vm_tree (v\<lparr>objs := ob\<rparr>) r = vm_tree v r" for r
    by (simp_all add: free_pgs_def vm_tree_def vm_pmm_def is_table_frame_def pmm_wf_def pmm_shape_def)
  show ?thesis
    using ob b(1,3) v(2,3,5,6) by (intro exI [of _ b] exI [of _ "v\<lparr>objs := ob\<rparr>"]) (auto simp: same page_addr_step)
qed

section \<open>A process that grows its heap\<close>

definition demo_heap_process :: pcb where
  "demo_heap_process = demo_process\<lparr>p_cr3 := 0x1000, p_heap := \<lparr>h_lower = 0x400000, h_higher = 0x400010, h_size = 0x10\<rparr>\<rparr>"

definition demo_brk :: sched where
  "demo_brk = demo_sched\<lparr>phys_mem := (\<lambda>_. 0), pmm_lock := 0, pmm_bitmap := [0x03, 0x00], bitmap_bits := 16, bitmap_next := 2,
     total_pages := 16, vmm_lock := 0, objs := [0x50 \<mapsto> (Aligned, Pcb demo_heap_process)], current_process := 0x50\<rparr>"

lemma same_free_pgs: "pmm_bitmap t = pmm_bitmap s \<Longrightarrow> bitmap_bits t = bitmap_bits s \<Longrightarrow> free_pgs t = free_pgs s"
  by (simp add: free_pgs_def)

lemma same_vm_tree:
  assumes "phys_mem t = phys_mem s" "pmm_bitmap t = pmm_bitmap s" "bitmap_bits t = bitmap_bits s"
    "pmm_lock t = pmm_lock s" "total_pages t = total_pages s" "bitmap_next t = bitmap_next s"
  shows "vm_tree t root = vm_tree s root"
  using assms by (simp add: vm_tree_def vm_pmm_def is_table_frame_def pmm_wf_def pmm_shape_def same_free_pgs [OF assms(2,3)])

lemma demo_brk_memory:
  "free_pgs demo_brk = {2..<16}" "vm_tree demo_brk 0x1000" "phys_mem demo_brk = phys_mem demo_vm" "vmm_lock demo_brk = 0"
proof -
  have "free_pgs demo_brk = free_pgs demo_vm" by (rule same_free_pgs) (simp_all add: demo_brk_def demo_vm_def)
  then show "free_pgs demo_brk = {2..<16}" by (simp only: demo_vm_free)
  have "vm_tree demo_brk 0x1000 = vm_tree demo_vm 0x1000" by (rule same_vm_tree) (simp_all add: demo_brk_def demo_vm_def)
  then show "vm_tree demo_brk 0x1000" using demo_vm_tree by (simp only:)
  show "phys_mem demo_brk = phys_mem demo_vm" "vmm_lock demo_brk = 0" by (simp_all add: demo_brk_def demo_vm_def)
qed

lemma demo_brk_run: "findable demo_brk 2 2"
  unfolding findable_def clear_window_run demo_brk_memory(1) by (auto simp: demo_brk_def)

theorem sys_brk_maps_heap_witness:
  "\<exists>t b. sys_brk 0x402800 demo_brk = Ok (Value 0x402800, t) \<and>
     walk (phys_mem t) 0x1000 (path 0x402000) = Some (0, leaf_entry (page_addr (b + 1)) heap_flags)"
proof -
  have cur: "current demo_brk = Ok demo_heap_process" by (simp add: current_def get_pcb_def demo_brk_def)
  have heap: "h_lower (p_heap demo_heap_process) = 0x400000" "h_higher (p_heap demo_heap_process) = 0x400010"
    "p_cr3 demo_heap_process = 0x1000" by (simp_all add: demo_heap_process_def)
  have pages: "0x401 = heap_page (h_higher (p_heap demo_heap_process))" "heap_page 0x402800 = 0x401 + 2"
    by (simp_all add: heap_page_def heap)
  have small: "\<forall>i < 2. small_path (phys_mem demo_brk) (p_cr3 demo_heap_process) (page_addr (0x401 + i))"
    by (simp add: demo_brk_memory(3) heap demo_vm_small)
  obtain b t where t: "sys_brk 0x402800 demo_brk = Ok (Value (sint (0x402800 :: u64)), t)"
      "\<forall>i < 2. walk (phys_mem t) 0x1000 (path (page_addr (0x401 + i))) = Some (0, leaf_entry (page_addr (b + i)) heap_flags)"
    using sys_brk_maps_heap [OF cur _ _ pages _ _ _ demo_brk_memory(4) small demo_brk_run] demo_brk_memory(1,2)
    by (auto simp: heap)
  have "page_addr (0x401 + 1) = 0x402000" by (simp add: page_addr_def PMM_PAGE_SIZE_def)
  then show ?thesis using t(1) t(2) [rule_format, of 1] by (intro exI [of _ t] exI [of _ b]) simp
qed

end
