(* ===== verification/Boot.thy ===== *)
theory Boot
  imports Syscall Pci
begin

text \<open>
  The parts that tie the kernel together: processor exceptions
  (\<open>kernel/src/arch/x86_64/debug/panic.c\<close>), the set-up of the interrupt controllers, the driver tables (\<open>drivers/drivers.c\<close>), the initial ram disk
  (\<open>initrd_parse/initrd.c\<close>) and the start-up sequence (\<open>arch.c\<close>, \<open>main.c\<close>). The archive of the ram disk is in \<open>kmem\<close>, where the
  boot loader put it; the file names stay there, and a name that a directory entry points
  to also appears as a static string object.
\<close>

record boot = sched +
  panic_count :: u8
  cpu_features :: u64
  cpu_features_ext :: u64
  tar_file_headers :: u64
  tar_file_count :: int

section \<open>Processor features\<close>

text \<open>
  The argument is the \<open>cpuid\<close> instruction: leaf and sub-leaf to the four registers. Whether
  leaf 7 exists is decided by the signature that leaf 1 returns in \<open>eax\<close>.
\<close>

definition register_cpu_features :: "(u32 \<Rightarrow> u32 \<Rightarrow> u32 \<times> u32 \<times> u32 \<times> u32) \<Rightarrow> 'a boot_scheme \<Rightarrow> 'a boot_scheme" where
  "register_cpu_features cpuid s =
     (let (eax, ebx, ecx, edx) = cpuid 1 0;
          s = s\<lparr>cpu_features := push_bit 32 (ucast edx) OR ucast ecx\<rparr>
      in if eax \<ge> 7 then
           (let (eax, ebx, ecx, edx) = cpuid 7 0 in s\<lparr>cpu_features_ext := push_bit 32 (ucast ecx) OR ucast ebx\<rparr>)
         else s)"

text \<open>The argument is the answer of the assembly routine that configures the unit.\<close>

definition fpu_init :: "bool \<Rightarrow> 'a boot_scheme \<Rightarrow> (int \<times> 'a boot_scheme) run" where
  "fpu_init configured s =
     (if \<not> configured then bindr (sys_error (''Failed to initialize x87/SSE FPU'' @ newline) s) (\<lambda>s. Ok (- 1, s))
      else Ok (0, s\<lparr>fpu_enabled := True\<rparr>))"

section \<open>The interrupt controllers\<close>

text \<open>
  The firmware tables are given decoded, in their order: the signature of a table and the
  types and lengths of its sub-entries. \<open>lapic_init\<close> ends without a \<open>return\<close> when it succeeds,
  so only its effect is a value. An entry of length 0 ends the scan of a table.
\<close>

type_synonym acpi_tables = "(string \<times> (u8 \<times> u8) list) list"

definition CPU_FEAT_APIC :: u64 where "CPU_FEAT_APIC = 0x20000000000"
definition LAPIC_REG_ID :: u32 where "LAPIC_REG_ID = 0x20"
definition MADT_IOAPIC :: u8 where "MADT_IOAPIC = 1"

definition sys_fatal :: "string \<Rightarrow> 'a logger_scheme \<Rightarrow> 'a logger_scheme run" where
  "sys_fatal cs s =
     sys_serial_vlogf ([91, 27] @ bytes ''[35mFATAL'' @ [27] @ bytes ''[0m] '' @ bytes cs) None None 0 s"

definition madt_entry :: "u8 \<Rightarrow> u8 \<times> u8 \<Rightarrow> 'a boot_scheme \<Rightarrow> 'a boot_scheme run" where
  "madt_entry lapic_id e s =
     (if fst e = MADT_IOAPIC then
        bindr (ioapic_init s) (\<lambda>s.
        sys_success (''IOAPIC initialized'' @ newline) (ioapic_set_irq 1 33 lapic_id False (ioapic_set_irq 2 32 lapic_id False s)))
      else Ok s)"

definition madt_init :: "u64 \<Rightarrow> u64 \<Rightarrow> (u8 \<times> u8) list \<Rightarrow> 'a boot_scheme \<Rightarrow> 'a boot_scheme run" where
  "madt_init lapic_timer_dev handler entries s =
     bindr (foreach (madt_entry (ucast (drop_bit 24 (lapic_mmio_read LAPIC_REG_ID s)))) (takeWhile (\<lambda>e. snd e \<noteq> 0) entries) s) (\<lambda>s.
       let s = block_pic s;
           s = lapic_mmio_write LAPIC_REG_SIVR (lapic_mmio_read LAPIC_REG_SIVR s OR 0x100) s
       in bindr (lapic_timer_init lapic_timer_dev handler 1 0x1000 16 (s\<lparr>current_eoi := lapic_eoi\<rparr>)) (\<lambda>(vector, s).
          sys_success (''APIC initialized'' @ newline) s))"

definition lapic_init :: "bool \<Rightarrow> acpi_tables \<Rightarrow> u64 \<Rightarrow> u64 \<Rightarrow> 'a boot_scheme \<Rightarrow> 'a boot_scheme run" where
  "lapic_init rsdp_ok tables lapic_timer_dev handler s =
     (if cpu_features s AND CPU_FEAT_APIC = 0 then sys_fatal (''APIC Not Supported'' @ newline) s
      else if \<not> rsdp_ok then sys_fatal (''RSDP Signature is wrong'' @ newline) s
      else foreach (\<lambda>(sig, entries). madt_init lapic_timer_dev handler entries) (filter (\<lambda>t. fst t = ''APIC'') tables) s)"

section \<open>Exceptions\<close>

definition isr_messages :: "string list" where
  "isr_messages =
     [''Divide by Zero'', ''Debug Exception'', ''NMI'', ''Breakpoint'', ''Overflow'', ''Bound Range Exceeded'', ''Invalid Opcode'',
      ''Device Not Available'', ''Double Fault'', ''Coprocessor Segment Overrun'', ''Invalid TSS'', ''Segment Not Present'',
      ''Stack Segment Fault'', ''General Protection Fault'', ''Page Fault'', ''Reserved'', ''x87 Floating-Point Exception'',
      ''Alignment Check'', ''Machine Check'', ''SIMD Floating-Point Exception'', ''Virtualization Exception'',
      ''Control Protection Exception'', ''Reserved'', ''Reserved'', ''Reserved'', ''Reserved'', ''Reserved'', ''Reserved'',
      ''Hypervisor Injection Exception'', ''VMM Communication Exception'', ''Security Exception'', ''Reserved'']"

definition hash_lx :: "u64 \<Rightarrow> string" where
  "hash_lx w = (if w = 0 then ''0'' else ''0x'' @ hex (unat w))"

definition RING_TO_STR :: "u64 \<Rightarrow> string" where
  "RING_TO_STR cs = (if cs AND 3 \<noteq> 0 then ''user'' else ''kernel'')"

text \<open>\<open>kill_current_process\<close> with the message it prints.\<close>

definition kill_for :: "u64 \<Rightarrow> u64 \<Rightarrow> u32 \<Rightarrow> string \<Rightarrow> 'a boot_scheme \<Rightarrow> 'a boot_scheme run" where
  "kill_for cs rip exit_code reason s =
     bindr (if current_process s = 0 then Ok 0 else bindr (get_pcb (current_process s) s) (\<lambda>p. Ok (sint (p_pid p)))) (\<lambda>pid.
       kill_current_process exit_code reason
         (''Process '' @ dec_int pid @ '' killed: '' @ reason @ '' ('' @ RING_TO_STR cs @ '', rip='' @ hash_lx rip @ '')'' @ newline) s)"

definition handle_zero_div :: "u64 \<Rightarrow> u64 \<Rightarrow> 'a boot_scheme \<Rightarrow> 'a boot_scheme run" where
  "handle_zero_div cs rip s = kill_for cs rip 136 ''divide by zero'' s"

definition handle_page_fault :: "u64 \<Rightarrow> u64 \<Rightarrow> u64 \<Rightarrow> 'a boot_scheme \<Rightarrow> 'a boot_scheme run" where
  "handle_page_fault cs rip cr2 s =
     kill_for cs rip 139 (if cr2 < PAGE_SIZE_4K then ''null pointer dereference'' else ''page fault'') s"

definition handle_gpf :: "u64 \<Rightarrow> u64 \<Rightarrow> 'a boot_scheme \<Rightarrow> 'a boot_scheme run" where
  "handle_gpf cs rip s = kill_for cs rip 139 ''general protection fault'' s"

text \<open>
  An exception without a handler, and a double fault, write a report to the log and stop
  the machine. After the other handlers the thread yields for ever; the value is the
  state it yields in.
\<close>

definition isr_handler :: "u64 \<Rightarrow> u64 \<Rightarrow> u64 \<Rightarrow> u64 \<Rightarrow> 'a boot_scheme \<Rightarrow> 'a boot_scheme run" where
  "isr_handler isr_index cs rip cr2 s =
     (let s = (cli s)\<lparr>klogger_is_threaded := False, panic_count := panic_count s + 1\<rparr>
      in if isr_index = 0 then handle_zero_div cs rip s
         else if isr_index = 8 then Stop (Panic ''Double Fault'')
         else if isr_index = 13 then handle_gpf cs rip s
         else if isr_index = 14 then handle_page_fault cs rip cr2 s
         else Stop (Panic (if unat isr_index < length isr_messages then isr_messages ! unat isr_index else ''Unknown Crash'')))"

section \<open>Drivers\<close>

text \<open>A table of names and initialisers; what an initialiser returns is not looked at.\<close>

type_synonym 'a drivers = "(string \<times> ('a boot_scheme \<Rightarrow> 'a boot_scheme run)) list"

definition init_drivers :: "'a drivers \<Rightarrow> 'a boot_scheme \<Rightarrow> 'a boot_scheme run" where
  "init_drivers drvs s =
     foreach (\<lambda>(name, init) s. bindr (sys_info ('' INITING '' @ name @ newline) s) init) drvs s"

definition phase_init :: "string \<Rightarrow> 'a drivers \<Rightarrow> 'a boot_scheme \<Rightarrow> 'a boot_scheme run" where
  "phase_init phase drvs s =
     bindr (sys_info (''initing '' @ phase @ '' drivers'' @ newline) s) (\<lambda>s.
     bindr (init_drivers drvs s) (\<lambda>s.
     sys_success (''inited '' @ phase @ '' drivers'' @ newline) s))"

text \<open>The driver for disk controllers only reports that it was found.\<close>

definition ahci_init :: "u8 \<Rightarrow> u8 \<Rightarrow> u8 \<Rightarrow> 'a boot_scheme \<Rightarrow> (int \<times> 'a boot_scheme) run" where
  "ahci_init bus device func s =
     bindr (sys_warning (''AHCI_init called for ('' @ dec_int (uint bus) @ '':'' @ dec_int (uint device) @ ''.'' @ dec_int (uint func) @ '')'') s)
       (\<lambda>s. Ok (0, s))"

section \<open>The archive\<close>

text \<open>
  The size is eleven octal digits at offset 124 of a header. The digits are not checked,
  and the arithmetic is that of \<open>unsigned int\<close>.
\<close>

definition tar_digit :: "mem \<Rightarrow> u64 \<Rightarrow> u32" where
  "tar_digit m a = scast (m a) - 48"

definition get_tar_size :: "mem \<Rightarrow> u64 \<Rightarrow> u32" where
  "get_tar_size m a =
     snd (fold (\<lambda>j (k, sz). (k * 8, sz + tar_digit m (a + of_nat (j - 1)) * k)) (rev [1..<12]) (1, 0))"

definition tar_size :: "mem \<Rightarrow> u64 \<Rightarrow> u32" where
  "tar_size m header = get_tar_size m (header + 124)"

definition next_header :: "mem \<Rightarrow> u64 \<Rightarrow> u64" where
  "next_header m header = header + 512 + ucast ((tar_size m header + 511) div 512 * 512)"

partial_function (option) count_tar_entries :: "mem \<Rightarrow> u64 \<Rightarrow> int \<Rightarrow> int option" where
  "count_tar_entries m a n = (if m a = 0 then Some n else count_tar_entries m (next_header m a) (n + 1))"

primrec tar_headers :: "mem \<Rightarrow> nat \<Rightarrow> u64 \<Rightarrow> u64 list" where
  "tar_headers m 0 a = []"
| "tar_headers m (Suc n) a = (if m a = 0 then [] else a # tar_headers m n (next_header m a))"

definition parse_tar :: "u64 \<Rightarrow> 'a boot_scheme \<Rightarrow> (int \<times> 'a boot_scheme) run" where
  "parse_tar address s =
     (case count_tar_entries (kmem s) address 0 of None \<Rightarrow> Stop Hang
      | Some n_total \<Rightarrow>
          if n_total \<le> 0 then Ok (0, s\<lparr>tar_file_count := 0\<rparr>)
          else
            bindr (kmalloc (of_int (8 * (n_total + 1))) (Strv []) s) (\<lambda>(tab, s).
              let s = s\<lparr>tar_file_headers := tab\<rparr>
              in if tab = 0 then
                   bindr (sys_error (''Failed to allocate tar header table'' @ newline) s) (\<lambda>s. Ok (- E_NOMEM, s))
                 else
                   (let hs = tar_headers (kmem s) (nat n_total) address
                    in Ok (int (length hs), (put tab (Strv (hs @ [0])) s)\<lparr>tar_file_count := int (length hs)\<rparr>))))"

section \<open>The files of the ram disk\<close>

text \<open>\<open>memmove(name, name + k, strlen(name + k) + 1)\<close>.\<close>

definition drop_front :: "u64 \<Rightarrow> u64 \<Rightarrow> mem \<Rightarrow> mem option" where
  "drop_front name k m =
     (case strlen m (name + k) of None \<Rightarrow> None | Some n \<Rightarrow> Some (memmove m name (name + k) (unat n + 1)))"

partial_function (option) drop_slashes :: "u64 \<Rightarrow> mem \<Rightarrow> mem option" where
  "drop_slashes name m =
     (if m name = of_char CHR ''/'' then Option.bind (drop_front name 1 m) (drop_slashes name) else Some m)"

definition normalize_tar_path :: "u64 \<Rightarrow> mem \<Rightarrow> mem option" where
  "normalize_tar_path name m =
     Option.bind (if m name = of_char CHR ''.'' \<and> m (name + 1) = of_char CHR ''/'' then drop_front name 2 m else Some m)
       (drop_slashes name)"

text \<open>Directories are made one component at a time; one that exists is used.\<close>

fun ensure_dirs :: "string list \<Rightarrow> u64 \<Rightarrow> 'a boot_scheme \<Rightarrow> (u64 \<times> 'a boot_scheme) run" where
  "ensure_dirs [] dir s = Ok (dir, s)"
| "ensure_dirs (c # cs) dir s =
     bindr (get_dentry dir s) (\<lambda>dd.
     bindr (kpath_mkdir (d_inode dd) c 0x1FF s) (\<lambda>(res, s).
       if res < 0 \<and> res \<noteq> - E_EXIST then
         bindr (sys_error (''Failed to create initrd subdir '' @ quoted c @ '': '' @ dec_int res @ newline) s) (\<lambda>s. Ok (0, s))
       else
         bindr (get_dentry dir s) (\<lambda>dd.
         bindr (kpath_lookup (d_inode dd) c s) (\<lambda>(nxt, s).
           if nxt = 0 then
             bindr (sys_error (''Failed to lookup initrd subdir '' @ quoted c @ newline) s) (\<lambda>s. Ok (0, s))
           else ensure_dirs cs nxt s))))"

definition ensure_parent_dirs :: "u64 \<Rightarrow> string \<Rightarrow> 'a boot_scheme \<Rightarrow> (u64 \<times> 'a boot_scheme) run" where
  "ensure_parent_dirs base pth s =
     (case split_last (CHR ''/'') pth of None \<Rightarrow> Ok (base, s)
      | Some (dirs, leaf) \<Rightarrow> ensure_dirs (path_tokens (take 255 dirs)) base s)"

definition leaf_name :: "string \<Rightarrow> string" where
  "leaf_name pth = (case split_last (CHR ''/'') pth of None \<Rightarrow> pth | Some (dirs, leaf) \<Rightarrow> leaf)"

text \<open>The result of \<open>create\<close> is not looked at: when it fails, the entry has no inode.\<close>

definition add_file :: "u64 \<Rightarrow> string \<Rightarrow> u64 \<Rightarrow> 'a boot_scheme \<Rightarrow> 'a boot_scheme run" where
  "add_file header pth parent s =
     (let leaf = leaf_name pth;
          leaf_p = header + of_nat (length pth - length leaf);
          s = s\<lparr>objs := (objs s)(leaf_p \<mapsto> (Static, Str leaf))\<rparr>
      in bindr (kmalloc SIZEOF_DENTRY (Dentry zero_dentry) s) (\<lambda>(nd, s).
         bindr (upd_dentry nd (\<lambda>d. \<lparr>d_name = leaf_p, d_parent = parent, d_inode = 0, d_count = ucast (junk s (nd + 48))\<rparr>) s) (\<lambda>s.
         bindr (get_dentry parent s) (\<lambda>pd.
         bindr (get_inode (d_inode pd) s) (\<lambda>pi.
         bindr (call_create (i_op pi) (d_inode pd) nd 0x1FF True s) (\<lambda>(res, s).
         bindr (kmalloc SIZEOF_RAMFILE_INFO (RamInfo \<lparr>ri_start = header + 512, ri_size = ucast (tar_size (kmem s) header),
                  ri_fixed_size = True\<rparr>) s) (\<lambda>(info, s).
         bindr (get_ram info s) (\<lambda>ri.
         bindr (get_dentry nd s) (\<lambda>d.
         upd_inode (d_inode d) (\<lambda>i. i\<lparr>i_size := ri_size ri, i_private := info, i_fop := ram_file_fops\<rparr>) s)))))))))"

definition add_entry :: "u64 \<Rightarrow> u64 \<Rightarrow> 'a boot_scheme \<Rightarrow> 'a boot_scheme run" where
  "add_entry dir header s =
     (case normalize_tar_path header (kmem s) of None \<Rightarrow> Stop Hang
      | Some m \<Rightarrow>
          (let s = s\<lparr>kmem := m\<rparr>
           in case strlen m header of None \<Rightarrow> Stop Hang
              | Some plen \<Rightarrow>
                  (let pth = c_string (mem_bytes m header (unat plen))
                   in if pth = [] \<or> List.last pth = CHR ''/'' then Ok s
                      else
                        bindr (sys_debug (''File: '' @ pth @ '', size: '' @ dec_int (uint (tar_size m header)) @ newline) s) (\<lambda>s.
                        bindr (ensure_parent_dirs dir pth s) (\<lambda>(parent, s).
                          if parent = 0 then
                            sys_error (''Skipping '' @ quoted pth @ '': could not create parent directories'' @ newline) s
                          else add_file header pth parent s)))))"

text \<open>
  The modules of the boot loader are given by their string, address and size; \<open>None\<close> is a
  request without a response.
\<close>

definition initrd_init :: "(string option \<times> u64 \<times> u64) list option \<Rightarrow> 'a boot_scheme \<Rightarrow> (int \<times> 'a boot_scheme) run" where
  "initrd_init modules s =
     (case modules of None \<Rightarrow> bindr (sys_error (''module response is null'' @ newline) s) (\<lambda>s. Ok (- E_NOENT, s))
      | Some ms \<Rightarrow>
          (case find (\<lambda>(cmd, a, sz). cmd = Some ''initrd'') ms of
             None \<Rightarrow> bindr (sys_error (''Initrd module not found'' @ newline) s) (\<lambda>s. Ok (- E_NOENT, s))
           | Some (cmd, initrd_data, sz) \<Rightarrow>
               bindr (parse_tar initrd_data s) (\<lambda>(nheaders, s).
                 if nheaders < 0 then Ok (nheaders, s)
                 else
                   bindr (sys_debug (''[initrd] '' @ dec_int nheaders @ '' entries found'' @ newline) s) (\<lambda>s.
                   bindr (root_inode s) (\<lambda>root.
                   bindr (kpath_mkdir root ''/initrd'' 0x1FF s) (\<lambda>(res, s).
                     if res < 0 then
                       bindr (sys_error (''Failed to create initrd directory: '' @ dec_int res @ newline) s) (\<lambda>s. Ok (res, s))
                     else
                       bindr (root_inode s) (\<lambda>root.
                       bindr (kpath_lookup root ''/initrd/'' s) (\<lambda>(dir, s).
                         if dir = 0 then
                           bindr (sys_error (''Failed to lookup initrd directory'' @ newline) s) (\<lambda>s. Ok (- E_NOENT, s))
                         else
                           bindr (if nheaders = 0 then Ok [] else get_strv (tar_file_headers s) s) (\<lambda>hs.
                           bindr (foreach (add_entry dir) (takeWhile (\<lambda>h. h \<noteq> 0) (take (nat nheaders) hs)) s) (\<lambda>s.
                             Ok (0, s)))))))))))"

section \<open>Start-up\<close>

text \<open>
  The addresses of the thread functions, of the two empty argument vectors and the driver
  tables come from the linker. The function ends in an endless loop; the value is the
  state it idles in.
\<close>

definition kmain ::
  "'a boot_ext sys_env \<Rightarrow> 'a drivers \<Rightarrow> 'a drivers \<Rightarrow> (string option \<times> u64 \<times> u64) list option \<Rightarrow> u64 \<Rightarrow> u64 \<Rightarrow> u64 \<Rightarrow> u64 \<Rightarrow> u64 \<Rightarrow>
     'a boot_scheme \<Rightarrow> 'a boot_scheme run" where
  "kmain env core_drivers dev_drivers modules pit_isr_entry reaper log_manager test_argv test_envp s =
     bindr (phase_init ''core'' core_drivers (cli s)) (\<lambda>s.
     bindr (sysfs_init s) (\<lambda>s.
     bindr (devfs_init s) (\<lambda>(r, s).
     bindr (scheduler_init pit_isr_entry reaper s) (\<lambda>(r, s).
     bindr (k_ramfile_mkdir ''/tmp'' 0x1B6 s) (\<lambda>(r, s).
     bindr (ktask_start log_manager ''klogger'' (log_queue_init s)) (\<lambda>(klogger, s).
       if klogger = 0 then
         bindr (sys_error (''couldn'' @ [CHR 0x27] @ ''t init logger thread'' @ newline) s) (\<lambda>s. Stop Hang)
       else
         bindr (get_tcb klogger s) (\<lambda>t.
         bindr (sys_success (''klogger started as tid:'' @ dec_int (sint (t_tid t)) @ newline) s) (\<lambda>s.
         bindr (initrd_init modules s) (\<lambda>(r, s).
         bindr (phase_init ''dev'' dev_drivers s) (\<lambda>s.
         bindr (load_elf_from_vfs (env_report env) ''/initrd/initshell.elf'' test_argv test_envp (sti s)) (\<lambda>(pid, s).
           Ok s)))))))))))"

text \<open>What the firmware, the boot loader and the linker give to \<open>arch_init\<close>.\<close>

record boot_info =
  bi_tsc_dev :: u64
  bi_invariant_tsc :: u32
  bi_tsc_leaf :: "u32 \<times> u32 \<times> u32"
  bi_cpuid :: "u32 \<Rightarrow> u32 \<Rightarrow> u32 \<times> u32 \<times> u32 \<times> u32"
  bi_tss :: u64
  bi_irq_stubs :: "nat \<Rightarrow> u64"
  bi_isrs :: "nat \<Rightarrow> u64"
  bi_fpu_ok :: bool
  bi_memmap :: "memmap_entry list"
  bi_huge1g :: bool
  bi_kernel :: "u64 \<times> u64 \<times> u64"
  bi_rsdp_ok :: bool
  bi_acpi :: acpi_tables
  bi_lapic_timer :: u64
  bi_lapic_handler :: u64

definition KERNEL_STACK_PAGE_AMOUNT :: u64 where "KERNEL_STACK_PAGE_AMOUNT = 32"

definition arch_init :: "boot_info \<Rightarrow> ('a boot_scheme \<Rightarrow> 'a boot_scheme run) \<Rightarrow> 'a boot_scheme \<Rightarrow> 'a boot_scheme run" where
  "arch_init bi kmain_fn s =
     bindr (sys_log (''Entering arch init'' @ newline) s) (\<lambda>s.
     bindr (tsc_clk_init (bi_tsc_dev bi) (bi_invariant_tsc bi) (bi_tsc_leaf bi) s) (\<lambda>(r, s).
     bindr (rtc_init s) (\<lambda>s.
     bindr (register_cpu_exceptions (bi_isrs bi) (idt_init (bi_irq_stubs bi) (init_gdt (bi_tss bi) (register_cpu_features (bi_cpuid bi) s)))) (\<lambda>s.
     bindr (fpu_init (bi_fpu_ok bi) s) (\<lambda>(r, s).
     bindr (pmm_init (bi_memmap bi) s) (\<lambda>s.
     bindr (case bi_kernel bi of (kphys, kvirt, ksize) \<Rightarrow> hhdm_init (bi_memmap bi) (bi_huge1g bi) kphys kvirt ksize s) (\<lambda>s.
     bindr (vmm_kvma_init s) (\<lambda>s.
     bindr (lapic_init (bi_rsdp_ok bi) (bi_acpi bi) (bi_lapic_timer bi) (bi_lapic_handler bi) (pic_remap s)) (\<lambda>s.
     bindr (sys_success (''Paging set up'' @ newline) s) (\<lambda>s.
     bindr (sys_log (''Setting up Kernel Stack.'' @ newline) s) (\<lambda>s.
     bindr (page_kalloc (KERNEL_STACK_PAGE_AMOUNT + 1) (PTE_NX OR PTE_WRITABLE) s) (\<lambda>(stack_pages, s).
       if stack_pages = 0 then Stop (Panic (''Couldn'' @ [CHR 0x27] @ ''t allocate kernel stack :('' @ newline))
       else
         bindr (sys_success (''kernel stack allocated'' @ newline) s) (\<lambda>s.
         kmain_fn (init_tss (stack_pages + PAGE_SIZE_4K * KERNEL_STACK_PAGE_AMOUNT) s))))))))))))))"

end
