(* ===== verification/Boot_Spec.thy ===== *)
theory Boot_Spec
  imports Boot Sched_Spec
begin

text \<open>
  The archive of the initial ram disk: reading an archive gives back the entries it was written
  from, whatever the length of the files.
\<close>

section \<open>Sizes\<close>

text \<open>The eleven octal digits of a size, the highest first, as the archive format has them.\<close>

definition octal :: "nat \<Rightarrow> u8 list" where
  "octal n = map (\<lambda>i. of_nat (48 + n div 8 ^ i mod 8)) (rev [0..<11])"

lemma octal_sum: "(\<Sum>i<k. n div 8 ^ i mod 8 * 8 ^ i) = n mod 8 ^ k" for n :: nat
proof (induction k)
  case (Suc k)
  have "n mod 8 ^ Suc k = 8 ^ k * (n div 8 ^ k mod 8) + n mod 8 ^ k" using mod_mult2_eq [of n "8 ^ k" 8] by (simp add: mult.commute)
  then show ?case using Suc by (simp add: mult.commute)
qed simp

lemma size_fold:
  "fold (\<lambda>j (k, sz). (k * 8, sz + g j * k)) xs (k0, sz0) =
     (k0 * 8 ^ length xs, sz0 + k0 * (\<Sum>i<length xs. g (xs ! i) * 8 ^ i))" for g :: "nat \<Rightarrow> 'a::comm_semiring_1"
proof (induction xs rule: rev_induct)
  case (snoc x xs)
  have "(\<Sum>i<length xs. g ((xs @ [x]) ! i) * 8 ^ i) = (\<Sum>i<length xs. g (xs ! i) * 8 ^ i)"
    by (rule sum.cong) (simp_all add: nth_append)
  then show ?case using snoc by (simp add: algebra_simps)
qed simp

lemma tar_digit_octal:
  assumes "i < 11" "\<forall>j < 11. m (a + of_nat j) = octal n ! j"
  shows "tar_digit m (a + of_nat (10 - i)) = of_nat (n div 8 ^ i mod 8)"
proof -
  define d where "d = n div 8 ^ i mod 8"
  have d: "d < 8" by (simp add: d_def)
  have "rev [0..<11] ! (10 - i) = i" using assms(1) by (subst rev_nth) auto
  then have "octal n ! (10 - i) = of_nat (48 + d)" unfolding octal_def d_def by (subst nth_map) simp_all
  moreover have "10 - i < 11" by simp
  ultimately have "m (a + of_nat (10 - i)) = of_nat (48 + d)" using assms(2) by metis
  moreover have "(scast (of_nat (48 + d) :: u8) :: u32) = of_nat (48 + d)"
  proof -
    have "d = 0 \<or> d = 1 \<or> d = 2 \<or> d = 3 \<or> d = 4 \<or> d = 5 \<or> d = 6 \<or> d = 7" using d by auto
    then show ?thesis by auto
  qed
  ultimately show ?thesis by (simp add: tar_digit_def flip: d_def)
qed

lemma get_tar_size_octal:
  assumes "\<forall>j < 11. m (a + of_nat j) = octal n ! j" "n < 8 ^ 11"
  shows "get_tar_size m a = of_nat n"
proof -
  let ?g = "\<lambda>j. tar_digit m (a + of_nat (j - 1))"
  have "get_tar_size m a = (\<Sum>i<11. ?g (rev [1..<12] ! i) * 8 ^ i)"
    unfolding get_tar_size_def size_fold by simp
  also have "\<dots> = (\<Sum>i<11. of_nat (n div 8 ^ i mod 8 * 8 ^ i))"
  proof (rule sum.cong)
    fix i :: nat assume "i \<in> {..<11}"
    then have "i < 11" by simp
    moreover from this have "rev [1..<12] ! i - 1 = 10 - i" by (subst rev_nth) auto
    ultimately show "?g (rev [1..<12] ! i) * 8 ^ i = of_nat (n div 8 ^ i mod 8 * 8 ^ i)"
      using tar_digit_octal [OF _ assms(1), of i] by (simp only:) simp
  qed simp
  also have "\<dots> = of_nat n" using octal_sum [of n 11] assms(2) by (simp only: of_nat_sum [symmetric] mod_less)
  finally show ?thesis .
qed

section \<open>Archives\<close>

text \<open>
  The archive with files of the given sizes: a header with a name and the size, the contents
  filled up to whole blocks of 512 bytes, and at the end a header without a name.
\<close>

definition entry_blocks :: "nat \<Rightarrow> nat" where
  "entry_blocks n = 1 + (n + 511) div 512"

fun tar_at :: "mem \<Rightarrow> u64 \<Rightarrow> nat list \<Rightarrow> bool" where
  "tar_at m a [] \<longleftrightarrow> m a = 0"
| "tar_at m a (n # ns) \<longleftrightarrow> m a \<noteq> 0 \<and> n + 511 < 2 ^ 32 \<and> (\<forall>j < 11. m (a + 124 + of_nat j) = octal n ! j) \<and>
     tar_at m (a + of_nat (512 * entry_blocks n)) ns"

primrec entry_starts :: "u64 \<Rightarrow> nat list \<Rightarrow> u64 list" where
  "entry_starts a [] = []"
| "entry_starts a (n # ns) = a # entry_starts (a + of_nat (512 * entry_blocks n)) ns"

lemma length_entry_starts [simp]: "length (entry_starts a ns) = length ns"
  by (induction ns arbitrary: a) simp_all

lemma next_header_entry:
  assumes "tar_at m a (n # ns)"
  shows "next_header m a = a + of_nat (512 * entry_blocks n)"
proof -
  have n: "n + 511 < 2 ^ 32" using assms by simp
  then have "get_tar_size m (a + 124) = of_nat n" using assms by (intro get_tar_size_octal) simp_all
  then have size: "tar_size m a = of_nat n" by (simp add: tar_size_def)
  define k where "k = (n + 511) div 512"
  have k: "k * 512 \<le> n + 511" by (simp add: k_def)
  have "unat (of_nat n + 511 :: u32) = n + 511" using n by (simp add: unat_word_ariths unat_of_nat)
  then have "unat ((of_nat n + 511 :: u32) div 512) = k" by (simp add: unat_div k_def)
  then have "(of_nat n + 511 :: u32) div 512 = of_nat k" by (metis of_nat_unat ucast_id)
  then have round: "(of_nat n + 511 :: u32) div 512 * 512 = of_nat (k * 512)" by simp
  have "k * 512 < 2 ^ 32" using k n by (rule le_less_trans)
  moreover have "(ucast (of_nat x :: u32) :: u64) = of_nat x" if "x < 2 ^ 32" for x
    using that by (simp add: word_unat_eq_iff unsigned_ucast_eq unsigned_of_nat take_bit_nat_eq_self)
  ultimately have "(ucast (of_nat (k * 512) :: u32) :: u64) = of_nat (k * 512)" by blast
  then show ?thesis by (simp add: next_header_def size round entry_blocks_def flip: k_def)
qed

lemma count_tar_entries_at: "tar_at m a ns \<Longrightarrow> count_tar_entries m a k = Some (k + int (length ns))"
proof (induction ns arbitrary: a k)
  case Nil
  then show ?case by (subst count_tar_entries.simps) simp
next
  case (Cons n ns)
  then show ?case using next_header_entry [OF Cons.prems] by (subst count_tar_entries.simps) simp
qed

lemma tar_headers_at: "tar_at m a ns \<Longrightarrow> tar_headers m (length ns) a = entry_starts a ns"
proof (induction ns arbitrary: a)
  case (Cons n ns)
  then show ?case using next_header_entry [OF Cons.prems] by simp
qed simp


text \<open>An archive with one file of 600 bytes.\<close>

definition demo_archive :: mem where
  "demo_archive x = (if x = 0x1000 then 65 else if x - 0x107C < 11 then octal 600 ! unat (x - 0x107C) else 0)"

definition demo_boot :: boot where
  "demo_boot = sched.extend (demo_sched\<lparr>kmem := demo_archive, answers := [0x9000], heap_lock := 0, objs := Map.empty\<rparr>) (boot.fields 0 0 0 0 0)"

lemma demo_boot_sel: "kmem demo_boot = demo_archive" "answers demo_boot = [0x9000]" "heap_lock demo_boot = 0" "objs demo_boot = Map.empty"
  by (simp_all add: demo_boot_def sched.defs boot.defs)

lemma demo_archive_at: "tar_at demo_archive 0x1000 [600]"
proof -
  have "demo_archive (0x1000 + 124 + of_nat j) = octal 600 ! j" if "j < 11" for j
  proof -
    have j: "unat (of_nat j :: u64) = j" using that by (intro unat_of_nat_u64) simp
    then have less: "(of_nat j :: u64) < 11" using that by (simp add: word_less_nat_alt)
    have eq: "0x1000 + 124 + of_nat j - 0x107C = (of_nat j :: u64)" by simp
    have "unat (of_nat (4220 + j) :: u64) = 4220 + j" using that by (intro unat_of_nat_u64) simp
    then have "0x1000 + 124 + of_nat j \<noteq> (0x1000 :: u64)" by (auto simp: word_unat_eq_iff simp del: of_nat_add) simp
    then show ?thesis using less j unfolding demo_archive_def eq by simp
  qed
  then show ?thesis by (simp add: entry_blocks_def) (simp add: demo_archive_def)
qed


end
