(* ===== verification/Shell.thy ===== *)
theory Shell
  imports CString
begin

text \<open>
  The shell of the initial ram disk, \<open>_initrd/shell.c\<close>: the line it reads from the keyboard and
  the command it makes of a line. Input is the list of characters that \<open>read\<close> returns one by
  one; at its end \<open>read\<close> fails.
\<close>

definition LINE_MAX_LEN :: nat where "LINE_MAX_LEN = 256"
definition MAX_ARGS :: nat where "MAX_ARGS = 128"

section \<open>Reading a line\<close>

definition is_newline :: "char \<Rightarrow> bool" where
  "is_newline c \<longleftrightarrow> c = CHR 0x0A \<or> c = CHR 0x0D"

definition is_erase :: "char \<Rightarrow> bool" where
  "is_erase c \<longleftrightarrow> c = CHR 0x08 \<or> c = CHR 0x7F"

text \<open>
  \<open>buf\<close> is what the array holds before \<open>pos\<close> and \<open>out\<close> what was written to the terminal. The
  result is the line, or \<open>None\<close> for \<open>-1\<close>, with the output and the rest of the input.
\<close>

fun read_line :: "nat \<Rightarrow> string \<Rightarrow> string \<Rightarrow> string \<Rightarrow> string option \<times> string \<times> string" where
  "read_line sz [] buf out =
     (if length buf < sz - 1 \<and> buf = [] then (None, out, []) else (Some buf, out, []))"
| "read_line sz (c # cs) buf out =
     (if length buf < sz - 1 then
        (if is_newline c then (Some buf, out @ [CHR 0x0A], cs)
         else if is_erase c then
           (if buf \<noteq> [] then read_line sz cs (butlast buf) (out @ [CHR 0x08, CHR '' '', CHR 0x08])
            else read_line sz cs buf out)
         else read_line sz cs (buf @ [c]) (out @ [c]))
      else (Some buf, out, c # cs))"

section \<open>Commands\<close>

definition is_blank :: "char \<Rightarrow> bool" where
  "is_blank c \<longleftrightarrow> c = CHR '' '' \<or> c = CHR 0x09"

definition split_args :: "string \<Rightarrow> string list" where
  "split_args line = take (MAX_ARGS - 1) (tokens is_blank line)"

datatype command = Nothing | Cd "string option" | Ls "string list" | Cat "string list" | Clear | Exit "string option"
  | Run string "string list"

definition opt_arg :: "string list \<Rightarrow> string option" where
  "opt_arg args = (case args of a # b # rest \<Rightarrow> Some b | _ \<Rightarrow> None)"

definition command_of :: "string list \<Rightarrow> command" where
  "command_of args =
     (case args of [] \<Rightarrow> Nothing
      | cmd # rest \<Rightarrow>
          if cmd = ''cd'' then Cd (opt_arg args)
          else if cmd = ''ls'' then Ls args
          else if cmd = ''cat'' then Cat args
          else if cmd = ''clear'' then Clear
          else if cmd = ''exit'' then Exit (opt_arg args)
          else Run cmd args)"

section \<open>The edited line\<close>

text \<open>What the keys of a line leave on the screen: an erase key takes back the last character.\<close>

primrec edited :: "string \<Rightarrow> string \<Rightarrow> string" where
  "edited [] buf = buf"
| "edited (c # cs) buf = edited cs (if is_erase c then butlast buf else buf @ [c])"

definition fits_line :: "nat \<Rightarrow> string \<Rightarrow> string \<Rightarrow> bool" where
  "fits_line sz buf keys \<longleftrightarrow> (\<forall>n \<le> length keys. length (edited (take n keys) buf) < sz - 1)"

lemma fits_line_Cons:
  "fits_line sz buf (c # keys) \<longleftrightarrow>
     length buf < sz - 1 \<and> fits_line sz (if is_erase c then butlast buf else buf @ [c]) keys"
proof -
  have "(\<forall>n \<le> Suc (length keys). P n) \<longleftrightarrow> P 0 \<and> (\<forall>n \<le> length keys. P (Suc n))" for P :: "nat \<Rightarrow> bool"
    by (metis Suc_le_mono le0 not0_implies_Suc)
  from this [of "\<lambda>n. length (edited (take n (c # keys)) buf) < sz - 1"]
  show ?thesis by (simp add: fits_line_def)
qed

lemma read_line_edits:
  "fits_line sz buf keys \<Longrightarrow> \<forall>c \<in> set keys. \<not> is_newline c \<Longrightarrow> is_newline nl \<Longrightarrow>
     \<exists>out'. read_line sz (keys @ nl # rest) buf out = (Some (edited keys buf), out', rest)"
proof (induction keys arbitrary: buf out)
  case Nil
  then show ?case by (simp add: fits_line_def)
next
  case (Cons c keys)
  then show ?case by (auto simp: fits_line_Cons)
qed

text \<open>The line always fits into the array, with its terminator.\<close>

lemma read_line_fits:
  "length buf < sz \<Longrightarrow> read_line sz cs buf out = (Some line, out', rest) \<Longrightarrow> length line < sz"
  by (induction sz cs buf out rule: read_line.induct) (auto split: if_splits)

text \<open>
  C35. A line of keys and a newline gives the text the user sees: each erase key has taken back
  the last character that was left, and at the start of the line does nothing. The keys
  after the newline stay for the next call. It holds as long as the text never fills the
  array, and the result then has room for its terminator.
\<close>

theorem read_line_gives_edited_line:
  assumes "fits_line sz [] keys" "\<forall>c \<in> set keys. \<not> is_newline c" "is_newline nl"
  shows "\<exists>out. read_line sz (keys @ nl # rest) [] [] = (Some (edited keys []), out, rest) \<and> length (edited keys []) < sz"
proof -
  have "0 < sz" using assms(1) by (cases sz) (auto simp: fits_line_def)
  then show ?thesis
    using read_line_edits [OF assms, of rest "[]"] read_line_fits [of "[]" sz "keys @ nl # rest" "[]"] by fastforce
qed

theorem read_line_gives_edited_line_witness:
  "\<exists>out. read_line 256 (''lx'' @ [CHR 0x7F] @ ''s'' @ CHR 0x0A # ''cd'') [] [] = (Some ''ls'', out, ''cd'')"
proof -
  let ?keys = "''lx'' @ [CHR 0x7F] @ ''s''"
  have "fits_line 256 [] ?keys" by (simp add: fits_line_Cons is_erase_def) (simp add: fits_line_def)
  moreover have "\<forall>c \<in> set ?keys. \<not> is_newline c" "is_newline (CHR 0x0A)" by (simp_all add: is_newline_def)
  ultimately show ?thesis
    using read_line_gives_edited_line [of 256 ?keys "CHR 0x0A" "''cd''"] by (simp add: is_erase_def)
qed

end
