(* ===== verification/Spec2Isabelle.thy ===== *)
theory Spec2Isabelle
  imports Pmm_Spec Heap_Spec Vm_Spec Fs_Spec Helpers Hw_Spec Logger_Spec Kbd_Spec Sched_Spec Proc_Spec Syscall_Spec Brk_Spec Boot_Spec Shell
begin

text \<open>
  \<^bold>\<open>A verification development for the CreeperOS kernel.\<close>

  CreeperOS is a 64-bit kernel in C: a physical page allocator, four-level page tables and a
  heap below; a virtual file system with ram files and device files, drivers and a log in
  the middle; a scheduler, a program loader, \<open>fork\<close>, \<open>execve\<close> and the system calls on top; a
  start-up sequence and a small shell. All paths below are under \<open>src/\<close>, and paths that
  start with \<open>kernel/\<close> mean \<open>src/kernel/\<close>.

  \<^bold>\<open>How the C code is translated.\<close> The state of the kernel is one record that grows from theory to
  theory, each component adding its global variables:
  \<open>cpu\<close>, \<open>pmm\<close>, \<open>kvma\<close>, \<open>paging\<close>, \<open>heap\<close>, \<open>kobj\<close>, \<open>hw\<close>, \<open>timers\<close>, \<open>logger\<close>, \<open>kbd\<close>, \<open>devs\<close>, \<open>sched\<close>, \<open>boot\<close>.
  A C function is a HOL function of the same name that takes the state and returns
  \<open>Ok\<close> of its result and the new state, or \<open>Stop\<close> of the way the machine stops: a panic, a
  deadlock on a lock that is held, a wild pointer, a wrong \<open>kfree\<close>, an access outside an array,
  or a loop that never ends (theory \<open>Prelude\<close>). Integers keep their width as words. Physical memory
  and the kernel's byte memory are functions from addresses to bytes; structures the kernel
  allocates are typed objects at their addresses (theory \<open>Kobj\<close>), their intrusive lists heaps of links
  (theory \<open>Hlist\<close>). A statement about a list or a tree goes through an abstraction: \<open>hl_abs\<close>,
  \<open>kvma_rep\<close>, \<open>dir_tree\<close>, \<open>vm_tree\<close>, \<open>kbd_items\<close>, \<open>run_queue\<close>.

  \<^bold>\<open>Theories and the code they model.\<close>
  \<^item> \<open>Prelude\<close>, \<open>Memops\<close>, \<open>Locks\<close>: outcomes and words; \<open>kernel/src/memops.c\<close>; \<open>kernel/src/arch/locks.h\<close>.
  \<^item> \<open>Pmm\<close>, \<open>Pmm_Init\<close>, \<open>Pmm_Spec\<close>: the page allocator \<open>kernel/src/memory/pmm.c\<close>.
  \<^item> \<open>Kvma\<close>, \<open>Kvma_Refine\<close>, \<open>Paging\<close>, \<open>Paging_Facts\<close>, \<open>Paging_Map\<close>, \<open>Vm_Spec\<close>: the address allocator and the page
    tables of \<open>kernel/src/arch/x86_64/mm/vmm.c\<close>.
  \<^item> \<open>Heap\<close>, \<open>Heap_Facts\<close>, \<open>Heap_Alloc\<close>, \<open>Heap_Spec\<close>: the heap \<open>kernel/src/memory/memory.c\<close>.
  \<^item> \<open>CString\<close>, \<open>Hlist\<close>, \<open>Helpers\<close>, \<open>Format\<close>, \<open>Id_Pool\<close>: \<open>string/string.c\<close>, \<open>defines/lists.h\<close>, \<open>defines/helpers.c\<close>,
    \<open>string/format.c\<close>, and the interface of the number pools.
  \<^item> \<open>Kobj\<close>, \<open>Vfs\<close>, \<open>Fs\<close>, \<open>Fs_Facts\<close>, \<open>Fs_Path\<close>, \<open>Fs_Spec\<close>: \<open>vfs/vfs.c\<close>, \<open>vfs/fs.c\<close>, \<open>vfs/ramfile.c\<close>.
  \<^item> \<open>Hw\<close>, \<open>Timer\<close>, \<open>Rtc\<close>, \<open>Pci\<close>, \<open>Hw_Spec\<close>: ports, descriptor tables and interrupt controllers, the
    timers, the clock and the PCI bus.
  \<^item> \<open>Logger\<close>, \<open>Logger_Spec\<close>: the message ring and the logger thread of \<open>debug/Logger.c\<close>.
  \<^item> \<open>Kbd\<close>, \<open>Kbd_Spec\<close>, \<open>Devfs\<close>, \<open>Devices\<close>: the keyboard, \<open>/dev\<close>, the device registries and \<open>/sys\<close>.
  \<^item> \<open>Sched\<close>, \<open>Sched_Spec\<close>, \<open>Proc\<close>, \<open>Proc_Spec\<close>: scheduling, exit and reaping, creation of processes and
    threads (\<open>scheduler/scheduler.c\<close>).
  \<^item> \<open>Exec\<close>: \<open>executable/elf/elf.c\<close>, \<open>execve.c\<close>, \<open>fork.c\<close>.
  \<^item> \<open>Syscall\<close>, \<open>Syscall_Spec\<close>, \<open>Brk_Spec\<close>: every system call of \<open>syscalls/syscall.c\<close> and the dispatcher.
  \<^item> \<open>Boot\<close>, \<open>Boot_Spec\<close>: exceptions (\<open>debug/panic.c\<close>), driver tables, the ram disk (\<open>initrd_parse/initrd.c\<close>),
    \<open>arch_init\<close> and \<open>kmain\<close>.
  \<^item> \<open>Shell\<close>: the line input and the command choice of \<open>_initrd/shell.c\<close>.

  \<^bold>\<open>Interfaces.\<close> Six contracts are locales, each interpreted on the definitions of the code:
  \<open>frame_allocator\<close> (the page allocator), \<open>range_allocator\<close> (kernel addresses), \<open>block_allocator\<close> (the heap),
  \<open>id_pool\<close> (interrupt vectors and thread numbers), \<open>bounded_queue\<close> (the keyboard ring), \<open>fd_table\<close> (the
  descriptor table of a process). \<open>log_frame\<close> collects what logging leaves alone.

  \<^bold>\<open>What is shown.\<close>
  \<^item> Pages: allocation takes the first free page in search order, never the same one twice,
    and freeing undoes it; runs of pages; what initialisation establishes.
  \<^item> Address spaces: mapping and unmapping change the translation of one page and keep the
    tables a tree; the search for user pages is first fit; the pointer code for kernel
    addresses refines first fit and merging on a list.
  \<^item> Heap: blocks are aligned, disjoint and taken from the free bytes; \<open>kfree\<close> returns exactly
    the block; the truncation of large requests and the deadlock of \<open>krealloc_impl\<close>.
  \<^item> Files: a path lookup is a walk over the directory tree; creating a path and looking it up;
    the printed path of an entry leads back to it; removal and contents of ram files.
  \<^item> Devices: the log under every interleaving of its callers with the logger thread, the
    keyboard ring, the calendar of the clock.
  \<^item> Processes: round-robin choice, the context of a thread over two switches, the end of a
    process, fresh thread numbers and the kinds of the identifier table.
  \<^item> Programs and calls: the arguments on a new stack, \<open>dup\<close> and \<open>close\<close>, the permission check of
    \<open>access\<close>, growth of the heap by \<open>brk\<close> through the page allocator and the page tables, the loss
    of descriptors in \<open>execve\<close>, \<open>mprotect\<close> without effect.
  \<^item> Start-up and shell: reading the archive it was written from; the edited input line.

  Further theorems beside these (initialisation with a hole in memory, a run that straddles the
  search position, timer identifiers, interrupt handlers, growth of a ram file, the NULL
  operations of a directory) record behaviour on special inputs.

  \<^bold>\<open>Loops.\<close> A loop over a counter is structural or has a termination proof. A loop that may
  run for ever is a \<open>partial_function\<close> whose value \<open>None\<close> means that it does, and the theorems about it
  prove that it returns. A few loops carry fuel. Those of the address allocator follow a list of
  at most 512 nodes and have one step for each; \<open>uvma_search\<close> has \<open>2 ^ 52\<close> steps, one for every page
  number, and the theorem proves that the search ends with a result; \<open>extend_all\<close> adds at least one
  of the regions a step and has one step more than there are regions; the two loops of
  \<open>force_alloc\<close> have enough steps for every page of the block and for twice the largest number of
  regions. A spin lock that is held is never released on one processor: \<open>spin_loop_stuck\<close> shows that no
  number of steps takes it, and taking it is a \<open>Deadlock\<close>.

  \<^bold>\<open>Parameters.\<close> What the sources do not determine is an argument or part of the state: the
  answers of devices and ports, the addresses the heap returns to the upper half of the kernel
  (any list of fresh addresses, which is the contract \<open>Heap_Spec\<close> proves), the contents of uninitialised
  memory, the decoded firmware tables, the \<open>cpuid\<close> instruction, what other threads do while one
  waits, the value of a function that ends without \<open>return\<close>.

  \<^bold>\<open>Not modelled.\<close> Assembly stubs, which only move registers; the printf library, so messages
  that print pointers are left out and other texts are passed in formatted; the terminal
  emulator and the C library, which are third-party; the text of the panic report and the
  process dumps, which only print; the framebuffer set-up of \<open>_kstart\<close> and the demonstration loop in
  \<open>main.c\<close>; \<open>list_dir\<close> and \<open>cat_file\<close> of the shell, which are calls of the C library. The model has one
  processor, and interrupts appear where the code waits for them or where an interleaving is
  the subject of a theorem. Permission bits of a mapping are stored but not enforced.
\<close>

end
